(* ===== verification/Rust_Prelude.thy ===== *)
theory Rust_Prelude
  imports Main "HOL-Library.AList" "HOL-Library.Signed_Division" "HOL-Library.Code_Target_Nat"
begin

text \<open>
  The fragment of Rust and of its standard library that the compiler's components share:
  64-bit signed arithmetic with its panics, results with early return, byte strings (\<open>String\<close>
  as the list of its UTF-8 bytes), decimal printing and parsing, and the association lists that
  stand for \<open>HashMap\<close>. A Rust \<open>u8\<close> is an Isabelle \<open>char\<close> (eight bits), an \<open>i64\<close> is an \<open>int\<close>
  with the width written out (\<open>in_i64\<close>, \<open>wrap_i64\<close>), an \<open>i128\<close> intermediate is an exact \<open>int\<close>
  (the sums and products of two \<open>i64\<close> values fit it).
\<close>

unbundle bit_operations_syntax

named_theorems res_simps \<open>unfolding and splitting results with early return\<close>
named_theorems dom_intros \<open>membership in abstract domains\<close>

section \<open>64-bit integers\<close>

abbreviation i64_MIN :: int where
  "i64_MIN \<equiv> - 9223372036854775808"

abbreviation i64_MAX :: int where
  "i64_MAX \<equiv> 9223372036854775807"

definition in_i64 :: "int \<Rightarrow> bool" where
  "in_i64 n \<longleftrightarrow> i64_MIN \<le> n \<and> n \<le> i64_MAX"

definition wrap_i64 :: "int \<Rightarrow> int" where
  "wrap_i64 n = signed_take_bit 63 n"

datatype panic = ArithmeticOverflow | DivideByZero

text \<open>
  \<open>+\<close>, \<open>-\<close>, \<open>*\<close> and unary \<open>-\<close> on \<open>i64\<close>: a build with overflow checks (\<open>chk\<close>) panics where the
  exact result does not fit, a build without them wraps. Division by zero and \<open>MIN / -1\<close> panic in
  every build.
\<close>

definition i64_fit :: "bool \<Rightarrow> int \<Rightarrow> panic + int" where
  "i64_fit chk n =
     (if in_i64 n then Inr n else if chk then Inl ArithmeticOverflow else Inr (wrap_i64 n))"

definition i64_div :: "int \<Rightarrow> int \<Rightarrow> panic + int" where
  "i64_div a b =
     (if b = 0 then Inl DivideByZero
      else if a = i64_MIN \<and> b = -1 then Inl ArithmeticOverflow else Inr (a sdiv b))"

definition i64_rem :: "int \<Rightarrow> int \<Rightarrow> panic + int" where
  "i64_rem a b =
     (if b = 0 then Inl DivideByZero
      else if a = i64_MIN \<and> b = -1 then Inl ArithmeticOverflow else Inr (a smod b))"

definition wrapping_abs :: "int \<Rightarrow> int" where
  "wrapping_abs n = wrap_i64 \<bar>n\<bar>"

definition checked_neg :: "int \<Rightarrow> int option" where
  "checked_neg n = (if n = i64_MIN then None else Some (- n))"

definition checked_abs :: "int \<Rightarrow> int option" where
  "checked_abs n = (if n = i64_MIN then None else Some \<bar>n\<bar>)"

definition checked_rem :: "int \<Rightarrow> int \<Rightarrow> int option" where
  "checked_rem a b = (if b = 0 \<or> (a = i64_MIN \<and> b = -1) then None else Some (a smod b))"

text \<open>
  \<open>i64::wrapping_shl\<close> and the logical right shift through \<open>u64\<close>: the count is reduced modulo 64.
\<close>

definition i64_shl :: "int \<Rightarrow> int \<Rightarrow> int" where
  "i64_shl a n = wrap_i64 (push_bit (nat (n mod 64)) a)"

definition u64_shr :: "int \<Rightarrow> int \<Rightarrow> int" where
  "u64_shr a n = wrap_i64 (drop_bit (nat (n mod 64)) (take_bit 64 a))"

lemma in_i64_wrap [simp]: "in_i64 (wrap_i64 n)"
  using signed_take_bit_int_less_exp [of 63 n] signed_take_bit_int_greater_eq_minus_exp [of 63 n]
  by (simp add: in_i64_def wrap_i64_def)

lemma wrap_i64_id [simp]: "in_i64 n \<Longrightarrow> wrap_i64 n = n"
  by (simp add: in_i64_def wrap_i64_def signed_take_bit_int_eq_self)

lemma i64_fit_in [simp]: "in_i64 n \<Longrightarrow> i64_fit chk n = Inr n"
  by (simp add: i64_fit_def)

lemma i64_fit_range: "i64_fit chk n = Inr m \<Longrightarrow> in_i64 m"
  by (auto simp: i64_fit_def split: if_splits)

lemma in_i64_convex: "in_i64 a \<Longrightarrow> in_i64 b \<Longrightarrow> a \<le> x \<Longrightarrow> x \<le> b \<Longrightarrow> in_i64 x"
  by (simp add: in_i64_def)

lemma in_i64_min_max [simp]:
  "in_i64 a \<Longrightarrow> in_i64 b \<Longrightarrow> in_i64 (min a b)"
  "in_i64 a \<Longrightarrow> in_i64 b \<Longrightarrow> in_i64 (max a b)"
  by (auto simp: min_def max_def)

lemma in_i64_shifts: "in_i64 (i64_shl a n)" "in_i64 (u64_shr a n)"
  by (simp_all add: i64_shl_def u64_shr_def)

subsection \<open>Truncating division\<close>

lemma sdiv_pos: "0 \<le> (a :: int) \<Longrightarrow> 0 < b \<Longrightarrow> a sdiv b = a div b"
  by (auto simp: signed_divide_int_def sgn_if)

lemma sdiv_nonneg: "0 \<le> (a :: int) \<Longrightarrow> 0 < b \<Longrightarrow> 0 \<le> a sdiv b"
  by (simp add: sdiv_pos pos_imp_zdiv_nonneg_iff)

lemma sdiv_mono:
  assumes b: "0 < (b :: int)" and le: "a \<le> a'"
  shows "a sdiv b \<le> a' sdiv b"
proof -
  consider "0 \<le> a" | "a' \<le> 0" | "a < 0" "0 < a'" by linarith
  then show ?thesis
  proof cases
    case 1
    with b le show ?thesis by (simp add: sdiv_pos zdiv_mono1)
  next
    case 2
    with b le have "(- a') div b \<le> (- a) div b" by (intro zdiv_mono1) auto
    moreover have "(- a') sdiv b = (- a') div b" "(- a) sdiv b = (- a) div b"
      using b le 2 by (simp_all add: sdiv_pos del: minus_sdiv_eq)
    ultimately show ?thesis by simp
  next
    case 3
    with b have "0 \<le> a' sdiv b" "0 \<le> (- a) sdiv b" by (simp_all add: sdiv_nonneg del: minus_sdiv_eq)
    then show ?thesis by simp
  qed
qed

lemma sdiv_anti_divisor:
  assumes "0 \<le> (a :: int)" "0 < b" "b \<le> b'"
  shows "a sdiv b' \<le> a sdiv b"
  using assms by (simp add: sdiv_pos zdiv_mono2)

lemma abs_smod_le: "\<bar>(a :: int) smod b\<bar> \<le> \<bar>a\<bar>"
proof -
  have "0 \<le> \<bar>a\<bar> mod \<bar>b\<bar> \<and> \<bar>a\<bar> mod \<bar>b\<bar> \<le> \<bar>a\<bar>"
    by (cases "b = 0") (simp_all add: zmod_le_nonneg_dividend)
  then show ?thesis by (auto simp: signed_modulo_int_def abs_mult sgn_if)
qed

lemma smod_sign:
  fixes a b :: int
  shows "0 \<le> a \<Longrightarrow> 0 \<le> a smod b" "a \<le> 0 \<Longrightarrow> a smod b \<le> 0"
proof -
  have "0 \<le> \<bar>a\<bar> mod \<bar>b\<bar>" by (cases "b = 0") simp_all
  then show "0 \<le> a \<Longrightarrow> 0 \<le> a smod b" "a \<le> 0 \<Longrightarrow> a smod b \<le> 0"
    by (auto simp: signed_modulo_int_def sgn_if)
qed

section \<open>Results with early return\<close>

text \<open>
  \<open>rbind\<close> is the \<open>?\<close> operator on a plain \<open>Result\<close>; \<open>ebind\<close> threads a state that is lost with an
  error (nothing reads it after one); \<open>cbind\<close> threads a state that survives an error, as \<open>&mut self\<close> does.
\<close>

definition rbind :: "'e + 'a \<Rightarrow> ('a \<Rightarrow> 'e + 'b) \<Rightarrow> 'e + 'b" where
  "rbind r f = (case r of Inl e \<Rightarrow> Inl e | Inr a \<Rightarrow> f a)"

definition rmap_err :: "('e \<Rightarrow> 'f) \<Rightarrow> 'e + 'a \<Rightarrow> 'f + 'a" where
  "rmap_err g r = (case r of Inl e \<Rightarrow> Inl (g e) | Inr a \<Rightarrow> Inr a)"

definition ebind :: "('w \<Rightarrow> 'e + 'a \<times> 'w) \<Rightarrow> ('a \<Rightarrow> 'w \<Rightarrow> 'e + 'b \<times> 'w) \<Rightarrow> 'w \<Rightarrow> 'e + 'b \<times> 'w" where
  "ebind m f w = (case m w of Inl e \<Rightarrow> Inl e | Inr (a, w') \<Rightarrow> f a w')"

definition cbind :: "('s \<Rightarrow> ('e + 'a) \<times> 's) \<Rightarrow> ('a \<Rightarrow> 's \<Rightarrow> ('e + 'b) \<times> 's) \<Rightarrow> 's \<Rightarrow> ('e + 'b) \<times> 's" where
  "cbind m f s = (case m s of (Inl e, s') \<Rightarrow> (Inl e, s') | (Inr a, s') \<Rightarrow> f a s')"

fun rmapM :: "('a \<Rightarrow> 'e + 'b) \<Rightarrow> 'a list \<Rightarrow> 'e + 'b list" where
  "rmapM f [] = Inr []"
| "rmapM f (x # xs) = rbind (f x) (\<lambda>y. rbind (rmapM f xs) (\<lambda>ys. Inr (y # ys)))"

fun emapM :: "('a \<Rightarrow> 'w \<Rightarrow> 'e + 'b \<times> 'w) \<Rightarrow> 'a list \<Rightarrow> 'w \<Rightarrow> 'e + 'b list \<times> 'w" where
  "emapM f [] = (\<lambda>w. Inr ([], w))"
| "emapM f (x # xs) = ebind (f x) (\<lambda>y. ebind (emapM f xs) (\<lambda>ys w. Inr (y # ys, w)))"

lemma rbind_Inr [simp]: "rbind (Inr a) f = f a"
  by (simp add: rbind_def)

lemma rbind_Inl [simp]: "rbind (Inl e) f = Inl e"
  by (simp add: rbind_def)

lemma rbind_eq_Inr: "rbind r f = Inr b \<longleftrightarrow> (\<exists>a. r = Inr a \<and> f a = Inr b)"
  by (cases r) auto

lemma rmap_err_eq_Inr [simp]: "rmap_err g r = Inr a \<longleftrightarrow> r = Inr a"
  by (cases r) (auto simp: rmap_err_def)

lemma ebind_Inr: "m w = Inr (a, w') \<Longrightarrow> ebind m f w = f a w'"
  by (simp add: ebind_def)

lemma ebind_eq_Inr:
  "ebind m f w = Inr r \<longleftrightarrow> (\<exists>a w'. m w = Inr (a, w') \<and> f a w' = Inr r)"
  by (auto simp: ebind_def split: sum.splits)

lemma cbind_eq_Inr:
  "cbind m f s = (Inr b, t) \<longleftrightarrow> (\<exists>a s'. m s = (Inr a, s') \<and> f a s' = (Inr b, t))"
  by (auto simp: cbind_def split: sum.splits prod.splits)

lemma emapM_cong [fundef_cong]:
  "\<lbrakk>xs = ys; \<And>x. x \<in> set ys \<Longrightarrow> f x = g x\<rbrakk> \<Longrightarrow> emapM f xs = emapM g ys"
proof (induction xs arbitrary: ys)
  case (Cons x xs)
  have "f x = g x" using Cons.prems by auto
  moreover have "emapM f xs = emapM g xs" by (rule Cons.IH) (use Cons.prems in auto)
  ultimately show ?case using Cons.prems(1) by auto
qed simp

lemma rmapM_cong [fundef_cong]:
  "\<lbrakk>xs = ys; \<And>x. x \<in> set ys \<Longrightarrow> f x = g x\<rbrakk> \<Longrightarrow> rmapM f xs = rmapM g ys"
proof (induction xs arbitrary: ys)
  case (Cons x xs)
  have "f x = g x" using Cons.prems by auto
  moreover have "rmapM f xs = rmapM g xs" by (rule Cons.IH) (use Cons.prems in auto)
  ultimately show ?case using Cons.prems(1) by (auto simp: rbind_def split: sum.splits)
qed simp

lemmas [res_simps] = rbind_eq_Inr ebind_eq_Inr cbind_eq_Inr

lemma find_SomeD: "find P xs = Some x \<Longrightarrow> x \<in> set xs \<and> P x"
  by (induction xs) (auto split: if_splits)

lemma find_None: "find P xs = None \<longleftrightarrow> (\<forall>x \<in> set xs. \<not> P x)"
  by (induction xs) auto

lemma find_distinct:
  "distinct (map f xs) \<Longrightarrow> x \<in> set xs \<Longrightarrow> find (\<lambda>y. f y = f x) xs = Some x"
  by (induction xs) auto

section \<open>Byte strings\<close>

type_synonym byte = char

abbreviation code :: "byte \<Rightarrow> nat" where
  "code \<equiv> of_char"

definition is_ascii_digit :: "byte \<Rightarrow> bool" where
  "is_ascii_digit c \<longleftrightarrow> 48 \<le> code c \<and> code c \<le> 57"

definition is_ascii_alphabetic :: "byte \<Rightarrow> bool" where
  "is_ascii_alphabetic c \<longleftrightarrow> (65 \<le> code c \<and> code c \<le> 90) \<or> (97 \<le> code c \<and> code c \<le> 122)"

definition is_ascii_alphanumeric :: "byte \<Rightarrow> bool" where
  "is_ascii_alphanumeric c \<longleftrightarrow> is_ascii_alphabetic c \<or> is_ascii_digit c"

text \<open>\<open>str::starts_with\<close>, \<open>ends_with\<close> and \<open>contains\<close> on bytes.\<close>

definition starts_with :: "'a list \<Rightarrow> 'a list \<Rightarrow> bool" where
  "starts_with hs ns \<longleftrightarrow> take (length ns) hs = ns"

definition ends_with :: "'a list \<Rightarrow> 'a list \<Rightarrow> bool" where
  "ends_with hs ns \<longleftrightarrow> length ns \<le> length hs \<and> drop (length hs - length ns) hs = ns"

fun str_contains :: "'a list \<Rightarrow> 'a list \<Rightarrow> bool" where
  "str_contains [] ns = (ns = [])"
| "str_contains (h # hs) ns = (starts_with (h # hs) ns \<or> str_contains hs ns)"

lemma starts_with_iff: "starts_with hs ns \<longleftrightarrow> (\<exists>t. hs = ns @ t)"
  by (auto simp: starts_with_def) (metis append_take_drop_id)

lemma ends_with_iff: "ends_with hs ns \<longleftrightarrow> (\<exists>t. hs = t @ ns)"
  by (auto simp: ends_with_def) (metis append_take_drop_id)

lemma str_contains_iff: "str_contains hs ns \<longleftrightarrow> (\<exists>a b. hs = a @ ns @ b)"
proof (induction hs)
  case (Cons h hs)
  have "(\<exists>a b. h # hs = a @ ns @ b) \<longleftrightarrow> (\<exists>b. h # hs = ns @ b) \<or> (\<exists>a b. hs = a @ ns @ b)"
    by (auto simp: Cons_eq_append_conv)
  with Cons show ?case by (simp add: starts_with_iff)
qed simp

end
