(* ===== verification/Ast.thy ===== *)
theory Ast
  imports Rust_Prelude
begin

text \<open>
  The abstract syntax of a Verbose program (\<open>src/src/ast.rs\<close>): one record per struct, one datatype
  per enum, in the source's order. Record fields carry a prefix (\<open>r_\<close> for \<open>Rule\<close>, \<open>c_\<close> for \<open>Concept\<close>,
  \<open>s_\<close> for \<open>Service\<close>, \<dots>) where Rust scopes them by type; \<open>Expr::X\<close> is \<open>EX\<close>, \<open>Type::X\<close> is \<open>TX\<close>,
  \<open>BinOp::X\<close> is \<open>OpX\<close>. \<open>u16\<close> and \<open>u32\<close> fields are \<open>nat\<close>, \<open>i64\<close> fields are \<open>int\<close>. The theory also holds the
  operations that \<open>ast.rs\<close> defines on these types: the layer order, the enumeration of concepts and
  the backstop checks of a service's transport, admission and pool settings.
\<close>

section \<open>Types, sources and proofs\<close>

datatype vtype =
    TNumber
  | TBoundsError
  | TBool
  | TText
  | TBytes
  | TCollection string
  | TNamed string
  | TResult vtype vtype

record version =
  major :: nat
  minor :: nat
  patch :: nat

record source_ref =
  src_file :: string
  src_line :: nat

record path =
  segments :: "string list"

record purity =
  reads :: "path list"
  calls_decl :: "path list"

record termination_decl =
  t_bound :: "int option"
  t_structural :: "string option"
  t_decreasing :: "string option"
  t_increasing :: "string option"

record proofs =
  pr_purity :: purity
  pr_termination :: termination_decl
  pr_native_stack :: "nat option"

datatype binop =
    OpAdd | OpSub | OpMul | OpDiv | OpMod
  | OpEq | OpNotEq | OpGt | OpLt | OpGtEq | OpLtEq
  | OpAnd | OpOr

datatype quantifier_kind = QAll | QAny

section \<open>Expressions\<close>

datatype 'e match_arm =
  MatchArm (arm_variant: string) (arm_binders: "string option list") (arm_body: 'e)

datatype (plugins only: size code) expr =
    ENumber int
  | EText string
  | EBytes "byte list"
  | EIdent string
  | EField expr string
  | EBinary binop expr expr
  | ECall string "expr list"
  | EIf expr expr expr
  | ENot expr
  | ENeg expr
  | EQuantifier quantifier_kind expr string expr
  | EFold expr expr string string expr
  | EMap expr string expr
  | EFilter expr string expr
  | EOk expr
  | EErr expr
  | EMatchResult expr string expr string expr
  | ERecord string "(string \<times> expr) list"
  | EConcat "expr list"
  | ERead string
  | EFetch string expr
  | ERandom string
  | EJsonEscape expr
  | EParseInt expr
  | ENowUnix
  | EStartsWith expr expr
  | ELength expr
  | EContains expr expr
  | EAbs expr
  | ELe32 expr
  | ELe64 expr
  | EEndsWith expr expr
  | EMin expr expr
  | EMax expr expr
  | EArenaScope expr
  | EAbortIf expr
  | EBitAnd expr expr
  | EBitOr expr expr
  | EBitXor expr expr
  | EBitNot expr
  | EShl expr expr
  | EShr expr expr
  | ESubstring expr expr expr
  | EByteAt expr expr
  | ETryByteAt expr expr
  | EFoldBytes expr expr string string string expr
  | EVariantConstruct string string "(string \<times> expr) list"
  | EMatchVariant expr "expr match_arm list"

lemma size_args [termination_simp]: "a \<in> set args \<Longrightarrow> size a < Suc (size_list size args)"
  by (simp add: size_list_estimation' le_imp_less_Suc)

lemma size_fields [termination_simp]:
  "(n, e) \<in> set fs \<Longrightarrow> size e < Suc (size_list (size_prod (\<lambda>_. 0) size) fs)"
  by (induction fs) auto

lemma size_arms [termination_simp]:
  "a \<in> set arms \<Longrightarrow> size (arm_body a) < Suc (size_list (size_match_arm size) arms + s)"
proof (induction arms)
  case (Cons b arms)
  then show ?case by (cases b) auto
qed simp

section \<open>Rules\<close>

record overflow_hint =
  o_min :: int
  o_max :: int

record hints =
  h_vectorizable :: "string option"
  h_parallel :: "string option"
  h_cache_result :: "string option"
  h_overflow :: "overflow_hint option"

record logic_stmt =
  l_bindings :: "(string \<times> expr) list"
  l_target :: string
  l_value :: expr

datatype layer = Domain | Application | Interface

record rule =
  r_name :: string
  r_intention :: string
  r_source :: source_ref
  r_input_name :: string
  r_input_ty :: vtype
  r_output_name :: string
  r_output_ty :: vtype
  r_output_text_max :: "nat option"
  r_logic :: logic_stmt
  r_proofs :: proofs
  r_hints :: "hints option"
  r_layer :: "layer option"
  r_context_name :: "string option"
  r_context_ty :: "vtype option"

definition layer_as_str :: "layer \<Rightarrow> string" where
  "layer_as_str l =
     (case l of Domain \<Rightarrow> ''domain'' | Application \<Rightarrow> ''application'' | Interface \<Rightarrow> ''interface'')"

definition can_call :: "layer \<Rightarrow> layer \<Rightarrow> bool" where
  "can_call l target =
     (case l of
        Domain \<Rightarrow> target = Domain
      | Application \<Rightarrow> target = Domain \<or> target = Application
      | Interface \<Rightarrow> True)"

section \<open>Concepts\<close>

record field =
  f_name :: string
  f_ty :: vtype
  f_range :: "(int \<times> int) option"

record variant =
  va_name :: string
  va_fields :: "field list"

record concept =
  c_name :: string
  c_intention :: string
  c_source :: source_ref
  c_fields :: "field list"
  c_variants :: "variant list"

record concept_group =
  g_name :: string
  g_intention :: string
  g_source :: source_ref
  g_max_depth :: nat
  g_max_nodes :: nat
  g_concepts :: "concept list"

section \<open>Executions\<close>

datatype workload_objective = Elapsed | Cpu

record workload_case =
  wc_name :: string
  wc_weight :: nat
  wc_records :: nat
  wc_target_us :: "nat option"

record workload =
  w_objective :: workload_objective
  w_cases :: "workload_case list"

datatype execution_mode =
    ExecSequential nat
  | ExecPipeline nat
  | ExecConcurrent (max_in_flight: nat) (native_memory: "nat option") (result_batch: nat)

record execution =
  x_name :: string
  x_intention :: string
  x_source :: source_ref
  x_input :: string
  x_phases :: "string list"
  x_mode :: execution_mode
  x_workload :: "workload option"

section \<open>Effects and services\<close>

datatype error_policy = Drop | Abort

datatype protocol = RawTcp | Http10

datatype concurrency_mode = Sequential | Forked | Pooled

datatype effect =
    Print "expr list"
  | AppendFile (af_path: string) (af_content: expr)

record log_block =
  lb_effect :: effect
  lb_on_error :: error_policy

record reaction =
  rx_name :: string
  rx_intention :: string
  rx_source :: source_ref
  rx_trigger :: string
  rx_effects :: "effect list"

datatype state_init = InitNumber int | InitText string

record state_field =
  sf_name :: string
  sf_ty :: vtype
  sf_max_bytes :: "int option"
  sf_init :: state_init

record state_set =
  ss_field_name :: string
  ss_value :: expr

record service =
  s_name :: string
  s_intention :: string
  s_source :: source_ref
  s_protocol :: protocol
  s_port :: nat
  s_max_request :: nat
  s_handler :: string
  s_logs :: "log_block list"
  s_concurrency :: concurrency_mode
  s_state_fields :: "state_field list"
  s_after_sets :: "state_set list"
  s_max_steps :: "nat option"
  s_read_timeout :: "nat option"
  s_request_timeout :: "nat option"
  s_response_timeout :: "nat option"
  s_max_connections :: "nat option"
  s_workers :: "nat option"
  s_shutdown_timeout :: "nat option"
  s_native_stack :: "nat option"

record resource =
  rs_name :: string
  rs_intention :: string
  rs_source :: source_ref
  rs_path :: string
  rs_max_bytes :: nat
  rs_on_read_error :: error_policy
  rs_cache :: bool

record connection =
  cn_name :: string
  cn_intention :: string
  cn_source :: source_ref
  cn_host :: string
  cn_port :: nat
  cn_max_response :: nat
  cn_on_connect_error :: error_policy

record entropy =
  e_name :: string
  e_intention :: string
  e_source :: source_ref
  e_bytes :: nat
  e_on_draw_error :: error_policy
  e_binding_key :: string

section \<open>Programs\<close>

datatype item =
    IConcept concept
  | IRule rule
  | IReaction reaction
  | IService service
  | IExecution execution
  | IResource resource
  | IConnection connection
  | IEntropy entropy
  | IConceptGroup concept_group

record program =
  p_version :: version
  p_uses :: "string list"
  p_items :: "item list"

definition iter_all_concepts :: "item list \<Rightarrow> concept list" where
  "iter_all_concepts items =
     concat (map (\<lambda>it. case it of IConcept c \<Rightarrow> [c] | IConceptGroup g \<Rightarrow> g_concepts g | _ \<Rightarrow> []) items)"

text \<open>The rules of a program, in declaration order: the \<open>filter_map\<close> every analysis starts with.\<close>

definition rules_of :: "program \<Rightarrow> rule list" where
  "rules_of p = concat (map (\<lambda>it. case it of IRule r \<Rightarrow> [r] | _ \<Rightarrow> []) (p_items p))"

definition concepts_of :: "program \<Rightarrow> concept list" where
  "concepts_of p = iter_all_concepts (p_items p)"

section \<open>Layer discipline\<close>

lemma can_call_refl: "can_call l l"
  by (cases l) (simp_all add: can_call_def)

lemma can_call_trans: "can_call a b \<Longrightarrow> can_call b c \<Longrightarrow> can_call a c"
  by (cases a; cases b; cases c) (simp_all add: can_call_def)

lemma can_call_antisym: "can_call a b \<Longrightarrow> can_call b a \<Longrightarrow> a = b"
  by (cases a; cases b) (simp_all add: can_call_def)

lemma can_call_total: "can_call a b \<or> can_call b a"
  by (cases a; cases b) (simp_all add: can_call_def)

instantiation layer :: linorder
begin

definition less_eq_layer :: "layer \<Rightarrow> layer \<Rightarrow> bool" where
  "less_eq_layer a b \<longleftrightarrow> can_call b a"

definition less_layer :: "layer \<Rightarrow> layer \<Rightarrow> bool" where
  "less_layer a b \<longleftrightarrow> can_call b a \<and> \<not> can_call a b"

instance
  by standard
     (use can_call_total in \<open>auto simp: less_eq_layer_def less_layer_def can_call_refl
       intro: can_call_trans can_call_antisym\<close>)

end

end
