(* ===== verification/Ranges.thy ===== *)
theory Ranges
  imports Ast "HOL-Library.Product_Lexorder"
begin

text \<open>
  The numeric domain of the overflow analysis (\<open>src/src/numeric_bounds/ranges.rs\<close>): a nonempty union
  of at most two signed intervals. Every operation is the source's, on at most four pieces; the
  interval arithmetic it applies piecewise is \<open>arithmetic\<close> of \<open>src/src/numeric_bounds.rs\<close>. \<open>gam\<close> is the
  set of numbers a value of the domain stands for, \<open>wf_ranges\<close> the canonical form, whose preservation
  discharges the source's assertions (\<open>lo <= hi\<close>, at most four temporaries, \<open>expect\<close> of a
  nonempty union).
\<close>

type_synonym interval = "int \<times> int"

record ranges =
  rg_first :: interval
  rg_second :: "interval option"

text \<open>The analysis' diagnostics, shared by the domain and the checker that uses it.\<close>

datatype (plugins only: size code) num_error =
    DivisorIncludesZero binop int int
  | MinByMinusOne binop
  | IncompatibleOperands
  | MayOverflow binop int int
  | RepeatedDivisorZero binop
  | IncompatibleRepeated
  | UnaryOverflow
  | ExpectedNumber
  | ExpectedBool
  | NestedCallLimit
  | Recursion string
  | InRule string num_error
  | UnknownCallee
  | ContextUnsupported
  | OutputTypeUnsupported
  | FlatInputRequired
  | UnknownInputConcept
  | NonemptyFlatConcept
  | InvalidFieldBounds string
  | InLet string num_error
  | InOutput string num_error
  | OutputTypeDiffers
  | InvalidOverflowBounds int int
  | RangeExceedsDeclared int int int int
  | StepLimit
  | DepthLimit
  | UnknownBinding string
  | OnlyInputFields
  | UnknownField
  | NonNumericField string
  | InIfCondition num_error
  | InThen num_error
  | InElse num_error
  | BranchTypesDiffer
  | InLeft binop num_error
  | InRight binop num_error
  | CallShape string
  | UnsupportedExpression
  | NegationMayOverflow
  | AbsMayOverflow

section \<open>Construction\<close>

definition mk_interval :: "int \<Rightarrow> int \<Rightarrow> ranges" where
  "mk_interval lo hi = \<lparr>rg_first = (lo, hi), rg_second = None\<rparr>"

definition hull :: "ranges \<Rightarrow> interval" where
  "hull r = (fst (rg_first r), snd (case rg_second r of None \<Rightarrow> rg_first r | Some s \<Rightarrow> s))"

definition pieces :: "ranges \<Rightarrow> interval list" where
  "pieces r = rg_first r # (case rg_second r of None \<Rightarrow> [] | Some s \<Rightarrow> [s])"

text \<open>
  The merge loop of \<open>collect\<close> over the sorted temporaries; the accumulator is the merged prefix
  in reverse, so its head is \<open>sorted[merged - 1]\<close>.
\<close>

fun merge_pieces :: "interval list \<Rightarrow> interval list \<Rightarrow> interval list" where
  "merge_pieces acc [] = rev acc"
| "merge_pieces [] ((lo, hi) # xs) = merge_pieces [(lo, hi)] xs"
| "merge_pieces ((a, b) # acc) ((lo, hi) # xs) =
     (if lo \<le> b + 1 then merge_pieces ((a, max b hi) # acc) xs
      else merge_pieces ((lo, hi) # (a, b) # acc) xs)"

definition collect :: "interval list \<Rightarrow> ranges option" where
  "collect ps =
     (let sorted = sort (filter (\<lambda>(lo, hi). lo \<le> hi) ps) in
      if sorted = [] then None
      else case merge_pieces [] sorted of
             [(lo, hi)] \<Rightarrow> Some (mk_interval lo hi)
           | [p, q] \<Rightarrow> Some \<lparr>rg_first = p, rg_second = Some q\<rparr>
           | ms \<Rightarrow> Some (mk_interval (fst (hd ms)) (snd (last ms))))"

definition join :: "ranges \<Rightarrow> ranges \<Rightarrow> ranges" where
  "join a b = the (collect (pieces a @ pieces b))"

definition pairwise :: "ranges \<Rightarrow> ranges \<Rightarrow> (interval \<Rightarrow> interval \<Rightarrow> num_error + interval) \<Rightarrow> num_error + ranges" where
  "pairwise a b f =
     rbind (rmapM (\<lambda>(x, y). f x y) (List.product (pieces a) (pieces b)))
       (\<lambda>ps. Inr (the (collect ps)))"

definition rg_map :: "ranges \<Rightarrow> (interval \<Rightarrow> num_error + interval) \<Rightarrow> num_error + ranges" where
  "rg_map a f = pairwise a (mk_interval 0 0) (\<lambda>x _. f x)"

section \<open>Arithmetic\<close>

text \<open>The exact endpoints, before the check that they fit \<open>i64\<close> (\<open>i128\<close> in the source).\<close>

definition arith_endpoints :: "binop \<Rightarrow> interval \<Rightarrow> interval \<Rightarrow> num_error + interval" where
  "arith_endpoints op p q = (case (p, q) of ((a, b), (c, d)) \<Rightarrow>
     (case op of
        OpAdd \<Rightarrow> Inr (a + c, b + d)
      | OpSub \<Rightarrow> Inr (a - d, b - c)
      | OpMul \<Rightarrow>
          (let xs = map (\<lambda>(x, y). x * y) [(a, c), (a, d), (b, c), (b, d)]
           in Inr (Min (set xs), Max (set xs)))
      | OpDiv \<Rightarrow>
          (let xs = map (\<lambda>(x, y). x sdiv y) [(a, c), (a, d), (b, c), (b, d)]
           in Inr (Min (set xs), Max (set xs)))
      | OpMod \<Rightarrow>
          (let limit = max \<bar>c\<bar> \<bar>d\<bar> - 1
           in Inr (max (min a 0) (- limit), min (max b 0) limit))
      | _ \<Rightarrow> Inl IncompatibleOperands))"

definition interval_arith :: "binop \<Rightarrow> interval \<Rightarrow> interval \<Rightarrow> num_error + interval" where
  "interval_arith op p q =
     (if (op = OpDiv \<or> op = OpMod) \<and> fst q \<le> 0 \<and> snd q \<ge> 0
      then Inl (DivisorIncludesZero op (fst q) (snd q))
      else if (op = OpDiv \<or> op = OpMod) \<and> fst p = i64_MIN \<and> fst q \<le> -1 \<and> snd q \<ge> -1
      then Inl (MinByMinusOne op)
      else rbind (arith_endpoints op p q)
        (\<lambda>(lo, hi). if lo < i64_MIN \<or> hi > i64_MAX then Inl (MayOverflow op lo hi) else Inr (lo, hi)))"

definition rg_arithmetic :: "ranges \<Rightarrow> binop \<Rightarrow> ranges \<Rightarrow> num_error + ranges" where
  "rg_arithmetic a op b = pairwise a b (\<lambda>p q. interval_arith op p q)"

definition repeated_arithmetic :: "ranges \<Rightarrow> binop \<Rightarrow> num_error + ranges" where
  "repeated_arithmetic a op =
     (if op = OpSub then Inr (mk_interval 0 0)
      else if op = OpDiv \<or> op = OpMod then
        (if list_ex (\<lambda>(lo, hi). lo \<le> 0 \<and> hi \<ge> 0) (pieces a) then Inl (RepeatedDivisorZero op)
         else let n = (if op = OpDiv then 1 else 0) in Inr (mk_interval n n))
      else if op = OpAdd \<or> op = OpMul then
        rg_map a (\<lambda>p. rbind (interval_arith op p p)
          (\<lambda>(lo, hi). Inr (if op = OpMul \<and> fst p \<le> 0 \<and> snd p \<ge> 0 then 0 else lo, hi)))
      else Inl IncompatibleRepeated)"

section \<open>Comparisons\<close>

definition restrict_piece :: "binop \<Rightarrow> int \<Rightarrow> interval \<Rightarrow> interval list" where
  "restrict_piece op n p = (case p of (lo, hi) \<Rightarrow>
     filter (\<lambda>(l, h). l \<le> h)
       (case op of
          OpEq \<Rightarrow> [(max lo n, min hi n)]
        | OpNotEq \<Rightarrow> [(lo, min hi (n - 1)), (max lo (n + 1), hi)]
        | OpLt \<Rightarrow> [(lo, min hi (n - 1))]
        | OpLtEq \<Rightarrow> [(lo, min hi n)]
        | OpGt \<Rightarrow> [(max lo (n + 1), hi)]
        | OpGtEq \<Rightarrow> [(max lo n, hi)]
        | _ \<Rightarrow> []))"

definition restrict :: "ranges \<Rightarrow> binop \<Rightarrow> int \<Rightarrow> ranges option" where
  "restrict r op n =
     (let ps = concat (map (restrict_piece op n) (pieces r))
      in if length ps > 2 then Some r else collect ps)"

text \<open>The nonempty intersections of two domains' pieces, in the source's loop order.\<close>

definition common_pieces :: "ranges \<Rightarrow> ranges \<Rightarrow> interval list" where
  "common_pieces a b =
     filter (\<lambda>(l, h). l \<le> h)
       (map (\<lambda>((a, b), (c, d)). (max a c, min b d)) (List.product (pieces a) (pieces b)))"

definition constrain :: "ranges \<Rightarrow> binop \<Rightarrow> ranges \<Rightarrow> ranges option" where
  "constrain r op other =
     (case hull other of (lo, hi) \<Rightarrow>
        (case op of
           OpLt \<Rightarrow> restrict r op hi
         | OpLtEq \<Rightarrow> restrict r op hi
         | OpGt \<Rightarrow> restrict r op lo
         | OpGtEq \<Rightarrow> restrict r op lo
         | OpNotEq \<Rightarrow> (if lo = hi then restrict r op lo else Some r)
         | OpEq \<Rightarrow>
             (let ps = common_pieces r other
              in if length ps > 2 then Some r else collect ps)
         | _ \<Rightarrow> Some r))"

section \<open>What the domain stands for\<close>

definition valid_ivl :: "interval \<Rightarrow> bool" where
  "valid_ivl p \<longleftrightarrow> fst p \<le> snd p \<and> in_i64 (fst p) \<and> in_i64 (snd p)"

definition ivl_set :: "interval list \<Rightarrow> int set" where
  "ivl_set ps = (\<Union>p \<in> set ps. {fst p .. snd p})"

definition gam :: "ranges \<Rightarrow> int set" where
  "gam r = ivl_set (pieces r)"

definition wf_ranges :: "ranges \<Rightarrow> bool" where
  "wf_ranges r \<longleftrightarrow> valid_ivl (rg_first r) \<and>
     (case rg_second r of None \<Rightarrow> True | Some q \<Rightarrow> valid_ivl q \<and> snd (rg_first r) + 1 < fst q)"

lemma ivl_set_simps [simp]:
  "ivl_set [] = {}" "ivl_set (p # ps) = {fst p .. snd p} \<union> ivl_set ps"
  "ivl_set (ps @ qs) = ivl_set ps \<union> ivl_set qs" "ivl_set (rev ps) = ivl_set ps"
  by (auto simp: ivl_set_def)

lemma ivl_set_iff: "x \<in> ivl_set ps \<longleftrightarrow> (\<exists>lo hi. (lo, hi) \<in> set ps \<and> lo \<le> x \<and> x \<le> hi)"
  by (force simp: ivl_set_def)

lemma ivl_set_filter [simp]: "ivl_set (filter (\<lambda>(lo, hi). lo \<le> hi) ps) = ivl_set ps"
  by (auto simp: ivl_set_def)

lemma ivl_set_sort [simp]: "ivl_set (sort ps) = ivl_set ps"
  by (simp add: ivl_set_def)

lemma gam_interval [simp]: "gam (mk_interval lo hi) = {lo .. hi}"
  by (simp add: gam_def mk_interval_def pieces_def)

lemma wf_interval [simp]: "wf_ranges (mk_interval lo hi) \<longleftrightarrow> valid_ivl (lo, hi)"
  by (simp add: wf_ranges_def mk_interval_def)

lemma hull_interval [simp]: "hull (mk_interval lo hi) = (lo, hi)"
  by (simp add: hull_def mk_interval_def)

lemma wf_pieces: "wf_ranges r \<Longrightarrow> p \<in> set (pieces r) \<Longrightarrow> valid_ivl p"
  by (auto simp: wf_ranges_def pieces_def split: option.splits)

lemma pieces_nonempty [simp]: "pieces r \<noteq> []"
  by (simp add: pieces_def)

lemma length_pieces: "length (pieces r) \<le> 2"
  by (simp add: pieces_def split: option.splits)

lemma gam_hull: "wf_ranges r \<Longrightarrow> x \<in> gam r \<Longrightarrow> fst (hull r) \<le> x \<and> x \<le> snd (hull r)"
  by (auto simp: gam_def pieces_def hull_def wf_ranges_def valid_ivl_def split: option.splits)

lemma hull_in_gam: "wf_ranges r \<Longrightarrow> fst (hull r) \<in> gam r \<and> snd (hull r) \<in> gam r"
  by (auto simp: gam_def pieces_def hull_def wf_ranges_def valid_ivl_def split: option.splits)

lemma wf_hull: "wf_ranges r \<Longrightarrow> valid_ivl (hull r)"
  by (auto simp: pieces_def hull_def wf_ranges_def valid_ivl_def split: option.splits)

lemma gam_in_i64: "wf_ranges r \<Longrightarrow> x \<in> gam r \<Longrightarrow> in_i64 x"
  using gam_hull wf_hull by (meson in_i64_convex valid_ivl_def)

lemma singleton_hull: "wf_ranges r \<Longrightarrow> hull r = (n, n) \<Longrightarrow> x \<in> gam r \<Longrightarrow> x = n"
  using gam_hull [of r x] by simp

section \<open>Merging keeps the set and makes it canonical\<close>

definition separated :: "interval list \<Rightarrow> bool" where
  "separated ps \<longleftrightarrow> sorted_wrt (\<lambda>p q. snd p + 1 < fst q) ps \<and> (\<forall>p \<in> set ps. fst p \<le> snd p)"

lemma merge_pieces_correct:
  assumes "sorted (map fst xs)" "\<forall>p \<in> set xs. fst p \<le> snd p" "separated (rev acc)"
    "\<And>p x. acc = p # tl acc \<Longrightarrow> x \<in> set xs \<Longrightarrow> fst p \<le> fst x"
  shows "separated (merge_pieces acc xs)
    \<and> ivl_set (merge_pieces acc xs) = ivl_set acc \<union> ivl_set xs
    \<and> fst ` set (merge_pieces acc xs) \<subseteq> fst ` (set acc \<union> set xs)
    \<and> snd ` set (merge_pieces acc xs) \<subseteq> snd ` (set acc \<union> set xs)
    \<and> (merge_pieces acc xs = [] \<longleftrightarrow> acc = [] \<and> xs = [])"
  using assms
proof (induction acc xs rule: merge_pieces.induct)
  case (1 acc)
  then show ?case by simp
next
  case (2 lo hi xs)
  have "separated (rev [(lo, hi)])" using "2.prems" by (simp add: separated_def)
  moreover have "fst p \<le> fst x" if "[(lo, hi)] = p # tl [(lo, hi)]" "x \<in> set xs" for p x
    using that "2.prems"(1) by auto
  ultimately show ?case using "2.IH" "2.prems" by auto
next
  case (3 a b acc lo hi xs)
  have ab: "a \<le> b" and alo: "a \<le> lo" and lohi: "lo \<le> hi"
    using "3.prems"(2,3) "3.prems"(4) [of "(a, b)" "(lo, hi)"] by (auto simp: separated_def)
  have lo_xs: "\<forall>x \<in> set xs. lo \<le> fst x" and srt: "sorted (map fst xs)"
    using "3.prems"(1) by auto
  show ?case
  proof (cases "lo \<le> b + 1")
    case True
    have sep: "separated (rev ((a, max b hi) # acc))"
      using "3.prems"(3) by (auto simp: separated_def sorted_wrt_append)
    have low: "fst p \<le> fst x" if "(a, max b hi) # acc = p # tl ((a, max b hi) # acc)" "x \<in> set xs" for p x
      using that alo lo_xs by auto
    have un: "{a .. max b hi} = {a .. b} \<union> {lo .. hi}" using True ab alo lohi by auto
    have v: "\<forall>p \<in> set xs. fst p \<le> snd p" using "3.prems"(2) by simp
    note IH = "3.IH"(1) [OF True srt v sep low]
    have snds: "snd ` (set ((a, max b hi) # acc) \<union> set xs) \<subseteq> snd ` (set ((a, b) # acc) \<union> set ((lo, hi) # xs))"
      by (auto simp: max_def)
    have eq: "merge_pieces ((a, b) # acc) ((lo, hi) # xs) = merge_pieces ((a, max b hi) # acc) xs"
      using True by simp
    show ?thesis unfolding eq
    proof (intro conjI)
      show "ivl_set (merge_pieces ((a, max b hi) # acc) xs) = ivl_set ((a, b) # acc) \<union> ivl_set ((lo, hi) # xs)"
        using IH by (simp add: un Un_ac)
      show "snd ` set (merge_pieces ((a, max b hi) # acc) xs) \<subseteq> snd ` (set ((a, b) # acc) \<union> set ((lo, hi) # xs))"
        using IH snds by blast
    qed (use IH in auto)
  next
    case False
    have sep: "separated (rev ((lo, hi) # (a, b) # acc))"
      using "3.prems"(3) False lohi by (force simp: separated_def sorted_wrt_append)
    have low: "fst p \<le> fst x"
      if "(lo, hi) # (a, b) # acc = p # tl ((lo, hi) # (a, b) # acc)" "x \<in> set xs" for p x
      using that lo_xs by auto
    from "3.IH"(2) [OF False srt _ sep low] "3.prems"(2) False show ?thesis by auto
  qed
qed

lemma sorted_fst_sort: "sorted (map fst (sort (ps :: interval list)))"
proof -
  have "sorted (sort ps)" by simp
  then show ?thesis
    by (rule sorted_wrt_mono_rel [THEN sorted_map [THEN iffD2], rotated]) (auto simp: less_eq_prod_def)
qed

lemma merge_sorted:
  fixes ps :: "interval list"
  defines "xs \<equiv> sort (filter (\<lambda>(lo, hi). lo \<le> hi) ps)"
  shows "separated (merge_pieces [] xs)" "ivl_set (merge_pieces [] xs) = ivl_set ps"
    "fst ` set (merge_pieces [] xs) \<subseteq> fst ` set ps" "snd ` set (merge_pieces [] xs) \<subseteq> snd ` set ps"
    "merge_pieces [] xs = [] \<longleftrightarrow> xs = []"
proof -
  have v: "\<forall>p \<in> set xs. fst p \<le> snd p" by (auto simp: xs_def)
  have "separated (rev [])" by (simp add: separated_def)
  then have m: "separated (merge_pieces [] xs) \<and> ivl_set (merge_pieces [] xs) = ivl_set [] \<union> ivl_set xs
    \<and> fst ` set (merge_pieces [] xs) \<subseteq> fst ` (set [] \<union> set xs)
    \<and> snd ` set (merge_pieces [] xs) \<subseteq> snd ` (set [] \<union> set xs)
    \<and> (merge_pieces [] xs = [] \<longleftrightarrow> [] = ([] :: interval list) \<and> xs = [])"
    using v unfolding xs_def by (intro merge_pieces_correct sorted_fst_sort) auto
  have sub: "set xs \<subseteq> set ps" by (auto simp: xs_def)
  from m sub show "separated (merge_pieces [] xs)" "ivl_set (merge_pieces [] xs) = ivl_set ps"
    "fst ` set (merge_pieces [] xs) \<subseteq> fst ` set ps" "snd ` set (merge_pieces [] xs) \<subseteq> snd ` set ps"
    "merge_pieces [] xs = [] \<longleftrightarrow> xs = []"
    by (auto simp: xs_def)
qed

lemma separated_hd_last:
  assumes "separated ms" "ms \<noteq> []"
  shows "fst (hd ms) \<le> snd (last ms)" "ivl_set ms \<subseteq> {fst (hd ms) .. snd (last ms)}"
proof -
  have "fst (hd ms) \<le> snd (last ms) \<and> ivl_set ms \<subseteq> {fst (hd ms) .. snd (last ms)}"
    using assms
  proof (induction ms)
    case (Cons p ms)
    show ?case
    proof (cases "ms = []")
      case False
      with Cons.prems have "snd p + 1 < fst (hd ms)" "fst p \<le> snd p" "separated ms"
        by (auto simp: separated_def)
      with Cons.IH False show ?thesis by fastforce
    qed (use Cons.prems in \<open>simp add: separated_def\<close>)
  qed simp
  then show "fst (hd ms) \<le> snd (last ms)" "ivl_set ms \<subseteq> {fst (hd ms) .. snd (last ms)}" by auto
qed

lemma collect_cases:
  obtains (empty) "collect ps = None" "ivl_set ps = {}"
  | (some) r where "collect ps = Some r" "ivl_set ps \<noteq> {}" "ivl_set ps \<subseteq> gam r"
      "\<And>P. (\<And>p. p \<in> set ps \<Longrightarrow> in_i64 (fst p) \<and> in_i64 (snd p)) \<Longrightarrow> wf_ranges r"
      "length (merge_pieces [] (sort (filter (\<lambda>(lo, hi). lo \<le> hi) ps))) \<le> 2 \<Longrightarrow> gam r = ivl_set ps"
      "fst (hull r) \<in> ivl_set ps" "snd (hull r) \<in> ivl_set ps"
proof -
  define ms where "ms = merge_pieces [] (sort (filter (\<lambda>(lo, hi). lo \<le> hi) ps))"
  have sep: "separated ms" and set: "ivl_set ms = ivl_set ps"
    and f: "fst ` set ms \<subseteq> fst ` set ps" and g: "snd ` set ms \<subseteq> snd ` set ps"
    and e: "ms = [] \<longleftrightarrow> sort (filter (\<lambda>(lo, hi). lo \<le> hi) ps) = []"
    unfolding ms_def by (rule merge_sorted)+
  show ?thesis
  proof (cases "ms = []")
    case True
    with e set show ?thesis by (intro empty) (auto simp: collect_def Let_def)
  next
    case False
    note hl = separated_hd_last [OF sep False]
    from False sep have ne: "ivl_set ms \<noteq> {}" by (cases ms) (auto simp: separated_def)
    have hd_in: "fst (hd ms) \<in> ivl_set ms" and last_in: "snd (last ms) \<in> ivl_set ms"
      using sep bexI [OF _ hd_in_set [OF False]] bexI [OF _ last_in_set [OF False]] False
      by (auto simp: ivl_set_def separated_def)
    have wf: "valid_ivl p" if "p \<in> set ms" "\<And>p. p \<in> set ps \<Longrightarrow> in_i64 (fst p) \<and> in_i64 (snd p)" for p
      using that sep f g by (force simp: valid_ivl_def separated_def)
    consider p where "ms = [p]" | p q where "ms = [p, q]" | p q r rs where "ms = p # q # r # rs"
      using False by (metis neq_Nil_conv)
    then show ?thesis
    proof cases
      case 1
      show ?thesis
      proof (rule some)
        show "collect ps = Some (mk_interval (fst p) (snd p))"
          using 1 e by (cases p) (simp add: collect_def Let_def flip: ms_def)
      qed (use 1 wf ne set hd_in last_in in \<open>auto simp: valid_ivl_def\<close>)
    next
      case 2
      let ?r = "\<lparr>rg_first = p, rg_second = Some q\<rparr>"
      have gam: "gam ?r = ivl_set ms" using 2 by (simp add: gam_def pieces_def)
      show ?thesis
      proof (rule some)
        show "collect ps = Some ?r"
          using 2 e by (cases p) (simp add: collect_def Let_def flip: ms_def)
        show "wf_ranges ?r" if "\<And>p. p \<in> set ps \<Longrightarrow> in_i64 (fst p) \<and> in_i64 (snd p)"
          using 2 wf that sep by (auto simp: wf_ranges_def separated_def)
      qed (use 2 ne set gam hd_in last_in in \<open>auto simp: hull_def\<close>)
    next
      case 3
      show ?thesis
      proof (rule some)
        show "collect ps = Some (mk_interval (fst (hd ms)) (snd (last ms)))"
          using 3 e by (cases p) (simp add: collect_def Let_def flip: ms_def)
        show "wf_ranges (mk_interval (fst (hd ms)) (snd (last ms)))"
          if "\<And>p. p \<in> set ps \<Longrightarrow> in_i64 (fst p) \<and> in_i64 (snd p)"
          using wf [OF hd_in_set [OF False] that] wf [OF last_in_set [OF False] that] hl(1)
          by (auto simp: valid_ivl_def)
        show "gam (mk_interval (fst (hd ms)) (snd (last ms))) = ivl_set ps"
          if "length (merge_pieces [] (sort (filter (\<lambda>(lo, hi). lo \<le> hi) ps))) \<le> 2"
          using that 3 by (simp flip: ms_def)
      qed (use ne set hl hd_in last_in in auto)
    qed
  qed
qed

lemma collect_None_iff: "collect ps = None \<longleftrightarrow> ivl_set ps = {}"
  by (cases rule: collect_cases [of ps]) auto

lemma collect_sound: "collect ps = Some r \<Longrightarrow> ivl_set ps \<subseteq> gam r"
  by (cases rule: collect_cases [of ps]) auto

lemma collect_wf:
  "collect ps = Some r \<Longrightarrow> (\<And>p. p \<in> set ps \<Longrightarrow> in_i64 (fst p) \<and> in_i64 (snd p)) \<Longrightarrow> wf_ranges r"
  by (cases rule: collect_cases [of ps]) auto

lemma collect_Some:
  assumes "ps \<noteq> []" "\<And>p. p \<in> set ps \<Longrightarrow> valid_ivl p"
  obtains r where "collect ps = Some r" "wf_ranges r" "ivl_set ps \<subseteq> gam r"
proof -
  have "ivl_set ps \<noteq> {}" using assms by (cases ps) (auto simp: valid_ivl_def)
  then obtain r where r: "collect ps = Some r" using collect_None_iff by fastforce
  have "wf_ranges r" using r assms by (auto intro: collect_wf simp: valid_ivl_def)
  with r that collect_sound show ?thesis by blast
qed

lemma collect_exact:
  assumes "collect ps = Some r" "length (filter (\<lambda>(lo, hi). lo \<le> hi) ps) \<le> 2"
  shows "gam r = ivl_set ps"
proof -
  have "length (merge_pieces acc xs) \<le> length acc + length xs" for acc xs
    by (induction acc xs rule: merge_pieces.induct) auto
  from this [of "[]"] assms(2)
  have "length (merge_pieces [] (sort (filter (\<lambda>(lo, hi). lo \<le> hi) ps))) \<le> 2"
    by (metis add_cancel_left_left le_trans length_sort list.size(3))
  with assms(1) show ?thesis by (cases rule: collect_cases [of ps]) auto
qed

section \<open>Piecewise operations\<close>

text \<open>
  What \<open>pairwise\<close> needs of an interval operation \<open>f\<close> to be a sound abstraction of a numeric
  operation \<open>g\<close>: where \<open>f\<close> succeeds on two intervals it yields a valid interval with every \<open>g x y\<close>, and
  the side condition \<open>ok\<close> (no panic) holds of every pair. \<open>pairwise\<close> then has the same contract on whole
  domains: the union may be widened, but no pair escapes the check.
\<close>

locale interval_op =
  fixes f :: "interval \<Rightarrow> interval \<Rightarrow> num_error + interval"
    and g :: "int \<Rightarrow> int \<Rightarrow> int"
    and ok :: "int \<Rightarrow> int \<Rightarrow> bool"
  assumes f_valid: "valid_ivl p \<Longrightarrow> valid_ivl q \<Longrightarrow> f p q = Inr r \<Longrightarrow> valid_ivl r"
    and f_sound: "valid_ivl p \<Longrightarrow> valid_ivl q \<Longrightarrow> f p q = Inr r \<Longrightarrow>
      fst p \<le> x \<Longrightarrow> x \<le> snd p \<Longrightarrow> fst q \<le> y \<Longrightarrow> y \<le> snd q \<Longrightarrow>
      fst r \<le> g x y \<and> g x y \<le> snd r \<and> ok x y"
begin

lemma rmapM_sound:
  "rmapM (\<lambda>(p, q). f p q) ps = Inr rs \<Longrightarrow> (\<And>p q. (p, q) \<in> set ps \<Longrightarrow> valid_ivl p \<and> valid_ivl q) \<Longrightarrow>
   length rs = length ps \<and> (\<forall>r \<in> set rs. valid_ivl r) \<and>
   (\<forall>(p, q) \<in> set ps. \<forall>x y. fst p \<le> x \<longrightarrow> x \<le> snd p \<longrightarrow> fst q \<le> y \<longrightarrow> y \<le> snd q \<longrightarrow>
      g x y \<in> ivl_set rs \<and> ok x y)"
proof (induction ps arbitrary: rs)
  case (Cons pq ps)
  obtain p q where pq: "pq = (p, q)" by (cases pq)
  from Cons.prems(1) pq obtain r rs' where r: "f p q = Inr r" and rs': "rmapM (\<lambda>(p, q). f p q) ps = Inr rs'"
    and rs: "rs = r # rs'" by (auto simp: rbind_eq_Inr)
  have v: "valid_ivl p" "valid_ivl q" using Cons.prems(2) [of p q] pq by simp_all
  have v': "valid_ivl p \<and> valid_ivl q" if "(p, q) \<in> set ps" for p q
    using Cons.prems(2) [of p q] that by simp
  note IH = Cons.IH [OF rs' v']
  have "fst r \<le> g x y \<and> g x y \<le> snd r \<and> ok x y"
    if "fst p \<le> x" "x \<le> snd p" "fst q \<le> y" "y \<le> snd q" for x y
    using f_sound [OF v r that] .
  with IH f_valid [OF v r] show ?case by (auto simp: pq rs)
qed simp

lemma pairwise_sound:
  assumes "pairwise a b f = Inr c" "wf_ranges a" "wf_ranges b"
  shows "wf_ranges c" "x \<in> gam a \<Longrightarrow> y \<in> gam b \<Longrightarrow> g x y \<in> gam c \<and> ok x y"
proof -
  let ?ps = "List.product (pieces a) (pieces b)"
  from assms(1) obtain rs where rs: "rmapM (\<lambda>(p, q). f p q) ?ps = Inr rs" and c: "c = the (collect rs)"
    by (auto simp: pairwise_def rbind_eq_Inr)
  have "valid_ivl p \<and> valid_ivl q" if "(p, q) \<in> set ?ps" for p q
    using that assms(2,3) by (auto intro: wf_pieces)
  note m = rmapM_sound [OF rs this]
  have "rs \<noteq> []" using m by (metis length_0_conv length_product mult_is_0 pieces_nonempty)
  with m obtain r where r: "collect rs = Some r" "wf_ranges r" "ivl_set rs \<subseteq> gam r"
    by (metis collect_Some)
  then show "wf_ranges c" by (simp add: c)
  assume "x \<in> gam a" "y \<in> gam b"
  then obtain p q where "(p, q) \<in> set ?ps" "fst p \<le> x" "x \<le> snd p" "fst q \<le> y" "y \<le> snd q"
    by (auto simp: gam_def ivl_set_def)
  with m have "g x y \<in> ivl_set rs \<and> ok x y" by blast
  with r c show "g x y \<in> gam c \<and> ok x y" by auto
qed

end

text \<open>The same contract for one operand; \<open>rg_map\<close> is \<open>pairwise\<close> with a dummy second domain.\<close>

locale interval_fun =
  fixes f :: "interval \<Rightarrow> num_error + interval"
    and g :: "int \<Rightarrow> int"
  assumes f_valid: "valid_ivl p \<Longrightarrow> f p = Inr r \<Longrightarrow> valid_ivl r"
    and f_sound: "valid_ivl p \<Longrightarrow> f p = Inr r \<Longrightarrow> fst p \<le> x \<Longrightarrow> x \<le> snd p \<Longrightarrow> fst r \<le> g x \<and> g x \<le> snd r"

sublocale interval_fun \<subseteq> lift: interval_op "\<lambda>p _. f p" "\<lambda>x _. g x" "\<lambda>_ _. True"
  by unfold_locales (auto intro: f_valid dest: f_sound)

context interval_fun
begin

lemma rg_map_sound:
  assumes "rg_map a f = Inr c" "wf_ranges a"
  shows "wf_ranges c" "x \<in> gam a \<Longrightarrow> g x \<in> gam c"
proof -
  have z: "wf_ranges (mk_interval 0 0)" "0 \<in> gam (mk_interval 0 0)"
    by (simp_all add: valid_ivl_def in_i64_def)
  note p = lift.pairwise_sound [OF assms(1) [unfolded rg_map_def] assms(2) z(1)]
  show "wf_ranges c" "x \<in> gam a \<Longrightarrow> g x \<in> gam c" using p z(2) by auto
qed

end

section \<open>Interval arithmetic is exact enough\<close>

definition arith_val :: "binop \<Rightarrow> int \<Rightarrow> int \<Rightarrow> int" where
  "arith_val op x y =
     (case op of OpAdd \<Rightarrow> x + y | OpSub \<Rightarrow> x - y | OpMul \<Rightarrow> x * y | OpDiv \<Rightarrow> x sdiv y
      | OpMod \<Rightarrow> x smod y | _ \<Rightarrow> 0)"

definition arith_ok :: "binop \<Rightarrow> int \<Rightarrow> int \<Rightarrow> bool" where
  "arith_ok op x y \<longleftrightarrow> in_i64 (arith_val op x y) \<and> op \<in> {OpAdd, OpSub, OpMul, OpDiv, OpMod} \<and>
     (op = OpDiv \<or> op = OpMod \<longrightarrow> y \<noteq> 0 \<and> \<not> (x = i64_MIN \<and> y = -1))"

lemma corner_bounds:
  fixes h :: "int \<Rightarrow> int \<Rightarrow> int"
  assumes "min (h a y) (h b y) \<le> h x y" "h x y \<le> max (h a y) (h b y)"
    and "\<And>z. z \<in> {a, b} \<Longrightarrow> min (h z c) (h z d) \<le> h z y \<and> h z y \<le> max (h z c) (h z d)"
  shows "Min {h a c, h a d, h b c, h b d} \<le> h x y" "h x y \<le> Max {h a c, h a d, h b c, h b d}"
  using assms(1,2) assms(3) [of a] assms(3) [of b] by (auto simp: min_def max_def split: if_splits)

lemma mult_between:
  fixes a b k x :: int
  assumes "a \<le> x" "x \<le> b"
  shows "min (a * k) (b * k) \<le> x * k" "x * k \<le> max (a * k) (b * k)"
  using assms mult_right_mono [of a x k] mult_right_mono [of x b k]
    mult_right_mono_neg [of x b k] mult_right_mono_neg [of a x k]
  by (cases "0 \<le> k"; auto simp: min_def max_def)+

lemma sdiv_between_left:
  fixes a b k x :: int
  assumes "a \<le> x" "x \<le> b" "k \<noteq> 0"
  shows "min (a sdiv k) (b sdiv k) \<le> x sdiv k" "x sdiv k \<le> max (a sdiv k) (b sdiv k)"
proof -
  show "min (a sdiv k) (b sdiv k) \<le> x sdiv k"
    using sdiv_mono [of k a x] sdiv_mono [of k x b] sdiv_mono [of "- k" a x] sdiv_mono [of "- k" x b] assms
    by (cases "0 < k") (auto simp: min_def)
  show "x sdiv k \<le> max (a sdiv k) (b sdiv k)"
    using sdiv_mono [of k a x] sdiv_mono [of k x b] sdiv_mono [of "- k" a x] sdiv_mono [of "- k" x b] assms
    by (cases "0 < k") (auto simp: max_def)
qed

lemma sdiv_between_right_pos:
  fixes c d x y :: int
  assumes "0 < c" "c \<le> y" "y \<le> d"
  shows "min (x sdiv c) (x sdiv d) \<le> x sdiv y \<and> x sdiv y \<le> max (x sdiv c) (x sdiv d)"
proof (cases "0 \<le> x")
  case True
  with assms show ?thesis
    using sdiv_anti_divisor [of x c y] sdiv_anti_divisor [of x y d] by auto
next
  case False
  with assms show ?thesis
    using sdiv_anti_divisor [of "- x" c y] sdiv_anti_divisor [of "- x" y d] by auto
qed

lemma sdiv_between_right:
  fixes c d x y :: int
  assumes "c \<le> y" "y \<le> d" "\<not> (c \<le> 0 \<and> 0 \<le> d)"
  shows "min (x sdiv c) (x sdiv d) \<le> x sdiv y \<and> x sdiv y \<le> max (x sdiv c) (x sdiv d)"
proof (cases "0 < c")
  case True
  with assms show ?thesis by (intro sdiv_between_right_pos)
next
  case False
  with assms have "0 < - d" "- d \<le> - y" "- y \<le> - c" by auto
  from sdiv_between_right_pos [OF this, of x] show ?thesis by (auto simp: min_def max_def split: if_splits)
qed

lemma smod_between:
  fixes a b c d x y :: int
  assumes "a \<le> x" "x \<le> b" "c \<le> y" "y \<le> d" "\<not> (c \<le> 0 \<and> 0 \<le> d)"
  shows "max (min a 0) (- (max \<bar>c\<bar> \<bar>d\<bar> - 1)) \<le> x smod y" "x smod y \<le> min (max b 0) (max \<bar>c\<bar> \<bar>d\<bar> - 1)"
proof -
  define limit where "limit = max \<bar>c\<bar> \<bar>d\<bar> - 1"
  have "y \<noteq> 0" "\<bar>y\<bar> - 1 \<le> limit" using assms by (auto simp: limit_def)
  then have lim: "- limit \<le> x smod y" "x smod y \<le> limit" using smod_int_range [of y x] by auto
  have "min a 0 \<le> x smod y \<and> x smod y \<le> max b 0"
    using abs_smod_le [of x y] smod_sign [of x y] assms by (cases "0 \<le> x") auto
  with lim show "max (min a 0) (- (max \<bar>c\<bar> \<bar>d\<bar> - 1)) \<le> x smod y" "x smod y \<le> min (max b 0) (max \<bar>c\<bar> \<bar>d\<bar> - 1)"
    by (simp_all add: limit_def)
qed

lemma interval_arith_shape:
  assumes "interval_arith op p q = Inr r"
  shows "arith_endpoints op p q = Inr r" "i64_MIN \<le> fst r" "snd r \<le> i64_MAX"
    "op = OpDiv \<or> op = OpMod \<Longrightarrow> \<not> (fst q \<le> 0 \<and> 0 \<le> snd q)"
    "op = OpDiv \<or> op = OpMod \<Longrightarrow> \<not> (fst p = i64_MIN \<and> fst q \<le> -1 \<and> -1 \<le> snd q)"
  using assms unfolding interval_arith_def
  by (simp_all add: rbind_eq_Inr split: if_splits prod.splits) (auto split: if_splits)

lemma arith_endpoints_op: "arith_endpoints op p q = Inr r \<Longrightarrow> op \<in> {OpAdd, OpSub, OpMul, OpDiv, OpMod}"
  by (cases op) (simp_all add: arith_endpoints_def split: prod.splits)

lemma interval_arith_sound:
  assumes ia: "interval_arith op p q = Inr r"
    and x: "fst p \<le> x" "x \<le> snd p" and y: "fst q \<le> y" "y \<le> snd q"
  shows "fst r \<le> arith_val op x y \<and> arith_val op x y \<le> snd r"
proof -
  note sh = interval_arith_shape [OF ia]
  obtain a b c d where pq: "p = (a, b)" "q = (c, d)" by (cases p; cases q)
  have ab: "a \<le> x" "x \<le> b" and cd: "c \<le> y" "y \<le> d" using x y pq by auto
  show ?thesis
  proof (cases op)
    case OpMul
    have r: "r = (Min {a * c, a * d, b * c, b * d}, Max {a * c, a * d, b * c, b * d})"
      using sh(1) OpMul by (simp add: arith_endpoints_def pq)
    have "min (z * c) (z * d) \<le> z * y \<and> z * y \<le> max (z * c) (z * d)" for z
      using mult_between [OF cd, of z] by (simp add: mult.commute)
    note corner_bounds [where h = "(*)", OF mult_between [OF ab, of y] this]
    then show ?thesis by (simp only: r OpMul arith_val_def binop.case fst_conv snd_conv)
  next
    case OpDiv
    have r: "r = (Min {a sdiv c, a sdiv d, b sdiv c, b sdiv d}, Max {a sdiv c, a sdiv d, b sdiv c, b sdiv d})"
      and z: "\<not> (c \<le> 0 \<and> 0 \<le> d)"
      using sh(1,4) OpDiv by (simp_all add: arith_endpoints_def pq)
    have "y \<noteq> 0" using z cd by auto
    note corner_bounds [where h = "(sdiv)", OF sdiv_between_left [OF ab this] sdiv_between_right [OF cd z]]
    then show ?thesis by (simp only: r OpDiv arith_val_def binop.case fst_conv snd_conv)
  next
    case OpMod
    have "r = (max (min a 0) (- (max \<bar>c\<bar> \<bar>d\<bar> - 1)), min (max b 0) (max \<bar>c\<bar> \<bar>d\<bar> - 1))" and "\<not> (c \<le> 0 \<and> 0 \<le> d)"
      using sh(1,4) OpMod by (simp_all add: arith_endpoints_def pq Let_def)
    with smod_between [OF ab cd] OpMod show ?thesis by (simp add: arith_val_def)
  qed (use sh(1) ab cd in \<open>auto simp: arith_endpoints_def pq arith_val_def\<close>)
qed

lemma interval_arith_ok:
  assumes "interval_arith op p q = Inr r" "valid_ivl p" "valid_ivl q"
    and x: "fst p \<le> x" "x \<le> snd p" and y: "fst q \<le> y" "y \<le> snd q"
  shows "arith_ok op x y"
  unfolding arith_ok_def
proof (intro conjI impI)
  show "op \<in> {OpAdd, OpSub, OpMul, OpDiv, OpMod}"
    by (rule arith_endpoints_op [OF interval_arith_shape(1) [OF assms(1)]])
qed (use interval_arith_sound [OF assms(1) x y] interval_arith_shape(2-5) [OF assms(1)] x y assms(2) in
       \<open>auto simp: in_i64_def valid_ivl_def\<close>)

lemma interval_arith_valid:
  assumes "interval_arith op p q = Inr r" "valid_ivl p" "valid_ivl q"
  shows "valid_ivl r"
proof -
  have "fst p \<le> snd p" "fst q \<le> snd q" using assms(2,3) by (simp_all add: valid_ivl_def)
  from interval_arith_sound [OF assms(1) _ this(1) _ this(2)] interval_arith_shape [OF assms(1)]
  show ?thesis by (auto simp: valid_ivl_def in_i64_def)
qed

interpretation arith: interval_op "interval_arith op" "arith_val op" "arith_ok op" for op
  by unfold_locales (auto intro: interval_arith_valid dest: interval_arith_sound interval_arith_ok)

lemma rg_arithmetic_sound:
  assumes "rg_arithmetic a op b = Inr c" "wf_ranges a" "wf_ranges b"
  shows "wf_ranges c" "x \<in> gam a \<Longrightarrow> y \<in> gam b \<Longrightarrow> arith_val op x y \<in> gam c \<and> arith_ok op x y"
  using arith.pairwise_sound [OF assms(1) [unfolded rg_arithmetic_def] assms(2,3)] by auto

text \<open>Both operands read the same number: fewer pairs, hence a tighter domain.\<close>

definition repeat_ivl :: "binop \<Rightarrow> interval \<Rightarrow> num_error + interval" where
  "repeat_ivl op p = rbind (interval_arith op p p)
     (\<lambda>(lo, hi). Inr (if op = OpMul \<and> fst p \<le> 0 \<and> snd p \<ge> 0 then 0 else lo, hi))"

lemma repeat_ivl_sound:
  assumes "repeat_ivl op p = Inr r" "valid_ivl p" "fst p \<le> x" "x \<le> snd p"
  shows "fst r \<le> arith_val op x x \<and> arith_val op x x \<le> snd r"
proof -
  obtain lo hi where i: "interval_arith op p p = Inr (lo, hi)"
    and r: "r = (if op = OpMul \<and> fst p \<le> 0 \<and> snd p \<ge> 0 then 0 else lo, hi)"
    using assms(1) by (auto simp: repeat_ivl_def rbind_eq_Inr)
  from interval_arith_sound [OF i assms(3,4,3,4)] r show ?thesis
    by (auto simp: arith_val_def)
qed

lemma repeat_ivl_valid:
  assumes "repeat_ivl op p = Inr r" "valid_ivl p"
  shows "valid_ivl r"
proof -
  have "fst p \<le> fst p" "fst p \<le> snd p" using assms(2) by (simp_all add: valid_ivl_def)
  note s = repeat_ivl_sound [OF assms this]
  obtain lo hi where i: "interval_arith op p p = Inr (lo, hi)"
    and r: "r = (if op = OpMul \<and> fst p \<le> 0 \<and> snd p \<ge> 0 then 0 else lo, hi)"
    using assms(1) by (auto simp: repeat_ivl_def rbind_eq_Inr)
  from interval_arith_valid [OF i assms(2,2)] r s show ?thesis
    by (auto simp: valid_ivl_def in_i64_def)
qed

interpretation rept: interval_fun "repeat_ivl op" "\<lambda>x. arith_val op x x" for op
  by unfold_locales (auto intro: repeat_ivl_valid dest: repeat_ivl_sound)

lemma arith_val_same:
  assumes "in_i64 x"
  shows "arith_val OpSub x x = 0"
    and "x \<noteq> 0 \<Longrightarrow> arith_val OpDiv x x = 1"
    and "x \<noteq> 0 \<Longrightarrow> arith_val OpMod x x = 0"
    and "x \<noteq> 0 \<Longrightarrow> arith_ok OpDiv x x \<and> arith_ok OpMod x x"
    and "arith_ok OpSub x x"
  using assms
  by (auto simp: arith_val_def arith_ok_def in_i64_def signed_divide_int_def signed_modulo_int_def sgn_if)

lemma repeated_arithmetic_sound:
  assumes ra: "repeated_arithmetic a op = Inr c" and wf: "wf_ranges a"
  shows "wf_ranges c" "x \<in> gam a \<Longrightarrow> arith_val op x x \<in> gam c \<and> arith_ok op x x"
proof -
  have rm: "repeated_arithmetic a op = rg_map a (repeat_ivl op)" if "op = OpAdd \<or> op = OpMul"
    using that by (auto simp: repeated_arithmetic_def repeat_ivl_def [abs_def])
  have in64: "x \<in> gam a \<Longrightarrow> in_i64 x" for x by (rule gam_in_i64 [OF wf])
  have "wf_ranges c \<and> (x \<in> gam a \<longrightarrow> arith_val op x x \<in> gam c \<and> arith_ok op x x)"
  proof (cases op)
    case OpSub
    with ra have "c = mk_interval 0 0" by (simp add: repeated_arithmetic_def)
    with OpSub show ?thesis using in64 by (simp add: arith_val_same) (simp add: valid_ivl_def in_i64_def)
  next
    case OpDiv
    with ra have c: "c = mk_interval 1 1" and z: "0 \<notin> gam a"
      by (auto simp: repeated_arithmetic_def gam_def ivl_set_def list_ex_iff split: if_splits)
    from z have "x \<in> gam a \<Longrightarrow> x \<noteq> 0" by auto
    with c OpDiv show ?thesis using in64 by (auto simp: arith_val_same valid_ivl_def in_i64_def)
  next
    case OpMod
    with ra have c: "c = mk_interval 0 0" and z: "0 \<notin> gam a"
      by (auto simp: repeated_arithmetic_def gam_def ivl_set_def list_ex_iff split: if_splits)
    from z have "x \<in> gam a \<Longrightarrow> x \<noteq> 0" by auto
    with c OpMod show ?thesis using in64 by (auto simp: arith_val_same valid_ivl_def in_i64_def)
  next
    case OpAdd
    with ra rm rept.rg_map_sound [OF _ wf, of op c] gam_in_i64 [of c] show ?thesis
      by (auto simp: arith_ok_def)
  next
    case OpMul
    with ra rm rept.rg_map_sound [OF _ wf, of op c] gam_in_i64 [of c] show ?thesis
      by (auto simp: arith_ok_def)
  qed (use ra in \<open>simp_all add: repeated_arithmetic_def\<close>)
  then show "wf_ranges c" "x \<in> gam a \<Longrightarrow> arith_val op x x \<in> gam c \<and> arith_ok op x x" by auto
qed

section \<open>Joins and comparisons\<close>

lemma join_sound:
  assumes "wf_ranges a" "wf_ranges b"
  shows "wf_ranges (join a b)" "gam a \<union> gam b \<subseteq> gam (join a b)"
proof -
  have v: "valid_ivl p" if "p \<in> set (pieces a @ pieces b)" for p
    using that assms by (auto intro: wf_pieces)
  obtain r where "collect (pieces a @ pieces b) = Some r" "wf_ranges r" "ivl_set (pieces a @ pieces b) \<subseteq> gam r"
    using collect_Some [of "pieces a @ pieces b"] v by (metis append_is_Nil_conv pieces_nonempty)
  then show "wf_ranges (join a b)" "gam a \<union> gam b \<subseteq> gam (join a b)"
    by (auto simp: join_def gam_def)
qed

definition compare_val :: "binop \<Rightarrow> int \<Rightarrow> int \<Rightarrow> bool" where
  "compare_val op x y =
     (case op of OpEq \<Rightarrow> x = y | OpNotEq \<Rightarrow> x \<noteq> y | OpLt \<Rightarrow> x < y | OpLtEq \<Rightarrow> x \<le> y
      | OpGt \<Rightarrow> x > y | OpGtEq \<Rightarrow> x \<ge> y | _ \<Rightarrow> False)"

definition is_comparison :: "binop \<Rightarrow> bool" where
  "is_comparison op \<longleftrightarrow> op \<in> {OpEq, OpNotEq, OpLt, OpLtEq, OpGt, OpGtEq}"

lemma restrict_piece_set:
  "is_comparison op \<Longrightarrow> ivl_set (restrict_piece op n p) = {x \<in> {fst p .. snd p}. compare_val op x n}"
  by (cases p) (auto simp: restrict_piece_def is_comparison_def compare_val_def)

lemma restrict_piece_valid:
  assumes "valid_ivl p" "in_i64 n" "q \<in> set (restrict_piece op n p)"
  shows "valid_ivl q"
proof -
  obtain lo hi where p: "p = (lo, hi)" by (cases p)
  from assms(3) have "fst q \<le> snd q" by (auto simp: restrict_piece_def p)
  moreover have "lo \<le> fst q \<and> snd q \<le> hi"
    using assms(3) by (cases op) (auto simp: restrict_piece_def p split: if_splits)
  ultimately show ?thesis using assms(1) by (auto simp: p valid_ivl_def in_i64_def)
qed

lemma ivl_set_concat: "ivl_set (concat pss) = (\<Union>ps \<in> set pss. ivl_set ps)"
  by (auto simp: ivl_set_def)

lemma restrict_sound:
  assumes "is_comparison op" "wf_ranges r" "in_i64 n"
  shows "restrict r op n = Some r' \<Longrightarrow> wf_ranges r' \<and> {x \<in> gam r. compare_val op x n} \<subseteq> gam r'"
    and "restrict r op n = None \<Longrightarrow> \<not> (\<exists>x \<in> gam r. compare_val op x n)"
proof -
  let ?ps = "concat (map (restrict_piece op n) (pieces r))"
  have eq: "ivl_set ?ps = {x \<in> gam r. compare_val op x n}"
    by (auto simp: ivl_set_concat restrict_piece_set [OF assms(1)] gam_def ivl_set_iff) blast
  have v: "valid_ivl p" if "p \<in> set ?ps" for p
    using that assms(2,3) by (auto intro: restrict_piece_valid wf_pieces)
  show "wf_ranges r' \<and> {x \<in> gam r. compare_val op x n} \<subseteq> gam r'" if "restrict r op n = Some r'"
    using that assms(2) eq collect_sound [of ?ps r'] collect_wf [of ?ps r'] v
    by (auto simp: restrict_def Let_def valid_ivl_def split: if_splits)
  show "\<not> (\<exists>x \<in> gam r. compare_val op x n)" if "restrict r op n = None"
    using that eq collect_None_iff [of ?ps] by (auto simp: restrict_def Let_def split: if_splits)
qed

text \<open>The interval intersection of an equality.\<close>

lemma common_pieces_set: "ivl_set (common_pieces a b) = gam a \<inter> gam b"
proof (rule set_eqI)
  fix x
  have "x \<in> ivl_set (common_pieces a b) \<longleftrightarrow>
    (\<exists>p \<in> set (pieces a). \<exists>q \<in> set (pieces b). max (fst p) (fst q) \<le> x \<and> x \<le> min (snd p) (snd q))"
    unfolding common_pieces_def ivl_set_def by (force simp: split_beta)
  also have "\<dots> \<longleftrightarrow> x \<in> gam a \<inter> gam b" by (auto simp: gam_def ivl_set_def)
  finally show "x \<in> ivl_set (common_pieces a b) \<longleftrightarrow> x \<in> gam a \<inter> gam b" .
qed

lemma constrain_Eq:
  "constrain a OpEq b = (if length (common_pieces a b) > 2 then Some a else collect (common_pieces a b))"
  by (simp add: constrain_def Let_def split: prod.split)

lemma compare_hull:
  assumes "wf_ranges b" "y \<in> gam b" "compare_val op x y"
  shows "op = OpLt \<or> op = OpLtEq \<Longrightarrow> compare_val op x (snd (hull b))"
    "op = OpGt \<or> op = OpGtEq \<Longrightarrow> compare_val op x (fst (hull b))"
  using gam_hull [OF assms(1,2)] assms(3) by (auto simp: compare_val_def)

lemma constrain_eq_sound:
  assumes "wf_ranges a" "wf_ranges b" "x \<in> gam a" "x \<in> gam b"
  shows "\<exists>r. constrain a OpEq b = Some r \<and> x \<in> gam r"
proof -
  have x: "x \<in> ivl_set (common_pieces a b)" using assms(3,4) by (simp add: common_pieces_set)
  then obtain r where r: "collect (common_pieces a b) = Some r"
    using collect_None_iff [of "common_pieces a b"] by fastforce
  with x collect_sound [OF r] assms(3) show ?thesis by (auto simp: constrain_Eq)
qed

lemma constrain_sound:
  assumes op: "is_comparison op" and wf: "wf_ranges a" "wf_ranges b"
    and x: "x \<in> gam a" and y: "y \<in> gam b" and c: "compare_val op x y"
  shows "\<exists>r. constrain a op b = Some r \<and> x \<in> gam r"
proof -
  obtain lo hi where h: "hull b = (lo, hi)" by (cases "hull b")
  have i64: "in_i64 lo" "in_i64 hi" using wf_hull [OF wf(2)] h by (auto simp: valid_ivl_def)
  have rs: "\<exists>r. restrict a op n = Some r \<and> x \<in> gam r" if "compare_val op x n" "in_i64 n" for n
    using restrict_sound [OF op wf(1) that(2)] x that(1) by (cases "restrict a op n") blast+
  note ch = compare_hull [OF wf(2) y c]
  show ?thesis
  proof (cases op)
    case OpEq
    with c have "x \<in> gam b" using y by (simp add: compare_val_def)
    with OpEq wf x show ?thesis by (auto intro: constrain_eq_sound)
  next
    case OpNotEq
    show ?thesis
    proof (cases "lo = hi")
      case True
      with h singleton_hull [OF wf(2) _ y] have "y = lo" by simp
      with OpNotEq True h c rs i64 show ?thesis by (simp add: constrain_def)
    qed (use OpNotEq h x in \<open>simp add: constrain_def\<close>)
  qed (use op h ch rs i64 in \<open>auto simp: constrain_def is_comparison_def\<close>)
qed

lemma constrain_wf:
  assumes op: "is_comparison op" and wf: "wf_ranges a" "wf_ranges b" and c: "constrain a op b = Some r"
  shows "wf_ranges r"
proof -
  obtain lo hi where h: "hull b = (lo, hi)" by (cases "hull b")
  have i64: "in_i64 lo" "in_i64 hi" using wf_hull [OF wf(2)] h by (auto simp: valid_ivl_def)
  note rs = restrict_sound(1) [OF op wf(1)]
  show ?thesis
  proof (cases "op = OpEq")
    case True
    have "in_i64 (fst p) \<and> in_i64 (snd p)" if "p \<in> set (common_pieces a b)" for p
      using that wf_pieces [OF wf(1)] wf_pieces [OF wf(2)]
      by (auto simp: common_pieces_def valid_ivl_def max_def min_def)
    with True c wf(1) collect_wf show ?thesis by (auto simp: constrain_Eq split: if_splits)
  next
    case False
    with op c h i64 rs wf(1) show ?thesis
      by (auto simp: constrain_def is_comparison_def split: if_splits)
  qed
qed

end
