(* ===== verification/Call_Graph.thy ===== *)
theory Call_Graph
  imports Ast
begin

text \<open>
  Traversal of expressions and the call graph that the contract analyses share:
  \<open>walk_expr_children\<close> (\<open>src/src/verifier.rs\<close>), the \<open>calls\<close> collectors and the \<open>participating\<close> closures of
  \<open>src/src/numeric_bounds.rs\<close> and \<open>src/src/text_bounds.rs\<close>. A \<open>BTreeSet<String>\<close> is a \<open>string set\<close>. The
  closure loop is total, and its result is the least set that holds the seeds and is closed under
  callers and callees.
\<close>

section \<open>Children and calls\<close>

definition expr_children :: "expr \<Rightarrow> expr list" where
  "expr_children e = (case e of
     ENumber _ \<Rightarrow> [] | EText _ \<Rightarrow> [] | EBytes _ \<Rightarrow> [] | EIdent _ \<Rightarrow> [] | ERead _ \<Rightarrow> []
   | ERandom _ \<Rightarrow> [] | ENowUnix \<Rightarrow> []
   | EField b _ \<Rightarrow> [b]
   | ENot a \<Rightarrow> [a] | ENeg a \<Rightarrow> [a] | EOk a \<Rightarrow> [a] | EErr a \<Rightarrow> [a] | EJsonEscape a \<Rightarrow> [a] | EParseInt a \<Rightarrow> [a]
   | ELength a \<Rightarrow> [a] | EAbs a \<Rightarrow> [a] | ELe32 a \<Rightarrow> [a] | ELe64 a \<Rightarrow> [a] | EArenaScope a \<Rightarrow> [a]
   | EAbortIf a \<Rightarrow> [a] | EBitNot a \<Rightarrow> [a] | EFetch _ a \<Rightarrow> [a]
   | EBinary _ a b \<Rightarrow> [a, b] | EStartsWith a b \<Rightarrow> [a, b] | EEndsWith a b \<Rightarrow> [a, b] | EContains a b \<Rightarrow> [a, b]
   | EMin a b \<Rightarrow> [a, b] | EMax a b \<Rightarrow> [a, b] | EBitAnd a b \<Rightarrow> [a, b] | EBitOr a b \<Rightarrow> [a, b]
   | EBitXor a b \<Rightarrow> [a, b] | EShl a b \<Rightarrow> [a, b] | EShr a b \<Rightarrow> [a, b] | EByteAt a b \<Rightarrow> [a, b]
   | ETryByteAt a b \<Rightarrow> [a, b] | EQuantifier _ a _ b \<Rightarrow> [a, b] | EMap a _ b \<Rightarrow> [a, b] | EFilter a _ b \<Rightarrow> [a, b]
   | EIf a b c \<Rightarrow> [a, b, c] | ESubstring a b c \<Rightarrow> [a, b, c] | EFold a b _ _ c \<Rightarrow> [a, b, c]
   | EMatchResult s _ ok _ err \<Rightarrow> [s, ok, err]
   | EFoldBytes a b _ _ _ c \<Rightarrow> [a, b, c]
   | ECall _ args \<Rightarrow> args | EConcat args \<Rightarrow> args
   | ERecord _ fs \<Rightarrow> map snd fs | EVariantConstruct _ _ fs \<Rightarrow> map snd fs
   | EMatchVariant s arms \<Rightarrow> s # map arm_body arms)"

lemma size_child [termination_simp]: "c \<in> set (expr_children e) \<Longrightarrow> size c < size e"
  by (cases e) (auto simp: expr_children_def size_args size_fields
    dest: size_fields [of _ _] intro: size_arms less_SucI)

text \<open>The callees of an expression in traversal order; the source inserts them into a set.\<close>

function calls :: "expr \<Rightarrow> string list" where
  "calls e = (case e of ECall n _ \<Rightarrow> [n] | _ \<Rightarrow> []) @ concat (map calls (expr_children e))"
  by pat_completeness auto
termination by (relation "measure size") (auto simp: size_child)

declare calls.simps [simp del]

text \<open>Every integer literal of an expression is an \<open>i64\<close>, which the type of \<open>Expr::Number\<close> ensures.\<close>

function lits_i64 :: "expr \<Rightarrow> bool" where
  "lits_i64 e = ((case e of ENumber n \<Rightarrow> in_i64 n | _ \<Rightarrow> True) \<and> list_all lits_i64 (expr_children e))"
  by pat_completeness auto
termination by (relation "measure size") (auto simp: size_child)

declare lits_i64.simps [simp del]

definition rule_deps :: "rule \<Rightarrow> string list" where
  "rule_deps r = concat (map (\<lambda>(_, e). calls e) (l_bindings (r_logic r))) @ calls (l_value (r_logic r))"

section \<open>Closure of a contract over the call graph\<close>

type_synonym edges = "(string \<times> string list) list"

fun sweep :: "edges \<Rightarrow> string set \<Rightarrow> string set" where
  "sweep [] active = active"
| "sweep ((name, deps) # es) active =
     (if name \<in> active \<or> (\<exists>d \<in> set deps. d \<in> active)
      then sweep es (insert name active \<union> set deps) else sweep es active)"

definition call_edges :: "rule list \<Rightarrow> edges" where
  "call_edges rules = map (\<lambda>r. (r_name r, rule_deps r)) rules"

definition edge_names :: "edges \<Rightarrow> string set" where
  "edge_names es = (\<Union>(n, ds) \<in> set es. insert n (set ds))"

lemma sweep_mono: "active \<subseteq> sweep es active"
  by (induction es active rule: sweep.induct) auto

lemma sweep_bound: "sweep es active \<subseteq> active \<union> edge_names es"
proof (induction es active rule: sweep.induct)
  case (2 name deps es active)
  then show ?case by (auto simp: edge_names_def)
qed simp

lemma finite_edge_names: "finite (edge_names es)"
  by (auto simp: edge_names_def)

text \<open>The \<open>loop\<close> compares the number of active names before and after a sweep.\<close>

function closure_loop :: "edges \<Rightarrow> string set \<Rightarrow> string set" where
  "closure_loop es active =
     (if card (sweep es active) = card active then sweep es active
      else closure_loop es (sweep es active))"
  by pat_completeness auto
termination
proof (relation "measure (\<lambda>(es, active). card (edge_names es - active))", simp, clarsimp)
  fix es active
  assume "card (sweep es active) \<noteq> card active"
  with sweep_mono [of active es] obtain x where "x \<in> sweep es active" "x \<notin> active"
    by (metis subsetI subset_antisym)
  then have "edge_names es - sweep es active \<subset> edge_names es - active"
    using sweep_mono [of active es] sweep_bound [of es active] by blast
  then show "card (edge_names es - sweep es active) < card (edge_names es - active)"
    by (simp add: finite_edge_names psubset_card_mono)
qed

declare closure_loop.simps [simp del]

definition has_contract :: "rule \<Rightarrow> bool" where
  "has_contract r \<longleftrightarrow> (case r_hints r of None \<Rightarrow> False | Some h \<Rightarrow> h_overflow h \<noteq> None)"

definition numeric_participating :: "rule list \<Rightarrow> string set" where
  "numeric_participating rules =
     (let active = set (map r_name (filter has_contract rules))
      in if active = {} then active else closure_loop (call_edges rules) active)"

definition text_participating :: "rule list \<Rightarrow> string set" where
  "text_participating rules =
     (let active = set (map r_name (filter (\<lambda>r. r_output_text_max r \<noteq> None) rules))
      in if active = {} then active else closure_loop (call_edges rules) active)"

section \<open>The closure is the least closed set\<close>

definition closed_under :: "edges \<Rightarrow> string set \<Rightarrow> bool" where
  "closed_under es A \<longleftrightarrow>
     (\<forall>(n, ds) \<in> set es. n \<in> A \<or> (\<exists>d \<in> set ds. d \<in> A) \<longrightarrow> insert n (set ds) \<subseteq> A)"

lemma sweep_least: "closed_under es B \<Longrightarrow> A \<subseteq> B \<Longrightarrow> sweep es A \<subseteq> B"
proof (induction es A rule: sweep.induct)
  case (2 name deps es A)
  then show ?case by (auto simp: closed_under_def)
qed simp

lemma closed_if_sweep_fixed: "sweep es A = A \<Longrightarrow> closed_under es A"
proof (induction es A rule: sweep.induct)
  case (2 n ds es A)
  show ?case
  proof (cases "n \<in> A \<or> (\<exists>d \<in> set ds. d \<in> A)")
    case True
    with 2 have eq: "sweep es (insert n A \<union> set ds) = A" by auto
    with sweep_mono have sub: "insert n A \<union> set ds \<subseteq> A" by metis
    then have "insert n A \<union> set ds = A" by auto
    with 2 True eq have "closed_under es A" by auto
    with sub show ?thesis by (auto simp: closed_under_def)
  next
    case False
    with 2 show ?thesis by (auto simp: closed_under_def)
  qed
qed (simp add: closed_under_def)

lemma closure_loop_correct:
  assumes "finite A"
  shows "A \<subseteq> closure_loop es A" "closed_under es (closure_loop es A)"
    "closed_under es B \<Longrightarrow> A \<subseteq> B \<Longrightarrow> closure_loop es A \<subseteq> B"
proof -
  have "A \<subseteq> closure_loop es A \<and> closed_under es (closure_loop es A) \<and>
    (closed_under es B \<longrightarrow> A \<subseteq> B \<longrightarrow> closure_loop es A \<subseteq> B)"
    using assms
  proof (induction es A rule: closure_loop.induct)
    case (1 es A)
    have fin: "finite (sweep es A)"
      using 1 sweep_bound finite_edge_names by (metis finite_UnI finite_subset)
    show ?case
    proof (cases "card (sweep es A) = card A")
      case True
      then have "sweep es A = A" using card_subset_eq [OF fin sweep_mono] by simp
      then show ?thesis
        using True by (subst (1 2 3) closure_loop.simps) (simp add: closed_if_sweep_fixed)
    next
      case False
      have "closure_loop es A = closure_loop es (sweep es A)"
        using False by (subst closure_loop.simps) simp
      with "1.IH" [OF False fin] sweep_mono [of A es] sweep_least [of es B A] show ?thesis by auto
    qed
  qed
  then show "A \<subseteq> closure_loop es A" "closed_under es (closure_loop es A)"
    "closed_under es B \<Longrightarrow> A \<subseteq> B \<Longrightarrow> closure_loop es A \<subseteq> B" by auto
qed

text \<open>
  A contract's scope: the rules that declare it (\<open>seed\<close>) and \<open>part\<close>, the names the analysis runs over.
  Whatever an analysis proves for every participating rule it may use for every callee of one.
\<close>

locale contract_scope =
  fixes seed :: "rule \<Rightarrow> bool" and part :: "rule list \<Rightarrow> string set"
  assumes part_eq: "part rules =
    (let active = set (map r_name (filter seed rules))
     in if active = {} then active else closure_loop (call_edges rules) active)"
begin

lemma seed_in_part: "r \<in> set rules \<Longrightarrow> seed r \<Longrightarrow> r_name r \<in> part rules"
proof -
  assume r: "r \<in> set rules" "seed r"
  let ?A = "set (map r_name (filter seed rules))"
  have "r_name r \<in> ?A" using r by simp
  moreover from this have "part rules = closure_loop (call_edges rules) ?A"
    unfolding part_eq Let_def by (metis empty_iff)
  ultimately show ?thesis using closure_loop_correct(1) [of ?A] by blast
qed

lemma part_closed: "closed_under (call_edges rules) (part rules)"
  unfolding part_eq Let_def
  by (simp add: closure_loop_correct(2) del: set_map set_filter) (auto simp: closed_under_def)

lemma callee_in_part: "r \<in> set rules \<Longrightarrow> r_name r \<in> part rules \<Longrightarrow> n \<in> set (rule_deps r) \<Longrightarrow> n \<in> part rules"
  using part_closed [of rules] by (force simp: closed_under_def call_edges_def)

lemma caller_in_part: "r \<in> set rules \<Longrightarrow> n \<in> set (rule_deps r) \<Longrightarrow> n \<in> part rules \<Longrightarrow> r_name r \<in> part rules"
  using part_closed [of rules] by (force simp: closed_under_def call_edges_def)

lemma part_least:
  assumes "\<And>r. r \<in> set rules \<Longrightarrow> seed r \<Longrightarrow> r_name r \<in> B" "closed_under (call_edges rules) B"
  shows "part rules \<subseteq> B"
proof -
  have "set (map r_name (filter seed rules)) \<subseteq> B" using assms(1) by auto
  then show ?thesis
    using closure_loop_correct(3) [OF _ assms(2)] by (simp add: part_eq Let_def)
qed

lemma finite_part: "finite (part rules)"
  by (rule finite_subset [OF part_least [of _ "set (map r_name rules) \<union> edge_names (call_edges rules)"]])
     (auto simp: closed_under_def edge_names_def call_edges_def)

end

interpretation num_scope: contract_scope has_contract numeric_participating
  by unfold_locales (simp add: numeric_participating_def)

interpretation text_scope: contract_scope "\<lambda>r. r_output_text_max r \<noteq> None" text_participating
  by unfold_locales (simp add: text_participating_def)

end
