(* ===== verification/Guards.thy ===== *)
theory Guards
  imports Ranges Call_Graph
begin

text \<open>
  Branch-local numeric facts (\<open>src/src/numeric_bounds/guards.rs\<close>): the lexical scope of the overflow
  analysis, the refinement of scalar domains by a condition that is known to hold or to fail, and the
  soundness of that refinement against the concrete scalars of a run.
\<close>

datatype nval = NNumber ranges | NBool

definition nv_number :: "nval \<Rightarrow> num_error + ranges" where
  "nv_number v = (case v of NNumber r \<Rightarrow> Inr r | NBool \<Rightarrow> Inl ExpectedNumber)"

definition nv_boolean :: "nval \<Rightarrow> num_error + unit" where
  "nv_boolean v = (case v of NBool \<Rightarrow> Inr () | NNumber _ \<Rightarrow> Inl ExpectedBool)"

definition nv_ty :: "nval \<Rightarrow> vtype" where
  "nv_ty v = (case v of NNumber _ \<Rightarrow> TNumber | NBool \<Rightarrow> TBool)"

datatype place = PLocal string | PField string

record scope =
  sc_locals :: "string \<rightharpoonup> nval"
  sc_concept :: concept
  sc_input :: string
  sc_local_facts :: "string \<rightharpoonup> ranges"
  sc_field_facts :: "string \<rightharpoonup> ranges"

definition scope_new :: "rule \<Rightarrow> concept \<Rightarrow> (string \<rightharpoonup> nval) \<Rightarrow> scope" where
  "scope_new r c locals =
     \<lparr>sc_locals = locals, sc_concept = c, sc_input = r_input_name r,
      sc_local_facts = Map.empty, sc_field_facts = Map.empty\<rparr>"

definition scope_local :: "scope \<Rightarrow> string \<Rightarrow> nval option" where
  "scope_local sc name =
     (case sc_locals sc name of
        None \<Rightarrow> None
      | Some (NNumber rg) \<Rightarrow>
          Some (NNumber (case sc_local_facts sc name of Some f \<Rightarrow> f | None \<Rightarrow> rg))
      | Some NBool \<Rightarrow> Some NBool)"

definition declared_range :: "field \<Rightarrow> ranges" where
  "declared_range f = (case f_range f of None \<Rightarrow> mk_interval i64_MIN i64_MAX | Some (lo, hi) \<Rightarrow> mk_interval lo hi)"

definition scope_field :: "scope \<Rightarrow> string \<Rightarrow> ranges option" where
  "scope_field sc name =
     (case find (\<lambda>f. f_name f = name \<and> f_ty f = TNumber) (c_fields (sc_concept sc)) of
        None \<Rightarrow> None
      | Some f \<Rightarrow> Some (case sc_field_facts sc name of Some rg \<Rightarrow> rg | None \<Rightarrow> declared_range f))"

text \<open>A direct read of the unshadowed input record.\<close>

definition is_input :: "scope \<Rightarrow> expr \<Rightarrow> bool" where
  "is_input sc e = (case e of EIdent n \<Rightarrow> n = sc_input sc \<and> sc_locals sc n = None | _ \<Rightarrow> False)"

definition scope_scalar :: "scope \<Rightarrow> expr \<Rightarrow> (place \<times> ranges) option" where
  "scope_scalar sc e =
     (case e of
        EIdent n \<Rightarrow>
          (case scope_local sc n of Some (NNumber rg) \<Rightarrow> Some (PLocal n, rg) | _ \<Rightarrow> None)
      | EField base n \<Rightarrow>
          (if is_input sc base
           then (case scope_field sc n of Some rg \<Rightarrow> Some (PField n, rg) | None \<Rightarrow> None) else None)
      | _ \<Rightarrow> None)"

definition same_scalar :: "scope \<Rightarrow> expr \<Rightarrow> expr \<Rightarrow> bool" where
  "same_scalar sc l r =
     (case (scope_scalar sc l, scope_scalar sc r) of
        (Some (p, _), Some (q, _)) \<Rightarrow> p = q | _ \<Rightarrow> False)"

definition literal :: "expr \<Rightarrow> int option" where
  "literal e =
     (case e of
        ENumber n \<Rightarrow> Some n
      | ENeg n \<Rightarrow> (case n of ENumber m \<Rightarrow> checked_neg m | _ \<Rightarrow> None)
      | _ \<Rightarrow> None)"

definition scope_operand :: "scope \<Rightarrow> expr \<Rightarrow> (place option \<times> ranges) option" where
  "scope_operand sc e =
     (case scope_scalar sc e of
        Some (p, rg) \<Rightarrow> Some (Some p, rg)
      | None \<Rightarrow> (case literal e of Some n \<Rightarrow> Some (None, mk_interval n n) | None \<Rightarrow> None))"

definition scope_record :: "place option \<Rightarrow> ranges \<Rightarrow> scope \<Rightarrow> scope" where
  "scope_record p rg sc =
     (case p of
        Some (PLocal n) \<Rightarrow> sc\<lparr>sc_local_facts := (sc_local_facts sc)(n \<mapsto> rg)\<rparr>
      | Some (PField n) \<Rightarrow> sc\<lparr>sc_field_facts := (sc_field_facts sc)(n \<mapsto> rg)\<rparr>
      | None \<Rightarrow> sc)"

definition comparison :: "binop \<Rightarrow> bool \<Rightarrow> binop option" where
  "comparison op truth =
     map_option (\<lambda>opposite. if truth then op else opposite)
       (case op of
          OpEq \<Rightarrow> Some OpNotEq | OpNotEq \<Rightarrow> Some OpEq | OpLt \<Rightarrow> Some OpGtEq
        | OpLtEq \<Rightarrow> Some OpGt | OpGt \<Rightarrow> Some OpLtEq | OpGtEq \<Rightarrow> Some OpLt | _ \<Rightarrow> None)"

definition reverse_op :: "binop \<Rightarrow> binop" where
  "reverse_op op = (case op of OpLt \<Rightarrow> OpGt | OpLtEq \<Rightarrow> OpGtEq | OpGt \<Rightarrow> OpLt | OpGtEq \<Rightarrow> OpLtEq | _ \<Rightarrow> op)"

text \<open>
  The comparison case of \<open>assume\<close>: \<open>None\<close> is the source's \<open>false\<close> (the guard contradicts the facts).
\<close>

definition assume_comparison :: "binop \<Rightarrow> expr \<Rightarrow> expr \<Rightarrow> bool \<Rightarrow> scope \<Rightarrow> scope option" where
  "assume_comparison op a b truth sc =
     (case comparison op truth of
        None \<Rightarrow> Some sc
      | Some op' \<Rightarrow>
          (case (scope_operand sc a, scope_operand sc b) of
             (Some (pa, ra), Some (pb, rb)) \<Rightarrow>
               (if pa = pb then Some sc
                else case constrain ra op' rb of
                       None \<Rightarrow> None
                     | Some ra' \<Rightarrow>
                         (case constrain rb (reverse_op op') ra of
                            None \<Rightarrow> None
                          | Some rb' \<Rightarrow> Some (scope_record pb rb' (scope_record pa ra' sc))))
           | _ \<Rightarrow> Some sc))"

fun scope_assume :: "expr \<Rightarrow> bool \<Rightarrow> scope \<Rightarrow> scope option" where
  "scope_assume (ENot e) truth sc = scope_assume e (\<not> truth) sc"
| "scope_assume (EBinary op a b) truth sc =
     (if op = OpAnd \<and> truth then
        (case scope_assume a True sc of None \<Rightarrow> None | Some sc' \<Rightarrow> scope_assume b True sc')
      else if op = OpOr \<and> \<not> truth then
        (case scope_assume a False sc of None \<Rightarrow> None | Some sc' \<Rightarrow> scope_assume b False sc')
      else assume_comparison op a b truth sc)"
| "scope_assume _ truth sc = Some sc"

definition scope_branch :: "scope \<Rightarrow> expr \<Rightarrow> bool \<Rightarrow> scope" where
  "scope_branch sc cond truth = (case scope_assume cond truth sc of Some sc' \<Rightarrow> sc' | None \<Rightarrow> sc)"

lemma lits_simps:
  "lits_i64 (ENumber n) \<longleftrightarrow> in_i64 n"
  "lits_i64 (EIf a b c) \<longleftrightarrow> lits_i64 a \<and> lits_i64 b \<and> lits_i64 c"
  "lits_i64 (ENot a) \<longleftrightarrow> lits_i64 a" "lits_i64 (ENeg a) \<longleftrightarrow> lits_i64 a" "lits_i64 (EAbs a) \<longleftrightarrow> lits_i64 a"
  "lits_i64 (EMin a b) \<longleftrightarrow> lits_i64 a \<and> lits_i64 b" "lits_i64 (EMax a b) \<longleftrightarrow> lits_i64 a \<and> lits_i64 b"
  "lits_i64 (EBinary op a b) \<longleftrightarrow> lits_i64 a \<and> lits_i64 b"
  by (subst lits_i64.simps; simp add: expr_children_def)+

lemma literal_i64: "literal e = Some n \<Longrightarrow> lits_i64 e \<Longrightarrow> in_i64 n"
  by (auto simp: literal_def checked_neg_def lits_simps in_i64_def split: expr.splits if_splits)

lemma scope_local_record:
  "scope_local (scope_record p rg sc) n = Some (NNumber r) \<Longrightarrow>
     (p = Some (PLocal n) \<and> r = rg) \<or> scope_local sc n = Some (NNumber r)"
  by (auto simp: scope_local_def scope_record_def split: option.splits place.splits nval.splits if_splits)

lemma scope_field_record:
  "scope_field (scope_record p rg sc) n = Some r \<Longrightarrow>
     (p = Some (PField n) \<and> r = rg) \<or> scope_field sc n = Some r"
  by (auto simp: scope_field_def scope_record_def split: option.splits place.splits if_splits)

lemma comparison_truth:
  assumes "comparison op t = Some op'"
  shows "is_comparison op \<and> is_comparison op' \<and> compare_val op' x y = (compare_val op x y = t)"
  using assms by (cases op; cases t) (auto simp: comparison_def is_comparison_def compare_val_def)

lemma reverse_op_sound:
  "is_comparison op \<Longrightarrow> is_comparison (reverse_op op) \<and> compare_val (reverse_op op) y x = compare_val op x y"
  by (cases op) (auto simp: is_comparison_def reverse_op_def compare_val_def)

section \<open>Well-formed scopes\<close>

definition scope_wf :: "scope \<Rightarrow> bool" where
  "scope_wf sc \<longleftrightarrow> (\<forall>n rg. scope_local sc n = Some (NNumber rg) \<longrightarrow> wf_ranges rg)
     \<and> (\<forall>n rg. scope_field sc n = Some rg \<longrightarrow> wf_ranges rg)"

lemma scope_operand_wf:
  assumes "scope_operand sc e = Some (p, rg)" "scope_wf sc" "lits_i64 e"
  shows "wf_ranges rg"
proof (cases "scope_scalar sc e")
  case (Some a)
  then have "wf_ranges (snd a)" using assms(2)
    by (auto simp: scope_scalar_def scope_wf_def split: expr.splits option.splits nval.splits if_splits)
  with Some assms(1) show ?thesis by (auto simp: scope_operand_def split: prod.splits)
next
  case None
  with assms(1) literal_i64 [OF _ assms(3)] show ?thesis
    by (auto simp: scope_operand_def valid_ivl_def split: option.splits)
qed

lemma scope_record_wf: "scope_wf sc \<Longrightarrow> wf_ranges rg \<Longrightarrow> scope_wf (scope_record p rg sc)"
  by (auto simp: scope_wf_def dest!: scope_local_record scope_field_record)

lemma assume_comparison_wf:
  assumes "assume_comparison op a b t sc = Some sc'" "scope_wf sc" "lits_i64 a" "lits_i64 b"
  shows "scope_wf sc'"
proof (cases "sc' = sc")
  case False
  with assms(1) obtain op' pa ra pb rb ra' rb' where c: "comparison op t = Some op'"
    and oa: "scope_operand sc a = Some (pa, ra)" and ob: "scope_operand sc b = Some (pb, rb)"
    and k: "constrain ra op' rb = Some ra'" "constrain rb (reverse_op op') ra = Some rb'"
    and sc': "sc' = scope_record pb rb' (scope_record pa ra' sc)"
    by (auto simp: assume_comparison_def split: option.splits if_splits)
  note wf = scope_operand_wf [OF oa assms(2,3)] scope_operand_wf [OF ob assms(2,4)]
  from comparison_truth [OF c] reverse_op_sound [of op'] constrain_wf [OF _ wf k(1)] constrain_wf [OF _ wf(2,1) k(2)]
  have "wf_ranges ra'" "wf_ranges rb'" by auto
  with sc' assms(2) show ?thesis by (simp add: scope_record_wf)
qed (use assms(2) in simp)

lemma scope_assume_wf:
  "scope_assume cond t sc = Some sc' \<Longrightarrow> scope_wf sc \<Longrightarrow> lits_i64 cond \<Longrightarrow> scope_wf sc'"
  by (induction cond t sc arbitrary: sc' rule: scope_assume.induct)
     (auto simp: lits_simps assume_comparison_wf split: option.splits if_splits)

lemma scope_branch_wf: "scope_wf sc \<Longrightarrow> lits_i64 cond \<Longrightarrow> scope_wf (scope_branch sc cond t)"
  using scope_assume_wf [of cond t sc] by (auto simp: scope_branch_def split: option.splits)

section \<open>Soundness of the refinement\<close>

definition holds_at :: "(expr \<Rightarrow> int \<Rightarrow> bool) \<Rightarrow> expr \<Rightarrow> ranges \<Rightarrow> bool" where
  "holds_at ev_n e rg \<longleftrightarrow> wf_ranges rg \<and> (\<exists>x \<in> gam rg. ev_n e x)"

definition scope_sound :: "(expr \<Rightarrow> int \<Rightarrow> bool) \<Rightarrow> scope \<Rightarrow> bool" where
  "scope_sound ev_n sc \<longleftrightarrow>
     (\<forall>n rg. scope_local sc n = Some (NNumber rg) \<longrightarrow> holds_at ev_n (EIdent n) rg) \<and>
     (sc_locals sc (sc_input sc) = None \<longrightarrow>
        (\<forall>n rg. scope_field sc n = Some rg \<longrightarrow> holds_at ev_n (EField (EIdent (sc_input sc)) n) rg))"

definition place_expr :: "scope \<Rightarrow> place \<Rightarrow> expr" where
  "place_expr sc p = (case p of PLocal n \<Rightarrow> EIdent n | PField n \<Rightarrow> EField (EIdent (sc_input sc)) n)"

definition extends :: "(expr \<Rightarrow> int \<Rightarrow> bool) \<Rightarrow> scope \<Rightarrow> scope \<Rightarrow> bool" where
  "extends ev_n sc' sc \<longleftrightarrow> scope_sound ev_n sc' \<and> sc_locals sc' = sc_locals sc \<and> sc_input sc' = sc_input sc
     \<and> sc_concept sc' = sc_concept sc"

text \<open>
  What the refinement needs to know of evaluation in one environment: \<open>ev_n e x\<close>, the scalar \<open>e\<close> always
  evaluates to \<open>x\<close>; \<open>ev_b e t\<close>, some run of the condition \<open>e\<close> gave \<open>t\<close>. The interpreter provides these
  laws for every environment.
\<close>

locale guard_semantics =
  fixes ev_n :: "expr \<Rightarrow> int \<Rightarrow> bool" and ev_b :: "expr \<Rightarrow> bool \<Rightarrow> bool"
  assumes ev_number: "ev_n (ENumber n) n"
    and ev_neg: "in_i64 (- n) \<Longrightarrow> ev_n (ENeg (ENumber n)) (- n)"
    and ev_not: "ev_b (ENot e) t \<Longrightarrow> ev_b e (\<not> t)"
    and ev_and: "ev_b (EBinary OpAnd a b) True \<Longrightarrow> ev_b a True \<and> ev_b b True"
    and ev_or: "ev_b (EBinary OpOr a b) False \<Longrightarrow> ev_b a False \<and> ev_b b False"
    and ev_compare: "ev_b (EBinary op a b) t \<Longrightarrow> is_comparison op \<Longrightarrow> ev_n a x \<Longrightarrow> ev_n b y \<Longrightarrow>
      compare_val op x y = t"
begin

lemma scope_scalar_sound:
  assumes "scope_scalar sc e = Some (p, rg)" "scope_sound ev_n sc"
  shows "holds_at ev_n e rg \<and> e = place_expr sc p"
  using assms unfolding scope_scalar_def scope_sound_def place_expr_def
  by (auto simp: is_input_def split: expr.splits option.splits nval.splits if_splits)

lemma scope_operand_sound:
  assumes "scope_operand sc e = Some (p, rg)" "scope_sound ev_n sc" "lits_i64 e"
  shows "holds_at ev_n e rg \<and> (\<forall>q. p = Some q \<longrightarrow> e = place_expr sc q)"
proof (cases "scope_scalar sc e")
  case (Some a)
  with assms(1) obtain q where "a = (q, rg)" "p = Some q" by (cases a) (auto simp: scope_operand_def)
  with scope_scalar_sound [of sc e q rg] Some assms(2) show ?thesis by auto
next
  case None
  with assms(1) obtain n where n: "literal e = Some n" "p = None" "rg = mk_interval n n"
    by (auto simp: scope_operand_def split: option.splits)
  have "ev_n e n \<and> in_i64 n"
    using n(1) assms(3) ev_number [of n] ev_neg
    by (fastforce simp: literal_def checked_neg_def lits_i64.simps [of e] lits_i64.simps [of "ENumber _"]
      expr_children_def in_i64_def split: expr.splits if_splits)
  with n show ?thesis by (auto simp: holds_at_def valid_ivl_def)
qed

lemma scope_record_keeps:
  "sc_locals (scope_record p rg sc) = sc_locals sc" "sc_input (scope_record p rg sc) = sc_input sc"
  "sc_concept (scope_record p rg sc) = sc_concept sc"
  by (auto simp: scope_record_def split: option.splits place.splits)

lemma place_expr_record [simp]: "place_expr (scope_record p rg sc) q = place_expr sc q"
  by (cases q) (simp_all add: place_expr_def scope_record_keeps)

lemma scope_record_sound:
  assumes "scope_sound ev_n sc" "\<And>q. p = Some q \<Longrightarrow> holds_at ev_n (place_expr sc q) rg"
  shows "scope_sound ev_n (scope_record p rg sc)"
  using assms(1) assms(2) [of "PLocal _"] assms(2) [of "PField _"] unfolding scope_sound_def
  by (auto simp: scope_record_keeps place_expr_def dest!: scope_local_record scope_field_record)

lemma assume_comparison_sound:
  assumes sc: "scope_sound ev_n sc" and run: "ev_b (EBinary op a b) t" and lit: "lits_i64 a" "lits_i64 b"
  shows "\<exists>sc'. assume_comparison op a b t sc = Some sc' \<and> extends ev_n sc' sc"
proof (cases "\<exists>op' pa ra pb rb. comparison op t = Some op' \<and> scope_operand sc a = Some (pa, ra)
    \<and> scope_operand sc b = Some (pb, rb) \<and> pa \<noteq> pb")
  case False
  then have "assume_comparison op a b t sc = Some sc"
    by (auto simp: assume_comparison_def split: option.splits)
  with sc show ?thesis by (simp add: extends_def)
next
  case True
  then obtain op' pa ra pb rb where c: "comparison op t = Some op'" "pa \<noteq> pb"
    and oa: "scope_operand sc a = Some (pa, ra)" and ob: "scope_operand sc b = Some (pb, rb)" by auto
  note sa = scope_operand_sound [OF oa sc lit(1)] and sb = scope_operand_sound [OF ob sc lit(2)]
  from sa sb obtain x y where x: "x \<in> gam ra" "ev_n a x" "wf_ranges ra" and y: "y \<in> gam rb" "ev_n b y" "wf_ranges rb"
    by (auto simp: holds_at_def)
  from comparison_truth [OF c(1), of x y] ev_compare [OF run _ x(2) y(2)]
  have op': "is_comparison op'" "compare_val op' x y" by auto
  with reverse_op_sound [of op' y x] have rev: "is_comparison (reverse_op op')" "compare_val (reverse_op op') y x"
    by auto
  obtain ra' where ra': "constrain ra op' rb = Some ra'" "x \<in> gam ra'"
    using constrain_sound [OF op'(1) x(3) y(3) x(1) y(1) op'(2)] by auto
  obtain rb' where rb': "constrain rb (reverse_op op') ra = Some rb'" "y \<in> gam rb'"
    using constrain_sound [OF rev(1) y(3) x(3) y(1) x(1) rev(2)] by auto
  have wf: "wf_ranges ra'" "wf_ranges rb'"
    using constrain_wf [OF op'(1) x(3) y(3) ra'(1)] constrain_wf [OF rev(1) y(3) x(3) rb'(1)] by auto
  let ?sc1 = "scope_record pa ra' sc"
  have s1: "scope_sound ev_n ?sc1"
    by (rule scope_record_sound [OF sc]) (use sa x ra' wf in \<open>auto simp: holds_at_def\<close>)
  have "scope_sound ev_n (scope_record pb rb' ?sc1)"
    by (rule scope_record_sound [OF s1])
       (use sb y rb' wf in \<open>auto simp: holds_at_def\<close>)
  with c oa ob ra' rb' show ?thesis
    by (auto simp: assume_comparison_def extends_def scope_record_keeps)
qed

lemma scope_assume_sound:
  "scope_sound ev_n sc \<Longrightarrow> ev_b cond t \<Longrightarrow> lits_i64 cond \<Longrightarrow> \<exists>sc'. scope_assume cond t sc = Some sc' \<and> extends ev_n sc' sc"
proof (induction cond t sc rule: scope_assume.induct)
  case (1 e t sc)
  then show ?case using ev_not by (simp add: lits_simps)
next
  case (2 op a b t sc)
  have both: ?case if br: "op = OpAnd \<and> t \<or> op = OpOr \<and> \<not> t"
  proof -
    have "ev_b a t \<and> ev_b b t" using br "2.prems" ev_and [of a b] ev_or [of a b] by auto
    moreover obtain sc1 where s1: "scope_assume a t sc = Some sc1" "extends ev_n sc1 sc"
      using br "2.IH"(1) "2.IH"(3) "2.prems" calculation by (cases t) (auto simp: lits_simps)
    ultimately obtain sc2 where "scope_assume b t sc1 = Some sc2" "extends ev_n sc2 sc1"
      using br "2.IH"(2) [of sc1] "2.IH"(4) [of sc1] "2.prems" by (cases t) (auto simp: lits_simps extends_def)
    with s1 br show ?thesis by (auto simp: extends_def)
  qed
  show ?case
  proof (cases "op = OpAnd \<and> t \<or> op = OpOr \<and> \<not> t")
    case False
    then have "scope_assume (EBinary op a b) t sc = assume_comparison op a b t sc" by auto
    with assume_comparison_sound "2.prems" show ?thesis by (simp add: lits_simps)
  qed (rule both)
qed (simp_all add: extends_def)

lemma scope_branch_sound:
  "scope_sound ev_n sc \<Longrightarrow> ev_b cond t \<Longrightarrow> lits_i64 cond \<Longrightarrow> extends ev_n (scope_branch sc cond t) sc"
  using scope_assume_sound [of sc cond t] by (auto simp: scope_branch_def)

end

end
