(* ===== verification/Cached_Analysis.thy ===== *)
theory Cached_Analysis
  imports Rust_Prelude
begin

text \<open>
  The shape that the contract checkers share: steps over a state that survives an error (\<open>&mut self\<close>),
  and a memoised recursion over rules, bounded by the names under visit. The locale \<open>cached_rules\<close>
  proves once that everything such a recursion returns or caches has the property that the body
  establishes; each checker interprets it.
\<close>

section \<open>Steps over a surviving state\<close>

definition cret :: "'a \<Rightarrow> 's \<Rightarrow> ('e + 'a) \<times> 's" where
  "cret a st = (Inr a, st)"

definition cfail :: "'e \<Rightarrow> 's \<Rightarrow> ('e + 'a) \<times> 's" where
  "cfail e st = (Inl e, st)"

definition clift :: "'e + 'a \<Rightarrow> 's \<Rightarrow> ('e + 'a) \<times> 's" where
  "clift r st = (r, st)"

definition cmap_err :: "('e \<Rightarrow> 'f) \<Rightarrow> ('s \<Rightarrow> ('e + 'a) \<times> 's) \<Rightarrow> 's \<Rightarrow> ('f + 'a) \<times> 's" where
  "cmap_err g m st = (case m st of (r, st') \<Rightarrow> (rmap_err g r, st'))"

lemma cmap_err_eq_Inr [res_simps]: "cmap_err g m st = (Inr a, st') \<longleftrightarrow> m st = (Inr a, st')"
  by (auto simp: cmap_err_def split: prod.splits)

lemma clift_eq_Inr [res_simps]: "clift x st = (Inr a, st') \<longleftrightarrow> x = Inr a \<and> st' = st"
  by (auto simp: clift_def)

lemma cret_eq_Inr [res_simps]: "cret x st = (Inr a, st') \<longleftrightarrow> x = a \<and> st' = st"
  by (auto simp: cret_def)

lemma cfail_eq_Inr [res_simps]: "cfail x st = (Inr a, st') \<longleftrightarrow> False"
  by (simp add: cfail_def)

lemma cbind_cong:
  "\<lbrakk>s = s'; m s' = m' s'; \<And>a t. m' s' = (Inr a, t) \<Longrightarrow> f a t = f' a t\<rbrakk> \<Longrightarrow> cbind m f s = cbind m' f' s'"
  by (auto simp: cbind_def split: prod.splits sum.splits)

lemma cmap_err_cong: "\<lbrakk>s = s'; m s' = m' s'\<rbrakk> \<Longrightarrow> cmap_err g m s = cmap_err g m' s'"
  by (simp add: cmap_err_def)

text \<open>\<open>ok_or\<close>: a missing value is an error.\<close>

definition ok_or :: "'e \<Rightarrow> 'a option \<Rightarrow> 'e + 'a" where
  "ok_or e x = (case x of None \<Rightarrow> Inl e | Some a \<Rightarrow> Inr a)"

lemma ok_or_eq_Inr [res_simps]: "ok_or e x = Inr a \<longleftrightarrow> x = Some a"
  by (cases x) (simp_all add: ok_or_def)

text \<open>Collecting pairs into a \<open>HashMap\<close>: a later key replaces an earlier one.\<close>

definition collect_map :: "('k \<times> 'v) list \<Rightarrow> 'k \<rightharpoonup> 'v" where
  "collect_map kvs = map_of (rev kvs)"

lemma collect_map_find:
  assumes "distinct (map f xs)"
  shows "collect_map (map (\<lambda>x. (f x, x)) xs) n = find (\<lambda>x. f x = n) xs"
proof -
  have "map_of (rev (map (\<lambda>x. (f x, x)) xs)) = map_of (map (\<lambda>x. (f x, x)) xs)"
    using assms by (subst map_of_inject_set) (auto simp: comp_def rev_map [symmetric])
  moreover have "map_of (map (\<lambda>x. (f x, x)) xs) n = find (\<lambda>x. f x = n) xs"
    by (induction xs) auto
  ultimately show ?thesis by (simp add: collect_map_def)
qed

section \<open>State invariants\<close>

definition keeps :: "('s \<Rightarrow> bool) \<Rightarrow> ('s \<Rightarrow> 'r \<times> 's) \<Rightarrow> bool" where
  "keeps P m \<longleftrightarrow> (\<forall>st. P st \<longrightarrow> P (snd (m st)))"

lemma keepsD: "keeps P m \<Longrightarrow> P st \<Longrightarrow> m st = (r, st') \<Longrightarrow> P st'"
  by (metis keeps_def snd_conv)

lemma keeps_basic [simp]: "keeps P (cret a)" "keeps P (cfail e)" "keeps P (clift x)"
  by (simp_all add: keeps_def cret_def cfail_def clift_def)

lemma keeps_cbind: "keeps P m \<Longrightarrow> (\<And>a. keeps P (f a)) \<Longrightarrow> keeps P (cbind m f)"
  by (auto simp: keeps_def cbind_def split: prod.splits sum.splits)

lemma keeps_map_err [simp]: "keeps P m \<Longrightarrow> keeps P (cmap_err g m)"
  by (auto simp: keeps_def cmap_err_def split: prod.splits)

definition keeps_at :: "('s \<Rightarrow> bool) \<Rightarrow> ('s \<Rightarrow> 'r \<times> 's) \<Rightarrow> 's \<Rightarrow> bool" where
  "keeps_at P m st \<longleftrightarrow> (P st \<longrightarrow> P (snd (m st)))"

lemma keeps_at_cbind:
  "keeps_at P m st \<Longrightarrow> (\<And>a t. m st = (Inr a, t) \<Longrightarrow> keeps_at P (f a) t) \<Longrightarrow> keeps_at P (cbind m f) st"
  by (auto simp: keeps_at_def cbind_def split: prod.splits sum.splits)

lemma keeps_at_map_err [simp]: "keeps_at P (cmap_err g m) st = keeps_at P m st"
  by (simp add: keeps_at_def cmap_err_def split: prod.splits)

lemma keeps_iff_at: "keeps P m \<longleftrightarrow> (\<forall>st. keeps_at P m st)"
  by (simp add: keeps_def keeps_at_def)

definition cache_good :: "('s \<Rightarrow> string \<rightharpoonup> 'v) \<Rightarrow> (string \<Rightarrow> 'v \<Rightarrow> bool) \<Rightarrow> 's \<Rightarrow> bool" where
  "cache_good cache good st \<longleftrightarrow> (\<forall>n v. cache st n = Some v \<longrightarrow> good n v)"

definition call_good :: "('s \<Rightarrow> string \<rightharpoonup> 'v) \<Rightarrow> (string \<Rightarrow> 'v \<Rightarrow> bool) \<Rightarrow> (string \<Rightarrow> 's \<Rightarrow> ('e + 'v) \<times> 's) \<Rightarrow> bool" where
  "call_good cache good call \<longleftrightarrow> (\<forall>n. keeps (cache_good cache good) (call n)) \<and>
     (\<forall>n st v st'. cache_good cache good st \<longrightarrow> call n st = (Inr v, st') \<longrightarrow> good n v)"

lemma call_goodI:
  assumes "\<And>n st r st'. cache_good cache good st \<Longrightarrow> call n st = (r, st') \<Longrightarrow>
    cache_good cache good st' \<and> (\<forall>v. r = Inr v \<longrightarrow> good n v)"
  shows "call_good cache good call"
  unfolding call_good_def keeps_def using assms by (metis prod.collapse)

section \<open>Memoised recursion over rules\<close>

locale cached_rules =
  fixes cache :: "'s \<Rightarrow> string \<rightharpoonup> 'v" and store :: "string \<Rightarrow> 'v \<Rightarrow> 's \<Rightarrow> 's"
    and chk :: "nat \<Rightarrow> string list \<Rightarrow> string \<Rightarrow> 's \<Rightarrow> ('e + 'v) \<times> 's"
    and inner :: "(string \<Rightarrow> 's \<Rightarrow> ('e + 'v) \<times> 's) \<Rightarrow> string \<Rightarrow> 's \<Rightarrow> ('e + 'v) \<times> 's"
    and ctxt :: "string \<Rightarrow> 'e \<Rightarrow> 'e" and good :: "string \<Rightarrow> 'v \<Rightarrow> bool"
  assumes cache_store: "cache (store n v st) = (cache st)(n \<mapsto> v)"
    and chk_hit: "cache st n = Some v \<Longrightarrow> chk k vis n st = (Inr v, st)"
    and chk_limit: "cache st n = None \<Longrightarrow> \<exists>e. chk 0 vis n st = (Inl e, st)"
    and chk_cycle: "cache st n = None \<Longrightarrow> n \<in> set vis \<Longrightarrow> \<exists>e. chk (Suc k) vis n st = (Inl e, st)"
    and chk_miss: "cache st n = None \<Longrightarrow> n \<notin> set vis \<Longrightarrow> chk (Suc k) vis n st =
      (case inner (chk k (n # vis)) n st of
         (Inl e, st') \<Rightarrow> (Inl (ctxt n e), st') | (Inr v, st') \<Rightarrow> (Inr v, store n v st'))"
    and inner_keeps: "call_good cache good call \<Longrightarrow> keeps (cache_good cache good) (inner call n)"
    and inner_good: "call_good cache good call \<Longrightarrow> cache_good cache good st \<Longrightarrow>
      inner call n st = (Inr v, st') \<Longrightarrow> good n v"
begin

lemma chk_good: "call_good cache good (chk k vis)"
proof (induction k arbitrary: vis)
  case 0
  show ?case
  proof (rule call_goodI)
    fix n st r st' assume "cache_good cache good st" "chk 0 vis n st = (r, st')"
    then show "cache_good cache good st' \<and> (\<forall>v. r = Inr v \<longrightarrow> good n v)"
      using chk_hit [of st n _ 0 vis] chk_limit [of st n vis]
      by (cases "cache st n") (auto simp: cache_good_def)
  qed
next
  case (Suc k)
  show ?case
  proof (rule call_goodI)
    fix n st r st' assume ok: "cache_good cache good st" and c: "chk (Suc k) vis n st = (r, st')"
    show "cache_good cache good st' \<and> (\<forall>v. r = Inr v \<longrightarrow> good n v)"
    proof (cases "cache st n")
      case (Some v)
      with c chk_hit [OF Some] ok show ?thesis by (auto simp: cache_good_def)
    next
      case None
      show ?thesis
      proof (cases "n \<in> set vis")
        case True
        with c chk_cycle [OF None True, of k] ok show ?thesis by auto
      next
        case False
        obtain x s1 where x: "inner (chk k (n # vis)) n st = (x, s1)" by fastforce
        have "cache_good cache good s1" by (rule keepsD [OF inner_keeps [OF Suc.IH] ok x])
        moreover have "good n v" if "x = Inr v" for v using inner_good [OF Suc.IH ok] x that by blast
        ultimately show ?thesis using c chk_miss [OF None False, of k] x
          by (cases x) (auto simp: cache_good_def cache_store split: if_splits)
      qed
    qed
  qed
qed

end

end
