(* ===== verification/Numeric_Bounds.thy ===== *)
theory Numeric_Bounds
  imports Guards Cached_Analysis "HOL-Library.Char_ord" "HOL-Library.List_Lexorder"
begin

text \<open>
  The strict overflow contract checker (\<open>src/src/numeric_bounds.rs\<close>): an abstract interpretation of
  the rules that a \<open>hints.overflow\<close> contract reaches. The mutable parts of \<open>struct Check\<close> that
  survive an error are the record \<open>check_st\<close> (\<open>cache\<close>, \<open>steps\<close>); \<open>visiting\<close>, which every call restores, is an
  argument. \<open>self.visiting.len() >= 128\<close> bounds the nesting, so \<open>check_rule\<close> recurses on the number of
  levels left. Diagnostics are constructors of \<open>num_error\<close>, with the contexts that \<open>map_err\<close> adds.
\<close>

section \<open>State\<close>

record num_tables =
  nt_rules :: "string \<rightharpoonup> rule"
  nt_concepts :: "string \<rightharpoonup> concept"

record check_st =
  ck_cache :: "string \<rightharpoonup> nval"
  ck_steps :: nat

type_synonym 'a check = "check_st \<Rightarrow> (num_error + 'a) \<times> check_st"

definition check_new :: "program \<Rightarrow> num_tables" where
  "check_new p =
     \<lparr>nt_rules = collect_map (map (\<lambda>r. (r_name r, r)) (rules_of p)),
      nt_concepts = collect_map (map (\<lambda>c. (c_name c, c)) (concepts_of p))\<rparr>"

section \<open>Scalar operations\<close>

definition neg_ivl :: "interval \<Rightarrow> num_error + interval" where
  "neg_ivl p = (case p of (lo, hi) \<Rightarrow> if lo = i64_MIN then Inl UnaryOverflow else Inr (- hi, - lo))"

definition abs_ivl :: "interval \<Rightarrow> num_error + interval" where
  "abs_ivl p = (case p of (lo, hi) \<Rightarrow>
     if lo = i64_MIN then Inl UnaryOverflow
     else Inr (if lo \<le> 0 \<and> hi \<ge> 0 then 0 else min \<bar>lo\<bar> \<bar>hi\<bar>, max \<bar>lo\<bar> \<bar>hi\<bar>))"

definition min_ivl :: "interval \<Rightarrow> interval \<Rightarrow> num_error + interval" where
  "min_ivl p q = (case (p, q) of ((a, b), (c, d)) \<Rightarrow> Inr (min a c, min b d))"

definition max_ivl :: "interval \<Rightarrow> interval \<Rightarrow> num_error + interval" where
  "max_ivl p q = (case (p, q) of ((a, b), (c, d)) \<Rightarrow> Inr (max a c, max b d))"

definition check_unary :: "(interval \<Rightarrow> num_error + interval) \<Rightarrow> nval \<Rightarrow> num_error + nval" where
  "check_unary f v = rbind (nv_number v) (\<lambda>rg. rbind (rg_map rg f) (\<lambda>rg'. Inr (NNumber rg')))"

definition check_join :: "nval \<Rightarrow> nval \<Rightarrow> num_error + nval" where
  "check_join a b =
     (case (a, b) of
        (NNumber x, NNumber y) \<Rightarrow> Inr (NNumber (join x y))
      | (NBool, NBool) \<Rightarrow> Inr NBool
      | _ \<Rightarrow> Inl BranchTypesDiffer)"

definition check_arith :: "binop \<Rightarrow> bool \<Rightarrow> nval \<Rightarrow> nval \<Rightarrow> num_error + nval" where
  "check_arith op repeated a b =
     rbind (nv_number a) (\<lambda>x. rbind (nv_number b) (\<lambda>y.
       rbind (if repeated then repeated_arithmetic x op else rg_arithmetic x op y) (\<lambda>rg. Inr (NNumber rg))))"

definition check_binary :: "binop \<Rightarrow> bool \<Rightarrow> nval \<Rightarrow> nval \<Rightarrow> num_error + nval" where
  "check_binary op repeated a b =
     (if op = OpAnd \<or> op = OpOr then rbind (nv_boolean a) (\<lambda>_. rbind (nv_boolean b) (\<lambda>_. Inr NBool))
      else if (op = OpEq \<or> op = OpNotEq) \<and> nv_ty a = nv_ty b then Inr NBool
      else if op \<in> {OpGt, OpGtEq, OpLt, OpLtEq}
      then rbind (nv_number a) (\<lambda>_. rbind (nv_number b) (\<lambda>_. Inr NBool))
      else check_arith op repeated a b)"

section \<open>Expressions\<close>

definition reads_input :: "rule \<Rightarrow> scope \<Rightarrow> expr \<Rightarrow> bool" where
  "reads_input r sc e = (case e of EIdent n \<Rightarrow> n = r_input_name r \<and> sc_locals sc n = None | _ \<Rightarrow> False)"

definition check_field :: "rule \<Rightarrow> scope \<Rightarrow> expr \<Rightarrow> string \<Rightarrow> num_error + nval" where
  "check_field r sc base name =
     (if \<not> reads_input r sc base then Inl OnlyInputFields
      else case find (\<lambda>f. f_name f = name) (c_fields (sc_concept sc)) of
             None \<Rightarrow> Inl UnknownField
           | Some f \<Rightarrow>
               if f_ty f \<noteq> TNumber then Inl (NonNumericField name)
               else Inr (NNumber (the (scope_field sc name))))"

text \<open>The shape of a call: \<open>callee(input)\<close>, with the caller's own input concept.\<close>

definition check_call :: "num_tables \<Rightarrow> rule \<Rightarrow> scope \<Rightarrow> string \<Rightarrow> expr list \<Rightarrow> num_error + unit" where
  "check_call nt r sc name args =
     (case nt_rules nt name of
        None \<Rightarrow> Inl UnknownCallee
      | Some callee \<Rightarrow>
          if length args \<noteq> 1 \<or> \<not> reads_input r sc (args ! 0) \<or> r_input_ty callee \<noteq> r_input_ty r
          then Inl (CallShape name) else Inr ())"

text \<open>The prologue of every visit: the expression and nesting limits.\<close>

definition visit :: "nat \<Rightarrow> 'a check \<Rightarrow> 'a check" where
  "visit depth m st =
     (let st' = st\<lparr>ck_steps := ck_steps st + 1\<rparr> in
      if ck_steps st' > 100000 then (Inl StepLimit, st')
      else if depth \<ge> 256 then (Inl DepthLimit, st')
      else m st')"

fun check_expr :: "num_tables \<Rightarrow> (string \<Rightarrow> nval check) \<Rightarrow> rule \<Rightarrow> expr \<Rightarrow> scope \<Rightarrow> nat \<Rightarrow> nval check" where
  "check_expr nt call r (ENumber n) sc depth = visit depth (cret (NNumber (mk_interval n n)))"
| "check_expr nt call r (EIdent n) sc depth = visit depth
     (clift (case scope_local sc n of Some v \<Rightarrow> Inr v | None \<Rightarrow> Inl (UnknownBinding n)))"
| "check_expr nt call r (EField base name) sc depth = visit depth (clift (check_field r sc base name))"
| "check_expr nt call r (EIf cnd a b) sc depth = visit depth
     (cbind (cmap_err InIfCondition (check_expr nt call r cnd sc (Suc depth))) (\<lambda>c.
      cbind (clift (nv_boolean c)) (\<lambda>_.
      cbind (cmap_err InThen (check_expr nt call r a (scope_branch sc cnd True) (Suc depth))) (\<lambda>va.
      cbind (cmap_err InElse (check_expr nt call r b (scope_branch sc cnd False) (Suc depth))) (\<lambda>vb.
      clift (check_join va vb))))))"
| "check_expr nt call r (ENot e) sc depth = visit depth
     (cbind (check_expr nt call r e sc (Suc depth)) (\<lambda>v. cbind (clift (nv_boolean v)) (\<lambda>_. cret NBool)))"
| "check_expr nt call r (ENeg e) sc depth = visit depth
     (cbind (check_expr nt call r e sc (Suc depth)) (\<lambda>v. clift (check_unary neg_ivl v)))"
| "check_expr nt call r (EAbs e) sc depth = visit depth
     (cbind (check_expr nt call r e sc (Suc depth)) (\<lambda>v. clift (check_unary abs_ivl v)))"
| "check_expr nt call r (EMin a b) sc depth = visit depth
     (cbind (check_expr nt call r a sc (Suc depth)) (\<lambda>va. cbind (clift (nv_number va)) (\<lambda>x.
      cbind (check_expr nt call r b sc (Suc depth)) (\<lambda>vb. cbind (clift (nv_number vb)) (\<lambda>y.
      clift (rbind (pairwise x y min_ivl) (\<lambda>rg. Inr (NNumber rg))))))))"
| "check_expr nt call r (EMax a b) sc depth = visit depth
     (cbind (check_expr nt call r a sc (Suc depth)) (\<lambda>va. cbind (clift (nv_number va)) (\<lambda>x.
      cbind (check_expr nt call r b sc (Suc depth)) (\<lambda>vb. cbind (clift (nv_number vb)) (\<lambda>y.
      clift (rbind (pairwise x y max_ivl) (\<lambda>rg. Inr (NNumber rg))))))))"
| "check_expr nt call r (EBinary op a b) sc depth = visit depth
     (cbind (cmap_err (InLeft op) (check_expr nt call r a sc (Suc depth))) (\<lambda>va.
      cbind (cmap_err (InRight op) (check_expr nt call r b sc (Suc depth))) (\<lambda>vb.
      clift (check_binary op (same_scalar sc a b) va vb))))"
| "check_expr nt call r (ECall name args) sc depth = visit depth
     (cbind (clift (check_call nt r sc name args)) (\<lambda>_. call name))"
| "check_expr nt call r _ sc depth = visit depth (cfail UnsupportedExpression)"

section \<open>Rules\<close>

text \<open>The checks on the signature: \<open>rule_inner\<close> up to its first \<open>let\<close>.\<close>

definition check_signature :: "num_tables \<Rightarrow> rule \<Rightarrow> num_error + concept" where
  "check_signature nt r =
     (if r_context_name r \<noteq> None \<or> r_context_ty r \<noteq> None then Inl ContextUnsupported
      else if r_output_ty r \<noteq> TNumber \<and> r_output_ty r \<noteq> TBool then Inl OutputTypeUnsupported
      else case r_input_ty r of
        TNamed cname \<Rightarrow>
          (case nt_concepts nt cname of
             None \<Rightarrow> Inl UnknownInputConcept
           | Some c \<Rightarrow>
               if c_variants c \<noteq> [] \<or> c_fields c = []
                 \<or> list_ex (\<lambda>f. f_ty f \<noteq> TNumber \<and> f_ty f \<noteq> TText) (c_fields c)
               then Inl NonemptyFlatConcept
               else case find (\<lambda>f. case f_range f of None \<Rightarrow> False
                      | Some (lo, hi) \<Rightarrow> lo > hi \<or> (f_ty f = TText \<and> hi < 0)) (c_fields c) of
                      Some f \<Rightarrow> Inl (InvalidFieldBounds (f_name f))
                    | None \<Rightarrow> Inr c)
      | _ \<Rightarrow> Inl FlatInputRequired)"

fun check_lets :: "num_tables \<Rightarrow> (string \<Rightarrow> nval check) \<Rightarrow> rule \<Rightarrow> concept \<Rightarrow> (string \<times> expr) list
    \<Rightarrow> (string \<rightharpoonup> nval) \<Rightarrow> (string \<rightharpoonup> nval) check" where
  "check_lets nt call r c [] env = cret env"
| "check_lets nt call r c ((n, e) # bs) env =
     cbind (cmap_err (InLet n) (check_expr nt call r e (scope_new r c env) 0))
       (\<lambda>v. check_lets nt call r c bs (env(n \<mapsto> v)))"

definition overflow_of :: "rule \<Rightarrow> overflow_hint option" where
  "overflow_of r = (case r_hints r of None \<Rightarrow> None | Some h \<Rightarrow> h_overflow h)"

text \<open>The declared output type and contract; a caller sees the declaration, not the computed domain.\<close>

definition check_contract :: "rule \<Rightarrow> nval \<Rightarrow> num_error + nval" where
  "check_contract r v =
     (if nv_ty v \<noteq> r_output_ty r then Inl OutputTypeDiffers
      else case overflow_of r of
        None \<Rightarrow> Inr v
      | Some h \<Rightarrow>
          if o_min h > o_max h then Inl (InvalidOverflowBounds (o_min h) (o_max h))
          else rbind (nv_number v) (\<lambda>rg. case hull rg of (lo, hi) \<Rightarrow>
            if lo < o_min h \<or> hi > o_max h then Inl (RangeExceedsDeclared lo hi (o_min h) (o_max h))
            else Inr (NNumber (mk_interval (o_min h) (o_max h)))))"

definition rule_inner :: "num_tables \<Rightarrow> (string \<Rightarrow> nval check) \<Rightarrow> string \<Rightarrow> nval check" where
  "rule_inner nt call name =
     (case nt_rules nt name of
        None \<Rightarrow> cfail UnknownCallee
      | Some r \<Rightarrow>
          cbind (clift (check_signature nt r)) (\<lambda>c.
          cbind (check_lets nt call r c (l_bindings (r_logic r)) Map.empty) (\<lambda>env.
          cbind (cmap_err (InOutput (r_output_name r)) (check_expr nt call r (l_value (r_logic r)) (scope_new r c env) 0)) (\<lambda>v.
          clift (check_contract r v)))))"

text \<open>The cache is written on success only, and read before the nesting limit is tested.\<close>

definition finish_rule :: "string \<Rightarrow> nval check \<Rightarrow> nval check" where
  "finish_rule name m st =
     (case m st of
        (Inl e, st') \<Rightarrow> (Inl (InRule name e), st')
      | (Inr v, st') \<Rightarrow> (Inr v, st'\<lparr>ck_cache := (ck_cache st')(name \<mapsto> v)\<rparr>))"

fun check_rule :: "num_tables \<Rightarrow> nat \<Rightarrow> string list \<Rightarrow> string \<Rightarrow> nval check" where
  "check_rule nt 0 visiting name st =
     (case ck_cache st name of Some v \<Rightarrow> (Inr v, st) | None \<Rightarrow> (Inl NestedCallLimit, st))"
| "check_rule nt (Suc left) visiting name st =
     (case ck_cache st name of
        Some v \<Rightarrow> (Inr v, st)
      | None \<Rightarrow>
          if name \<in> set visiting then (Inl (Recursion name), st)
          else finish_rule name (rule_inner nt (check_rule nt left (name # visiting)) name) st)"

abbreviation max_nested_calls :: nat where
  "max_nested_calls \<equiv> 128"

section \<open>Programs\<close>

datatype num_diag = RuleOverflow string num_error | EffectContext

definition active_rules :: "program \<Rightarrow> string set" where
  "active_rules p = numeric_participating (rules_of p)"

text \<open>\<open>for name in &active\<close>: the set iterates in string order and the checker's state is shared.\<close>

fun check_all :: "num_tables \<Rightarrow> string list \<Rightarrow> check_st \<Rightarrow> num_diag list" where
  "check_all nt [] st = []"
| "check_all nt (name # names) st =
     (case check_rule nt max_nested_calls [] name st of
        (Inl e, st') \<Rightarrow> RuleOverflow name e # check_all nt names st'
      | (Inr _, st') \<Rightarrow> check_all nt names st')"

definition effect_calls :: "effect \<Rightarrow> string list" where
  "effect_calls ef = (case ef of Print es \<Rightarrow> concat (map calls es) | AppendFile _ content \<Rightarrow> calls content)"

definition service_uses_contract :: "service \<Rightarrow> string set \<Rightarrow> bool" where
  "service_uses_contract s active \<longleftrightarrow>
     s_handler s \<in> active \<or> list_ex (\<lambda>st. list_ex (\<lambda>n. n \<in> active) (calls (ss_value st))) (s_after_sets s)"

definition bad_item :: "string set \<Rightarrow> item \<Rightarrow> bool" where
  "bad_item active it =
     (case it of
        IService s \<Rightarrow> service_uses_contract s active
          \<or> list_ex (\<lambda>lb. list_ex (\<lambda>n. n \<in> active) (effect_calls (lb_effect lb))) (s_logs s)
      | IReaction rx \<Rightarrow> rx_trigger rx \<in> active
          \<or> list_ex (\<lambda>ef. list_ex (\<lambda>n. n \<in> active) (effect_calls ef)) (rx_effects rx)
      | _ \<Rightarrow> False)"

definition numeric_verify :: "program \<Rightarrow> num_diag list" where
  "numeric_verify p =
     (let active = active_rules p in
      if active = {} then []
      else check_all (check_new p) (sorted_list_of_set active) \<lparr>ck_cache = Map.empty, ck_steps = 0\<rparr>
           @ map (\<lambda>_. EffectContext) (filter (bad_item active) (p_items p)))"

section \<open>Interval operations of the checker\<close>

interpretation negate: interval_fun neg_ivl uminus
  by unfold_locales (auto simp: neg_ivl_def valid_ivl_def in_i64_def split: if_splits)

interpretation absolute: interval_fun abs_ivl abs
  by unfold_locales (auto simp: abs_ivl_def valid_ivl_def in_i64_def min_def max_def split: if_splits)

interpretation minimum: interval_op min_ivl min "\<lambda>_ _. True"
  by unfold_locales (auto simp: min_ivl_def valid_ivl_def in_i64_def)

interpretation maximum: interval_op max_ivl max "\<lambda>_ _. True"
  by unfold_locales (auto simp: max_ivl_def valid_ivl_def in_i64_def)

end
