(* ===== verification/Rust_Text.thy ===== *)
theory Rust_Text
  imports Rust_Prelude
begin

text \<open>
  The text half of the standard library the compiler uses: UTF-8 validity and
  \<open>String::from_utf8_lossy\<close>, \<open>str::trim\<close>, the decimal form of an \<open>i64\<close> (\<open>to_string\<close>) and
  \<open>str::parse::<i64>\<close>, with the round trip between the last two and the 20-byte bound that the
  text-capacity analysis relies on.
\<close>

section \<open>UTF-8\<close>

definition is_cont :: "byte \<Rightarrow> bool" where
  "is_cont c \<longleftrightarrow> 128 \<le> code c \<and> code c \<le> 191"

text \<open>
  The range of the second byte that the lead byte of a three- or four-byte sequence allows
  (no overlong form, no surrogate, nothing above U+10FFFF).
\<close>

definition second_ok :: "byte \<Rightarrow> byte \<Rightarrow> bool" where
  "second_ok l c \<longleftrightarrow>
     (if code l = 224 then 160 \<le> code c \<and> code c \<le> 191
      else if code l = 237 then 128 \<le> code c \<and> code c \<le> 159
      else if code l = 240 then 144 \<le> code c \<and> code c \<le> 191
      else if code l = 244 then 128 \<le> code c \<and> code c \<le> 143
      else is_cont c)"

text \<open>
  One step of the decoder: whether the bytes start with a well-formed character, and how many
  bytes that character, or the maximal ill-formed prefix, takes.
\<close>

definition nth_sat :: "(byte \<Rightarrow> bool) \<Rightarrow> byte list \<Rightarrow> nat \<Rightarrow> bool" where
  "nth_sat P bs i \<longleftrightarrow> i < length bs \<and> P (bs ! i)"

definition utf8_step :: "byte \<Rightarrow> byte list \<Rightarrow> bool \<times> nat" where
  "utf8_step l bs =
     (if code l < 128 then (True, 1)
      else if 194 \<le> code l \<and> code l \<le> 223 then
        (if nth_sat is_cont bs 0 then (True, 2) else (False, 1))
      else if 224 \<le> code l \<and> code l \<le> 239 then
        (if \<not> nth_sat (second_ok l) bs 0 then (False, 1)
         else if \<not> nth_sat is_cont bs 1 then (False, 2) else (True, 3))
      else if 240 \<le> code l \<and> code l \<le> 244 then
        (if \<not> nth_sat (second_ok l) bs 0 then (False, 1)
         else if \<not> nth_sat is_cont bs 1 then (False, 2)
         else if \<not> nth_sat is_cont bs 2 then (False, 3) else (True, 4))
      else (False, 1))"

function valid_utf8 :: "byte list \<Rightarrow> bool" where
  "valid_utf8 [] = True"
| "valid_utf8 (l # bs) =
     (case utf8_step l bs of (ok, n) \<Rightarrow> ok \<and> valid_utf8 (drop (n - 1) bs))"
  by pat_completeness auto
termination by (relation "measure length") auto

definition replacement_char :: "byte list" where
  "replacement_char = [CHR 0xEF, CHR 0xBF, CHR 0xBD]"

function from_utf8_lossy :: "byte list \<Rightarrow> byte list" where
  "from_utf8_lossy [] = []"
| "from_utf8_lossy (l # bs) =
     (case utf8_step l bs of (ok, n) \<Rightarrow>
        (if ok then l # take (n - 1) bs else replacement_char) @ from_utf8_lossy (drop (n - 1) bs))"
  by pat_completeness auto
termination by (relation "measure length") auto

lemma from_utf8_lossy_valid: "valid_utf8 bs \<Longrightarrow> from_utf8_lossy bs = bs"
  by (induction bs rule: valid_utf8.induct) (auto split: prod.splits)

lemma valid_utf8_ascii: "(\<forall>c \<in> set bs. code c < 128) \<Longrightarrow> valid_utf8 bs"
  by (induction bs) (auto simp: utf8_step_def)

lemma from_utf8_lossy_ascii: "(\<forall>c \<in> set bs. code c < 128) \<Longrightarrow> from_utf8_lossy bs = bs"
  by (simp add: from_utf8_lossy_valid valid_utf8_ascii)

section \<open>Trimming white space\<close>

text \<open>
  The number of bytes of a leading Unicode \<open>White_Space\<close> character, 0 when there is none; and the
  same for the end of a text, given its bytes in reverse order.
\<close>

definition ws_lead :: "byte list \<Rightarrow> nat" where
  "ws_lead bs =
     (case bs of
        a # b # c # _ \<Rightarrow>
          (if a \<in> {CHR 0x09, CHR 0x0A, CHR 0x0B, CHR 0x0C, CHR 0x0D, CHR '' ''} then 1
           else if a = CHR 0xC2 \<and> (b = CHR 0x85 \<or> b = CHR 0xA0) then 2
           else if [a, b, c] = [CHR 0xE1, CHR 0x9A, CHR 0x80] \<or> [a, b, c] = [CHR 0xE2, CHR 0x81, CHR 0x9F]
             \<or> [a, b, c] = [CHR 0xE3, CHR 0x80, CHR 0x80] then 3
           else if a = CHR 0xE2 \<and> b = CHR 0x80 \<and>
             ((128 \<le> code c \<and> code c \<le> 138) \<or> code c = 168 \<or> code c = 169 \<or> code c = 175) then 3
           else 0)
      | a # b # _ \<Rightarrow>
          (if a \<in> {CHR 0x09, CHR 0x0A, CHR 0x0B, CHR 0x0C, CHR 0x0D, CHR '' ''} then 1
           else if a = CHR 0xC2 \<and> (b = CHR 0x85 \<or> b = CHR 0xA0) then 2 else 0)
      | a # _ \<Rightarrow> (if a \<in> {CHR 0x09, CHR 0x0A, CHR 0x0B, CHR 0x0C, CHR 0x0D, CHR '' ''} then 1 else 0)
      | [] \<Rightarrow> 0)"

definition ws_trail :: "byte list \<Rightarrow> nat" where
  "ws_trail rs =
     (if ws_lead (take 1 rs) = 1 then 1
      else if length rs \<ge> 2 \<and> ws_lead (rev (take 2 rs)) = 2 then 2
      else if length rs \<ge> 3 \<and> ws_lead (rev (take 3 rs)) = 3 then 3 else 0)"

function trim_start :: "byte list \<Rightarrow> byte list" where
  "trim_start bs = (if bs = [] \<or> ws_lead bs = 0 then bs else trim_start (drop (ws_lead bs) bs))"
  by pat_completeness auto
termination by (relation "measure length") auto

function trim_end_rev :: "byte list \<Rightarrow> byte list" where
  "trim_end_rev rs = (if rs = [] \<or> ws_trail rs = 0 then rs else trim_end_rev (drop (ws_trail rs) rs))"
  by pat_completeness auto
termination by (relation "measure length") auto

declare trim_start.simps [simp del] trim_end_rev.simps [simp del]

definition trim :: "byte list \<Rightarrow> byte list" where
  "trim bs = rev (trim_end_rev (rev (trim_start bs)))"

section \<open>Decimal integers\<close>

definition digit_char :: "nat \<Rightarrow> byte" where
  "digit_char d = char_of (48 + d)"

fun show_nat :: "nat \<Rightarrow> string" where
  "show_nat n = (if n < 10 then [digit_char n] else show_nat (n div 10) @ [digit_char (n mod 10)])"

declare show_nat.simps [simp del]

definition show_int :: "int \<Rightarrow> string" where
  "show_int n = (if n < 0 then CHR ''-'' # show_nat (nat (- n)) else show_nat (nat n))"

definition digit_val :: "byte \<Rightarrow> nat" where
  "digit_val c = code c - 48"

definition digits_val :: "string \<Rightarrow> nat" where
  "digits_val ds = foldl (\<lambda>n c. 10 * n + digit_val c) 0 ds"

text \<open>
  \<open>str::parse::<i64>\<close>: an optional sign, then at least one digit and only digits; an error where
  the value does not fit.
\<close>

definition parse_digits :: "int \<Rightarrow> string \<Rightarrow> int option" where
  "parse_digits sign ds =
     (if ds = [] \<or> \<not> list_all is_ascii_digit ds then None
      else let n = sign * int (digits_val ds) in if in_i64 n then Some n else None)"

definition parse_i64 :: "string \<Rightarrow> int option" where
  "parse_i64 s =
     (case s of
        [] \<Rightarrow> None
      | c # cs \<Rightarrow>
          if c = CHR ''-'' then parse_digits (- 1) cs
          else if c = CHR ''+'' then parse_digits 1 cs
          else parse_digits 1 s)"

lemma code_digit_char [simp]: "d < 10 \<Longrightarrow> code (digit_char d) = 48 + d"
  by (simp add: digit_char_def)

lemma digit_char_ascii [simp]: "d < 10 \<Longrightarrow> is_ascii_digit (digit_char d)"
  by (simp add: is_ascii_digit_def)

lemma digit_val_char [simp]: "d < 10 \<Longrightarrow> digit_val (digit_char d) = d"
  by (simp add: digit_val_def)

lemma show_nat_nonempty [simp]: "show_nat n \<noteq> []"
  by (subst show_nat.simps) simp

lemma show_nat_digits: "list_all is_ascii_digit (show_nat n)"
  by (induction n rule: show_nat.induct) (subst show_nat.simps, simp)

lemma digits_val_snoc: "digits_val (ds @ [c]) = 10 * digits_val ds + digit_val c"
  by (simp add: digits_val_def)

lemma digits_val_show_nat [simp]: "digits_val (show_nat n) = n"
proof (induction n rule: show_nat.induct)
  case (1 n)
  show ?case
  proof (cases "n < 10")
    case True
    then show ?thesis by (subst show_nat.simps) (simp add: digits_val_def)
  next
    case False
    with 1 show ?thesis by (subst show_nat.simps) (simp add: digits_val_snoc)
  qed
qed

lemma show_nat_no_sign:
  "show_nat n = c # cs \<Longrightarrow> c \<noteq> CHR ''-'' \<and> c \<noteq> CHR ''+''"
  using show_nat_digits [of n] by (auto simp: is_ascii_digit_def)

lemma parse_show_int: "in_i64 n \<Longrightarrow> parse_i64 (show_int n) = Some n"
proof (cases "n < 0")
  case True
  assume "in_i64 n"
  with True show ?thesis
    by (simp add: show_int_def parse_i64_def parse_digits_def show_nat_digits)
next
  case False
  assume n: "in_i64 n"
  obtain c cs where cs: "show_nat (nat n) = c # cs" by (cases "show_nat (nat n)") auto
  have "parse_digits 1 (show_nat (nat n)) = Some n"
    using n False by (simp add: parse_digits_def show_nat_digits)
  with False cs show_nat_no_sign [OF cs] show ?thesis
    by (simp add: show_int_def parse_i64_def)
qed

lemma parse_i64_in_range: "parse_i64 s = Some n \<Longrightarrow> in_i64 n"
  by (auto simp: parse_i64_def parse_digits_def Let_def split: list.splits if_splits)

lemma length_show_nat: "0 < k \<Longrightarrow> n < 10 ^ k \<Longrightarrow> length (show_nat n) \<le> k"
proof (induction n arbitrary: k rule: show_nat.induct)
  case (1 n)
  show ?case
  proof (cases "n < 10")
    case True
    with "1.prems" show ?thesis by (subst show_nat.simps) simp
  next
    case False
    from False "1.prems" obtain j where k: "k = Suc j" "0 < j"
      by (cases k; cases "k - 1") auto
    with "1.prems" have "n div 10 < 10 ^ j" by (simp add: less_mult_imp_div_less mult.commute)
    with False k "1.IH" have "length (show_nat (n div 10)) \<le> j" by simp
    with False k show ?thesis by (subst show_nat.simps) simp
  qed
qed

lemma length_show_int:
  assumes "in_i64 n"
  shows "length (show_int n) \<le> 20"
proof -
  have "nat (- n) < 10 ^ 19" "nat n < 10 ^ 19" using assms by (auto simp: in_i64_def)
  then have "length (show_nat (nat (- n))) \<le> 19" "length (show_nat (nat n)) \<le> 19"
    by (auto intro: length_show_nat)
  then show ?thesis by (simp add: show_int_def)
qed

lemma show_int_ascii: "c \<in> set (show_int n) \<Longrightarrow> code c < 128"
  using show_nat_digits [of "nat n"] show_nat_digits [of "nat (- n)"]
  by (auto simp: show_int_def list_all_iff is_ascii_digit_def split: if_splits)

end
