(* ===== verification/Interpreter.thy ===== *)
theory Interpreter
  imports Rust_Text Call_Graph
begin

text \<open>
  The reference interpreter (\<open>src/src/interpreter.rs\<close>), the semantics every backend is compared with.
  \<open>eval_expr\<close> follows the source's \<open>match\<close> arm by arm; each arm that computes more than a constructor is
  a definition of its own. A \<open>HashMap<String, Value>\<close> payload is an association list with HashMap
  insertion, an evaluation environment a partial map, a \<open>RuntimeError\<close> or a Rust panic a constructor of
  \<open>rt_error\<close> (the message text is not modelled). The host's clock and \<open>/dev/urandom\<close> are parameters
  (\<open>host\<close>) over an abstract world that evaluation threads. Rule calls recurse on \<open>fuel\<close>, the number of
  nested calls the stack allows: running out is the error \<open>CallDepth\<close>, never a value.
\<close>

section \<open>Values and errors\<close>

datatype (plugins only: size code) val =
    VNumber int
  | VBoundsError
  | VBool bool
  | VText string
  | VBytes "byte list"
  | VList "val list"
  | VRecord "(string \<times> val) list"
  | VOk val
  | VErr val
  | VVariant string string "(string \<times> val) list"

datatype contract = StrictOverflow | BoundedText

datatype (plugins only: size code) rt_error =
    UndefinedBinding string
  | NoField string
  | FieldOnNonRecord string
  | LogicLeft binop
  | LogicRight binop
  | CannotApply binop
  | DivisionByZero
  | ModuloByZero
  | ConditionNotBool
  | RequiresBool
  | RequiresNumber
  | RequiresText
  | RequiresTextOrBytes
  | AbortIfFailed int
  | NotACollection
  | PredicateNotBool
  | FoldBytesNotNumber
  | ConcatMixesBytes
  | ConcatNotScalar
  | NotAResult
  | NotAVariant
  | NoMatchArm string string
  | ConceptNotInScope string
  | VariantNotDeclared string string
  | BinderCount
  | MissingPayload string
  | UnknownRule string
  | CallArity nat
  | UnknownEntropy string
  | EntropyUnavailable string
  | CannotParseInt string
  | SubstringOutOfRange int int int
  | IndexOutOfRange int int
  | LiteralTableRequired
  | ContractUnknownConcept contract
  | ContractNeedsRecord contract
  | ContractFieldViolated contract string
  | OutputBoundViolated string nat
  | Panic panic
  | CallDepth

type_synonym env = "string \<rightharpoonup> val"

type_synonym ('w, 'a) eval = "'w \<Rightarrow> rt_error + 'a \<times> 'w"

record 'w host =
  h_now :: "'w \<Rightarrow> int \<times> 'w"
  h_urandom :: "nat \<Rightarrow> 'w \<Rightarrow> byte list option \<times> 'w"

record 'w ictx =
  i_chk :: bool
  i_host :: "'w host"
  i_rules :: "rule list"
  i_concepts :: "concept list"
  i_entropies :: "entropy list"

definition eret :: "'a \<Rightarrow> ('w, 'a) eval" where
  "eret a w = Inr (a, w)"

definition ethrow :: "rt_error \<Rightarrow> ('w, 'a) eval" where
  "ethrow e w = Inl e"

definition elift :: "rt_error + 'a \<Rightarrow> ('w, 'a) eval" where
  "elift r w = (case r of Inl e \<Rightarrow> Inl e | Inr a \<Rightarrow> Inr (a, w))"

definition panicking :: "panic + int \<Rightarrow> rt_error + val" where
  "panicking r = (case r of Inl p \<Rightarrow> Inl (Panic p) | Inr n \<Rightarrow> Inr (VNumber n))"

section \<open>Operators\<close>

definition num_args :: "rt_error \<Rightarrow> (int \<Rightarrow> int \<Rightarrow> rt_error + val) \<Rightarrow> val \<Rightarrow> val \<Rightarrow> rt_error + val" where
  "num_args e f l r =
     (case l of VNumber a \<Rightarrow> (case r of VNumber b \<Rightarrow> f a b | _ \<Rightarrow> Inl e) | _ \<Rightarrow> Inl e)"

definition eq_scalars :: "val \<Rightarrow> val \<Rightarrow> bool option" where
  "eq_scalars l r =
     (case l of
        VNumber a \<Rightarrow> (case r of VNumber b \<Rightarrow> Some (a = b) | _ \<Rightarrow> None)
      | VText a \<Rightarrow> (case r of VText b \<Rightarrow> Some (a = b) | _ \<Rightarrow> None)
      | VBool a \<Rightarrow> (case r of VBool b \<Rightarrow> Some (a = b) | _ \<Rightarrow> None)
      | _ \<Rightarrow> None)"

definition apply_binop :: "bool \<Rightarrow> binop \<Rightarrow> val \<Rightarrow> val \<Rightarrow> rt_error + val" where
  "apply_binop chk op l r =
     (let bad = CannotApply op in
      case op of
        OpEq \<Rightarrow> (case eq_scalars l r of Some b \<Rightarrow> Inr (VBool b) | None \<Rightarrow> Inl bad)
      | OpNotEq \<Rightarrow> (case eq_scalars l r of Some b \<Rightarrow> Inr (VBool (\<not> b)) | None \<Rightarrow> Inl bad)
      | OpAdd \<Rightarrow> num_args bad (\<lambda>a b. panicking (i64_fit chk (a + b))) l r
      | OpSub \<Rightarrow> num_args bad (\<lambda>a b. panicking (i64_fit chk (a - b))) l r
      | OpMul \<Rightarrow> num_args bad (\<lambda>a b. panicking (i64_fit chk (a * b))) l r
      | OpDiv \<Rightarrow> num_args bad (\<lambda>a b. if b = 0 then Inl DivisionByZero else panicking (i64_div a b)) l r
      | OpMod \<Rightarrow> num_args bad (\<lambda>a b. if b = 0 then Inl ModuloByZero else panicking (i64_rem a b)) l r
      | OpGt \<Rightarrow> num_args bad (\<lambda>a b. Inr (VBool (a > b))) l r
      | OpLt \<Rightarrow> num_args bad (\<lambda>a b. Inr (VBool (a < b))) l r
      | OpGtEq \<Rightarrow> num_args bad (\<lambda>a b. Inr (VBool (a \<ge> b))) l r
      | OpLtEq \<Rightarrow> num_args bad (\<lambda>a b. Inr (VBool (a \<le> b))) l r
      | _ \<Rightarrow> Inl bad)"

definition le_bytes :: "nat \<Rightarrow> int \<Rightarrow> byte list" where
  "le_bytes width n = map (\<lambda>i. char_of (nat (n div 2 ^ (8 * i) mod 256))) [0..<width]"

definition le_value :: "nat \<Rightarrow> val \<Rightarrow> rt_error + val" where
  "le_value width v = (case v of VNumber n \<Rightarrow> Inr (VBytes (le_bytes width n)) | _ \<Rightarrow> Inl RequiresNumber)"

definition abort_if :: "val \<Rightarrow> rt_error + val" where
  "abort_if v = (case v of VNumber n \<Rightarrow> if n = 0 then Inr (VBytes []) else Inl (AbortIfFailed n)
     | _ \<Rightarrow> Inl RequiresNumber)"

section \<open>Text\<close>

text \<open>\<open>out.push(b as char)\<close>: the byte's code point, in UTF-8.\<close>

definition push_code_point :: "byte \<Rightarrow> byte list" where
  "push_code_point b =
     (if code b < 128 then [b] else [char_of (192 + code b div 64), char_of (128 + code b mod 64)])"

definition escape_byte :: "byte \<Rightarrow> byte list" where
  "escape_byte b =
     (if b = CHR 0x22 then [CHR 0x5C, CHR 0x22]
      else if b = CHR 0x5C then [CHR 0x5C, CHR 0x5C]
      else if b = CHR 0x0A then [CHR 0x5C, CHR ''n'']
      else if b = CHR 0x0D then [CHR 0x5C, CHR ''r'']
      else if b = CHR 0x09 then [CHR 0x5C, CHR ''t'']
      else push_code_point b)"

definition json_escape :: "string \<Rightarrow> string" where
  "json_escape s = concat (map escape_byte s)"

definition json_escape_val :: "val \<Rightarrow> rt_error + val" where
  "json_escape_val v = (case v of VText s \<Rightarrow> Inr (VText (json_escape s)) | _ \<Rightarrow> Inl RequiresText)"

definition parse_int_val :: "val \<Rightarrow> rt_error + val" where
  "parse_int_val v =
     (case v of VText s \<Rightarrow> (case parse_i64 (trim s) of Some n \<Rightarrow> Inr (VNumber n) | None \<Rightarrow> Inl (CannotParseInt s))
      | _ \<Rightarrow> Inl RequiresText)"

definition text_test :: "(string \<Rightarrow> string \<Rightarrow> bool) \<Rightarrow> val \<Rightarrow> val \<Rightarrow> rt_error + val" where
  "text_test f h n =
     (case h of VText hs \<Rightarrow> (case n of VText ns \<Rightarrow> Inr (VBool (f hs ns)) | _ \<Rightarrow> Inl RequiresText)
      | _ \<Rightarrow> Inl RequiresText)"

definition length_val :: "val \<Rightarrow> rt_error + val" where
  "length_val v =
     (case v of VText s \<Rightarrow> Inr (VNumber (int (length s))) | VBytes b \<Rightarrow> Inr (VNumber (int (length b)))
      | _ \<Rightarrow> Inl RequiresTextOrBytes)"

definition substring_val :: "val \<Rightarrow> val \<Rightarrow> val \<Rightarrow> rt_error + val" where
  "substring_val t s e =
     (case t of
        VText bytes \<Rightarrow>
          num_args RequiresNumber
            (\<lambda>start_n end_n.
               let len = int (length bytes) in
               if start_n < 0 \<or> end_n < 0 \<or> end_n > len \<or> start_n > end_n
               then Inl (SubstringOutOfRange start_n end_n len)
               else let slice = take (nat end_n - nat start_n) (drop (nat start_n) bytes)
                    in Inr (VText (if valid_utf8 slice then slice else from_utf8_lossy slice)))
            s e
      | _ \<Rightarrow> Inl RequiresText)"

definition index_bytes :: "byte list \<Rightarrow> val \<Rightarrow> rt_error + val" where
  "index_bytes bytes i =
     (case i of
        VNumber idx \<Rightarrow>
          if idx < 0 \<or> idx \<ge> int (length bytes) then Inl (IndexOutOfRange idx (int (length bytes)))
          else Inr (VNumber (int (code (bytes ! nat idx))))
      | _ \<Rightarrow> Inl RequiresNumber)"

definition byte_at_val :: "val \<Rightarrow> val \<Rightarrow> rt_error + val" where
  "byte_at_val t i =
     (case t of VText s \<Rightarrow> index_bytes s i | VBytes b \<Rightarrow> index_bytes b i | _ \<Rightarrow> Inl RequiresTextOrBytes)"

definition try_byte_at_table :: "expr \<Rightarrow> rt_error + byte list" where
  "try_byte_at_table t = (case t of EBytes b \<Rightarrow> Inr b | EText s \<Rightarrow> Inr s | _ \<Rightarrow> Inl LiteralTableRequired)"

definition try_byte_at_val :: "byte list \<Rightarrow> val \<Rightarrow> rt_error + val" where
  "try_byte_at_val bytes i =
     (case i of
        VNumber n \<Rightarrow>
          Inr (if 0 \<le> n \<and> nat n < length bytes then VOk (VNumber (int (code (bytes ! nat n))))
               else VErr VBoundsError)
      | _ \<Rightarrow> Inl RequiresNumber)"

definition concat_bytes :: "val list \<Rightarrow> rt_error + val" where
  "concat_bytes vals =
     rbind (rmapM (\<lambda>v. case v of VBytes b \<Rightarrow> Inr b | _ \<Rightarrow> Inl ConcatMixesBytes) vals)
       (\<lambda>bs. Inr (VBytes (concat bs)))"

definition text_form :: "val \<Rightarrow> rt_error + string" where
  "text_form v =
     (case v of
        VText s \<Rightarrow> Inr s
      | VNumber n \<Rightarrow> Inr (show_int n)
      | VBool b \<Rightarrow> Inr (if b then ''true'' else ''false'')
      | _ \<Rightarrow> Inl ConcatNotScalar)"

definition concat_val :: "val list \<Rightarrow> rt_error + val" where
  "concat_val vals =
     (if list_ex (\<lambda>v. case v of VBytes _ \<Rightarrow> True | _ \<Rightarrow> False) vals then concat_bytes vals
      else rbind (rmapM text_form vals) (\<lambda>ss. Inr (VText (concat ss))))"

section \<open>Collections and sums\<close>

definition as_list :: "val \<Rightarrow> rt_error + val list" where
  "as_list v = (case v of VList vs \<Rightarrow> Inr vs | _ \<Rightarrow> Inl NotACollection)"

fun quantifier_loop :: "quantifier_kind \<Rightarrow> (val \<Rightarrow> ('w, val) eval) \<Rightarrow> val list \<Rightarrow> ('w, val) eval" where
  "quantifier_loop k f [] = eret (VBool (k = QAll))"
| "quantifier_loop k f (x # xs) =
     ebind (f x) (\<lambda>v. case v of
        VBool b \<Rightarrow>
          (case k of
             QAll \<Rightarrow> if \<not> b then eret (VBool False) else quantifier_loop k f xs
           | QAny \<Rightarrow> if b then eret (VBool True) else quantifier_loop k f xs)
      | _ \<Rightarrow> ethrow PredicateNotBool)"

fun fold_loop :: "(val \<Rightarrow> val \<Rightarrow> ('w, val) eval) \<Rightarrow> val \<Rightarrow> val list \<Rightarrow> ('w, val) eval" where
  "fold_loop f acc [] = eret acc"
| "fold_loop f acc (x # xs) = ebind (f acc x) (\<lambda>acc'. fold_loop f acc' xs)"

fun fold_bytes_loop :: "(val \<Rightarrow> byte \<Rightarrow> nat \<Rightarrow> ('w, val) eval) \<Rightarrow> val \<Rightarrow> nat \<Rightarrow> byte list \<Rightarrow> ('w, val) eval" where
  "fold_bytes_loop f acc i [] = eret acc"
| "fold_bytes_loop f acc i (b # bs) =
     ebind (f acc b i) (\<lambda>acc'. case acc' of
        VNumber _ \<Rightarrow> fold_bytes_loop f acc' (Suc i) bs
      | _ \<Rightarrow> ethrow FoldBytesNotNumber)"

fun filter_loop :: "(val \<Rightarrow> ('w, val) eval) \<Rightarrow> val list \<Rightarrow> ('w, val list) eval" where
  "filter_loop f [] = eret []"
| "filter_loop f (x # xs) =
     ebind (f x) (\<lambda>v. case v of
        VBool b \<Rightarrow> ebind (filter_loop f xs) (\<lambda>out. eret (if b then x # out else out))
      | _ \<Rightarrow> ethrow PredicateNotBool)"

definition insert_fields :: "(string \<times> val) list \<Rightarrow> (string \<times> val) list" where
  "insert_fields kvs = foldl (\<lambda>m (k, v). AList.update k v m) [] kvs"

text \<open>The bindings a match arm adds, from positional binders and the variant's declared fields.\<close>

fun bind_payload :: "(string \<times> val) list \<Rightarrow> string option list \<Rightarrow> field list \<Rightarrow> env \<Rightarrow> rt_error + env" where
  "bind_payload fs (Some n # bs) (d # ds) env =
     (case map_of fs (f_name d) of
        Some v \<Rightarrow> bind_payload fs bs ds (env(n \<mapsto> v))
      | None \<Rightarrow> Inl (MissingPayload (f_name d)))"
| "bind_payload fs (None # bs) (d # ds) env = bind_payload fs bs ds env"
| "bind_payload fs _ _ env = Inr env"

definition arm_env :: "concept list \<Rightarrow> string \<Rightarrow> string \<Rightarrow> (string \<times> val) list \<Rightarrow> string option list \<Rightarrow> env
    \<Rightarrow> rt_error + env" where
  "arm_env concepts cn vn fs binders env =
     (case find (\<lambda>c. c_name c = cn) concepts of
        None \<Rightarrow> Inl (ConceptNotInScope cn)
      | Some c \<Rightarrow>
          (case find (\<lambda>v. va_name v = vn) (c_variants c) of
             None \<Rightarrow> Inl (VariantNotDeclared cn vn)
           | Some v \<Rightarrow>
               if length binders \<noteq> length (va_fields v) then Inl BinderCount
               else bind_payload fs binders (va_fields v) env))"

definition draw_entropy :: "'w ictx \<Rightarrow> string \<Rightarrow> ('w, val) eval" where
  "draw_entropy cx name =
     (case find (\<lambda>e. e_name e = name) (i_entropies cx) of
        None \<Rightarrow> ethrow (UnknownEntropy name)
      | Some item \<Rightarrow> (\<lambda>w.
          case h_urandom (i_host cx) (e_bytes item) w of
            (Some buf, w') \<Rightarrow> Inr (VBytes buf, w')
          | (None, _) \<Rightarrow> Inl (EntropyUnavailable name)))"

definition sample_clock :: "'w ictx \<Rightarrow> ('w, val) eval" where
  "sample_clock cx w = (case h_now (i_host cx) w of (n, w') \<Rightarrow> Inr (VNumber n, w'))"

section \<open>Evaluation\<close>

lemma size_found_arm [termination_simp]:
  "find P arms = Some a \<Longrightarrow> size (arm_body a) < Suc (size_list (size_match_arm size) arms + s)"
  by (rule size_arms) (auto simp: find_Some_iff)

lemma size_args_nth [termination_simp]: "args = a # as \<Longrightarrow> size a < Suc (size_list size args)"
  by simp

text \<open>
  \<open>call\<close> runs a rule on an argument (the recursion through \<open>eval_rule_with_value\<close>); everything else is
  structural.
\<close>

fun eval_expr :: "'w ictx \<Rightarrow> (rule \<Rightarrow> val \<Rightarrow> ('w, val) eval) \<Rightarrow> expr \<Rightarrow> env \<Rightarrow> ('w, val) eval" where
  "eval_expr cx call (ENumber n) env = eret (VNumber n)"
| "eval_expr cx call (EText s) env = eret (VText s)"
| "eval_expr cx call (EBytes b) env = eret (VBytes b)"
| "eval_expr cx call (EIdent name) env =
     (case env name of Some v \<Rightarrow> eret v | None \<Rightarrow> ethrow (UndefinedBinding name))"
| "eval_expr cx call (EField base fld) env =
     ebind (eval_expr cx call base env) (\<lambda>b. case b of
        VRecord fs \<Rightarrow> (case map_of fs fld of Some v \<Rightarrow> eret v | None \<Rightarrow> ethrow (NoField fld))
      | _ \<Rightarrow> ethrow (FieldOnNonRecord fld))"
| "eval_expr cx call (EBinary op left right) env =
     ebind (eval_expr cx call left env) (\<lambda>l.
       if op = OpAnd \<or> op = OpOr then
         (case l of
            VBool b \<Rightarrow>
              if (op = OpAnd \<and> \<not> b) \<or> (op = OpOr \<and> b) then eret (VBool b)
              else ebind (eval_expr cx call right env)
                     (\<lambda>r. case r of VBool b' \<Rightarrow> eret (VBool b') | _ \<Rightarrow> ethrow (LogicRight op))
          | _ \<Rightarrow> ethrow (LogicLeft op))
       else ebind (eval_expr cx call right env) (\<lambda>r. elift (apply_binop (i_chk cx) op l r)))"
| "eval_expr cx call (EIf cnd a b) env =
     ebind (eval_expr cx call cnd env) (\<lambda>c. case c of
        VBool t \<Rightarrow> if t then eval_expr cx call a env else eval_expr cx call b env
      | _ \<Rightarrow> ethrow ConditionNotBool)"
| "eval_expr cx call (ENot e) env =
     ebind (eval_expr cx call e env) (\<lambda>v. case v of VBool b \<Rightarrow> eret (VBool (\<not> b)) | _ \<Rightarrow> ethrow RequiresBool)"
| "eval_expr cx call (ENeg e) env =
     ebind (eval_expr cx call e env) (\<lambda>v. case v of
        VNumber n \<Rightarrow> elift (panicking (i64_fit (i_chk cx) (- n))) | _ \<Rightarrow> ethrow RequiresNumber)"
| "eval_expr cx call (EAbs e) env =
     ebind (eval_expr cx call e env) (\<lambda>v. case v of
        VNumber n \<Rightarrow> eret (VNumber (wrapping_abs n)) | _ \<Rightarrow> ethrow RequiresNumber)"
| "eval_expr cx call (ELe32 e) env = ebind (eval_expr cx call e env) (\<lambda>v. elift (le_value 4 v))"
| "eval_expr cx call (ELe64 e) env = ebind (eval_expr cx call e env) (\<lambda>v. elift (le_value 8 v))"
| "eval_expr cx call (EArenaScope e) env = eval_expr cx call e env"
| "eval_expr cx call (EAbortIf e) env = ebind (eval_expr cx call e env) (\<lambda>v. elift (abort_if v))"
| "eval_expr cx call (EQuantifier k coll x pred) env =
     ebind (eval_expr cx call coll env) (\<lambda>c. ebind (elift (as_list c)) (\<lambda>items.
       quantifier_loop k (\<lambda>item. eval_expr cx call pred (env(x \<mapsto> item))) items))"
| "eval_expr cx call (EFold coll init acc x body) env =
     ebind (eval_expr cx call coll env) (\<lambda>c. ebind (elift (as_list c)) (\<lambda>items.
       ebind (eval_expr cx call init env) (\<lambda>a.
         fold_loop (\<lambda>a item. eval_expr cx call body (env(acc \<mapsto> a, x \<mapsto> item))) a items)))"
| "eval_expr cx call (EFoldBytes text init acc byt idx body) env =
     ebind (eval_expr cx call text env) (\<lambda>t. case t of
        VText s \<Rightarrow>
          ebind (eval_expr cx call init env) (\<lambda>a. case a of
             VNumber _ \<Rightarrow>
               fold_bytes_loop (\<lambda>a b i. eval_expr cx call body
                 (env(acc \<mapsto> a, byt \<mapsto> VNumber (int (code b)), idx \<mapsto> VNumber (int i)))) a 0 s
           | _ \<Rightarrow> ethrow FoldBytesNotNumber)
      | _ \<Rightarrow> ethrow RequiresText)"
| "eval_expr cx call (EMap coll x body) env =
     ebind (eval_expr cx call coll env) (\<lambda>c. ebind (elift (as_list c)) (\<lambda>items.
       ebind (emapM (\<lambda>item. eval_expr cx call body (env(x \<mapsto> item))) items) (\<lambda>out. eret (VList out))))"
| "eval_expr cx call (EFilter coll x pred) env =
     ebind (eval_expr cx call coll env) (\<lambda>c. ebind (elift (as_list c)) (\<lambda>items.
       ebind (filter_loop (\<lambda>item. eval_expr cx call pred (env(x \<mapsto> item))) items) (\<lambda>out. eret (VList out))))"
| "eval_expr cx call (EOk e) env = ebind (eval_expr cx call e env) (\<lambda>v. eret (VOk v))"
| "eval_expr cx call (EErr e) env = ebind (eval_expr cx call e env) (\<lambda>v. eret (VErr v))"
| "eval_expr cx call (ERecord _ flds) env =
     ebind (emapM (\<lambda>(n, e). ebind (eval_expr cx call e env) (\<lambda>v. eret (n, v))) flds)
       (\<lambda>kvs. eret (VRecord (insert_fields kvs)))"
| "eval_expr cx call (EVariantConstruct cn vn flds) env =
     ebind (emapM (\<lambda>(n, e). ebind (eval_expr cx call e env) (\<lambda>v. eret (n, v))) flds)
       (\<lambda>kvs. eret (VVariant cn vn (insert_fields kvs)))"
| "eval_expr cx call (EConcat args) env =
     ebind (emapM (\<lambda>a. eval_expr cx call a env) args) (\<lambda>vals. elift (concat_val vals))"
| "eval_expr cx call (EMatchResult target okv okb errv errb) env =
     ebind (eval_expr cx call target env) (\<lambda>t. case t of
        VOk v \<Rightarrow> eval_expr cx call okb (env(okv \<mapsto> v))
      | VErr v \<Rightarrow> eval_expr cx call errb (env(errv \<mapsto> v))
      | _ \<Rightarrow> ethrow NotAResult)"
| "eval_expr cx call (EMatchVariant scrut arms) env =
     ebind (eval_expr cx call scrut env) (\<lambda>s. case s of
        VVariant cn vn fs \<Rightarrow>
          (case find (\<lambda>a. arm_variant a = vn) arms of
             None \<Rightarrow> ethrow (NoMatchArm cn vn)
           | Some a \<Rightarrow>
               ebind (elift (arm_env (i_concepts cx) cn vn fs (arm_binders a) env))
                 (\<lambda>env'. eval_expr cx call (arm_body a) env'))
      | _ \<Rightarrow> ethrow NotAVariant)"
| "eval_expr cx call (ECall name args) env =
     (case find (\<lambda>r. r_name r = name) (i_rules cx) of
        None \<Rightarrow> ethrow (UnknownRule name)
      | Some called \<Rightarrow>
          (if length args \<noteq> 1 then ethrow (CallArity (length args))
           else ebind (emapM (\<lambda>a. eval_expr cx call a env) args) (\<lambda>vs. call called (hd vs))))"
| "eval_expr cx call (ERead _) env = eret (VText [])"
| "eval_expr cx call (ERandom name) env = draw_entropy cx name"
| "eval_expr cx call (EFetch _ _) env = eret (VText [])"
| "eval_expr cx call (EJsonEscape e) env = ebind (eval_expr cx call e env) (\<lambda>v. elift (json_escape_val v))"
| "eval_expr cx call (EParseInt e) env = ebind (eval_expr cx call e env) (\<lambda>v. elift (parse_int_val v))"
| "eval_expr cx call ENowUnix env = sample_clock cx"
| "eval_expr cx call (EStartsWith h n) env =
     ebind (eval_expr cx call h env) (\<lambda>hv. ebind (eval_expr cx call n env) (\<lambda>nv. elift (text_test starts_with hv nv)))"
| "eval_expr cx call (EContains h n) env =
     ebind (eval_expr cx call h env) (\<lambda>hv. ebind (eval_expr cx call n env) (\<lambda>nv. elift (text_test str_contains hv nv)))"
| "eval_expr cx call (EEndsWith h n) env =
     ebind (eval_expr cx call h env) (\<lambda>hv. ebind (eval_expr cx call n env) (\<lambda>nv. elift (text_test ends_with hv nv)))"
| "eval_expr cx call (ELength e) env = ebind (eval_expr cx call e env) (\<lambda>v. elift (length_val v))"
| "eval_expr cx call (EMin a b) env =
     ebind (eval_expr cx call a env) (\<lambda>l. ebind (eval_expr cx call b env)
       (\<lambda>r. elift (num_args RequiresNumber (\<lambda>x y. Inr (VNumber (min x y))) l r)))"
| "eval_expr cx call (EMax a b) env =
     ebind (eval_expr cx call a env) (\<lambda>l. ebind (eval_expr cx call b env)
       (\<lambda>r. elift (num_args RequiresNumber (\<lambda>x y. Inr (VNumber (max x y))) l r)))"
| "eval_expr cx call (ESubstring t s e) env =
     ebind (eval_expr cx call t env) (\<lambda>tv. ebind (eval_expr cx call s env) (\<lambda>sv.
       ebind (eval_expr cx call e env) (\<lambda>ev. elift (substring_val tv sv ev))))"
| "eval_expr cx call (ETryByteAt table index) env =
     ebind (elift (try_byte_at_table table)) (\<lambda>bytes.
       ebind (eval_expr cx call index env) (\<lambda>i. elift (try_byte_at_val bytes i)))"
| "eval_expr cx call (EByteAt t i) env =
     ebind (eval_expr cx call t env) (\<lambda>tv. ebind (eval_expr cx call i env) (\<lambda>iv. elift (byte_at_val tv iv)))"
| "eval_expr cx call (EBitAnd a b) env =
     ebind (eval_expr cx call a env) (\<lambda>l. ebind (eval_expr cx call b env)
       (\<lambda>r. elift (num_args RequiresNumber (\<lambda>x y. Inr (VNumber (x AND y))) l r)))"
| "eval_expr cx call (EBitOr a b) env =
     ebind (eval_expr cx call a env) (\<lambda>l. ebind (eval_expr cx call b env)
       (\<lambda>r. elift (num_args RequiresNumber (\<lambda>x y. Inr (VNumber (x OR y))) l r)))"
| "eval_expr cx call (EBitXor a b) env =
     ebind (eval_expr cx call a env) (\<lambda>l. ebind (eval_expr cx call b env)
       (\<lambda>r. elift (num_args RequiresNumber (\<lambda>x y. Inr (VNumber (x XOR y))) l r)))"
| "eval_expr cx call (EBitNot e) env =
     ebind (eval_expr cx call e env) (\<lambda>v. case v of VNumber n \<Rightarrow> eret (VNumber (NOT n)) | _ \<Rightarrow> ethrow RequiresNumber)"
| "eval_expr cx call (EShl a b) env =
     ebind (eval_expr cx call a env) (\<lambda>l. ebind (eval_expr cx call b env)
       (\<lambda>r. elift (num_args RequiresNumber (\<lambda>x y. Inr (VNumber (i64_shl x y))) l r)))"
| "eval_expr cx call (EShr a b) env =
     ebind (eval_expr cx call a env) (\<lambda>l. ebind (eval_expr cx call b env)
       (\<lambda>r. elift (num_args RequiresNumber (\<lambda>x y. Inr (VNumber (u64_shr x y))) l r)))"

fun eval_lets :: "'w ictx \<Rightarrow> (rule \<Rightarrow> val \<Rightarrow> ('w, val) eval) \<Rightarrow> (string \<times> expr) list \<Rightarrow> env \<Rightarrow> ('w, env) eval" where
  "eval_lets cx call [] env = eret env"
| "eval_lets cx call ((n, e) # bs) env =
     ebind (eval_expr cx call e env) (\<lambda>v. eval_lets cx call bs (env(n \<mapsto> v)))"

section \<open>Rules\<close>

definition field_ok :: "field \<Rightarrow> val option \<Rightarrow> bool" where
  "field_ok f v =
     (case f_ty f of
        TText \<Rightarrow> (case v of Some (VText s) \<Rightarrow>
            (case f_range f of None \<Rightarrow> True | Some (_, mx) \<Rightarrow> int (length s) \<le> mx) | _ \<Rightarrow> False)
      | TNumber \<Rightarrow> (case v of Some (VNumber n) \<Rightarrow>
            (case f_range f of None \<Rightarrow> True | Some (mn, mx) \<Rightarrow> mn \<le> n \<and> n \<le> mx) | _ \<Rightarrow> False)
      | _ \<Rightarrow> False)"

text \<open>The entry guard of a participating rule: its input record meets the declared types and bounds.\<close>

definition entry_guard :: "'w ictx \<Rightarrow> rule \<Rightarrow> val \<Rightarrow> rt_error + unit" where
  "entry_guard cx r input =
     (let numeric = r_name r \<in> numeric_participating (i_rules cx) in
      if numeric \<or> r_output_text_max r \<noteq> None \<or> r_name r \<in> text_participating (i_rules cx) then
        let k = (if numeric then StrictOverflow else BoundedText) in
        (case find (\<lambda>c. r_input_ty r = TNamed (c_name c)) (i_concepts cx) of
           None \<Rightarrow> Inl (ContractUnknownConcept k)
         | Some c \<Rightarrow>
             (case input of
                VRecord fs \<Rightarrow>
                  (case find (\<lambda>f. \<not> field_ok f (map_of fs (f_name f))) (c_fields c) of
                     None \<Rightarrow> Inr ()
                   | Some f \<Rightarrow> Inl (ContractFieldViolated k (f_name f)))
              | _ \<Rightarrow> Inl (ContractNeedsRecord k)))
      else Inr ())"

definition check_output :: "rule \<Rightarrow> val \<Rightarrow> rt_error + val" where
  "check_output r v =
     (case r_output_text_max r of
        None \<Rightarrow> Inr v
      | Some mx \<Rightarrow>
          (case v of VText s \<Rightarrow> if length s \<le> mx then Inr v else Inl (OutputBoundViolated (r_name r) mx)
           | _ \<Rightarrow> Inl (OutputBoundViolated (r_name r) mx)))"

fun eval_rule_with_value :: "'w ictx \<Rightarrow> nat \<Rightarrow> rule \<Rightarrow> val \<Rightarrow> ('w, val) eval" where
  "eval_rule_with_value cx 0 r input = ethrow CallDepth"
| "eval_rule_with_value cx (Suc fuel) r input =
     ebind (elift (entry_guard cx r input)) (\<lambda>_.
       ebind (eval_lets cx (eval_rule_with_value cx fuel) (l_bindings (r_logic r)) [r_input_name r \<mapsto> input]) (\<lambda>env.
         ebind (eval_expr cx (eval_rule_with_value cx fuel) (l_value (r_logic r)) env) (\<lambda>res.
           elift (check_output r res))))"

definition eval_rule :: "'w ictx \<Rightarrow> nat \<Rightarrow> rule \<Rightarrow> (string \<times> val) list \<Rightarrow> ('w, val) eval" where
  "eval_rule cx fuel r input = eval_rule_with_value cx fuel r (VRecord input)"

definition eval_rule_expr :: "'w ictx \<Rightarrow> nat \<Rightarrow> expr \<Rightarrow> rule \<Rightarrow> (string \<times> val) list \<Rightarrow> ('w, val) eval" where
  "eval_rule_expr cx fuel e r input =
     eval_expr cx (eval_rule_with_value cx fuel) e [r_input_name r \<mapsto> VRecord input]"

section \<open>Results of evaluation steps\<close>

lemma eret_eq_Inr [res_simps]: "eret a w = Inr r \<longleftrightarrow> r = (a, w)"
  by (auto simp: eret_def)

lemma ethrow_eq_Inr [res_simps]: "ethrow e w = Inr r \<longleftrightarrow> False"
  by (simp add: ethrow_def)

lemma elift_eq_Inr [res_simps]: "elift x w = Inr r \<longleftrightarrow> (\<exists>a. x = Inr a \<and> r = (a, w))"
  by (cases x) (auto simp: elift_def)

lemma ebind_eret [simp]: "ebind (eret a) f = f a"
  by (rule ext) (simp add: ebind_def eret_def)

lemma ebind_ethrow [simp]: "ebind (ethrow e) f = ethrow e"
  by (rule ext) (simp add: ebind_def ethrow_def)

lemma elift_Inr [simp]: "elift (Inr a) = eret a"
  by (rule ext) (simp add: elift_def eret_def)

lemma elift_Inl [simp]: "elift (Inl e) = ethrow e"
  by (rule ext) (simp add: elift_def ethrow_def)

lemma case_bool_eq_Inr [res_simps]:
  "(case v of VBool b \<Rightarrow> f b | _ \<Rightarrow> ethrow e) w = Inr r \<longleftrightarrow> (\<exists>b. v = VBool b \<and> f b w = Inr r)"
  by (cases v) (auto simp: ethrow_def)

lemma case_number_eq_Inr [res_simps]:
  "(case v of VNumber n \<Rightarrow> f n | _ \<Rightarrow> ethrow e) w = Inr r \<longleftrightarrow> (\<exists>n. v = VNumber n \<and> f n w = Inr r)"
  by (cases v) (auto simp: ethrow_def)

lemma num_args_eq_Inr [res_simps]:
  "num_args e f l r = Inr v \<longleftrightarrow> (\<exists>a b. l = VNumber a \<and> r = VNumber b \<and> f a b = Inr v)"
  by (cases l; cases r) (auto simp: num_args_def)

end
