(* ===== verification/Numeric_Soundness.thy ===== *)
theory Numeric_Soundness
  imports Numeric_Bounds Interpreter
begin

text \<open>
  The overflow checker against the interpreter: whatever \<open>check_expr\<close> and \<open>check_rule\<close> accept evaluates,
  without a panic and within the computed domain, on every record that meets the entry guard. Fuel is
  the interpreter's call depth; the evaluations below hold for every sufficiently large fuel.
\<close>

section \<open>Eventual evaluation\<close>

definition run :: "'w ictx \<Rightarrow> nat \<Rightarrow> expr \<Rightarrow> env \<Rightarrow> ('w, val) eval" where
  "run cx f e env = eval_expr cx (eval_rule_with_value cx f) e env"

definition evals :: "'w ictx \<Rightarrow> expr \<Rightarrow> env \<Rightarrow> val \<Rightarrow> bool" where
  "evals cx e env v \<longleftrightarrow> (\<forall>\<^sub>F f in sequentially. run cx f e env = eret v)"

definition rule_evals :: "'w ictx \<Rightarrow> rule \<Rightarrow> (string \<times> val) list \<Rightarrow> val \<Rightarrow> bool" where
  "rule_evals cx r fs v \<longleftrightarrow> (\<forall>\<^sub>F f in sequentially. eval_rule_with_value cx f r (VRecord fs) = eret v)"

lemma evals_always: "(\<And>f. run cx f e env = eret v) \<Longrightarrow> evals cx e env v"
  by (simp add: evals_def)

lemma evals_step:
  assumes "evals cx a env va" "\<And>f. run cx f a env = eret va \<Longrightarrow> run cx f e env = eret v"
  shows "evals cx e env v"
  using assms(1) unfolding evals_def by (rule eventually_mono) (rule assms(2))

lemma evals_step2:
  assumes "evals cx a env va" "evals cx b env vb"
    and "\<And>f. run cx f a env = eret va \<Longrightarrow> run cx f b env = eret vb \<Longrightarrow> run cx f e env = eret v"
  shows "evals cx e env v"
  using assms(1,2) unfolding evals_def by eventually_elim (rule assms(3))

lemma evals_run: "evals cx e env v \<Longrightarrow> \<exists>f w w'. run cx f e env w = Inr (v, w')"
  unfolding evals_def eventually_sequentially by (metis eret_def order_refl)

section \<open>Conditions and scopes of a run\<close>

definition ev_num :: "'w ictx \<Rightarrow> env \<Rightarrow> expr \<Rightarrow> int \<Rightarrow> bool" where
  "ev_num cx env e x \<longleftrightarrow> (\<forall>f. run cx f e env = eret (VNumber x))"

definition ev_cond :: "'w ictx \<Rightarrow> env \<Rightarrow> expr \<Rightarrow> bool \<Rightarrow> bool" where
  "ev_cond cx env e t \<longleftrightarrow> (\<exists>f w w'. run cx f e env w = Inr (VBool t, w'))"

lemma run_logic:
  assumes "run cx f (EBinary op a b) env w = Inr (VBool t, w')" "op = OpAnd \<and> t \<or> op = OpOr \<and> \<not> t"
  obtains w1 where "run cx f a env w = Inr (VBool t, w1)" "run cx f b env w1 = Inr (VBool t, w')"
proof -
  have "op = OpAnd \<or> op = OpOr" using assms(2) by auto
  with assms have "\<exists>w1. run cx f a env w = Inr (VBool t, w1) \<and> run cx f b env w1 = Inr (VBool t, w')"
    by (auto simp: run_def res_simps split: if_splits)
  then show ?thesis by (auto intro: that)
qed

interpretation gs: guard_semantics "ev_num cx env" "ev_cond cx env" for cx :: "'w ictx" and env :: env
proof unfold_locales
  fix e t assume "ev_cond cx env (ENot e) t"
  then show "ev_cond cx env e (\<not> t)" unfolding ev_cond_def by (fastforce simp: run_def res_simps)
next
  fix a b assume "ev_cond cx env (EBinary OpAnd a b) True"
  then show "ev_cond cx env a True \<and> ev_cond cx env b True"
    unfolding ev_cond_def by (blast elim: run_logic)
next
  fix a b assume "ev_cond cx env (EBinary OpOr a b) False"
  then show "ev_cond cx env a False \<and> ev_cond cx env b False"
    unfolding ev_cond_def by (blast elim: run_logic)
next
  fix op a b t x y
  assume "ev_cond cx env (EBinary op a b) t" "is_comparison op" "ev_num cx env a x" "ev_num cx env b y"
  then show "compare_val op x y = t"
    by (cases op) (auto simp: ev_cond_def ev_num_def run_def is_comparison_def compare_val_def apply_binop_def
      eq_scalars_def num_args_def eret_def ebind_eq_Inr elift_def)
qed (simp_all add: run_def panicking_def ev_num_def)

definition nv_has :: "nval \<Rightarrow> val \<Rightarrow> bool" where
  "nv_has nv v \<longleftrightarrow>
     (case nv of NNumber rg \<Rightarrow> wf_ranges rg \<and> (\<exists>x \<in> gam rg. v = VNumber x) | NBool \<Rightarrow> (\<exists>b. v = VBool b))"

text \<open>A record that meets the entry guard; its numbers are \<open>i64\<close>.\<close>

definition input_ok :: "concept \<Rightarrow> (string \<times> val) list \<Rightarrow> bool" where
  "input_ok c fs \<longleftrightarrow> (\<forall>f \<in> set (c_fields c). field_ok f (map_of fs (f_name f)) \<and>
     (case map_of fs (f_name f) of Some (VNumber n) \<Rightarrow> in_i64 n | _ \<Rightarrow> True))"

definition concept_i64 :: "concept \<Rightarrow> bool" where
  "concept_i64 c \<longleftrightarrow> list_all (\<lambda>f. case f_range f of None \<Rightarrow> True | Some (lo, hi) \<Rightarrow> in_i64 lo \<and> in_i64 hi) (c_fields c)"

definition run_ok :: "'w ictx \<Rightarrow> rule \<Rightarrow> concept \<Rightarrow> (string \<times> val) list \<Rightarrow> scope \<Rightarrow> env \<Rightarrow> bool" where
  "run_ok cx r c fs sc env \<longleftrightarrow>
     scope_sound (ev_num cx env) sc \<and> sc_input sc = r_input_name r \<and> sc_concept sc = c \<and>
     (\<forall>n nv. sc_locals sc n = Some nv \<longrightarrow> (\<exists>v. env n = Some v \<and> nv_has nv v)) \<and>
     (sc_locals sc (r_input_name r) = None \<longrightarrow> env (r_input_name r) = Some (VRecord fs))"

definition nv_wf :: "nval \<Rightarrow> bool" where
  "nv_wf nv \<longleftrightarrow> (case nv of NNumber rg \<Rightarrow> wf_ranges rg | NBool \<Rightarrow> True)"

lemma nv_wf_simps [simp]: "nv_wf (NNumber rg) \<longleftrightarrow> wf_ranges rg" "nv_wf NBool"
  by (simp_all add: nv_wf_def)

lemma nv_has_simps [simp]:
  "nv_has (NNumber rg) v \<longleftrightarrow> wf_ranges rg \<and> (\<exists>x \<in> gam rg. v = VNumber x)"
  "nv_has NBool v \<longleftrightarrow> (\<exists>b. v = VBool b)"
  by (simp_all add: nv_has_def)

lemma run_ident: "env n = Some v \<Longrightarrow> run cx f (EIdent n) env = eret v"
  by (simp add: run_def)

lemma run_field: "env i = Some (VRecord fs) \<Longrightarrow> map_of fs n = Some v \<Longrightarrow> run cx f (EField (EIdent i) n) env = eret v"
  by (simp add: run_def)

lemma declared_range_ok:
  assumes "input_ok c fs" "concept_i64 c" "f \<in> set (c_fields c)" "f_ty f = TNumber"
  shows "\<exists>x. map_of fs (f_name f) = Some (VNumber x) \<and> wf_ranges (declared_range f) \<and> x \<in> gam (declared_range f)"
proof -
  have "field_ok f (map_of fs (f_name f))" using assms by (simp add: input_ok_def)
  then obtain x where x: "map_of fs (f_name f) = Some (VNumber x)"
    and rg: "case f_range f of None \<Rightarrow> True | Some (mn, mx) \<Rightarrow> mn \<le> x \<and> x \<le> mx"
    using assms(4) by (auto simp: field_ok_def split: option.splits val.splits)
  have "in_i64 x" using assms(1,3) x by (auto simp: input_ok_def)
  moreover have "case f_range f of None \<Rightarrow> True | Some (lo, hi) \<Rightarrow> in_i64 lo \<and> in_i64 hi"
    using assms(2,3) by (auto simp: concept_i64_def list_all_iff)
  ultimately show ?thesis using x rg
    by (auto simp: declared_range_def valid_ivl_def in_i64_def split: option.splits)
qed

lemma run_ok_new:
  assumes "input_ok c fs" "concept_i64 c"
    and loc: "\<forall>n nv. locals n = Some nv \<longrightarrow> (\<exists>v. env n = Some v \<and> nv_has nv v)"
    and inp: "locals (r_input_name r) = None \<longrightarrow> env (r_input_name r) = Some (VRecord fs)"
  shows "run_ok cx r c fs (scope_new r c locals) env"
proof -
  have "holds_at (ev_num cx env) (EIdent n) rg" if "scope_local (scope_new r c locals) n = Some (NNumber rg)" for n rg
    using that loc by (fastforce simp: scope_local_def scope_new_def holds_at_def ev_num_def run_ident
      split: option.splits nval.splits)
  moreover have "holds_at (ev_num cx env) (EField (EIdent (r_input_name r)) n) rg"
    if "scope_field (scope_new r c locals) n = Some rg" "locals (r_input_name r) = None" for n rg
  proof -
    from that obtain f where f: "f \<in> set (c_fields c)" "f_name f = n" "f_ty f = TNumber" "rg = declared_range f"
      by (auto simp: scope_field_def scope_new_def split: option.splits dest!: find_SomeD)
    with declared_range_ok [OF assms(1,2) f(1,3)] inp that(2) show ?thesis
      by (auto simp: holds_at_def ev_num_def run_field)
  qed
  ultimately show ?thesis using loc inp
    by (auto simp: run_ok_def scope_sound_def scope_new_def)
qed

lemma run_ok_branch:
  assumes "run_ok cx r c fs sc env" "evals cx cond env (VBool t)" "lits_i64 cond"
  shows "run_ok cx r c fs (scope_branch sc cond t) env"
  using gs.scope_branch_sound [of cx env sc cond t] evals_run [OF assms(2)] assms(1,3)
  by (auto simp: run_ok_def extends_def ev_cond_def)

section \<open>Checked expressions\<close>

lemma cache_ok_steps [simp]: "cache_good ck_cache good (st\<lparr>ck_steps := k\<rparr>) = cache_good ck_cache good st"
  by (simp add: cache_good_def)

lemma keeps_visit [simp]: "keeps (cache_good ck_cache good) m \<Longrightarrow> keeps (cache_good ck_cache good) (visit d m)"
  by (simp add: keeps_def visit_def Let_def)

lemma keeps_check_expr:
  "(\<And>n. keeps (cache_good ck_cache good) (call n)) \<Longrightarrow>
     keeps (cache_good ck_cache good) (check_expr nt call r e sc d)"
  by (induction nt call r e sc d rule: check_expr.induct) (simp_all add: keeps_cbind)

lemma keeps_check_lets:
  "(\<And>n. keeps (cache_good ck_cache good) (call n)) \<Longrightarrow>
     keeps (cache_good ck_cache good) (check_lets nt call r c bs env)"
  by (induction nt call r c bs env rule: check_lets.induct) (simp_all add: keeps_cbind keeps_check_expr)

lemma visit_eq_Inr [res_simps]: "visit d m st = (Inr a, st') \<longleftrightarrow>
    ck_steps st < 100000 \<and> d < 256 \<and> m (st\<lparr>ck_steps := ck_steps st + 1\<rparr>) = (Inr a, st')"
  by (auto simp: visit_def Let_def)

lemma nv_number_eq: "nv_number v = Inr rg \<longleftrightarrow> v = NNumber rg"
  by (cases v) (auto simp: nv_number_def)

lemma nv_boolean_eq: "nv_boolean v = Inr u \<longleftrightarrow> v = NBool"
  by (cases v) (auto simp: nv_boolean_def)

text \<open>
  What the cache promises: a cached value describes the rule of that name on every admissible input.
  \<open>admissible\<close> is membership in the rule's input concept together with its declared bounds.
\<close>

definition admissible :: "num_tables \<Rightarrow> rule \<Rightarrow> (string \<times> val) list \<Rightarrow> bool" where
  "admissible nt r fs \<longleftrightarrow> (\<exists>cn c. r_input_ty r = TNamed cn \<and> nt_concepts nt cn = Some c \<and> input_ok c fs)"

definition rule_sound :: "'w ictx \<Rightarrow> num_tables \<Rightarrow> rule \<Rightarrow> nval \<Rightarrow> bool" where
  "rule_sound cx nt r nv \<longleftrightarrow> nv_wf nv \<and> (\<forall>fs. admissible nt r fs \<longrightarrow> (\<exists>v. nv_has nv v \<and> rule_evals cx r fs v))
     \<and> (\<forall>h. overflow_of r = Some h \<longrightarrow> nv = NNumber (mk_interval (o_min h) (o_max h)))"

definition nt_good :: "'w ictx \<Rightarrow> num_tables \<Rightarrow> string \<Rightarrow> nval \<Rightarrow> bool" where
  "nt_good cx nt n nv \<longleftrightarrow> (\<exists>r. nt_rules nt n = Some r \<and> rule_sound cx nt r nv)"

abbreviation cache_ok :: "'w ictx \<Rightarrow> num_tables \<Rightarrow> check_st \<Rightarrow> bool" where
  "cache_ok cx nt \<equiv> cache_good ck_cache (nt_good cx nt)"

abbreviation call_ok :: "'w ictx \<Rightarrow> num_tables \<Rightarrow> (string \<Rightarrow> nval check) \<Rightarrow> bool" where
  "call_ok cx nt \<equiv> call_good ck_cache (nt_good cx nt)"

text \<open>The tables of the checker name the rules that the interpreter finds.\<close>

definition same_rules :: "'w ictx \<Rightarrow> num_tables \<Rightarrow> bool" where
  "same_rules cx nt \<longleftrightarrow> (\<forall>n. nt_rules nt n = find (\<lambda>r. r_name r = n) (i_rules cx))"

lemma run_number_ops:
  assumes "run cx f a env = eret (VNumber x)"
  shows "in_i64 (- x) \<Longrightarrow> run cx f (ENeg a) env = eret (VNumber (- x))"
    and "in_i64 \<bar>x\<bar> \<Longrightarrow> run cx f (EAbs a) env = eret (VNumber \<bar>x\<bar>)"
    and "run cx f b env = eret (VNumber y) \<Longrightarrow> run cx f (EMin a b) env = eret (VNumber (min x y))"
    and "run cx f b env = eret (VNumber y) \<Longrightarrow> run cx f (EMax a b) env = eret (VNumber (max x y))"
    and "run cx f b env = eret (VNumber y) \<Longrightarrow> arith_ok op x y \<Longrightarrow>
      run cx f (EBinary op a b) env = eret (VNumber (arith_val op x y))"
    and "run cx f b env = eret (VNumber y) \<Longrightarrow> is_comparison op \<Longrightarrow>
      run cx f (EBinary op a b) env = eret (VBool (compare_val op x y))"
  using assms
  by (auto simp: run_def panicking_def wrapping_abs_def num_args_def arith_ok_def arith_val_def apply_binop_def
    i64_div_def i64_rem_def is_comparison_def compare_val_def eq_scalars_def split: binop.splits)

lemma run_bool_ops:
  assumes "run cx f a env = eret (VBool x)"
  shows "run cx f (ENot a) env = eret (VBool (\<not> x))"
    and "run cx f b env = eret (VBool y) \<Longrightarrow> op = OpAnd \<or> op = OpOr \<Longrightarrow>
      run cx f (EBinary op a b) env = eret (VBool (if op = OpAnd then x \<and> y else x \<or> y))"
    and "run cx f b env = eret (VBool y) \<Longrightarrow> op = OpEq \<or> op = OpNotEq \<Longrightarrow>
      run cx f (EBinary op a b) env = eret (VBool (if op = OpEq then x = y else x \<noteq> y))"
  using assms by (auto simp: run_def apply_binop_def eq_scalars_def)

lemma evals_det: "evals cx e env v \<Longrightarrow> evals cx e env v' \<Longrightarrow> v = v'"
proof -
  assume "evals cx e env v" "evals cx e env v'"
  then have "\<forall>\<^sub>F f in sequentially. eret v = (eret v' :: ('a, val) eval)"
    unfolding evals_def by eventually_elim simp
  then show "v = v'" by (auto simp: eventually_sequentially eret_def fun_eq_iff)
qed

lemma check_arith_sound:
  assumes "check_arith op rep va vb = Inr nv" "nv_has va x" "nv_has vb y" "rep \<Longrightarrow> x = y"
    and "evals cx a env x" "evals cx b env y"
  shows "\<exists>v. nv_has nv v \<and> evals cx (EBinary op a b) env v"
proof -
  from assms(1) obtain ra rb rg where v: "va = NNumber ra" "vb = NNumber rb" "nv = NNumber rg"
    and rg: "(if rep then repeated_arithmetic ra op else rg_arithmetic ra op rb) = Inr rg"
    by (auto simp: check_arith_def rbind_eq_Inr nv_number_eq)
  from assms(2,3) v obtain m n where n: "x = VNumber m" "y = VNumber n" "m \<in> gam ra" "n \<in> gam rb"
    and wf: "wf_ranges ra" "wf_ranges rb" by auto
  have "wf_ranges rg \<and> arith_val op m n \<in> gam rg \<and> arith_ok op m n"
  proof (cases rep)
    case True
    with assms(4) n rg show ?thesis using repeated_arithmetic_sound(1) [of ra op rg] repeated_arithmetic_sound(2) [of ra op rg m] wf by auto
  next
    case False
    with n rg show ?thesis using rg_arithmetic_sound(1) [of ra op rb rg] rg_arithmetic_sound(2) [of ra op rb rg m n] wf by auto
  qed
  moreover from this n have "evals cx (EBinary op a b) env (VNumber (arith_val op m n))"
    by (intro evals_step2 [OF assms(5,6)]) (simp add: run_number_ops(5))
  ultimately show ?thesis using v by auto
qed

lemma check_binary_cases:
  assumes "check_binary op rep va vb = Inr nv"
  obtains (logic) "op = OpAnd \<or> op = OpOr" "va = NBool" "vb = NBool" "nv = NBool"
    | (eq) "op = OpEq \<or> op = OpNotEq" "nv_ty va = nv_ty vb" "nv = NBool"
    | (ord) ra rb where "op \<in> {OpGt, OpGtEq, OpLt, OpLtEq}" "va = NNumber ra" "vb = NNumber rb" "nv = NBool"
    | (arith) "check_arith op rep va vb = Inr nv"
proof (cases "op = OpAnd \<or> op = OpOr")
  case True
  with assms logic show ?thesis by (simp add: check_binary_def rbind_eq_Inr nv_boolean_eq)
next
  case no_logic: False
  show ?thesis
  proof (cases "(op = OpEq \<or> op = OpNotEq) \<and> nv_ty va = nv_ty vb")
    case True
    with assms no_logic eq show ?thesis by (simp add: check_binary_def)
  next
    case no_eq: False
    have def: "check_binary op rep va vb = (if op \<in> {OpGt, OpGtEq, OpLt, OpLtEq}
        then rbind (nv_number va) (\<lambda>_. rbind (nv_number vb) (\<lambda>_. Inr NBool)) else check_arith op rep va vb)"
      using no_logic no_eq by (simp only: check_binary_def if_False)
    show ?thesis
    proof (cases "op \<in> {OpGt, OpGtEq, OpLt, OpLtEq}")
      case True
      with assms def have "rbind (nv_number va) (\<lambda>_. rbind (nv_number vb) (\<lambda>_. Inr NBool)) = Inr nv" by simp
      then show ?thesis using ord [OF True] by (auto simp: rbind_eq_Inr nv_number_eq)
    next
      case False
      with assms def arith show ?thesis by simp
    qed
  qed
qed

lemma evals_ops:
  shows "evals cx a env (VNumber m) \<Longrightarrow> evals cx b env (VNumber n) \<Longrightarrow> is_comparison op \<Longrightarrow>
      evals cx (EBinary op a b) env (VBool (compare_val op m n))"
    and "evals cx a env (VBool x) \<Longrightarrow> evals cx b env (VBool y) \<Longrightarrow> op = OpAnd \<or> op = OpOr \<Longrightarrow>
      evals cx (EBinary op a b) env (VBool (if op = OpAnd then x \<and> y else x \<or> y))"
    and "evals cx a env (VBool x) \<Longrightarrow> evals cx b env (VBool y) \<Longrightarrow> op = OpEq \<or> op = OpNotEq \<Longrightarrow>
      evals cx (EBinary op a b) env (VBool (if op = OpEq then x = y else x \<noteq> y))"
  by (erule (1) evals_step2; rule run_number_ops run_bool_ops; assumption)+

lemma check_binary_sound:
  assumes "check_binary op rep va vb = Inr nv" "nv_has va x" "nv_has vb y" "rep \<Longrightarrow> x = y"
    and ev: "evals cx a env x" "evals cx b env y"
  shows "\<exists>v. nv_has nv v \<and> evals cx (EBinary op a b) env v"
  using assms(1)
proof (cases rule: check_binary_cases)
  case logic
  with assms(2,3) obtain m n where "x = VBool m" "y = VBool n" by auto
  with evals_ops(2) [of cx a env m b n op] ev logic show ?thesis by auto
next
  case eq
  then consider m n where "x = VNumber m" "y = VNumber n" | m n where "x = VBool m" "y = VBool n"
    using assms(2,3) by (cases va; cases vb) (auto simp: nv_ty_def)
  then show ?thesis
  proof cases
    case (1 m n)
    with evals_ops(1) [of cx a env m b n op] eq ev show ?thesis by (auto simp: is_comparison_def)
  next
    case (2 m n)
    with evals_ops(3) [of cx a env m b n op] eq ev show ?thesis by auto
  qed
next
  case ord
  with assms(2,3) obtain m n where "x = VNumber m" "y = VNumber n" by auto
  with evals_ops(1) [of cx a env m b n op] ord ev show ?thesis by (auto simp: is_comparison_def)
next
  case arith
  then show ?thesis by (rule check_arith_sound [OF _ assms(2-6)])
qed

lemma check_unary_sound:
  assumes "check_unary g va = Inr nv" "nv_has va x" "evals cx a env x"
  shows "g = neg_ivl \<Longrightarrow> \<exists>v. nv_has nv v \<and> evals cx (ENeg a) env v"
    and "g = abs_ivl \<Longrightarrow> \<exists>v. nv_has nv v \<and> evals cx (EAbs a) env v"
proof -
  from assms(1,2) obtain ra rg m where v: "va = NNumber ra" "nv = NNumber rg" "rg_map ra g = Inr rg"
    "x = VNumber m" "m \<in> gam ra" "wf_ranges ra"
    by (auto simp: check_unary_def rbind_eq_Inr nv_number_eq)
  show "\<exists>v. nv_has nv v \<and> evals cx (ENeg a) env v" if "g = neg_ivl"
  proof -
    have "wf_ranges rg" "- m \<in> gam rg" using negate.rg_map_sound(1) [of ra rg] negate.rg_map_sound(2) [of ra rg m] v that by auto
    with v show ?thesis
      using gam_in_i64 [of rg "- m"] by (auto intro!: exI evals_step [OF assms(3)] run_number_ops(1))
  qed
  show "\<exists>v. nv_has nv v \<and> evals cx (EAbs a) env v" if "g = abs_ivl"
  proof -
    have "wf_ranges rg" "\<bar>m\<bar> \<in> gam rg" using absolute.rg_map_sound(1) [of ra rg] absolute.rg_map_sound(2) [of ra rg m] v that by auto
    with v show ?thesis
      using gam_in_i64 [of rg "\<bar>m\<bar>"] by (auto intro!: exI evals_step [OF assms(3)] run_number_ops(2))
  qed
qed

lemma min_max_sound:
  assumes "nv_has (NNumber ra) x" "nv_has (NNumber rb) y" "evals cx a env x" "evals cx b env y"
  shows "pairwise ra rb min_ivl = Inr rg \<Longrightarrow> \<exists>v. nv_has (NNumber rg) v \<and> evals cx (EMin a b) env v"
    and "pairwise ra rb max_ivl = Inr rg \<Longrightarrow> \<exists>v. nv_has (NNumber rg) v \<and> evals cx (EMax a b) env v"
proof -
  from assms(1,2) obtain m n where v: "x = VNumber m" "y = VNumber n" "m \<in> gam ra" "n \<in> gam rb"
    "wf_ranges ra" "wf_ranges rb" by auto
  show "\<exists>v. nv_has (NNumber rg) v \<and> evals cx (EMin a b) env v" if "pairwise ra rb min_ivl = Inr rg"
    using minimum.pairwise_sound(1) [OF that v(5,6)] minimum.pairwise_sound(2) [OF that v(5,6), of m n] v
    by (auto intro!: exI evals_step2 [OF assms(3,4)] run_number_ops(3))
  show "\<exists>v. nv_has (NNumber rg) v \<and> evals cx (EMax a b) env v" if "pairwise ra rb max_ivl = Inr rg"
    using maximum.pairwise_sound(1) [OF that v(5,6)] maximum.pairwise_sound(2) [OF that v(5,6), of m n] v
    by (auto intro!: exI evals_step2 [OF assms(3,4)] run_number_ops(4))
qed

lemma scope_local_has:
  assumes "run_ok cx r c fs sc env" "scope_local sc n = Some nv"
  shows "\<exists>v. nv_has nv v \<and> evals cx (EIdent n) env v"
proof (cases nv)
  case (NNumber rg)
  with assms have "holds_at (ev_num cx env) (EIdent n) rg" by (auto simp: run_ok_def scope_sound_def)
  with NNumber show ?thesis by (auto simp: holds_at_def ev_num_def evals_def)
next
  case NBool
  with assms(2) have "sc_locals sc n = Some NBool" by (auto simp: scope_local_def split: option.splits nval.splits)
  with assms(1) obtain v where "env n = Some v" "nv_has NBool v" unfolding run_ok_def by blast
  with NBool show ?thesis by (auto intro!: evals_always run_ident)
qed

lemma reads_input_iff:
  "reads_input r sc e \<longleftrightarrow> e = EIdent (r_input_name r) \<and> sc_locals sc (r_input_name r) = None"
  by (cases e) (auto simp: reads_input_def)

lemma check_field_eq:
  assumes "check_field r sc base name = Inr nv"
  shows "reads_input r sc base \<and> (\<exists>rg. nv = NNumber rg \<and> scope_field sc name = Some rg)"
proof -
  from assms obtain f where f: "reads_input r sc base" "f_ty f = TNumber"
    "find (\<lambda>f. f_name f = name) (c_fields (sc_concept sc)) = Some f" "nv = NNumber (the (scope_field sc name))"
    by (auto simp: check_field_def split: if_splits option.splits)
  have "scope_field sc name \<noteq> None"
    using find_SomeD [OF f(3)] f(2) by (auto simp: scope_field_def find_None split: option.splits)
  with f show ?thesis by auto
qed

lemma check_field_has:
  assumes "run_ok cx r c fs sc env" "check_field r sc base name = Inr nv"
  shows "\<exists>v. nv_has nv v \<and> evals cx (EField base name) env v"
proof -
  obtain rg where "nv = NNumber rg" "scope_field sc name = Some rg" "base = EIdent (r_input_name r)"
    "sc_locals sc (r_input_name r) = None"
    using check_field_eq [OF assms(2)] by (auto simp: reads_input_iff)
  moreover from this assms(1) have "holds_at (ev_num cx env) (EField base name) rg"
    by (auto simp: run_ok_def scope_sound_def)
  ultimately show ?thesis by (auto simp: holds_at_def ev_num_def evals_def)
qed

lemma check_call_has:
  assumes ok: "run_ok cx r c fs sc env" and cc: "check_call nt r sc name args = Inr u"
    and callee: "nt_rules nt name = Some r'" "rule_sound cx nt r' nv" and adm: "admissible nt r fs"
    and same: "same_rules cx nt"
  shows "\<exists>v. nv_has nv v \<and> evals cx (ECall name args) env v"
proof -
  from cc callee have a: "args = [EIdent (r_input_name r)]" "r_input_ty r' = r_input_ty r"
    "env (r_input_name r) = Some (VRecord fs)"
    using ok by (cases args; auto simp: check_call_def reads_input_iff run_ok_def split: if_splits)+
  have "admissible nt r' fs" using adm a(2) by (simp add: admissible_def)
  with callee(2) obtain v where v: "nv_has nv v" "rule_evals cx r' fs v" by (auto simp: rule_sound_def)
  have "run cx f (ECall name args) env = eval_rule_with_value cx f r' (VRecord fs)" for f
    using same callee(1) a by (simp add: run_def same_rules_def eret_def [symmetric, abs_def])
  with v show ?thesis by (auto simp: evals_def rule_evals_def)
qed

lemma call_ok_result:
  assumes "call_ok cx nt call" "cache_ok cx nt st" "call n (st\<lparr>ck_steps := k\<rparr>) = (Inr nv, st')"
  obtains r where "nt_rules nt n = Some r" "rule_sound cx nt r nv"
proof -
  have "cache_ok cx nt (st\<lparr>ck_steps := k\<rparr>)" using assms(2) by simp
  with assms(1,3) have "nt_good cx nt n nv" unfolding call_good_def by blast
  with that show ?thesis by (auto simp: nt_good_def)
qed

lemma same_scalar_eq:
  assumes "run_ok cx r c fs sc env" "same_scalar sc a b"
  shows "a = b"
  using assms gs.scope_scalar_sound [of sc a _ _ cx env] gs.scope_scalar_sound [of sc b _ _ cx env]
  by (force simp: same_scalar_def run_ok_def split: option.splits prod.splits)

lemma check_expr_cache:
  assumes "call_ok cx nt call" "cache_ok cx nt st" "check_expr nt call r e sc d st = (res, st')"
  shows "cache_ok cx nt st'"
  by (rule keepsD [OF keeps_check_expr assms(2,3)]) (use assms(1) in \<open>simp add: call_good_def\<close>)

text \<open>Every computed domain is well formed, on the branches a run does not take too.\<close>

lemma check_unary_wf:
  assumes "check_unary g va = Inr nv" "nv_wf va" "g = neg_ivl \<or> g = abs_ivl"
  shows "nv_wf nv"
  using assms negate.rg_map_sound(1) absolute.rg_map_sound(1)
  by (fastforce simp: check_unary_def rbind_eq_Inr nv_number_eq)

lemma check_join_wf: "check_join va vb = Inr nv \<Longrightarrow> nv_wf va \<Longrightarrow> nv_wf vb \<Longrightarrow> nv_wf nv"
  by (cases va; cases vb) (auto simp: check_join_def join_sound(1))

lemma check_join_has:
  assumes "check_join va vb = Inr nv" "nv_wf va" "nv_wf vb" "nv_has (if t then va else vb) v"
  shows "nv_has nv v"
proof (cases va)
  case (NNumber x)
  with assms(1) obtain y where y: "vb = NNumber y" "nv = NNumber (join x y)"
    by (cases vb) (auto simp: check_join_def)
  with NNumber assms(2-4) join_sound [of x y] show ?thesis by (cases t) auto
next
  case NBool
  with assms(1,4) show ?thesis by (cases vb) (auto simp: check_join_def split: if_splits)
qed

lemma check_binary_wf:
  assumes "check_binary op rep va vb = Inr nv" "nv_wf va" "nv_wf vb"
  shows "nv_wf nv"
  using assms(1)
proof (cases rule: check_binary_cases)
  case arith
  with assms(2,3) show ?thesis using repeated_arithmetic_sound(1) rg_arithmetic_sound(1)
    by (fastforce simp: check_arith_def rbind_eq_Inr nv_number_eq split: if_splits)
qed simp_all

lemma check_field_wf:
  assumes "check_field r sc base name = Inr nv" "scope_wf sc"
  shows "nv_wf nv"
proof -
  from check_field_eq [OF assms(1)] obtain rg where "nv = NNumber rg" "scope_field sc name = Some rg" by blast
  with assms(2) show ?thesis by (simp add: scope_wf_def)
qed

lemma check_expr_wf:
  "call_ok cx nt call \<Longrightarrow> cache_ok cx nt st \<Longrightarrow> check_expr nt call r e sc d st = (Inr nv, st') \<Longrightarrow>
     scope_wf sc \<Longrightarrow> lits_i64 e \<Longrightarrow> nv_wf nv"
proof (induction nt call r e sc d arbitrary: st nv st' rule: check_expr.induct)
  case (1 nt call r n sc d)
  then show ?case by (auto simp: res_simps lits_simps valid_ivl_def)
next
  case (2 nt call r n sc d)
  then show ?case by (cases nv) (auto simp: res_simps scope_wf_def split: option.splits)
next
  case (3 nt call r base name sc d)
  then show ?case using check_field_wf by (auto simp: res_simps)
next
  case (4 nt call r cnd a b sc d)
  let ?st = "st\<lparr>ck_steps := ck_steps st + 1\<rparr>"
  from "4.prems" obtain s1 s2 vc va vb where
    c: "check_expr nt call r cnd sc (Suc d) ?st = (Inr vc, s1)"
    and a: "check_expr nt call r a (scope_branch sc cnd True) (Suc d) s1 = (Inr va, s2)"
    and b: "check_expr nt call r b (scope_branch sc cnd False) (Suc d) s2 = (Inr vb, st')"
    and j: "check_join va vb = Inr nv"
    by (auto simp: res_simps)
  note lits = "4.prems"(5) [unfolded lits_simps]
  have s1: "cache_ok cx nt s1" using check_expr_cache [OF _ _ c] "4.prems" by simp
  then have s2: "cache_ok cx nt s2" using check_expr_cache [OF _ _ a] "4.prems" by simp
  have "nv_wf va" "nv_wf vb"
    using "4.IH"(2) [OF _ s1 a] "4.IH"(3) [OF _ s2 b] "4.prems"(1,4) lits scope_branch_wf by auto
  then show ?case by (rule check_join_wf [OF j])
next
  case (6 nt call r e sc d)
  then obtain va s1 where e: "check_expr nt call r e sc (Suc d) (st\<lparr>ck_steps := ck_steps st + 1\<rparr>) = (Inr va, s1)"
    "check_unary neg_ivl va = Inr nv" by (auto simp: res_simps)
  then have "nv_wf va" using "6.IH" [OF "6.prems"(1) _ e(1)] "6.prems" by (simp add: lits_simps)
  then show ?case using check_unary_wf [OF e(2)] by simp
next
  case (7 nt call r e sc d)
  then obtain va s1 where e: "check_expr nt call r e sc (Suc d) (st\<lparr>ck_steps := ck_steps st + 1\<rparr>) = (Inr va, s1)"
    "check_unary abs_ivl va = Inr nv" by (auto simp: res_simps)
  then have "nv_wf va" using "7.IH" [OF "7.prems"(1) _ e(1)] "7.prems" by (simp add: lits_simps)
  then show ?case using check_unary_wf [OF e(2)] by simp
next
  case (8 nt call r a b sc d)
  let ?st = "st\<lparr>ck_steps := ck_steps st + 1\<rparr>"
  from "8.prems" obtain s1 x y rg where
    a: "check_expr nt call r a sc (Suc d) ?st = (Inr (NNumber x), s1)"
    and b: "check_expr nt call r b sc (Suc d) s1 = (Inr (NNumber y), st')"
    and j: "pairwise x y min_ivl = Inr rg" "nv = NNumber rg"
    by (auto simp: res_simps nv_number_eq)
  have s1: "cache_ok cx nt s1" using check_expr_cache [OF _ _ a] "8.prems" by simp
  have "wf_ranges x" "wf_ranges y"
    using "8.IH"(1) [OF "8.prems"(1) _ a] "8.IH"(2) [OF "8.prems"(1) s1 b] "8.prems" by (auto simp: lits_simps)
  then show ?case using minimum.pairwise_sound(1) [OF j(1)] j(2) by simp
next
  case (9 nt call r a b sc d)
  let ?st = "st\<lparr>ck_steps := ck_steps st + 1\<rparr>"
  from "9.prems" obtain s1 x y rg where
    a: "check_expr nt call r a sc (Suc d) ?st = (Inr (NNumber x), s1)"
    and b: "check_expr nt call r b sc (Suc d) s1 = (Inr (NNumber y), st')"
    and j: "pairwise x y max_ivl = Inr rg" "nv = NNumber rg"
    by (auto simp: res_simps nv_number_eq)
  have s1: "cache_ok cx nt s1" using check_expr_cache [OF _ _ a] "9.prems" by simp
  have "wf_ranges x" "wf_ranges y"
    using "9.IH"(1) [OF "9.prems"(1) _ a] "9.IH"(2) [OF "9.prems"(1) s1 b] "9.prems" by (auto simp: lits_simps)
  then show ?case using maximum.pairwise_sound(1) [OF j(1)] j(2) by simp
next
  case (10 nt call r op a b sc d)
  let ?st = "st\<lparr>ck_steps := ck_steps st + 1\<rparr>"
  from "10.prems" obtain s1 va vb where
    a: "check_expr nt call r a sc (Suc d) ?st = (Inr va, s1)"
    and b: "check_expr nt call r b sc (Suc d) s1 = (Inr vb, st')"
    and j: "check_binary op (same_scalar sc a b) va vb = Inr nv"
    by (auto simp: res_simps)
  have s1: "cache_ok cx nt s1" using check_expr_cache [OF _ _ a] "10.prems" by simp
  have "nv_wf va" "nv_wf vb"
    using "10.IH"(1) [OF "10.prems"(1) _ a] "10.IH"(2) [OF "10.prems"(1) s1 b] "10.prems" by (auto simp: lits_simps)
  then show ?case by (rule check_binary_wf [OF j])
next
  case (11 nt call r name args sc d)
  then have "call name (st\<lparr>ck_steps := ck_steps st + 1\<rparr>) = (Inr nv, st')" by (auto simp: res_simps)
  then show ?case by (rule call_ok_result [OF "11.prems"(1,2)]) (simp add: rule_sound_def)
qed (auto simp: res_simps cfail_def)

text \<open>The whole analysis of one expression, in a state whose cache is sound.\<close>

lemma check_expr_sound:
  fixes cx :: "'w ictx"
  shows "call_ok cx nt call \<Longrightarrow> same_rules cx nt \<Longrightarrow> admissible nt r fs \<Longrightarrow>
     cache_ok cx nt st \<Longrightarrow> check_expr nt call r e sc d st = (Inr nv, st') \<Longrightarrow>
     run_ok cx r c fs sc env \<Longrightarrow> lits_i64 e \<Longrightarrow> scope_wf sc \<Longrightarrow> \<exists>v. nv_has nv v \<and> evals cx e env v"
proof (induction nt call r e sc d arbitrary: st nv st' rule: check_expr.induct)
  case (1 nt call r n sc d)
  have "evals cx (ENumber n) env (VNumber n)" by (rule evals_always) (simp add: run_def)
  with 1 show ?case by (auto simp: res_simps lits_simps valid_ivl_def)
next
  case (2 nt call r n sc d)
  then show ?case using scope_local_has [of cx r c fs sc env n]
    by (auto simp: res_simps split: option.splits)
next
  case (3 nt call r base name sc d)
  then show ?case using check_field_has [of cx r c fs sc env base name] by (auto simp: res_simps)
next
  case (4 nt call r cnd a b sc d)
  let ?st = "st\<lparr>ck_steps := ck_steps st + 1\<rparr>"
  from "4.prems" obtain s1 s2 va vb where
    c: "check_expr nt call r cnd sc (Suc d) ?st = (Inr NBool, s1)"
    and a: "check_expr nt call r a (scope_branch sc cnd True) (Suc d) s1 = (Inr va, s2)"
    and b: "check_expr nt call r b (scope_branch sc cnd False) (Suc d) s2 = (Inr vb, st')"
    and j: "check_join va vb = Inr nv"
    by (auto simp: res_simps nv_boolean_eq)
  have lits: "lits_i64 cnd" "lits_i64 a" "lits_i64 b" using "4.prems"(7) by (auto simp: lits_simps)
  have ok: "cache_ok cx nt s1" using check_expr_cache [OF _ _ c] "4.prems" by simp
  then have ok2: "cache_ok cx nt s2" using check_expr_cache [OF _ _ a] "4.prems" by simp
  obtain t where t: "evals cx cnd env (VBool t)"
    using "4.IH"(1) [OF "4.prems"(1-3) _ c "4.prems"(6) lits(1)] "4.prems"(4,8) by auto
  note br = run_ok_branch [OF "4.prems"(6) t lits(1)]
  have wf: "nv_wf va" "nv_wf vb"
    using check_expr_wf [OF "4.prems"(1) ok a _ lits(2)] check_expr_wf [OF "4.prems"(1) ok2 b _ lits(3)]
      scope_branch_wf [OF "4.prems"(8) lits(1)] by auto
  have "\<exists>v. nv_has (if t then va else vb) v \<and> evals cx (if t then a else b) env v"
    using "4.IH"(2) [OF "4.prems"(1-3) ok a _ lits(2)] "4.IH"(3) [OF "4.prems"(1-3) ok2 b _ lits(3)] br
      scope_branch_wf [OF "4.prems"(8) lits(1)] by (cases t) auto
  then obtain v where v: "nv_has (if t then va else vb) v" "evals cx (if t then a else b) env v" by auto
  have "nv_has nv v" using check_join_has [OF j wf v(1)] .
  moreover have "evals cx (EIf cnd a b) env v"
    by (rule evals_step2 [OF t v(2)]) (cases t; simp add: run_def)
  ultimately show ?case by auto
next
  case (5 nt call r e sc d)
  then obtain s1 where e: "check_expr nt call r e sc (Suc d) (st\<lparr>ck_steps := ck_steps st + 1\<rparr>) = (Inr NBool, s1)"
    "nv = NBool" by (auto simp: res_simps nv_boolean_eq)
  obtain t where "evals cx e env (VBool t)"
    using "5.IH" [OF "5.prems"(1-3) _ e(1) "5.prems"(6)] "5.prems"(4,7,8) by (auto simp: lits_simps)
  then have "evals cx (ENot e) env (VBool (\<not> t))" by (rule evals_step) (rule run_bool_ops)
  with e show ?case by auto
next
  case (6 nt call r e sc d)
  then obtain va s1 where e: "check_expr nt call r e sc (Suc d) (st\<lparr>ck_steps := ck_steps st + 1\<rparr>) = (Inr va, s1)"
    "check_unary neg_ivl va = Inr nv" by (auto simp: res_simps)
  obtain x where "nv_has va x" "evals cx e env x"
    using "6.IH" [OF "6.prems"(1-3) _ e(1) "6.prems"(6)] "6.prems"(4,7,8) by (auto simp: lits_simps)
  with e show ?case using check_unary_sound(1) by blast
next
  case (7 nt call r e sc d)
  then obtain va s1 where e: "check_expr nt call r e sc (Suc d) (st\<lparr>ck_steps := ck_steps st + 1\<rparr>) = (Inr va, s1)"
    "check_unary abs_ivl va = Inr nv" by (auto simp: res_simps)
  obtain x where "nv_has va x" "evals cx e env x"
    using "7.IH" [OF "7.prems"(1-3) _ e(1) "7.prems"(6)] "7.prems"(4,7,8) by (auto simp: lits_simps)
  with e show ?case using check_unary_sound(2) by blast
next
  case (8 nt call r a b sc d)
  let ?st = "st\<lparr>ck_steps := ck_steps st + 1\<rparr>"
  from "8.prems" obtain s1 x y rg where
    a: "check_expr nt call r a sc (Suc d) ?st = (Inr (NNumber x), s1)"
    and b: "check_expr nt call r b sc (Suc d) s1 = (Inr (NNumber y), st')"
    and j: "pairwise x y min_ivl = Inr rg" "nv = NNumber rg"
    by (auto simp: res_simps nv_number_eq)
  have s1: "cache_ok cx nt s1" using check_expr_cache [OF _ _ a] "8.prems" by simp
  obtain u v where "nv_has (NNumber x) u" "evals cx a env u" "nv_has (NNumber y) v" "evals cx b env v"
    using "8.IH"(1) [OF "8.prems"(1-3) _ a "8.prems"(6)] "8.IH"(2) [OF "8.prems"(1-3) s1 b "8.prems"(6)]
      "8.prems"(4,7,8) by (auto simp: lits_simps)
  then show ?case using min_max_sound(1) j by blast
next
  case (9 nt call r a b sc d)
  let ?st = "st\<lparr>ck_steps := ck_steps st + 1\<rparr>"
  from "9.prems" obtain s1 x y rg where
    a: "check_expr nt call r a sc (Suc d) ?st = (Inr (NNumber x), s1)"
    and b: "check_expr nt call r b sc (Suc d) s1 = (Inr (NNumber y), st')"
    and j: "pairwise x y max_ivl = Inr rg" "nv = NNumber rg"
    by (auto simp: res_simps nv_number_eq)
  have s1: "cache_ok cx nt s1" using check_expr_cache [OF _ _ a] "9.prems" by simp
  obtain u v where "nv_has (NNumber x) u" "evals cx a env u" "nv_has (NNumber y) v" "evals cx b env v"
    using "9.IH"(1) [OF "9.prems"(1-3) _ a "9.prems"(6)] "9.IH"(2) [OF "9.prems"(1-3) s1 b "9.prems"(6)]
      "9.prems"(4,7,8) by (auto simp: lits_simps)
  then show ?case using min_max_sound(2) j by blast
next
  case (10 nt call r op a b sc d)
  let ?st = "st\<lparr>ck_steps := ck_steps st + 1\<rparr>"
  from "10.prems" obtain s1 va vb where
    a: "check_expr nt call r a sc (Suc d) ?st = (Inr va, s1)"
    and b: "check_expr nt call r b sc (Suc d) s1 = (Inr vb, st')"
    and j: "check_binary op (same_scalar sc a b) va vb = Inr nv"
    by (auto simp: res_simps)
  have s1: "cache_ok cx nt s1" using check_expr_cache [OF _ _ a] "10.prems" by simp
  obtain u v where uv: "nv_has va u" "evals cx a env u" "nv_has vb v" "evals cx b env v"
    using "10.IH"(1) [OF "10.prems"(1-3) _ a "10.prems"(6)] "10.IH"(2) [OF "10.prems"(1-3) s1 b "10.prems"(6)]
      "10.prems"(4,7,8) by (auto simp: lits_simps)
  have "u = v" if "same_scalar sc a b"
    using same_scalar_eq [OF "10.prems"(6) that] uv evals_det by blast
  then show ?case using check_binary_sound [OF j uv(1,3) _ uv(2,4)] by blast
next
  case (11 nt call r name args sc d)
  then obtain u where "check_call nt r sc name args = Inr u"
    "call name (st\<lparr>ck_steps := ck_steps st + 1\<rparr>) = (Inr nv, st')" by (auto simp: res_simps)
  note k = this
  from call_ok_result [OF "11.prems"(1,4) k(2)] obtain r' where "nt_rules nt name = Some r'" "rule_sound cx nt r' nv"
    by blast
  with check_call_has [OF "11.prems"(6) k(1) _ _ "11.prems"(3,2)] show ?case by blast
qed (simp_all add: res_simps cfail_def)

section \<open>Checked rules\<close>

definition rule_i64 :: "rule \<Rightarrow> bool" where
  "rule_i64 r \<longleftrightarrow> list_all (\<lambda>(_, e). lits_i64 e) (l_bindings (r_logic r)) \<and> lits_i64 (l_value (r_logic r))
     \<and> (case overflow_of r of None \<Rightarrow> True | Some h \<Rightarrow> in_i64 (o_min h) \<and> in_i64 (o_max h))"

text \<open>A bounded text result is a text result; the text contract checker rejects any other.\<close>

definition text_max_typed :: "rule \<Rightarrow> bool" where
  "text_max_typed r \<longleftrightarrow> r_output_text_max r \<noteq> None \<longrightarrow> r_output_ty r = TText"

definition tables_ok :: "'w ictx \<Rightarrow> num_tables \<Rightarrow> bool" where
  "tables_ok cx nt \<longleftrightarrow> same_rules cx nt
     \<and> (\<forall>n. nt_concepts nt n = find (\<lambda>c. c_name c = n) (i_concepts cx))
     \<and> (\<forall>n r. nt_rules nt n = Some r \<longrightarrow> rule_i64 r \<and> text_max_typed r)
     \<and> (\<forall>n c. nt_concepts nt n = Some c \<longrightarrow> concept_i64 c)"

definition locals_wf :: "concept \<Rightarrow> (string \<rightharpoonup> nval) \<Rightarrow> bool" where
  "locals_wf c locals \<longleftrightarrow> (\<forall>n nv. locals n = Some nv \<longrightarrow> nv_wf nv)
     \<and> (\<forall>f \<in> set (c_fields c). f_ty f = TNumber \<longrightarrow> wf_ranges (declared_range f))"

lemma scope_wf_new: "locals_wf c locals \<Longrightarrow> scope_wf (scope_new r c locals)"
  by (auto simp: locals_wf_def scope_wf_def scope_new_def scope_local_def scope_field_def nv_wf_def
    split: option.splits nval.splits dest!: find_SomeD)

definition locals_ok :: "rule \<Rightarrow> (string \<times> val) list \<Rightarrow> (string \<rightharpoonup> nval) \<Rightarrow> env \<Rightarrow> bool" where
  "locals_ok r fs locals env \<longleftrightarrow>
     (\<forall>n nv. locals n = Some nv \<longrightarrow> (\<exists>v. env n = Some v \<and> nv_has nv v))
     \<and> (locals (r_input_name r) = None \<longrightarrow> env (r_input_name r) = Some (VRecord fs))"

lemma locals_ok_update: "locals_ok r fs locals env \<Longrightarrow> nv_has nv v \<Longrightarrow> locals_ok r fs (locals(n \<mapsto> nv)) (env(n \<mapsto> v))"
  by (auto simp: locals_ok_def)

definition lets_eval :: "'w ictx \<Rightarrow> (string \<times> expr) list \<Rightarrow> env \<Rightarrow> env \<Rightarrow> bool" where
  "lets_eval cx bs env env' \<longleftrightarrow>
     (\<forall>\<^sub>F f in sequentially. eval_lets cx (eval_rule_with_value cx f) bs env = eret env')"

lemma lets_eval_Cons:
  assumes "evals cx e env v" "lets_eval cx bs (env(n \<mapsto> v)) env'"
  shows "lets_eval cx ((n, e) # bs) env env'"
  using assms unfolding evals_def lets_eval_def run_def by eventually_elim simp

lemma check_lets_cache:
  assumes "call_ok cx nt call" "cache_ok cx nt st" "check_lets nt call r c bs locals st = (res, st')"
  shows "cache_ok cx nt st'"
  by (rule keepsD [OF keeps_check_lets assms(2,3)]) (use assms(1) in \<open>simp add: call_good_def\<close>)

lemma check_lets_wf:
  assumes "call_ok cx nt call" "cache_ok cx nt st" "check_lets nt call r c bs locals st = (Inr locals', st')"
    "list_all (\<lambda>(_, e). lits_i64 e) bs" "locals_wf c locals"
  shows "locals_wf c locals'"
  using assms
proof (induction bs arbitrary: locals st)
  case (Cons b bs)
  obtain n e where b: "b = (n, e)" by (cases b)
  from Cons.prems(3) b obtain nv s1 where e: "check_expr nt call r e (scope_new r c locals) 0 st = (Inr nv, s1)"
    and bs: "check_lets nt call r c bs (locals(n \<mapsto> nv)) s1 = (Inr locals', st')"
    by (auto simp: res_simps)
  have "nv_wf nv" using check_expr_wf [OF Cons.prems(1,2) e] Cons.prems(4,5) b by (simp add: scope_wf_new)
  then have "locals_wf c (locals(n \<mapsto> nv))" using Cons.prems(5) by (auto simp: locals_wf_def)
  moreover have "cache_ok cx nt s1" by (rule check_expr_cache [OF Cons.prems(1,2) e])
  ultimately show ?case using Cons.IH [OF Cons.prems(1) _ bs] Cons.prems(4) by (simp del: fun_upd_apply)
qed (simp add: res_simps)

lemma check_lets_sound:
  assumes "call_ok cx nt call" "same_rules cx nt" "admissible nt r fs" "input_ok c fs" "concept_i64 c"
    and "cache_ok cx nt st" "check_lets nt call r c bs locals st = (Inr locals', st')"
    and "list_all (\<lambda>(_, e). lits_i64 e) bs" "locals_wf c locals" "locals_ok r fs locals env"
  shows "\<exists>env'. lets_eval cx bs env env' \<and> locals_ok r fs locals' env'"
  using assms(6-)
proof (induction bs arbitrary: locals st env)
  case Nil
  then show ?case by (auto simp: res_simps lets_eval_def)
next
  case (Cons b bs)
  obtain n e where b: "b = (n, e)" by (cases b)
  from Cons.prems(2) b obtain nv s1 where e: "check_expr nt call r e (scope_new r c locals) 0 st = (Inr nv, s1)"
    and bs: "check_lets nt call r c bs (locals(n \<mapsto> nv)) s1 = (Inr locals', st')"
    by (auto simp: res_simps)
  have lits: "lits_i64 e" "list_all (\<lambda>(_, e). lits_i64 e) bs" using Cons.prems(3) b by auto
  note wf = scope_wf_new [OF Cons.prems(4), of r]
  have ok: "run_ok cx r c fs (scope_new r c locals) env"
    using run_ok_new [OF assms(4,5)] Cons.prems(5) by (auto simp: locals_ok_def)
  obtain v where v: "nv_has nv v" "evals cx e env v"
    using check_expr_sound [OF assms(1-3) Cons.prems(1) e ok lits(1) wf] by auto
  have "nv_wf nv" by (rule check_expr_wf [OF assms(1) Cons.prems(1) e wf lits(1)])
  then have "locals_wf c (locals(n \<mapsto> nv))" using Cons.prems(4) by (auto simp: locals_wf_def)
  from Cons.IH [OF check_expr_cache [OF assms(1) Cons.prems(1) e] bs lits(2) this locals_ok_update [OF Cons.prems(5) v(1)]]
  show ?case using lets_eval_Cons [OF v(2)] b by blast
qed

lemma check_signature_eq:
  assumes "check_signature nt r = Inr c" "\<And>n c. nt_concepts nt n = Some c \<Longrightarrow> concept_i64 c"
  obtains cn where "r_input_ty r = TNamed cn" "nt_concepts nt cn = Some c" "locals_wf c Map.empty"
    "r_output_ty r = TNumber \<or> r_output_ty r = TBool"
proof -
  from assms(1) obtain cn where cn: "r_input_ty r = TNamed cn" "nt_concepts nt cn = Some c"
    "r_output_ty r = TNumber \<or> r_output_ty r = TBool"
    and f: "\<forall>f \<in> set (c_fields c). \<not> (case f_range f of None \<Rightarrow> False
       | Some (lo, hi) \<Rightarrow> lo > hi \<or> (f_ty f = TText \<and> hi < 0))"
    by (auto simp: check_signature_def find_None split: if_splits vtype.splits option.splits)
  have "concept_i64 c" by (rule assms(2) [OF cn(2)])
  with f have "locals_wf c Map.empty"
    by (fastforce simp: locals_wf_def concept_i64_def list_all_iff declared_range_def valid_ivl_def in_i64_def
      split: option.splits)
  with cn that show ?thesis by blast
qed

lemma entry_guard_passes:
  assumes "tables_ok cx nt" "admissible nt r fs"
  shows "entry_guard cx r (VRecord fs) = Inr ()"
proof -
  from assms obtain cn c where c: "r_input_ty r = TNamed cn" "find (\<lambda>c. c_name c = cn) (i_concepts cx) = Some c"
    "input_ok c fs" by (auto simp: admissible_def tables_ok_def)
  then have "find (\<lambda>c. r_input_ty r = TNamed (c_name c)) (i_concepts cx) = Some c"
    by (simp add: eq_commute)
  moreover have "find (\<lambda>f. \<not> field_ok f (map_of fs (f_name f))) (c_fields c) = None"
    using c(3) by (auto simp: find_None input_ok_def)
  ultimately show ?thesis by (auto simp: entry_guard_def Let_def)
qed

lemma check_contract_has:
  assumes "check_contract r v = Inr nv" "nv_wf v" "rule_i64 r"
  shows "nv_wf nv" "nv_has v x \<Longrightarrow> nv_has nv x"
    "overflow_of r = Some h \<Longrightarrow> nv = NNumber (mk_interval (o_min h) (o_max h))"
proof -
  consider "overflow_of r = None" "nv = v"
    | h rg where "overflow_of r = Some h" "v = NNumber rg" "nv = NNumber (mk_interval (o_min h) (o_max h))"
      "o_min h \<le> fst (hull rg)" "snd (hull rg) \<le> o_max h" "o_min h \<le> o_max h"
    using assms(1)
    by (auto simp: check_contract_def rbind_eq_Inr nv_number_eq case_prod_unfold split: if_splits option.splits)
  then have "nv_wf nv \<and> (nv_has v x \<longrightarrow> nv_has nv x) \<and>
    (overflow_of r = Some h \<longrightarrow> nv = NNumber (mk_interval (o_min h) (o_max h)))"
  proof cases
    case 2
    with assms(2,3) gam_hull [of _ _] show ?thesis
      by (fastforce simp: rule_i64_def valid_ivl_def)
  qed (use assms(2) in auto)
  then show "nv_wf nv" "nv_has v x \<Longrightarrow> nv_has nv x"
    "overflow_of r = Some h \<Longrightarrow> nv = NNumber (mk_interval (o_min h) (o_max h))" by auto
qed

lemma rule_evalsI:
  assumes "entry_guard cx r (VRecord fs) = Inr ()" "check_output r v = Inr v"
    and "lets_eval cx (l_bindings (r_logic r)) [r_input_name r \<mapsto> VRecord fs] env" "evals cx (l_value (r_logic r)) env v"
  shows "rule_evals cx r fs v"
proof -
  have "\<forall>\<^sub>F f in sequentially. eval_rule_with_value cx (Suc f) r (VRecord fs) = eret v"
    using assms(3,4) unfolding lets_eval_def evals_def run_def
    by eventually_elim (simp add: assms(1,2))
  then obtain N where "\<forall>f \<ge> N. eval_rule_with_value cx (Suc f) r (VRecord fs) = eret v"
    by (auto simp: eventually_sequentially)
  then have "eval_rule_with_value cx f r (VRecord fs) = eret v" if "f \<ge> Suc N" for f
    using that by (cases f) auto
  then show ?thesis unfolding rule_evals_def eventually_sequentially by blast
qed

lemma rule_inner_sound:
  fixes cx :: "'w ictx"
  assumes call: "call_ok cx nt call" and tab: "tables_ok cx nt" and ok: "cache_ok cx nt st"
    and ri: "rule_inner nt call name st = (Inr nv, st')"
  shows "\<exists>r. nt_rules nt name = Some r \<and> rule_sound cx nt r nv"
proof -
  from ri obtain r c locals s1 v where r: "nt_rules nt name = Some r"
    and sig: "check_signature nt r = Inr c"
    and lets: "check_lets nt call r c (l_bindings (r_logic r)) Map.empty st = (Inr locals, s1)"
    and val: "check_expr nt call r (l_value (r_logic r)) (scope_new r c locals) 0 s1 = (Inr v, st')"
    and con: "check_contract r v = Inr nv"
    by (auto simp: rule_inner_def res_simps cfail_def split: option.splits)
  have c64: "nt_concepts nt n = Some c \<Longrightarrow> concept_i64 c" for n c using tab unfolding tables_ok_def by blast
  obtain cn where cn: "r_input_ty r = TNamed cn" "nt_concepts nt cn = Some c" "locals_wf c Map.empty"
    "r_output_ty r = TNumber \<or> r_output_ty r = TBool"
    by (rule check_signature_eq [OF sig]) (use c64 in blast)+
  have rok: "rule_i64 r" "r_output_text_max r = None" "same_rules cx nt"
    using tab r cn(4) unfolding tables_ok_def text_max_typed_def by (blast, metis vtype.distinct, blast)
  then have lits: "list_all (\<lambda>(_, e). lits_i64 e) (l_bindings (r_logic r))" "lits_i64 (l_value (r_logic r))"
    by (simp_all add: rule_i64_def)
  note ok1 = check_lets_cache [OF call ok lets]
  note wf = scope_wf_new [OF check_lets_wf [OF call ok lets lits(1) cn(3)], of r]
  have vwf: "nv_wf v" by (rule check_expr_wf [OF call ok1 val wf lits(2)])
  have "\<exists>v. nv_has nv v \<and> rule_evals cx r fs v" if adm: "admissible nt r fs" for fs
  proof -
    have inp: "input_ok c fs" using adm cn by (auto simp: admissible_def)
    have "locals_ok r fs Map.empty [r_input_name r \<mapsto> VRecord fs]" by (simp add: locals_ok_def)
    from check_lets_sound [OF call rok(3) adm inp c64 [OF cn(2)] ok lets lits(1) cn(3) this]
    obtain env where env: "lets_eval cx (l_bindings (r_logic r)) [r_input_name r \<mapsto> VRecord fs] env" "locals_ok r fs locals env"
      by blast
    then have "run_ok cx r c fs (scope_new r c locals) env"
      unfolding locals_ok_def by (intro run_ok_new [OF inp c64 [OF cn(2)]]) blast+
    from check_expr_sound [OF call rok(3) adm ok1 val this lits(2) wf] obtain x where
      x: "nv_has v x" "evals cx (l_value (r_logic r)) env x" by blast
    have "rule_evals cx r fs x"
      by (rule rule_evalsI [OF entry_guard_passes [OF tab adm] _ env(1) x(2)]) (simp add: check_output_def rok(2))
    then show ?thesis using check_contract_has(2) [OF con vwf rok(1) x(1)] by blast
  qed
  then show ?thesis
    using r check_contract_has(1,3) [OF con vwf rok(1)] by (auto simp: rule_sound_def)
qed

lemma keeps_rule_inner:
  "call_good ck_cache good call \<Longrightarrow> keeps (cache_good ck_cache good) (rule_inner nt call name)"
  by (auto simp: rule_inner_def call_good_def split: option.splits
    intro!: keeps_cbind keeps_check_lets keeps_map_err keeps_check_expr)

text \<open>The checker's recursion, for tables that agree with the interpreter.\<close>

definition num_good :: "'w ictx \<Rightarrow> num_tables \<Rightarrow> string \<Rightarrow> nval \<Rightarrow> bool" where
  "num_good cx nt n nv \<longleftrightarrow> (tables_ok cx nt \<longrightarrow> nt_good cx nt n nv)"

lemma num_good_eq: "tables_ok cx nt \<Longrightarrow> num_good cx nt = nt_good cx nt"
  by (auto simp: num_good_def fun_eq_iff)

interpretation num_cache: cached_rules ck_cache "\<lambda>n v st. st\<lparr>ck_cache := (ck_cache st)(n \<mapsto> v)\<rparr>"
  "check_rule nt" "rule_inner nt" InRule "num_good cx nt" for nt :: num_tables and cx :: "'w ictx"
proof unfold_locales
  fix call st n v st'
  assume c: "call_good ck_cache (num_good cx nt) call" "cache_good ck_cache (num_good cx nt) st"
    "rule_inner nt call n st = (Inr v, st')"
  show "num_good cx nt n v"
    unfolding num_good_def
  proof
    assume t: "tables_ok cx nt"
    show "nt_good cx nt n v"
      using rule_inner_sound [OF _ t _ c(3)] c(1,2) by (simp add: num_good_eq [OF t] nt_good_def)
  qed
next
  fix st :: check_st and n v k vis assume "ck_cache st n = Some v"
  then show "check_rule nt k vis n st = (Inr v, st)" by (cases k) simp_all
qed (auto simp: finish_rule_def keeps_rule_inner split: prod.splits sum.splits)

lemma check_rule_ok: "tables_ok cx nt \<Longrightarrow> call_ok cx nt (check_rule nt left visiting)"
  using num_cache.chk_good [of cx nt left visiting] by (simp add: num_good_eq)

section \<open>Checked programs\<close>

text \<open>
  What the type system of the AST and the earlier verifier passes give: names are unique, literals and
  bounds are \<open>i64\<close>, and only text results carry a byte capacity.
\<close>

definition program_ok :: "program \<Rightarrow> bool" where
  "program_ok p \<longleftrightarrow> distinct (map r_name (rules_of p)) \<and> distinct (map c_name (concepts_of p))
     \<and> list_all rule_i64 (rules_of p) \<and> list_all text_max_typed (rules_of p) \<and> list_all concept_i64 (concepts_of p)"

definition runs_program :: "'w ictx \<Rightarrow> program \<Rightarrow> bool" where
  "runs_program cx p \<longleftrightarrow> i_rules cx = rules_of p \<and> i_concepts cx = concepts_of p"

lemma tables_ok_program:
  assumes "program_ok p" "runs_program cx p"
  shows "tables_ok cx (check_new p)"
proof -
  have d: "distinct (map r_name (rules_of p))" "distinct (map c_name (concepts_of p))"
    using assms(1) by (simp_all add: program_ok_def)
  have "nt_rules (check_new p) n = find (\<lambda>r. r_name r = n) (rules_of p)"
    "nt_concepts (check_new p) n = find (\<lambda>c. c_name c = n) (concepts_of p)" for n
    using collect_map_find [OF d(1)] collect_map_find [OF d(2)] by (simp_all add: check_new_def)
  then show ?thesis using assms
    by (auto simp: tables_ok_def same_rules_def program_ok_def runs_program_def list_all_iff dest!: find_SomeD)
qed

lemma check_all_sound:
  assumes "tables_ok cx nt" "cache_ok cx nt st" "check_all nt names st = []" "n \<in> set names"
  shows "\<exists>r nv. nt_rules nt n = Some r \<and> rule_sound cx nt r nv"
  using assms(2-)
proof (induction names arbitrary: st)
  case (Cons m names)
  note ok = check_rule_ok [OF assms(1), of max_nested_calls "[]"]
  obtain v s1 where c: "check_rule nt max_nested_calls [] m st = (Inr v, s1)" "check_all nt names s1 = []"
    using Cons.prems(2) by (auto split: prod.splits sum.splits)
  have "cache_ok cx nt s1"
    using keepsD [of "cache_ok cx nt" "check_rule nt max_nested_calls [] m"] ok Cons.prems(1) c(1)
    by (auto simp: call_good_def)
  moreover have "nt_good cx nt m v" using ok Cons.prems(1) c(1) unfolding call_good_def by blast
  ultimately show ?case
    using Cons.IH [OF _ c(2)] Cons.prems(3) unfolding nt_good_def by (cases "n = m") (blast, simp)
qed simp

lemma numeric_verify_rule:
  assumes "numeric_verify p = []" "program_ok p" "runs_program cx p" "r \<in> set (rules_of p)" "r_name r \<in> active_rules p"
  shows "\<exists>nv. rule_sound cx (check_new p) r nv"
proof -
  note tab = tables_ok_program [OF assms(2,3)]
  have fin: "finite (active_rules p)" by (simp add: active_rules_def num_scope.finite_part)
  have "check_all (check_new p) (sorted_list_of_set (active_rules p)) \<lparr>ck_cache = Map.empty, ck_steps = 0\<rparr> = []"
    using assms(1,5) by (auto simp: numeric_verify_def Let_def split: if_splits)
  from check_all_sound [OF tab _ this, of "r_name r"] assms(5) fin
  obtain r' nv where r': "nt_rules (check_new p) (r_name r) = Some r'" "rule_sound cx (check_new p) r' nv"
    by (auto simp: cache_good_def)
  moreover have "find (\<lambda>y. r_name y = r_name r) (rules_of p) = Some r"
    by (rule find_distinct) (use assms(2,4) in \<open>auto simp: program_ok_def\<close>)
  ultimately have "r' = r"
    using collect_map_find [of r_name "rules_of p"] assms(2) by (simp add: program_ok_def check_new_def)
  with r' show ?thesis by blast
qed

lemma admissibleI:
  assumes "program_ok p" "c \<in> set (concepts_of p)" "r_input_ty r = TNamed (c_name c)" "input_ok c fs"
  shows "admissible (check_new p) r fs"
proof -
  have "find (\<lambda>y. c_name y = c_name c) (concepts_of p) = Some c"
    by (rule find_distinct) (use assms(1,2) in \<open>auto simp: program_ok_def\<close>)
  then have "nt_concepts (check_new p) (c_name c) = Some c"
    using collect_map_find [of c_name "concepts_of p"] assms(1) by (simp add: program_ok_def check_new_def)
  with assms(3,4) show ?thesis by (auto simp: admissible_def)
qed

lemma overflow_rule_active:
  "r \<in> set (rules_of p) \<Longrightarrow> overflow_of r = Some h \<Longrightarrow> r_name r \<in> active_rules p"
  unfolding active_rules_def
  by (rule num_scope.seed_in_part) (auto simp: has_contract_def overflow_of_def split: option.splits)

lemma rule_evals_eval_rule:
  "rule_evals cx r fs v \<longleftrightarrow> (\<exists>d. \<forall>f \<ge> d. \<forall>w. eval_rule cx f r fs w = Inr (v, w))"
  by (simp add: rule_evals_def eventually_sequentially eval_rule_def eret_def fun_eq_iff)

end
