(* ===== verification/Fuel.thy ===== *)
theory Fuel
  imports Numeric_Soundness
begin

text \<open>
  The call-depth parameter of the interpreter is only a depth: a run that returns at some depth returns
  the same value and world at every larger one. \<open>refines\<close> is the order behind it (a run may turn from an
  error into a result, never change a result), and every construct of \<open>eval_expr\<close> is monotone in it.
\<close>

definition refines :: "('w, 'a) eval \<Rightarrow> ('w, 'a) eval \<Rightarrow> bool" where
  "refines m m' \<longleftrightarrow> (\<forall>w x. m w = Inr x \<longrightarrow> m' w = Inr x)"

named_theorems refines_intros \<open>monotonicity of the evaluation steps\<close>

lemma refinesD: "refines m m' \<Longrightarrow> m w = Inr x \<Longrightarrow> m' w = Inr x"
  by (cases x) (auto simp: refines_def)

lemma refines_refl [simp, refines_intros]: "refines m m"
  by (simp add: refines_def)

lemma refines_ethrow [simp]: "refines (ethrow e) m"
  by (simp add: refines_def ethrow_def)

lemma refines_ebind [refines_intros]:
  "refines m m' \<Longrightarrow> (\<And>a. refines (f a) (f' a)) \<Longrightarrow> refines (ebind m f) (ebind m' f')"
  by (fastforce simp: refines_def ebind_eq_Inr)

lemma refines_emapM [refines_intros]:
  "(\<And>x. x \<in> set xs \<Longrightarrow> refines (f x) (f' x)) \<Longrightarrow> refines (emapM f xs) (emapM f' xs)"
  by (induction xs) (auto intro!: refines_intros)

lemma refines_fields [refines_intros]:
  "(\<And>n e. (n, e) \<in> set fs \<Longrightarrow> refines (g e) (g' e)) \<Longrightarrow>
     refines (emapM (\<lambda>(n, e). ebind (g e) (\<lambda>v. eret (n, v))) fs)
       (emapM (\<lambda>(n, e). ebind (g' e) (\<lambda>v. eret (n, v))) fs)"
  by (rule refines_emapM) (auto intro!: refines_ebind)

lemma refines_quantifier [refines_intros]:
  "(\<And>x. refines (f x) (f' x)) \<Longrightarrow> refines (quantifier_loop k f xs) (quantifier_loop k f' xs)"
  by (induction xs) (auto intro!: refines_intros split: val.split quantifier_kind.split)

lemma refines_fold [refines_intros]:
  "(\<And>a x. refines (f a x) (f' a x)) \<Longrightarrow> refines (fold_loop f acc xs) (fold_loop f' acc xs)"
  by (induction xs arbitrary: acc) (auto intro!: refines_intros)

lemma refines_fold_bytes [refines_intros]:
  "(\<And>a x i. refines (f a x i) (f' a x i)) \<Longrightarrow> refines (fold_bytes_loop f acc i xs) (fold_bytes_loop f' acc i xs)"
  by (induction xs arbitrary: acc i) (auto intro!: refines_intros split: val.split)

lemma refines_filter [refines_intros]:
  "(\<And>x. refines (f x) (f' x)) \<Longrightarrow> refines (filter_loop f xs) (filter_loop f' xs)"
  by (induction xs) (auto intro!: refines_intros split: val.split)

lemma eval_expr_mono:
  "(\<And>r v. refines (call r v) (call' r v)) \<Longrightarrow> refines (eval_expr cx call e env) (eval_expr cx call' e env)"
  by (induction cx call e env rule: eval_expr.induct)
     (simp_all add: refines_intros split: val.split option.split prod.split)

lemma eval_lets_mono:
  assumes "\<And>r v. refines (call r v) (call' r v)"
  shows "refines (eval_lets cx call bs env) (eval_lets cx call' bs env)"
  by (induction bs arbitrary: env) (auto intro!: refines_intros eval_expr_mono assms)

lemma eval_rule_with_value_mono: "f \<le> f' \<Longrightarrow> refines (eval_rule_with_value cx f r v) (eval_rule_with_value cx f' r v)"
proof (induction f arbitrary: f' r v)
  case (Suc f)
  then obtain g where g: "f' = Suc g" "f \<le> g" by (cases f') auto
  have "refines (eval_rule_with_value cx f r v) (eval_rule_with_value cx g r v)" for r v
    using Suc.IH [OF g(2)] .
  then show ?case unfolding g(1) by (auto intro!: refines_intros eval_lets_mono eval_expr_mono)
qed simp

lemma run_mono: "f \<le> f' \<Longrightarrow> run cx f e env w = Inr x \<Longrightarrow> run cx f' e env w = Inr x"
  unfolding run_def by (rule refinesD [OF eval_expr_mono]) (rule eval_rule_with_value_mono)

text \<open>A single successful run agrees with the value that every deep enough run gives.\<close>

lemma evals_run_eq:
  assumes "evals cx e env v" "run cx f e env w = Inr (x, w')"
  shows "x = v"
proof -
  obtain N where N: "\<And>g. g \<ge> N \<Longrightarrow> run cx g e env = eret v"
    using assms(1) by (auto simp: evals_def eventually_sequentially)
  have "run cx (max f N) e env w = Inr (x, w')" by (rule run_mono [OF _ assms(2)]) simp
  with N [of "max f N"] show ?thesis by (simp add: eret_def)
qed

end
