(* ===== verification/Native_Opt.thy ===== *)
theory Native_Opt
  imports Fuel
begin

text \<open>
  The numeric lowering that precedes native code generation
  (\<open>src/src/numeric_bounds/native_opt.rs\<close>): after strict verification it folds comparisons that the
  domains decide, replaces expressions of one possible value by that constant, takes decided branches
  and drops \<open>let\<close>s of constants. The theory holds the pass as the source writes it; that the
  lowered rules compute the values of the original ones is in \<open>Native_Opt_Correct\<close>.
\<close>

section \<open>Facts\<close>

datatype fact =
    FNumber ranges
  | FBool "bool option"
  | FUnknown

definition fact_from :: "nval \<Rightarrow> fact" where
  "fact_from v = (case v of NNumber rg \<Rightarrow> FNumber rg | NBool \<Rightarrow> FBool None)"

definition fact_constant :: "fact \<Rightarrow> expr option" where
  "fact_constant f =
     (case f of
        FNumber rg \<Rightarrow> (case hull rg of (lo, hi) \<Rightarrow> if lo = hi then Some (ENumber lo) else None)
      | FBool (Some v) \<Rightarrow> Some (EBinary OpEq (ENumber 0) (ENumber (if v then 0 else 1)))
      | _ \<Rightarrow> None)"

definition fact_join :: "fact \<Rightarrow> fact \<Rightarrow> fact" where
  "fact_join a b =
     (case (a, b) of
        (FNumber x, FNumber y) \<Rightarrow> FNumber (join x y)
      | (FBool x, FBool y) \<Rightarrow> FBool (if x = y then x else None)
      | _ \<Rightarrow> FUnknown)"

section \<open>Decided comparisons\<close>

definition decide_lt :: "interval \<Rightarrow> interval \<Rightarrow> bool option" where
  "decide_lt p q = (if snd p < fst q then Some True else if fst p \<ge> snd q then Some False else None)"

definition decide_le :: "interval \<Rightarrow> interval \<Rightarrow> bool option" where
  "decide_le p q = (if snd p \<le> fst q then Some True else if fst p > snd q then Some False else None)"

definition compare_interval :: "binop \<Rightarrow> interval \<Rightarrow> interval \<Rightarrow> bool option" where
  "compare_interval op p q =
     (if op = OpEq \<or> op = OpNotEq then
        map_option (\<lambda>v. if op = OpEq then v else \<not> v)
          (if snd p < fst q \<or> snd q < fst p then Some False
           else if fst p = snd p \<and> fst q = snd q then Some (fst p = fst q) else None)
      else case op of
        OpLt \<Rightarrow> decide_lt p q
      | OpLtEq \<Rightarrow> decide_le p q
      | OpGt \<Rightarrow> decide_lt q p
      | OpGtEq \<Rightarrow> decide_le q p
      | _ \<Rightarrow> None)"

text \<open>The loop over all pairs of pieces: one undecided pair, or two that disagree, decide nothing.\<close>

fun compare_loop :: "binop \<Rightarrow> bool option \<Rightarrow> (interval \<times> interval) list \<Rightarrow> bool option" where
  "compare_loop op result [] = result"
| "compare_loop op result ((a, b) # ps) =
     (case compare_interval op a b of
        None \<Rightarrow> None
      | Some decision \<Rightarrow>
          if (case result of None \<Rightarrow> False | Some previous \<Rightarrow> previous \<noteq> decision) then None
          else compare_loop op (Some decision) ps)"

definition compare_ranges :: "binop \<Rightarrow> ranges \<Rightarrow> ranges \<Rightarrow> bool option" where
  "compare_ranges op left right = compare_loop op None (List.product (pieces left) (pieces right))"

section \<open>Operators\<close>

definition number_fact :: "num_error + ranges \<Rightarrow> fact" where
  "number_fact r = (case r of Inl _ \<Rightarrow> FUnknown | Inr rg \<Rightarrow> FNumber rg)"

definition zip_with :: "('a \<Rightarrow> 'b \<Rightarrow> 'c) \<Rightarrow> 'a option \<Rightarrow> 'b option \<Rightarrow> 'c option" where
  "zip_with f a b = (case (a, b) of (Some x, Some y) \<Rightarrow> Some (f x y) | _ \<Rightarrow> None)"

definition number_binary :: "binop \<Rightarrow> ranges \<Rightarrow> ranges \<Rightarrow> fact" where
  "number_binary op left right =
     (case (hull left, hull right) of ((a, b), (c, d)) \<Rightarrow>
        if op = OpMod \<and> a = b \<and> c = d then
          (case checked_rem a c of Some v \<Rightarrow> FNumber (mk_interval v v) | None \<Rightarrow> FUnknown)
        else if op \<in> {OpEq, OpNotEq, OpLt, OpLtEq, OpGt, OpGtEq} then FBool (compare_ranges op left right)
        else number_fact (rg_arithmetic left op right))"

definition bool_binary :: "binop \<Rightarrow> bool option \<Rightarrow> bool option \<Rightarrow> bool option" where
  "bool_binary op a b =
     (case op of
        OpEq \<Rightarrow> zip_with (=) a b
      | OpNotEq \<Rightarrow> zip_with (\<noteq>) a b
      | OpAnd \<Rightarrow> if a = Some False \<or> b = Some False then Some False else zip_with (\<and>) a b
      | OpOr \<Rightarrow> if a = Some True \<or> b = Some True then Some True else zip_with (\<or>) a b
      | _ \<Rightarrow> None)"

definition fact_binary :: "binop \<Rightarrow> fact \<Rightarrow> fact \<Rightarrow> fact" where
  "fact_binary op left right =
     (case (left, right) of
        (FNumber x, FNumber y) \<Rightarrow> number_binary op x y
      | (FBool a, FBool b) \<Rightarrow> FBool (bool_binary op a b)
      | _ \<Rightarrow> FUnknown)"

definition repeated_binary :: "binop \<Rightarrow> ranges \<Rightarrow> fact" where
  "repeated_binary op value =
     (if op \<in> {OpEq, OpLtEq, OpGtEq} then FBool (Some True)
      else if op \<in> {OpNotEq, OpLt, OpGt} then FBool (Some False)
      else number_fact (repeated_arithmetic value op))"

definition fold_binary :: "binop \<Rightarrow> bool \<Rightarrow> fact \<Rightarrow> fact \<Rightarrow> fact" where
  "fold_binary op repeated af bf =
     (case (repeated, af, bf) of
        (True, FNumber value, FNumber _) \<Rightarrow> repeated_binary op value
      | _ \<Rightarrow> fact_binary op af bf)"

definition fold_neg_ivl :: "interval \<Rightarrow> num_error + interval" where
  "fold_neg_ivl p = (case (checked_neg (snd p), checked_neg (fst p)) of
     (Some a, Some b) \<Rightarrow> Inr (a, b) | _ \<Rightarrow> Inl UnaryOverflow)"

definition fold_abs_ivl :: "interval \<Rightarrow> num_error + interval" where
  "fold_abs_ivl p = (case (checked_abs (fst p), checked_abs (snd p)) of
     (Some a, Some b) \<Rightarrow> Inr (if fst p \<le> 0 \<and> snd p \<ge> 0 then 0 else min a b, max a b) | _ \<Rightarrow> Inl UnaryOverflow)"

definition fold_unary :: "(interval \<Rightarrow> num_error + interval) \<Rightarrow> fact \<Rightarrow> fact" where
  "fold_unary g f = (case f of FNumber rg \<Rightarrow> number_fact (rg_map rg g) | _ \<Rightarrow> FUnknown)"

definition fold_not :: "fact \<Rightarrow> fact" where
  "fold_not f = (case f of FBool v \<Rightarrow> FBool (map_option Not v) | _ \<Rightarrow> FUnknown)"

definition fold_pair :: "(interval \<Rightarrow> interval \<Rightarrow> num_error + interval) \<Rightarrow> fact \<Rightarrow> fact \<Rightarrow> fact" where
  "fold_pair g af bf =
     (case (af, bf) of (FNumber x, FNumber y) \<Rightarrow> number_fact (pairwise x y g) | _ \<Rightarrow> FUnknown)"

section \<open>Expressions\<close>

record fold_st =
  fd_values :: "string \<rightharpoonup> nval"
  fd_bools :: "string \<rightharpoonup> bool"
  fd_calls :: "string \<rightharpoonup> fact"

definition fold_bind :: "string \<Rightarrow> fact \<Rightarrow> fold_st \<Rightarrow> fold_st" where
  "fold_bind name f fd =
     (let fd = fd\<lparr>fd_values := (fd_values fd)(name := None), fd_bools := (fd_bools fd)(name := None)\<rparr> in
      case f of
        FNumber rg \<Rightarrow> fd\<lparr>fd_values := (fd_values fd)(name \<mapsto> NNumber rg)\<rparr>
      | FBool v \<Rightarrow>
          let fd = fd\<lparr>fd_values := (fd_values fd)(name \<mapsto> NBool)\<rparr> in
          (case v of Some b \<Rightarrow> fd\<lparr>fd_bools := (fd_bools fd)(name \<mapsto> b)\<rparr> | None \<Rightarrow> fd)
      | FUnknown \<Rightarrow> fd)"

definition fold_ident :: "fold_st \<Rightarrow> scope \<Rightarrow> string \<Rightarrow> fact" where
  "fold_ident fd sc n =
     (case fd_bools fd n of
        Some v \<Rightarrow> FBool (Some v)
      | None \<Rightarrow> (case scope_local sc n of Some v \<Rightarrow> fact_from v | None \<Rightarrow> FUnknown))"

definition fold_field :: "scope \<Rightarrow> string \<Rightarrow> fact" where
  "fold_field sc n = (case scope_field sc n of Some rg \<Rightarrow> fact_from (NNumber rg) | None \<Rightarrow> FUnknown)"

definition fold_call :: "fold_st \<Rightarrow> string \<Rightarrow> fact" where
  "fold_call fd n = (case fd_calls fd n of Some f \<Rightarrow> f | None \<Rightarrow> FUnknown)"

text \<open>The last line of \<open>Fold::expr\<close>: an expression of one possible value is that constant.\<close>

definition folded :: "expr \<Rightarrow> fact \<Rightarrow> expr \<times> fact" where
  "folded lowered f = ((case fact_constant f of Some e \<Rightarrow> e | None \<Rightarrow> lowered), f)"

fun fold_expr :: "fold_st \<Rightarrow> expr \<Rightarrow> scope \<Rightarrow> expr \<times> fact" where
  "fold_expr fd (ENumber n) sc = folded (ENumber n) (FNumber (mk_interval n n))"
| "fold_expr fd (EIdent n) sc = folded (EIdent n) (fold_ident fd sc n)"
| "fold_expr fd (EField base n) sc = folded (EField base n) (fold_field sc n)"
| "fold_expr fd (ECall n args) sc = folded (ECall n args) (fold_call fd n)"
| "fold_expr fd (EIf c a b) sc =
     (case fold_expr fd c sc of (c', cf) \<Rightarrow>
        (case cf of
           FBool (Some v) \<Rightarrow>
             (if v then fold_expr fd a (scope_branch sc c True) else fold_expr fd b (scope_branch sc c False))
         | _ \<Rightarrow>
             (case fold_expr fd a (scope_branch sc c True) of (a', af) \<Rightarrow>
              case fold_expr fd b (scope_branch sc c False) of (b', bf) \<Rightarrow>
                folded (EIf c' a' b') (fact_join af bf))))"
| "fold_expr fd (EBinary op a b) sc =
     (case fold_expr fd a sc of (a', af) \<Rightarrow>
      case fold_expr fd b sc of (b', bf) \<Rightarrow>
        folded (EBinary op a' b') (fold_binary op (same_scalar sc a b) af bf))"
| "fold_expr fd (ENot a) sc = (case fold_expr fd a sc of (a', af) \<Rightarrow> folded (ENot a') (fold_not af))"
| "fold_expr fd (ENeg a) sc = (case fold_expr fd a sc of (a', af) \<Rightarrow> folded (ENeg a') (fold_unary fold_neg_ivl af))"
| "fold_expr fd (EAbs a) sc = (case fold_expr fd a sc of (a', af) \<Rightarrow> folded (EAbs a') (fold_unary fold_abs_ivl af))"
| "fold_expr fd (EMin a b) sc =
     (case fold_expr fd a sc of (a', af) \<Rightarrow>
      case fold_expr fd b sc of (b', bf) \<Rightarrow> folded (EMin a' b') (fold_pair min_ivl af bf))"
| "fold_expr fd (EMax a b) sc =
     (case fold_expr fd a sc of (a', af) \<Rightarrow>
      case fold_expr fd b sc of (b', bf) \<Rightarrow> folded (EMax a' b') (fold_pair max_ivl af bf))"
| "fold_expr fd e sc = folded e FUnknown"

section \<open>Rules and programs\<close>

fun lower_lets :: "rule \<Rightarrow> concept \<Rightarrow> (string \<times> expr) list \<Rightarrow> fold_st \<Rightarrow> (string \<times> expr) list \<times> fold_st" where
  "lower_lets r c [] fd = ([], fd)"
| "lower_lets r c ((name, e) # bs) fd =
     (case fold_expr fd e (scope_new r c (fd_values fd)) of (e', f) \<Rightarrow>
      case lower_lets r c bs (fold_bind name f fd) of (bs', fd') \<Rightarrow>
        (if fact_constant f = None then (name, e') # bs' else bs', fd'))"

definition lower_rule :: "(string \<rightharpoonup> fact) \<Rightarrow> concept \<Rightarrow> rule \<Rightarrow> rule" where
  "lower_rule known c r =
     (case lower_lets r c (l_bindings (r_logic r)) \<lparr>fd_values = Map.empty, fd_bools = Map.empty, fd_calls = known\<rparr> of
        (bs, fd) \<Rightarrow>
          r\<lparr>r_logic := (r_logic r)\<lparr>l_bindings := bs,
              l_value := fst (fold_expr fd (l_value (r_logic r)) (scope_new r c (fd_values fd)))\<rparr>\<rparr>)"

datatype lower_error = Refused num_diag | LoweringRule string num_error | LowerPanic

definition lower_item :: "num_tables \<Rightarrow> string set \<Rightarrow> (string \<rightharpoonup> fact) \<Rightarrow> item \<Rightarrow> lower_error + item" where
  "lower_item nt active known it =
     (case it of
        IRule r \<Rightarrow>
          if r_name r \<notin> active then Inr it
          else (case r_input_ty r of
                  TNamed name \<Rightarrow>
                    (case nt_concepts nt name of
                       None \<Rightarrow> Inl LowerPanic
                     | Some c \<Rightarrow> Inr (IRule (lower_rule known c r)))
                | _ \<Rightarrow> Inl LowerPanic)
      | _ \<Rightarrow> Inr it)"

fun lower_calls :: "num_tables \<Rightarrow> string list \<Rightarrow> check_st \<Rightarrow> (string \<rightharpoonup> fact) \<Rightarrow> lower_error + (string \<rightharpoonup> fact)" where
  "lower_calls nt [] st known = Inr known"
| "lower_calls nt (name # names) st known =
     (case check_rule nt max_nested_calls [] name st of
        (Inl e, _) \<Rightarrow> Inl (LoweringRule name e)
      | (Inr v, st') \<Rightarrow> lower_calls nt names st' (known(name \<mapsto> fact_from v)))"

definition lower :: "program \<Rightarrow> lower_error + program" where
  "lower p =
     (case numeric_verify p of
        error # _ \<Rightarrow> Inl (Refused error)
      | [] \<Rightarrow>
          let active = active_rules p; nt = check_new p in
          rbind (lower_calls nt (sorted_list_of_set active) \<lparr>ck_cache = Map.empty, ck_steps = 0\<rparr> Map.empty) (\<lambda>known.
          rbind (rmapM (lower_item nt active known) (p_items p)) (\<lambda>its.
            Inr (p\<lparr>p_items := its\<rparr>))))"

end
