(* ===== verification/Native_Opt_Correct.thy ===== *)
theory Native_Opt_Correct
  imports Native_Opt
begin

text \<open>
  The numeric lowering preserves meaning: the facts that \<open>fold_expr\<close> computes describe the value of the
  original expression, and the lowered rules of a verified program evaluate, with their lowered callees,
  to the values of the original rules on every record that meets the entry guard.
\<close>

section \<open>What a fact says\<close>

definition fact_wf :: "fact \<Rightarrow> bool" where
  "fact_wf f \<longleftrightarrow> (case f of FNumber rg \<Rightarrow> wf_ranges rg | _ \<Rightarrow> True)"

definition fact_has :: "fact \<Rightarrow> val \<Rightarrow> bool" where
  "fact_has f v \<longleftrightarrow>
     (case f of
        FNumber rg \<Rightarrow> wf_ranges rg \<and> (\<exists>x \<in> gam rg. v = VNumber x)
      | FBool b \<Rightarrow> (\<exists>c. v = VBool c \<and> (\<forall>d. b = Some d \<longrightarrow> d = c))
      | FUnknown \<Rightarrow> True)"

lemma fact_wf_simps [simp]: "fact_wf (FNumber rg) \<longleftrightarrow> wf_ranges rg" "fact_wf (FBool b)" "fact_wf FUnknown"
  by (simp_all add: fact_wf_def)

lemma fact_has_simps [simp]:
  "fact_has (FNumber rg) v \<longleftrightarrow> wf_ranges rg \<and> (\<exists>x \<in> gam rg. v = VNumber x)"
  "fact_has (FBool b) v \<longleftrightarrow> (\<exists>c. v = VBool c \<and> (\<forall>d. b = Some d \<longrightarrow> d = c))"
  "fact_has FUnknown v"
  by (simp_all add: fact_has_def)

lemma fact_from_has: "nv_has nv v \<Longrightarrow> fact_has (fact_from nv) v"
  by (cases nv) (auto simp: fact_from_def)

lemma fact_from_wf: "nv_wf nv \<Longrightarrow> fact_wf (fact_from nv)"
  by (cases nv) (auto simp: fact_from_def)

text \<open>A constant that a fact yields evaluates, in every environment, to the only value the fact allows.\<close>

lemma fact_constant_cases:
  assumes "fact_constant f = Some e"
  obtains n rg where "f = FNumber rg" "hull rg = (n, n)" "e = ENumber n"
  | b where "f = FBool (Some b)" "e = EBinary OpEq (ENumber 0) (ENumber (if b then 0 else 1))"
  using assms by (auto simp: fact_constant_def split: fact.splits option.splits prod.splits if_splits)

lemma fact_constant_evals:
  assumes "fact_constant f = Some e" "fact_has f v"
  shows "evals cx e env v"
  using assms(1)
proof (cases rule: fact_constant_cases)
  case (1 n rg)
  with assms(2) singleton_hull [of rg n] show ?thesis by (auto simp: evals_def run_def)
next
  case (2 b)
  with assms(2) show ?thesis by (auto simp: evals_def run_def apply_binop_def eq_scalars_def)
qed

lemma fact_join_wf: "fact_wf a \<Longrightarrow> fact_wf b \<Longrightarrow> fact_wf (fact_join a b)"
  by (cases a; cases b) (auto simp: fact_join_def join_sound(1))

lemma fact_join_has:
  assumes "fact_wf a" "fact_wf b" "fact_has (if t then a else b) v"
  shows "fact_has (fact_join a b) v"
  using assms join_sound [of "case a of FNumber x \<Rightarrow> x" "case b of FNumber x \<Rightarrow> x"]
  by (cases a; cases b; cases t) (auto simp: fact_join_def split: if_splits)

section \<open>Decided comparisons\<close>

lemma compare_interval_sound:
  assumes "compare_interval op p q = Some t" "fst p \<le> x" "x \<le> snd p" "fst q \<le> y" "y \<le> snd q"
  shows "compare_val op x y = t"
  using assms
  by (cases op) (auto simp: compare_interval_def decide_lt_def decide_le_def compare_val_def split: if_splits)

lemma compare_loop_all:
  "compare_loop op result ps = Some t \<Longrightarrow>
     (\<forall>(p, q) \<in> set ps. compare_interval op p q = Some t) \<and> (result = None \<or> result = Some t)"
  by (induction op result ps rule: compare_loop.induct) (auto split: option.splits if_splits)

lemma compare_ranges_sound:
  assumes "compare_ranges op a b = Some t" "x \<in> gam a" "y \<in> gam b"
  shows "compare_val op x y = t"
proof -
  from assms(2,3) obtain p q where "p \<in> set (pieces a)" "q \<in> set (pieces b)"
    "fst p \<le> x" "x \<le> snd p" "fst q \<le> y" "y \<le> snd q" by (auto simp: gam_def ivl_set_def)
  moreover from this compare_loop_all [OF assms(1) [unfolded compare_ranges_def]]
  have "compare_interval op p q = Some t" by force
  ultimately show ?thesis using compare_interval_sound by blast
qed

section \<open>Operators\<close>

text \<open>The value of a binary operation whose operands have values.\<close>

definition binop_value :: "bool \<Rightarrow> binop \<Rightarrow> val \<Rightarrow> val \<Rightarrow> val \<Rightarrow> bool" where
  "binop_value chk op x y v \<longleftrightarrow>
     (if op = OpAnd then (\<exists>a b. x = VBool a \<and> y = VBool b \<and> v = VBool (a \<and> b))
      else if op = OpOr then (\<exists>a b. x = VBool a \<and> y = VBool b \<and> v = VBool (a \<or> b))
      else apply_binop chk op x y = Inr v)"

lemma binop_value_compare:
  "binop_value chk op (VNumber x) (VNumber y) v \<Longrightarrow> is_comparison op \<Longrightarrow> v = VBool (compare_val op x y)"
  by (cases op) (auto simp: binop_value_def is_comparison_def compare_val_def apply_binop_def eq_scalars_def num_args_def)

lemma binop_value_arith:
  "binop_value chk op (VNumber x) (VNumber y) v \<Longrightarrow> arith_ok op x y \<Longrightarrow> v = VNumber (arith_val op x y)"
  by (cases op) (auto simp: binop_value_def arith_ok_def arith_val_def apply_binop_def num_args_def panicking_def
    i64_div_def i64_rem_def)

lemma smod_ok:
  assumes "in_i64 x" "checked_rem x y = Some n"
  shows "arith_ok OpMod x y" "n = arith_val OpMod x y" "in_i64 n"
proof -
  have "in_i64 (x smod y)"
    using abs_smod_le [of x y] smod_sign [of x y] assms(1) by (auto simp: in_i64_def abs_if split: if_splits)
  with assms(2) show "arith_ok OpMod x y" "n = arith_val OpMod x y" "in_i64 n"
    by (auto simp: checked_rem_def arith_ok_def arith_val_def split: if_splits)
qed

lemma number_fact_has:
  "(\<And>rg. r = Inr rg \<Longrightarrow> wf_ranges rg \<and> (\<exists>x \<in> gam rg. v = VNumber x)) \<Longrightarrow> fact_has (number_fact r) v"
  by (cases r) (auto simp: number_fact_def)

lemma number_fact_wf: "(\<And>rg. r = Inr rg \<Longrightarrow> wf_ranges rg) \<Longrightarrow> fact_wf (number_fact r)"
  by (cases r) (auto simp: number_fact_def)

lemma number_binary_cases:
  obtains (rem) a c where "op = OpMod" "hull l = (a, a)" "hull r = (c, c)"
      "number_binary op l r = (case checked_rem a c of Some v \<Rightarrow> FNumber (mk_interval v v) | None \<Rightarrow> FUnknown)"
  | (comp) "is_comparison op" "number_binary op l r = FBool (compare_ranges op l r)"
  | (arith) "number_binary op l r = number_fact (rg_arithmetic l op r)"
proof -
  obtain a b c d where h: "hull l = (a, b)" "hull r = (c, d)" by (cases "hull l"; cases "hull r")
  show ?thesis
  proof (cases "op = OpMod \<and> a = b \<and> c = d")
    case True
    with h that(1) show ?thesis by (simp add: number_binary_def)
  next
    case False
    with h have "number_binary op l r =
        (if is_comparison op then FBool (compare_ranges op l r) else number_fact (rg_arithmetic l op r))"
      by (auto simp add: number_binary_def is_comparison_def)
    then show ?thesis using that(2,3) by (cases "is_comparison op") auto
  qed
qed

lemma number_binary_has:
  assumes "wf_ranges l" "wf_ranges r" "x \<in> gam l" "y \<in> gam r" "binop_value chk op (VNumber x) (VNumber y) v"
  shows "fact_has (number_binary op l r) v"
proof (cases rule: number_binary_cases [of op l r])
  case (rem a c)
  then have e: "x = a" "y = c" using assms(1-4) singleton_hull by blast+
  show ?thesis
  proof (cases "checked_rem a c")
    case (Some n)
    have "in_i64 x" by (rule gam_in_i64 [OF assms(1,3)])
    from smod_ok [OF this, of y n] Some e binop_value_arith [OF assms(5)] rem show ?thesis
      by (auto simp: valid_ivl_def)
  qed (use rem in simp)
next
  case comp
  then show ?thesis using binop_value_compare [OF assms(5)] compare_ranges_sound [OF _ assms(3,4)] by auto
next
  case arith
  then show ?thesis using rg_arithmetic_sound [OF _ assms(1,2)] assms(3,4) binop_value_arith [OF assms(5)]
    by (auto intro!: number_fact_has)
qed

lemma number_binary_wf: "wf_ranges l \<Longrightarrow> wf_ranges r \<Longrightarrow> fact_wf (number_binary op l r)"
proof (cases rule: number_binary_cases [of op l r])
  case (rem a c)
  assume "wf_ranges l"
  then have "in_i64 a" using rem(2) wf_hull [of l] by (simp add: valid_ivl_def)
  with smod_ok(3) [of a c] rem show ?thesis by (auto simp: valid_ivl_def split: option.split)
next
  case arith
  assume "wf_ranges l" "wf_ranges r"
  then show ?thesis using arith rg_arithmetic_sound(1) by (auto intro!: number_fact_wf)
qed simp

lemma bool_binary_has:
  assumes "fact_has (FBool a) x" "fact_has (FBool b) y" "binop_value chk op x y v"
  shows "fact_has (FBool (bool_binary op a b)) v"
  using assms
  by (cases op) (auto simp: bool_binary_def binop_value_def apply_binop_def eq_scalars_def num_args_def zip_with_def
    split: option.splits if_splits)

lemma repeated_binary_has:
  assumes "wf_ranges rg" "x \<in> gam rg" "binop_value chk op (VNumber x) (VNumber x) v"
  shows "fact_has (repeated_binary op rg) v"
proof (cases "is_comparison op")
  case True
  with binop_value_compare [OF assms(3)] show ?thesis
    by (cases op) (auto simp: repeated_binary_def is_comparison_def compare_val_def)
next
  case False
  then have "repeated_binary op rg = number_fact (repeated_arithmetic rg op)"
    by (auto simp: repeated_binary_def is_comparison_def)
  then show ?thesis using repeated_arithmetic_sound [OF _ assms(1)] assms(2) binop_value_arith [OF assms(3)]
    by (auto intro!: number_fact_has)
qed

lemma fold_binary_has:
  assumes "fact_has af x" "fact_has bf y" "rep \<Longrightarrow> x = y" "binop_value chk op x y v"
  shows "fact_has (fold_binary op rep af bf) v"
proof (cases "(\<exists>l. af = FNumber l) \<and> (\<exists>r. bf = FNumber r)")
  case True
  then obtain l r where f: "af = FNumber l" "bf = FNumber r" by blast
  with assms(1,2) obtain m n where "x = VNumber m" "y = VNumber n" "m \<in> gam l" "n \<in> gam r" "wf_ranges l" "wf_ranges r"
    by auto
  with f assms(3,4) show ?thesis
    by (cases rep) (auto simp: fold_binary_def fact_binary_def intro: repeated_binary_has number_binary_has)
next
  case False
  then show ?thesis using bool_binary_has [OF _ _ assms(4)] assms(1,2)
    by (cases af; cases bf; cases rep) (simp_all add: fold_binary_def fact_binary_def del: fact_has_simps(2))
qed

lemma fold_binary_wf:
  assumes "fact_wf af" "fact_wf bf"
  shows "fact_wf (fold_binary op rep af bf)"
proof (cases "\<exists>l r. af = FNumber l \<and> bf = FNumber r")
  case True
  then obtain l r where f: "af = FNumber l" "bf = FNumber r" by blast
  have "fact_wf (repeated_binary op l)"
    using assms f repeated_arithmetic_sound(1) [of l op] by (auto simp: repeated_binary_def intro!: number_fact_wf)
  with assms f number_binary_wf show ?thesis by (cases rep) (auto simp: fold_binary_def fact_binary_def)
next
  case False
  then show ?thesis by (cases af; cases bf; cases rep) (simp_all add: fold_binary_def fact_binary_def)
qed

interpretation fneg: interval_fun fold_neg_ivl uminus
  by unfold_locales
     (auto simp: fold_neg_ivl_def checked_neg_def valid_ivl_def in_i64_def split: if_splits option.splits)

interpretation fabs: interval_fun fold_abs_ivl abs
  by unfold_locales
     (auto simp: fold_abs_ivl_def checked_abs_def valid_ivl_def in_i64_def min_def max_def split: if_splits option.splits)

lemma fold_unary_has:
  assumes "fact_has af (VNumber x)" "g = fold_neg_ivl \<and> y = - x \<or> g = fold_abs_ivl \<and> y = \<bar>x\<bar>" "in_i64 y \<Longrightarrow> v = VNumber y"
  shows "fact_has (fold_unary g af) v"
proof (cases af)
  case (FNumber rg)
  have "wf_ranges rg' \<and> y \<in> gam rg'" if "rg_map rg g = Inr rg'" for rg'
    using assms(1,2) FNumber that fneg.rg_map_sound [of rg rg'] fabs.rg_map_sound [of rg rg'] by auto
  then show ?thesis using FNumber assms(3) gam_in_i64 by (auto simp: fold_unary_def intro!: number_fact_has)
qed (simp_all add: fold_unary_def)

lemma fold_unary_wf: "fact_wf af \<Longrightarrow> g = fold_neg_ivl \<or> g = fold_abs_ivl \<Longrightarrow> fact_wf (fold_unary g af)"
  using fneg.rg_map_sound(1) fabs.rg_map_sound(1)
  by (cases af) (auto simp: fold_unary_def intro!: number_fact_wf)

lemma fold_pair_has:
  assumes "fact_has af (VNumber x)" "fact_has bf (VNumber y)" "g = min_ivl \<and> z = min x y \<or> g = max_ivl \<and> z = max x y"
  shows "fact_has (fold_pair g af bf) (VNumber z)"
  using assms minimum.pairwise_sound maximum.pairwise_sound
  by (cases af; cases bf) (auto simp: fold_pair_def intro!: number_fact_has)

lemma fold_pair_wf: "fact_wf af \<Longrightarrow> fact_wf bf \<Longrightarrow> g = min_ivl \<or> g = max_ivl \<Longrightarrow> fact_wf (fold_pair g af bf)"
  using minimum.pairwise_sound(1) maximum.pairwise_sound(1)
  by (cases af; cases bf) (auto simp: fold_pair_def intro!: number_fact_wf)

section \<open>Refinement only narrows\<close>

lemma restrict_subset: "is_comparison op \<Longrightarrow> restrict r op n = Some r' \<Longrightarrow> gam r' \<subseteq> gam r"
proof -
  assume c: "is_comparison op" and r: "restrict r op n = Some r'"
  let ?ps = "concat (map (restrict_piece op n) (pieces r))"
  show ?thesis
  proof (cases "length ?ps > 2")
    case False
    have "length (filter (\<lambda>(lo, hi). lo \<le> hi) ?ps) \<le> 2"
      using False length_filter_le [of "\<lambda>(lo, hi). lo \<le> hi" ?ps] by linarith
    then have "gam r' = ivl_set ?ps" using r False by (intro collect_exact) (simp_all add: restrict_def)
    then show ?thesis using restrict_piece_set [OF c, of n] by (auto simp: gam_def ivl_set_concat ivl_set_def [of "pieces r"])
  qed (use r in \<open>simp add: restrict_def\<close>)
qed

lemma constrain_subset: "is_comparison op \<Longrightarrow> constrain r op other = Some r' \<Longrightarrow> gam r' \<subseteq> gam r"
proof -
  assume c: "is_comparison op" and r: "constrain r op other = Some r'"
  show ?thesis
  proof (cases "op = OpEq")
    case True
    show ?thesis
    proof (cases "length (common_pieces r other) > 2")
      case False
      have "length (filter (\<lambda>(lo, hi). lo \<le> hi) (common_pieces r other)) \<le> 2"
        using False length_filter_le [of "\<lambda>(lo, hi). lo \<le> hi" "common_pieces r other"] by linarith
      then have "gam r' = ivl_set (common_pieces r other)" using r False True by (intro collect_exact) (simp_all add: constrain_Eq)
      then show ?thesis by (simp add: common_pieces_set)
    qed (use r True in \<open>simp add: constrain_Eq\<close>)
  next
    case False
    with c r obtain n where "restrict r op n = Some r' \<or> r' = r"
      by (cases op) (auto simp: constrain_def is_comparison_def split: prod.splits if_splits)
    with restrict_subset [OF c] show ?thesis by auto
  qed
qed

definition narrows :: "scope \<Rightarrow> scope \<Rightarrow> bool" where
  "narrows sc' sc \<longleftrightarrow> (\<forall>n rg. scope_local sc n = Some (NNumber rg) \<longrightarrow>
     (\<exists>rg'. scope_local sc' n = Some (NNumber rg') \<and> gam rg' \<subseteq> gam rg))"

lemma narrows_refl [simp]: "narrows sc sc"
  by (auto simp: narrows_def)

lemma narrows_trans: "narrows a b \<Longrightarrow> narrows b c \<Longrightarrow> narrows a c"
  unfolding narrows_def by (meson subset_trans)

lemma scope_local_update:
  "scope_local (scope_record p rg sc) n =
     (if p = Some (PLocal n) then map_option (\<lambda>v. case v of NNumber _ \<Rightarrow> NNumber rg | NBool \<Rightarrow> NBool) (scope_local sc n)
      else scope_local sc n)"
  by (auto simp: scope_local_def scope_record_def split: option.splits place.splits nval.splits)

lemma scope_operand_local: "scope_operand sc e = Some (Some (PLocal n), rg) \<Longrightarrow> scope_local sc n = Some (NNumber rg)"
  by (auto simp: scope_operand_def scope_scalar_def split: option.splits expr.splits nval.splits if_splits)

lemma assume_comparison_narrows:
  assumes "assume_comparison op a b t sc = Some sc'"
  shows "narrows sc' sc"
proof (cases "sc' = sc")
  case False
  with assms obtain op' pa ra pb rb ra' rb' where c: "comparison op t = Some op'"
    and o: "scope_operand sc a = Some (pa, ra)" "scope_operand sc b = Some (pb, rb)" "pa \<noteq> pb"
    and k: "constrain ra op' rb = Some ra'" "constrain rb (reverse_op op') ra = Some rb'"
    and sc': "sc' = scope_record pb rb' (scope_record pa ra' sc)"
    by (auto simp: assume_comparison_def split: option.splits if_splits)
  have "is_comparison op'" "is_comparison (reverse_op op')"
    using comparison_truth [OF c] reverse_op_sound [of op'] by auto
  then have "gam ra' \<subseteq> gam ra" "gam rb' \<subseteq> gam rb" using constrain_subset k by blast+
  then show ?thesis using o scope_operand_local unfolding sc' narrows_def scope_local_update by fastforce
qed simp

lemma scope_assume_narrows: "scope_assume cond t sc = Some sc' \<Longrightarrow> narrows sc' sc"
proof (induction cond t sc arbitrary: sc' rule: scope_assume.induct)
  case (2 op a b t sc)
  show ?case
  proof (cases "op = OpAnd \<and> t \<or> op = OpOr \<and> \<not> t")
    case True
    with "2.prems" obtain sc1 where s: "scope_assume a t sc = Some sc1" "scope_assume b t sc1 = Some sc'"
      by (cases t) (auto split: option.splits)
    moreover have "narrows sc1 sc" using True "2.IH"(1,3) s(1) by (cases t) auto
    moreover have "narrows sc' sc1" using True "2.IH"(2,4) s by (cases t) auto
    ultimately show ?thesis using narrows_trans by blast
  next
    case False
    then have "scope_assume (EBinary op a b) t sc = assume_comparison op a b t sc" by auto
    with "2.prems" assume_comparison_narrows show ?thesis by auto
  qed
qed simp_all

lemma scope_branch_narrows: "narrows (scope_branch sc cond t) sc"
  using scope_assume_narrows [of cond t sc] by (auto simp: scope_branch_def split: option.splits)

section \<open>Checked expressions and their parts\<close>

text \<open>
  \<open>checked\<close> collects what the checker has established of an expression in an environment of a run, so that
  inductions over the lowering need not carry the checker's state.
\<close>

definition checked :: "'w ictx \<Rightarrow> num_tables \<Rightarrow> rule \<Rightarrow> concept \<Rightarrow> (string \<times> val) list \<Rightarrow> env \<Rightarrow> scope \<Rightarrow> expr \<Rightarrow> bool" where
  "checked cx nt r c fs env sc e \<longleftrightarrow>
     same_rules cx nt \<and> admissible nt r fs \<and> run_ok cx r c fs sc env \<and> lits_i64 e \<and> scope_wf sc \<and>
     (\<exists>call d st nv st'. call_ok cx nt call \<and> cache_ok cx nt st \<and> check_expr nt call r e sc d st = (Inr nv, st'))"

lemma checkedI:
  assumes "same_rules cx nt" "admissible nt r fs" "run_ok cx r c fs sc env" "lits_i64 e" "scope_wf sc"
    "call_ok cx nt call" "cache_ok cx nt st" "check_expr nt call r e sc d st = (Inr nv, st')"
  shows "checked cx nt r c fs env sc e"
  using assms unfolding checked_def by blast

lemma checkedE:
  assumes "checked cx nt r c fs env sc e"
  obtains call d st nv st' where "same_rules cx nt" "admissible nt r fs" "run_ok cx r c fs sc env" "lits_i64 e"
    "scope_wf sc" "call_ok cx nt call" "cache_ok cx nt st" "check_expr nt call r e sc d st = (Inr nv, st')"
  using assms unfolding checked_def by blast

lemma checked_evals:
  assumes "checked cx nt r c fs env sc e"
  obtains v where "evals cx e env v"
  using assms by (elim checkedE) (blast dest: check_expr_sound)

lemma checked_unary:
  assumes "checked cx nt r c fs env sc e" "e = ENot a \<or> e = ENeg a \<or> e = EAbs a"
  shows "checked cx nt r c fs env sc a"
proof -
  from assms(1) obtain call d st nv st' where c: "same_rules cx nt" "admissible nt r fs" "run_ok cx r c fs sc env"
    "lits_i64 e" "scope_wf sc" "call_ok cx nt call" "cache_ok cx nt st" "check_expr nt call r e sc d st = (Inr nv, st')"
    by (rule checkedE)
  then obtain va s1 where "check_expr nt call r a sc (Suc d) (st\<lparr>ck_steps := ck_steps st + 1\<rparr>) = (Inr va, s1)"
    using assms(2) by (auto simp: res_simps)
  moreover have "lits_i64 a" "cache_ok cx nt (st\<lparr>ck_steps := ck_steps st + 1\<rparr>)"
    using c(4,7) assms(2) by (auto simp: lits_simps)
  ultimately show ?thesis using c by (blast intro: checkedI)
qed

lemma checked_binary:
  assumes "checked cx nt r c fs env sc e" "e = EBinary op a b \<or> e = EMin a b \<or> e = EMax a b"
  shows "checked cx nt r c fs env sc a" "checked cx nt r c fs env sc b"
proof -
  from assms(1) obtain call d st nv st' where c: "same_rules cx nt" "admissible nt r fs" "run_ok cx r c fs sc env"
    "lits_i64 e" "scope_wf sc" "call_ok cx nt call" "cache_ok cx nt st" "check_expr nt call r e sc d st = (Inr nv, st')"
    by (rule checkedE)
  then obtain va s1 vb where a: "check_expr nt call r a sc (Suc d) (st\<lparr>ck_steps := ck_steps st + 1\<rparr>) = (Inr va, s1)"
    and b: "check_expr nt call r b sc (Suc d) s1 = (Inr vb, st')"
    using assms(2) by (auto simp: res_simps)
  have k: "lits_i64 a" "lits_i64 b" "cache_ok cx nt (st\<lparr>ck_steps := ck_steps st + 1\<rparr>)"
    using c(4,7) assms(2) by (auto simp: lits_simps)
  from check_expr_cache [OF c(6) k(3) a] have s1: "cache_ok cx nt s1" .
  show "checked cx nt r c fs env sc a" by (rule checkedI [OF c(1-3) k(1) c(5,6) k(3) a])
  show "checked cx nt r c fs env sc b" by (rule checkedI [OF c(1-3) k(2) c(5,6) s1 b])
qed

lemma checked_if:
  assumes "checked cx nt r c fs env sc (EIf cnd a b)"
  shows "checked cx nt r c fs env sc cnd" "\<exists>t. evals cx cnd env (VBool t)"
    "evals cx cnd env (VBool t) \<Longrightarrow> checked cx nt r c fs env (scope_branch sc cnd t) (if t then a else b)"
proof -
  from assms obtain call d st nv st' where c: "same_rules cx nt" "admissible nt r fs" "run_ok cx r c fs sc env"
    "lits_i64 (EIf cnd a b)" "scope_wf sc" "call_ok cx nt call" "cache_ok cx nt st"
    "check_expr nt call r (EIf cnd a b) sc d st = (Inr nv, st')"
    by (rule checkedE)
  then obtain s1 s2 va vb where
    cn: "check_expr nt call r cnd sc (Suc d) (st\<lparr>ck_steps := ck_steps st + 1\<rparr>) = (Inr NBool, s1)"
    and a: "check_expr nt call r a (scope_branch sc cnd True) (Suc d) s1 = (Inr va, s2)"
    and b: "check_expr nt call r b (scope_branch sc cnd False) (Suc d) s2 = (Inr vb, st')"
    by (auto simp: res_simps nv_boolean_eq)
  have k: "lits_i64 cnd" "lits_i64 a" "lits_i64 b" "cache_ok cx nt (st\<lparr>ck_steps := ck_steps st + 1\<rparr>)"
    using c(4,7) by (auto simp: lits_simps)
  have s1: "cache_ok cx nt s1" by (rule check_expr_cache [OF c(6) k(4) cn])
  have s2: "cache_ok cx nt s2" by (rule check_expr_cache [OF c(6) s1 a])
  show "checked cx nt r c fs env sc cnd" by (rule checkedI [OF c(1-3) k(1) c(5,6) k(4) cn])
  show "\<exists>t. evals cx cnd env (VBool t)"
    using check_expr_sound [OF c(6,1,2) k(4) cn c(3) k(1) c(5)] by auto
  assume t: "evals cx cnd env (VBool t)"
  note br = run_ok_branch [OF c(3) t k(1)] and wf = scope_branch_wf [OF c(5) k(1)]
  show "checked cx nt r c fs env (scope_branch sc cnd t) (if t then a else b)"
    using checkedI [OF c(1,2) br k(2) wf c(6) s1, of "Suc d"] checkedI [OF c(1,2) br k(3) wf c(6) s2, of "Suc d"] a b
    by (cases t) auto
qed

lemma checked_binop_value:
  assumes "checked cx nt r c fs env sc (EBinary op a b)" "evals cx a env x" "evals cx b env y"
    "evals cx (EBinary op a b) env v"
  shows "binop_value (i_chk cx) op x y v"
proof -
  from assms(1) obtain call d st nv st' where c: "same_rules cx nt" "admissible nt r fs" "run_ok cx r c fs sc env"
    "lits_i64 (EBinary op a b)" "scope_wf sc" "call_ok cx nt call" "cache_ok cx nt st"
    "check_expr nt call r (EBinary op a b) sc d st = (Inr nv, st')"
    by (rule checkedE)
  then obtain va s1 vb where a: "check_expr nt call r a sc (Suc d) (st\<lparr>ck_steps := ck_steps st + 1\<rparr>) = (Inr va, s1)"
    and b: "check_expr nt call r b sc (Suc d) s1 = (Inr vb, st')" and j: "check_binary op (same_scalar sc a b) va vb = Inr nv"
    by (auto simp: res_simps)
  have k: "lits_i64 a" "lits_i64 b" "cache_ok cx nt (st\<lparr>ck_steps := ck_steps st + 1\<rparr>)"
    using c(4,7) by (auto simp: lits_simps)
  have s1: "cache_ok cx nt s1" by (rule check_expr_cache [OF c(6) k(3) a])
  have xy: "nv_has va x" "nv_has vb y"
    using check_expr_sound [OF c(6,1,2) k(3) a c(3) k(1) c(5)] check_expr_sound [OF c(6,1,2) s1 b c(3) k(2) c(5)]
      evals_det [OF assms(2)] evals_det [OF assms(3)] by blast+
  show ?thesis
  proof (cases "op = OpAnd \<or> op = OpOr")
    case True
    with j have "va = NBool" "vb = NBool" by (auto simp: check_binary_def rbind_eq_Inr nv_boolean_eq)
    with xy obtain m n where mn: "x = VBool m" "y = VBool n" by auto
    with evals_ops(2) [of cx a env m b n op] assms(2,3) True
    have "evals cx (EBinary op a b) env (VBool (if op = OpAnd then m \<and> n else m \<or> n))" by auto
    from evals_det [OF assms(4) this] True mn show ?thesis by (auto simp: binop_value_def)
  next
    case False
    have "\<forall>\<^sub>F f in sequentially. elift (apply_binop (i_chk cx) op x y) = (eret v :: ('a, val) eval)"
      using assms(2-4) unfolding evals_def by eventually_elim (use False in \<open>simp add: run_def\<close>)
    then have "elift (apply_binop (i_chk cx) op x y) = (eret v :: ('a, val) eval)" by (auto simp: eventually_sequentially)
    then have "apply_binop (i_chk cx) op x y = Inr v"
      by (cases "apply_binop (i_chk cx) op x y") (auto simp: eret_def ethrow_def fun_eq_iff)
    with False show ?thesis by (simp add: binop_value_def)
  qed
qed

lemma checked_field:
  assumes "checked cx nt r c fs env sc (EField base n)"
  shows "base = EIdent (r_input_name r) \<and> env (r_input_name r) = Some (VRecord fs)"
  using assms by (elim checkedE) (auto simp: res_simps run_ok_def reads_input_iff dest: check_field_eq)

lemma checked_call:
  assumes "checked cx nt r c fs env sc (ECall n args)"
  obtains r' where "nt_rules nt n = Some r'" "args = [EIdent (r_input_name r)]" "r_input_ty r' = r_input_ty r"
    "env (r_input_name r) = Some (VRecord fs)"
proof -
  from assms obtain call d st nv st' where c: "run_ok cx r c fs sc env" "check_expr nt call r (ECall n args) sc d st = (Inr nv, st')"
    by (rule checkedE)
  then have "check_call nt r sc n args = Inr ()" by (auto simp: res_simps)
  with c(1) show ?thesis using that
    by (cases args) (auto simp: check_call_def reads_input_iff run_ok_def split: if_splits option.splits)
qed

section \<open>The scopes of the lowering\<close>

text \<open>
  A \<open>let\<close> whose fact is unknown leaves no entry in the lowering's scope, also when it shadows the input.
  The scope then still describes the fields of the input record, which no checked expression can read
  any more: \<open>ev_in\<close> lets those fields be what the record says.
\<close>

definition ev_in :: "'w ictx \<Rightarrow> env \<Rightarrow> string \<Rightarrow> (string \<times> val) list \<Rightarrow> expr \<Rightarrow> int \<Rightarrow> bool" where
  "ev_in cx env inp fs e x \<longleftrightarrow> ev_num cx env e x \<or>
     (\<exists>n. e = EField (EIdent inp) n \<and> map_of fs n = Some (VNumber x) \<and> (\<forall>g. env inp \<noteq> Some (VRecord g)))"

lemma run_shadowed: "\<forall>g. env inp \<noteq> Some (VRecord g) \<Longrightarrow> run cx f (EField (EIdent inp) n) env w \<noteq> Inr x"
  by (auto simp: run_def ebind_def ethrow_def eret_def split: option.splits val.splits)

lemma run_strict:
  assumes "run cx f (EBinary op a b) env w = Inr (v, w')" "op \<noteq> OpAnd" "op \<noteq> OpOr"
  obtains x y w1 where "run cx f a env w = Inr (x, w1)" "run cx f b env w1 = Inr (y, w')" "apply_binop (i_chk cx) op x y = Inr v"
  using assms by (auto simp: run_def res_simps)

interpretation gf: guard_semantics "ev_in cx env inp fs" "ev_cond cx env" for cx :: "'w ictx" and env inp fs
proof unfold_locales
  fix op a b t x y
  assume c: "ev_cond cx env (EBinary op a b) t" "is_comparison op" and a: "ev_in cx env inp fs a x" "ev_in cx env inp fs b y"
  have "op \<noteq> OpAnd" "op \<noteq> OpOr" using c(2) by (auto simp: is_comparison_def)
  moreover obtain f w w' where "run cx f (EBinary op a b) env w = Inr (VBool t, w')" using c(1) unfolding ev_cond_def by blast
  ultimately obtain w1 l r where ab: "run cx f a env w = Inr (l, w1)" "run cx f b env w1 = Inr (r, w')"
    by (elim run_strict) auto
  have "ev_num cx env a x" "ev_num cx env b y"
    using a ab run_shadowed [of env inp cx f _ w] run_shadowed [of env inp cx f _ w1] by (auto simp: ev_in_def)
  with gs.ev_compare [OF c] show "compare_val op x y = t" by blast
qed (auto simp: ev_in_def gs.ev_number gs.ev_neg dest: gs.ev_not gs.ev_and gs.ev_or)

definition fold_ok :: "'w ictx \<Rightarrow> rule \<Rightarrow> concept \<Rightarrow> (string \<times> val) list \<Rightarrow> fold_st \<Rightarrow> scope \<Rightarrow> env \<Rightarrow> bool" where
  "fold_ok cx r c fs fd sc env \<longleftrightarrow>
     scope_sound (ev_in cx env (r_input_name r) fs) sc \<and> sc_input sc = r_input_name r \<and> scope_wf sc \<and>
     (\<forall>n nv. sc_locals sc n = Some nv \<longrightarrow> (\<exists>v. env n = Some v \<and> nv_has nv v)) \<and>
     (\<forall>n b. fd_bools fd n = Some b \<longrightarrow> env n = Some (VBool b))"

definition calls_ok :: "'w ictx \<Rightarrow> num_tables \<Rightarrow> (string \<rightharpoonup> fact) \<Rightarrow> bool" where
  "calls_ok cx nt known \<longleftrightarrow> (\<forall>n f. known n = Some f \<longrightarrow>
     (\<exists>r nv. nt_rules nt n = Some r \<and> rule_sound cx nt r nv \<and> f = fact_from nv))"

lemma fold_ok_branch:
  assumes "fold_ok cx r c fs fd sc env" "evals cx cond env (VBool t)" "lits_i64 cond"
  shows "fold_ok cx r c fs fd (scope_branch sc cond t) env"
  using gf.scope_branch_sound [of cx env "r_input_name r" fs sc cond t] evals_run [OF assms(2)] assms(1,3)
    scope_branch_wf [of sc cond t]
  by (auto simp: fold_ok_def extends_def ev_cond_def)

lemma fold_ident_has:
  assumes "fold_ok cx r c fs fd sc env" "env n = Some v"
  shows "fact_has (fold_ident fd sc n) v"
proof (cases "fd_bools fd n")
  case (Some b)
  with assms show ?thesis by (auto simp: fold_ok_def fold_ident_def)
next
  case None
  show ?thesis
  proof (cases "scope_local sc n")
    case (Some nv)
    have "nv_has nv v"
    proof (cases nv)
      case (NNumber rg)
      with Some assms(1) have "holds_at (ev_in cx env (r_input_name r) fs) (EIdent n) rg"
        unfolding fold_ok_def scope_sound_def by blast
      then obtain x where "wf_ranges rg" "x \<in> gam rg" "ev_num cx env (EIdent n) x" by (auto simp: holds_at_def ev_in_def)
      moreover from this(3) assms(2) have "v = VNumber x" by (simp add: ev_num_def run_def eret_def fun_eq_iff)
      ultimately show ?thesis using NNumber by simp
    next
      case NBool
      with Some have "sc_locals sc n = Some NBool" by (auto simp: scope_local_def split: option.splits nval.splits)
      with assms NBool show ?thesis by (fastforce simp: fold_ok_def)
    qed
    with None Some show ?thesis by (simp add: fold_ident_def fact_from_has)
  qed (simp add: fold_ident_def None)
qed

lemma fold_field_has:
  assumes "fold_ok cx r c fs fd sc env" "env (r_input_name r) = Some (VRecord fs)"
    "evals cx (EField (EIdent (r_input_name r)) n) env v"
  shows "fact_has (fold_field sc n) v"
proof (cases "scope_field sc n")
  case (Some rg)
  have "sc_locals sc (r_input_name r) = None"
  proof (rule ccontr)
    assume "sc_locals sc (r_input_name r) \<noteq> None"
    then obtain nv where "nv_has nv (VRecord fs)" using assms(1,2) unfolding fold_ok_def by fastforce
    then show False by (cases nv) auto
  qed
  with Some assms(1) have "holds_at (ev_in cx env (r_input_name r) fs) (EField (EIdent (r_input_name r)) n) rg"
    unfolding fold_ok_def scope_sound_def by fastforce
  with assms(2) obtain x where x: "wf_ranges rg" "x \<in> gam rg" "ev_num cx env (EField (EIdent (r_input_name r)) n) x"
    by (auto simp: holds_at_def ev_in_def)
  then have "evals cx (EField (EIdent (r_input_name r)) n) env (VNumber x)" by (simp add: evals_def ev_num_def)
  with evals_det [OF assms(3)] x Some show ?thesis by (auto simp: fold_field_def fact_from_def)
qed (simp add: fold_field_def)

lemma fold_call_has:
  assumes "calls_ok cx nt (fd_calls fd)" "checked cx nt r c fs env sc (ECall n args)" "evals cx (ECall n args) env v"
  shows "fact_has (fold_call fd n) v"
proof (cases "fd_calls fd n")
  case (Some f)
  with assms(1) obtain r0 nv where f: "nt_rules nt n = Some r0" "rule_sound cx nt r0 nv" "f = fact_from nv"
    unfolding calls_ok_def by blast
  from assms(2) obtain r' where r': "nt_rules nt n = Some r'" "args = [EIdent (r_input_name r)]"
    "r_input_ty r' = r_input_ty r" "env (r_input_name r) = Some (VRecord fs)" by (rule checked_call)
  have g: "same_rules cx nt" "admissible nt r fs" using assms(2) by (simp_all add: checked_def)
  have "admissible nt r' fs" using g(2) r'(3) by (simp add: admissible_def)
  with f r'(1) obtain x where x: "nv_has nv x" "rule_evals cx r' fs x" unfolding rule_sound_def by auto
  have "run cx k (ECall n args) env = eval_rule_with_value cx k r' (VRecord fs)" for k
    using g(1) r' by (simp add: run_def same_rules_def eret_def [symmetric, abs_def])
  with x(2) have "evals cx (ECall n args) env x" by (simp add: evals_def rule_evals_def)
  with evals_det [OF assms(3)] have "v = x" .
  with x(1) f(3) Some show ?thesis by (simp add: fold_call_def fact_from_has)
qed (simp add: fold_call_def)

lemma fold_if_cases:
  obtains (decided) t where "snd (fold_expr fd c sc) = FBool (Some t)"
      "fold_expr fd (EIf c a b) sc = fold_expr fd (if t then a else b) (scope_branch sc c t)"
  | (undecided) "fold_expr fd (EIf c a b) sc =
      folded (EIf (fst (fold_expr fd c sc)) (fst (fold_expr fd a (scope_branch sc c True))) (fst (fold_expr fd b (scope_branch sc c False))))
        (fact_join (snd (fold_expr fd a (scope_branch sc c True))) (snd (fold_expr fd b (scope_branch sc c False))))"
proof (cases "\<exists>t. snd (fold_expr fd c sc) = FBool (Some t)")
  case True
  then obtain c' t where "fold_expr fd c sc = (c', FBool (Some t))" by (cases "fold_expr fd c sc") auto
  with decided show ?thesis by (cases t) auto
next
  case False
  then have "fold_expr fd (EIf c a b) sc =
      folded (EIf (fst (fold_expr fd c sc)) (fst (fold_expr fd a (scope_branch sc c True))) (fst (fold_expr fd b (scope_branch sc c False))))
        (fact_join (snd (fold_expr fd a (scope_branch sc c True))) (snd (fold_expr fd b (scope_branch sc c False))))"
    by (auto simp: case_prod_unfold split: fact.split option.split)
  with undecided show ?thesis by blast
qed

lemma snd_folded [simp]: "snd (folded e f) = f"
  by (simp add: folded_def)

text \<open>The lowering of every other compound expression, by the lowerings of its parts.\<close>

lemma fold_expr_parts:
  "fold_expr fd (EBinary op a b) sc = folded (EBinary op (fst (fold_expr fd a sc)) (fst (fold_expr fd b sc)))
     (fold_binary op (same_scalar sc a b) (snd (fold_expr fd a sc)) (snd (fold_expr fd b sc)))"
  "fold_expr fd (ENot a) sc = folded (ENot (fst (fold_expr fd a sc))) (fold_not (snd (fold_expr fd a sc)))"
  "fold_expr fd (ENeg a) sc = folded (ENeg (fst (fold_expr fd a sc))) (fold_unary fold_neg_ivl (snd (fold_expr fd a sc)))"
  "fold_expr fd (EAbs a) sc = folded (EAbs (fst (fold_expr fd a sc))) (fold_unary fold_abs_ivl (snd (fold_expr fd a sc)))"
  "fold_expr fd (EMin a b) sc = folded (EMin (fst (fold_expr fd a sc)) (fst (fold_expr fd b sc)))
     (fold_pair min_ivl (snd (fold_expr fd a sc)) (snd (fold_expr fd b sc)))"
  "fold_expr fd (EMax a b) sc = folded (EMax (fst (fold_expr fd a sc)) (fst (fold_expr fd b sc)))
     (fold_pair max_ivl (snd (fold_expr fd a sc)) (snd (fold_expr fd b sc)))"
  by (simp_all add: case_prod_unfold)

declare fold_expr.simps(5-11) [simp del]

lemma fold_expr_wf:
  assumes "\<And>n f. fd_calls fd n = Some f \<Longrightarrow> fact_wf f"
  shows "scope_wf sc \<Longrightarrow> lits_i64 e \<Longrightarrow> fact_wf (snd (fold_expr fd e sc))"
proof (induction e arbitrary: sc)
  case (ENumber n)
  then show ?case by (simp add: lits_simps valid_ivl_def)
next
  case (EIdent n)
  then have "nv_wf nv" if "scope_local sc n = Some nv" for nv using that by (cases nv) (auto simp: scope_wf_def)
  then show ?case by (auto simp: fold_ident_def fact_from_wf split: option.split)
next
  case (EField b n)
  then show ?case by (auto simp: fold_field_def fact_from_def scope_wf_def split: option.split)
next
  case (ECall n args)
  then show ?case using assms by (auto simp: fold_call_def split: option.split)
next
  case (EIf c a b)
  then have br: "scope_wf (scope_branch sc c t)" "lits_i64 a" "lits_i64 b" for t by (simp_all add: scope_branch_wf lits_simps)
  show ?case
  proof (cases rule: fold_if_cases [of fd c sc a b])
    case (decided t)
    with EIf.IH(2,3) br show ?thesis by simp
  next
    case undecided
    with EIf.IH(2,3) br show ?thesis by (simp add: fact_join_wf)
  qed
next
  case (ENot a)
  then show ?case by (simp add: fold_expr_parts fold_not_def lits_simps split: fact.split)
qed (simp_all add: fold_expr_parts lits_simps fold_binary_wf fold_unary_wf fold_pair_wf)

section \<open>Facts describe the original value\<close>

lemma evals_at:
  assumes "evals cx a env x" "evals cx b env y"
  obtains f where "run cx f a env = eret x" "run cx f b env = eret y"
proof -
  have "\<forall>\<^sub>F f in sequentially. run cx f a env = eret x \<and> run cx f b env = eret y"
    using assms unfolding evals_def by eventually_elim simp
  then show ?thesis using that by (auto simp: eventually_sequentially)
qed

lemma eret_eq [simp]: "(eret a :: ('w, 'a) eval) = eret b \<longleftrightarrow> a = b" "ethrow e \<noteq> (eret b :: ('w, 'a) eval)"
  "eret b \<noteq> (ethrow e :: ('w, 'a) eval)"
  by (auto simp: eret_def ethrow_def fun_eq_iff)

lemma evals_unary_inv:
  assumes "evals cx a env x"
  shows "evals cx (ENeg a) env v \<Longrightarrow> \<exists>m. x = VNumber m \<and> (in_i64 (- m) \<longrightarrow> v = VNumber (- m))"
    and "evals cx (EAbs a) env v \<Longrightarrow> \<exists>m. x = VNumber m \<and> (in_i64 \<bar>m\<bar> \<longrightarrow> v = VNumber \<bar>m\<bar>)"
    and "evals cx (ENot a) env v \<Longrightarrow> \<exists>b. x = VBool b \<and> v = VBool (\<not> b)"
proof -
  show "\<exists>m. x = VNumber m \<and> (in_i64 (- m) \<longrightarrow> v = VNumber (- m))" if "evals cx (ENeg a) env v"
    by (rule evals_at [OF assms that]; cases x) (auto simp: run_def panicking_def split: if_splits)
  show "\<exists>m. x = VNumber m \<and> (in_i64 \<bar>m\<bar> \<longrightarrow> v = VNumber \<bar>m\<bar>)" if "evals cx (EAbs a) env v"
    by (rule evals_at [OF assms that]; cases x) (auto simp: run_def wrapping_abs_def)
  show "\<exists>b. x = VBool b \<and> v = VBool (\<not> b)" if "evals cx (ENot a) env v"
    by (rule evals_at [OF assms that]; cases x) (simp_all add: run_def)
qed

lemma evals_min_max_inv:
  assumes "evals cx a env x" "evals cx b env y"
  shows "evals cx (EMin a b) env v \<Longrightarrow> \<exists>m n. x = VNumber m \<and> y = VNumber n \<and> v = VNumber (min m n)"
    and "evals cx (EMax a b) env v \<Longrightarrow> \<exists>m n. x = VNumber m \<and> y = VNumber n \<and> v = VNumber (max m n)"
proof -
  have at: "\<exists>f. run cx f a env = eret x \<and> run cx f b env = eret y \<and> run cx f e env = eret v" if "evals cx e env v" for e
  proof -
    have "\<forall>\<^sub>F f in sequentially. run cx f a env = eret x \<and> run cx f b env = eret y \<and> run cx f e env = eret v"
      using assms that unfolding evals_def by eventually_elim simp
    then show ?thesis by (auto simp: eventually_sequentially)
  qed
  show "\<exists>m n. x = VNumber m \<and> y = VNumber n \<and> v = VNumber (min m n)" if "evals cx (EMin a b) env v"
    using at [OF that] by (cases x; cases y) (auto simp: run_def num_args_def)
  show "\<exists>m n. x = VNumber m \<and> y = VNumber n \<and> v = VNumber (max m n)" if "evals cx (EMax a b) env v"
    using at [OF that] by (cases x; cases y) (auto simp: run_def num_args_def)
qed

lemma evals_if_inv:
  assumes "evals cx c env (VBool t)" "evals cx (if t then a else b) env x" "evals cx (EIf c a b) env v"
  shows "v = x"
proof -
  have "evals cx (EIf c a b) env x"
    by (rule evals_step2 [OF assms(1,2)]) (cases t; simp add: run_def)
  then show ?thesis by (rule evals_det [OF assms(3)])
qed

lemma fold_ok_same:
  assumes "fold_ok cx r c fs fd sc env" "same_scalar sc a b"
  shows "a = b"
  using assms gf.scope_scalar_sound [of sc a _ _ cx env "r_input_name r" fs]
    gf.scope_scalar_sound [of sc b _ _ cx env "r_input_name r" fs]
  by (force simp: same_scalar_def fold_ok_def split: option.splits prod.splits)

lemma checked_lits: "checked cx nt r c fs env sc e \<Longrightarrow> lits_i64 e"
  by (simp add: checked_def)

lemma calls_ok_wf: "calls_ok cx nt known \<Longrightarrow> known n = Some f \<Longrightarrow> fact_wf f"
  unfolding calls_ok_def rule_sound_def using fact_from_wf by blast

lemma fold_expr_has:
  assumes ok: "calls_ok cx nt (fd_calls fd)"
  shows "checked cx nt r c fs env csc e \<Longrightarrow> fold_ok cx r c fs fd fsc env \<Longrightarrow> evals cx e env v \<Longrightarrow>
    fact_has (snd (fold_expr fd e fsc)) v"
proof (induction e arbitrary: csc fsc v)
  case (ENumber n)
  moreover have "evals cx (ENumber n) env (VNumber n)" by (simp add: evals_def run_def)
  ultimately have "v = VNumber n" using evals_det by blast
  then show ?case using checked_lits [OF ENumber.prems(1)] by (simp add: lits_simps valid_ivl_def)
next
  case (EIdent n)
  have "env n = Some v" using evals_run [OF EIdent.prems(3)] by (auto simp: run_def res_simps split: option.splits)
  then show ?case using fold_ident_has [OF EIdent.prems(2)] by simp
next
  case (EField b n)
  then show ?case using checked_field [OF EField.prems(1)] fold_field_has [OF EField.prems(2)] by simp
next
  case (ECall n args)
  then show ?case using fold_call_has [OF ok ECall.prems(1,3)] by simp
next
  case (EIf cnd a b)
  note parts = checked_if [OF EIf.prems(1)]
  obtain t where t: "evals cx cnd env (VBool t)" using parts(2) by blast
  note br = fold_ok_branch [OF EIf.prems(2) t checked_lits [OF parts(1)]]
  obtain x where x: "evals cx (if t then a else b) env x" using parts(3) [OF t] by (rule checked_evals)
  have v: "v = x" by (rule evals_if_inv [OF t x EIf.prems(3)])
  have taken: "fact_has (snd (fold_expr fd (if t then a else b) (scope_branch fsc cnd t))) v"
    using EIf.IH(2) [of _ "scope_branch fsc cnd t" x] EIf.IH(3) [of _ "scope_branch fsc cnd t" x] parts(3) [OF t] br x v
    by (cases t) auto
  show ?case
  proof (cases rule: fold_if_cases [of fd cnd fsc a b])
    case (decided u)
    with EIf.IH(1) [OF parts(1) EIf.prems(2) t] have "u = t" by simp
    with decided taken show ?thesis by simp
  next
    case undecided
    have "scope_wf (scope_branch fsc cnd u)" for u
      using EIf.prems(2) checked_lits [OF parts(1)] by (simp add: fold_ok_def scope_branch_wf)
    then have "fact_wf (snd (fold_expr fd a (scope_branch fsc cnd True)))" "fact_wf (snd (fold_expr fd b (scope_branch fsc cnd False)))"
      using fold_expr_wf calls_ok_wf [OF ok] checked_lits [OF EIf.prems(1)] by (auto simp: lits_simps)
    from fact_join_has [OF this, of t v] taken undecided show ?thesis by (cases t) auto
  qed
next
  case (EBinary op a b)
  note parts = checked_binary [OF EBinary.prems(1) disjI1 [OF refl]]
  obtain x where x: "evals cx a env x" using parts(1) by (rule checked_evals)
  obtain y where y: "evals cx b env y" using parts(2) by (rule checked_evals)
  have "x = y" if "same_scalar fsc a b" using fold_ok_same [OF EBinary.prems(2) that] x y evals_det by blast
  then show ?case unfolding fold_expr_parts snd_folded
    by (rule fold_binary_has [OF EBinary.IH(1) [OF parts(1) EBinary.prems(2) x] EBinary.IH(2) [OF parts(2) EBinary.prems(2) y]
        _ checked_binop_value [OF EBinary.prems(1) x y EBinary.prems(3)]])
next
  case (ENot a)
  note part = checked_unary [OF ENot.prems(1) disjI1 [OF refl]]
  obtain x where x: "evals cx a env x" using part by (rule checked_evals)
  obtain b where "x = VBool b" "v = VBool (\<not> b)" using evals_unary_inv(3) [OF x ENot.prems(3)] by blast
  with ENot.IH [OF part ENot.prems(2) x] show ?case unfolding fold_expr_parts snd_folded
    by (cases "snd (fold_expr fd a fsc)") (auto simp: fold_not_def)
next
  case (ENeg a)
  have part: "checked cx nt r c fs env csc a" using checked_unary ENeg.prems(1) by blast
  obtain x where x: "evals cx a env x" using part by (rule checked_evals)
  obtain m where m: "x = VNumber m" "in_i64 (- m) \<Longrightarrow> v = VNumber (- m)"
    using evals_unary_inv(1) [OF x ENeg.prems(3)] by blast
  have "fact_has (snd (fold_expr fd a fsc)) (VNumber m)" using ENeg.IH [OF part ENeg.prems(2) x] m(1) by simp
  then show ?case unfolding fold_expr_parts snd_folded by (rule fold_unary_has [where y = "- m"]) (simp, rule m(2))
next
  case (EAbs a)
  have part: "checked cx nt r c fs env csc a" using checked_unary EAbs.prems(1) by blast
  obtain x where x: "evals cx a env x" using part by (rule checked_evals)
  obtain m where m: "x = VNumber m" "in_i64 \<bar>m\<bar> \<Longrightarrow> v = VNumber \<bar>m\<bar>"
    using evals_unary_inv(2) [OF x EAbs.prems(3)] by blast
  have "fact_has (snd (fold_expr fd a fsc)) (VNumber m)" using EAbs.IH [OF part EAbs.prems(2) x] m(1) by simp
  then show ?case unfolding fold_expr_parts snd_folded by (rule fold_unary_has [where y = "\<bar>m\<bar>"]) (simp, rule m(2))
next
  case (EMin a b)
  have parts: "checked cx nt r c fs env csc a" "checked cx nt r c fs env csc b" using checked_binary [OF EMin.prems(1), of OpAdd] by simp_all
  obtain x where x: "evals cx a env x" using parts(1) by (rule checked_evals)
  obtain y where y: "evals cx b env y" using parts(2) by (rule checked_evals)
  obtain m n where m: "x = VNumber m" "y = VNumber n" "v = VNumber (min m n)"
    using evals_min_max_inv(1) [OF x y EMin.prems(3)] by blast
  have "fact_has (snd (fold_expr fd a fsc)) (VNumber m)" "fact_has (snd (fold_expr fd b fsc)) (VNumber n)"
    using EMin.IH(1) [OF parts(1) EMin.prems(2) x] EMin.IH(2) [OF parts(2) EMin.prems(2) y] m by simp_all
  then show ?case unfolding fold_expr_parts snd_folded m(3) by (rule fold_pair_has) simp
next
  case (EMax a b)
  have parts: "checked cx nt r c fs env csc a" "checked cx nt r c fs env csc b" using checked_binary [OF EMax.prems(1), of OpAdd] by simp_all
  obtain x where x: "evals cx a env x" using parts(1) by (rule checked_evals)
  obtain y where y: "evals cx b env y" using parts(2) by (rule checked_evals)
  obtain m n where m: "x = VNumber m" "y = VNumber n" "v = VNumber (max m n)"
    using evals_min_max_inv(2) [OF x y EMax.prems(3)] by blast
  have "fact_has (snd (fold_expr fd a fsc)) (VNumber m)" "fact_has (snd (fold_expr fd b fsc)) (VNumber n)"
    using EMax.IH(1) [OF parts(1) EMax.prems(2) x] EMax.IH(2) [OF parts(2) EMax.prems(2) y] m by simp_all
  then show ?case unfolding fold_expr_parts snd_folded m(3) by (rule fold_pair_has) simp
qed simp_all

section \<open>Lowered expressions\<close>

text \<open>
  The environment of a lowered run lacks the dropped constants; every read of one has been replaced.
\<close>

definition env_low :: "fold_st \<Rightarrow> scope \<Rightarrow> env \<Rightarrow> env \<Rightarrow> bool" where
  "env_low fd sc env env' \<longleftrightarrow> (\<forall>n. env' n = env n \<or> fact_constant (fold_ident fd sc n) \<noteq> None)"

lemma env_low_branch:
  assumes "env_low fd sc env env'" "fold_ok cx r c fs fd (scope_branch sc cond t) env"
    "fold_ok cx r c fs fd sc env"
  shows "env_low fd (scope_branch sc cond t) env env'"
  unfolding env_low_def
proof
  fix n
  show "env' n = env n \<or> fact_constant (fold_ident fd (scope_branch sc cond t) n) \<noteq> None"
  proof (cases "env' n = env n \<or> fd_bools fd n \<noteq> None")
    case True
    then show ?thesis by (auto simp: fold_ident_def fact_constant_def)
  next
    case False
    with assms(1) have "fact_constant (fold_ident fd sc n) \<noteq> None" by (auto simp: env_low_def)
    with False obtain rg k where rg: "scope_local sc n = Some (NNumber rg)" "hull rg = (k, k)"
      by (auto simp: fold_ident_def fact_constant_def fact_from_def split: option.splits nval.splits if_splits prod.splits)
    with scope_branch_narrows [of sc cond t] obtain rg' where rg': "scope_local (scope_branch sc cond t) n = Some (NNumber rg')"
      "gam rg' \<subseteq> gam rg" unfolding narrows_def by blast
    have wf: "wf_ranges rg" "wf_ranges rg'" using rg(1) rg'(1) assms(2,3) by (auto simp: fold_ok_def scope_wf_def)
    with hull_in_gam [of rg'] rg'(2) singleton_hull [OF wf(1) rg(2)] have "hull rg' = (k, k)" by (metis subsetD prod.collapse)
    with False rg'(1) show ?thesis by (auto simp: fold_ident_def fact_constant_def fact_from_def)
  qed
qed

lemma env_low_input:
  assumes "env_low fd sc env env'" "fold_ok cx r c fs fd sc env" "env n = Some (VRecord g)"
  shows "env' n = Some (VRecord g)"
proof (rule ccontr)
  assume "env' n \<noteq> Some (VRecord g)"
  with assms(1,3) obtain e where "fact_constant (fold_ident fd sc n) = Some e" unfolding env_low_def by (metis not_Some_eq)
  then show False using fold_ident_has [OF assms(2,3)] by (cases rule: fact_constant_cases) auto
qed

lemma folded_evals: "evals cx e env v \<Longrightarrow> fact_has f v \<Longrightarrow> evals cx (fst (folded e f)) env v"
  by (auto simp: folded_def intro: fact_constant_evals split: option.split)

lemma calls_children:
  "set (calls (EIf c a b)) = set (calls c) \<union> set (calls a) \<union> set (calls b)"
  "set (calls (EBinary op a b)) = set (calls a) \<union> set (calls b)"
  "set (calls (EMin a b)) = set (calls a) \<union> set (calls b)" "set (calls (EMax a b)) = set (calls a) \<union> set (calls b)"
  "set (calls (ENot a)) = set (calls a)" "set (calls (ENeg a)) = set (calls a)" "set (calls (EAbs a)) = set (calls a)"
  "n \<in> set (calls (ECall n args))"
  by (subst calls.simps; simp add: expr_children_def Un_assoc)+

text \<open>Inversion of a single run.\<close>

lemma run_unary_inv:
  assumes "run cx f e env w = Inr (v, w')" "e = ENot a \<or> e = ENeg a \<or> e = EAbs a"
  obtains x where "run cx f a env w = Inr (x, w')"
  using assms by (auto simp: run_def res_simps)

lemma run_min_max_inv:
  assumes "run cx f e env w = Inr (v, w')" "e = EMin a b \<or> e = EMax a b"
  obtains x y w1 where "run cx f a env w = Inr (x, w1)" "run cx f b env w1 = Inr (y, w')"
  using assms by (auto simp: run_def res_simps)

lemma run_if_inv:
  assumes "run cx f (EIf c a b) env w = Inr (v, w')"
  obtains t w1 where "run cx f c env w = Inr (VBool t, w1)" "run cx f (if t then a else b) env w1 = Inr (v, w')"
proof -
  from assms obtain t w1 where "run cx f c env w = Inr (VBool t, w1)"
    "(if t then run cx f a env else run cx f b env) w1 = Inr (v, w')" unfolding run_def by (auto simp: res_simps)
  then show ?thesis using that by (cases t) auto
qed

lemma run_lazy_inv:
  assumes "run cx f (EBinary op a b) env w = Inr (v, w')" "op = OpAnd \<or> op = OpOr"
  obtains t where "run cx f a env w = Inr (VBool t, w')" "t = (op = OpOr)" "v = VBool t"
  | t u w1 where "run cx f a env w = Inr (VBool t, w1)" "t = (op = OpAnd)" "run cx f b env w1 = Inr (VBool u, w')" "v = VBool u"
proof -
  from assms(1,2) obtain t w1 where t: "run cx f a env w = Inr (VBool t, w1)"
    and rest: "(if op = OpAnd \<and> \<not> t \<or> op = OpOr \<and> t then eret (VBool t)
      else ebind (run cx f b env) (\<lambda>r. case r of VBool b' \<Rightarrow> eret (VBool b') | _ \<Rightarrow> ethrow (LogicRight op))) w1 = Inr (v, w')"
    unfolding run_def by (auto simp: res_simps)
  show ?thesis
  proof (cases "op = OpAnd \<and> \<not> t \<or> op = OpOr \<and> t")
    case True
    with rest t that(1) [of t] show ?thesis by (auto simp: res_simps)
  next
    case False
    with rest obtain u where "run cx f b env w1 = Inr (VBool u, w')" "v = VBool u" by (auto simp: res_simps)
    with False t that(2) [of t w1 u] assms(2) show ?thesis by auto
  qed
qed

lemma fold_expr_run_has:
  assumes "calls_ok cx nt (fd_calls fd)" "checked cx nt r c fs env csc e" "fold_ok cx r c fs fd fsc env"
    "run cx f e env w = Inr (v, w')"
  shows "evals cx e env v" "fact_has (snd (fold_expr fd e fsc)) v"
proof -
  obtain x where x: "evals cx e env x" using assms(2) by (rule checked_evals)
  with evals_run_eq [OF x assms(4)] show "evals cx e env v" by simp
  then show "fact_has (snd (fold_expr fd e fsc)) v" by (rule fold_expr_has [OF assms(1-3)])
qed

lemma folded_step:
  assumes "fold_expr fd e fsc = folded e' f" "fact_has (snd (fold_expr fd e fsc)) v" "evals cx e' env v"
  shows "evals cx (fst (fold_expr fd e fsc)) env v"
  using assms folded_evals by simp

lemma fold_expr_lower:
  fixes cx cx' :: "'w ictx"
  assumes ok: "calls_ok cx nt (fd_calls fd)" and chk: "i_chk cx' = i_chk cx"
    and low: "\<And>n r' v w w'. n \<in> A \<Longrightarrow> nt_rules nt n = Some r' \<Longrightarrow> r_input_ty r' = r_input_ty r \<Longrightarrow>
      eval_rule_with_value cx f r' (VRecord fs) w = Inr (v, w') \<Longrightarrow>
      \<exists>r''. find (\<lambda>r. r_name r = n) (i_rules cx') = Some r'' \<and> rule_evals cx' r'' fs v"
  shows "checked cx nt r c fs env csc e \<Longrightarrow> fold_ok cx r c fs fd fsc env \<Longrightarrow> env_low fd fsc env env' \<Longrightarrow>
    set (calls e) \<subseteq> A \<Longrightarrow> run cx f e env w = Inr (v, w') \<Longrightarrow> evals cx' (fst (fold_expr fd e fsc)) env' v"
proof (induction e arbitrary: csc fsc v w w')
  case (ENumber n)
  note has = fold_expr_run_has(2) [OF ok ENumber.prems(1,2,5)]
  have "evals cx' (ENumber n) env' v" using ENumber.prems(5) by (auto simp: run_def evals_def res_simps)
  then show ?case by (intro folded_step [OF _ has]) simp_all
next
  case (EIdent n)
  note has = fold_expr_run_has(2) [OF ok EIdent.prems(1,2,5)]
  have v: "env n = Some v" using EIdent.prems(5) by (auto simp: run_def res_simps split: option.splits)
  show ?case
  proof (cases "fact_constant (fold_ident fd fsc n)")
    case None
    with EIdent.prems(3) v have "env' n = Some v" unfolding env_low_def by metis
    then have "evals cx' (EIdent n) env' v" by (simp add: evals_def run_def)
    then show ?thesis by (intro folded_step [OF _ has]) simp_all
  next
    case (Some e)
    with has fact_constant_evals [OF Some] show ?thesis by (simp add: folded_def)
  qed
next
  case (EField b n)
  note has = fold_expr_run_has(2) [OF ok EField.prems(1,2,5)]
  have b: "b = EIdent (r_input_name r)" "env (r_input_name r) = Some (VRecord fs)" using checked_field [OF EField.prems(1)] by auto
  have "map_of fs n = Some v" using EField.prems(5) b by (auto simp: run_def res_simps split: option.splits)
  with env_low_input [OF EField.prems(3,2) b(2)] b(1) have "evals cx' (EField b n) env' v" by (simp add: evals_def run_def)
  then show ?case by (intro folded_step [OF _ has]) simp_all
next
  case (ECall n args)
  note has = fold_expr_run_has(2) [OF ok ECall.prems(1,2,5)]
  obtain r' where r': "nt_rules nt n = Some r'" "args = [EIdent (r_input_name r)]" "r_input_ty r' = r_input_ty r"
    "env (r_input_name r) = Some (VRecord fs)" using ECall.prems(1) by (rule checked_call)
  have "same_rules cx nt" using ECall.prems(1) by (simp add: checked_def)
  then have "eval_rule_with_value cx f r' (VRecord fs) w = Inr (v, w')"
    using ECall.prems(5) r' by (simp add: run_def same_rules_def eret_def [symmetric, abs_def])
  from low [OF _ r'(1,3) this] ECall.prems(4) calls_children(8)
  obtain r'' where r'': "find (\<lambda>r. r_name r = n) (i_rules cx') = Some r''" "rule_evals cx' r'' fs v" by blast
  have "run cx' k (ECall n args) env' = eval_rule_with_value cx' k r'' (VRecord fs)" for k
    using r''(1) r'(2) env_low_input [OF ECall.prems(3,2) r'(4)] by (simp add: run_def eret_def [symmetric, abs_def])
  with r''(2) have "evals cx' (ECall n args) env' v" by (simp add: evals_def rule_evals_def)
  then show ?case by (intro folded_step [OF _ has]) simp_all
next
  case (EIf cnd a b)
  note has = fold_expr_run_has(2) [OF ok EIf.prems(1,2,5)]
  note parts = checked_if [OF EIf.prems(1)]
  from EIf.prems(5) obtain t w1 where c: "run cx f cnd env w = Inr (VBool t, w1)"
    and br: "run cx f (if t then a else b) env w1 = Inr (v, w')" by (rule run_if_inv)
  note t = fold_expr_run_has [OF ok parts(1) EIf.prems(2) c]
  note fb = fold_ok_branch [OF EIf.prems(2) t(1) checked_lits [OF parts(1)]]
  note eb = env_low_branch [OF EIf.prems(3) fb EIf.prems(2)]
  have sub: "set (calls cnd) \<subseteq> A" "set (calls a) \<subseteq> A" "set (calls b) \<subseteq> A" using EIf.prems(4) by (auto simp: calls_children)
  have taken: "evals cx' (fst (fold_expr fd (if t then a else b) (scope_branch fsc cnd t))) env' v"
    using EIf.IH(2) [OF _ _ _ sub(2), of _ "scope_branch fsc cnd t" w1 v w']
      EIf.IH(3) [OF _ _ _ sub(3), of _ "scope_branch fsc cnd t" w1 v w'] parts(3) [OF t(1)] fb eb br by (cases t) auto
  show ?case
  proof (cases rule: fold_if_cases [of fd cnd fsc a b])
    case (decided u)
    with t(2) taken show ?thesis by simp
  next
    case undecided
    have "evals cx' (fst (fold_expr fd cnd fsc)) env' (VBool t)" by (rule EIf.IH(1) [OF parts(1) EIf.prems(2,3) sub(1) c])
    then have "evals cx' (EIf (fst (fold_expr fd cnd fsc)) (fst (fold_expr fd a (scope_branch fsc cnd True)))
      (fst (fold_expr fd b (scope_branch fsc cnd False)))) env' v"
      by (rule evals_step2 [OF _ taken]) (cases t; simp add: run_def)
    then show ?thesis by (rule folded_step [OF undecided has])
  qed
next
  case (EBinary op a b)
  note has = fold_expr_run_has(2) [OF ok EBinary.prems(1,2,5)]
  note parts = checked_binary [OF EBinary.prems(1) disjI1 [OF refl]]
  have sub: "set (calls a) \<subseteq> A" "set (calls b) \<subseteq> A" using EBinary.prems(4) by (auto simp: calls_children)
  note IH = EBinary.IH(1) [OF parts(1) EBinary.prems(2,3) sub(1)] EBinary.IH(2) [OF parts(2) EBinary.prems(2,3) sub(2)]
  let ?e = "EBinary op (fst (fold_expr fd a fsc)) (fst (fold_expr fd b fsc))"
  have "evals cx' ?e env' v"
  proof (cases "op = OpAnd \<or> op = OpOr")
    case True
    from EBinary.prems(5) True show ?thesis
    proof (cases rule: run_lazy_inv)
      case (1 t)
      show ?thesis using evals_step [OF IH(1) [OF 1(1)], of ?e "VBool t"] 1(2,3) True by (auto simp: run_def)
    next
      case (2 t u w1)
      show ?thesis using evals_step2 [OF IH(1) [OF 2(1)] IH(2) [OF 2(3)], of ?e "VBool u"] 2(2,4) True by (auto simp: run_def)
    qed
  next
    case False
    with EBinary.prems(5) obtain x y w1 where xy: "run cx f a env w = Inr (x, w1)" "run cx f b env w1 = Inr (y, w')"
      "apply_binop (i_chk cx) op x y = Inr v" by (elim run_strict) auto
    show ?thesis using evals_step2 [OF IH(1) [OF xy(1)] IH(2) [OF xy(2)], of ?e v] False xy(3) chk by (simp add: run_def)
  qed
  then show ?case by (rule folded_step [OF fold_expr_parts(1) has])
next
  case (ENot a)
  note has = fold_expr_run_has(2) [OF ok ENot.prems(1,2,5)]
  have part: "checked cx nt r c fs env csc a" using checked_unary [OF ENot.prems(1)] by blast
  have sub: "set (calls a) \<subseteq> A" using ENot.prems(4) by (auto simp: calls_children)
  obtain b where b: "run cx f a env w = Inr (VBool b, w')" "v = VBool (\<not> b)" using ENot.prems(5) by (auto simp: run_def res_simps)
  have "evals cx' (ENot (fst (fold_expr fd a fsc))) env' v"
    using evals_step [OF ENot.IH [OF part ENot.prems(2,3) sub b(1)]] b(2) by (simp add: run_def)
  then show ?case by (rule folded_step [OF fold_expr_parts(2) has])
next
  case (ENeg a)
  note has = fold_expr_run_has(2) [OF ok ENeg.prems(1,2,5)]
  have part: "checked cx nt r c fs env csc a" using checked_unary [OF ENeg.prems(1)] by blast
  have sub: "set (calls a) \<subseteq> A" using ENeg.prems(4) by (auto simp: calls_children)
  obtain n where n: "run cx f a env w = Inr (VNumber n, w')" "panicking (i64_fit (i_chk cx) (- n)) = Inr v"
    using ENeg.prems(5) by (auto simp: run_def res_simps)
  have "evals cx' (ENeg (fst (fold_expr fd a fsc))) env' v"
    using evals_step [OF ENeg.IH [OF part ENeg.prems(2,3) sub n(1)]] n(2) chk by (simp add: run_def)
  then show ?case by (rule folded_step [OF fold_expr_parts(3) has])
next
  case (EAbs a)
  note has = fold_expr_run_has(2) [OF ok EAbs.prems(1,2,5)]
  have part: "checked cx nt r c fs env csc a" using checked_unary [OF EAbs.prems(1)] by blast
  have sub: "set (calls a) \<subseteq> A" using EAbs.prems(4) by (auto simp: calls_children)
  obtain n where n: "run cx f a env w = Inr (VNumber n, w')" "v = VNumber (wrapping_abs n)"
    using EAbs.prems(5) by (auto simp: run_def res_simps)
  have "evals cx' (EAbs (fst (fold_expr fd a fsc))) env' v"
    using evals_step [OF EAbs.IH [OF part EAbs.prems(2,3) sub n(1)]] n(2) by (simp add: run_def)
  then show ?case by (rule folded_step [OF fold_expr_parts(4) has])
next
  case (EMin a b)
  note has = fold_expr_run_has(2) [OF ok EMin.prems(1,2,5)]
  note parts = checked_binary [OF EMin.prems(1), of OpAdd a b, simplified]
  have sub: "set (calls a) \<subseteq> A" "set (calls b) \<subseteq> A" using EMin.prems(4) by (auto simp: calls_children)
  obtain x y w1 where xy: "run cx f a env w = Inr (VNumber x, w1)" "run cx f b env w1 = Inr (VNumber y, w')" "v = VNumber (min x y)"
    using EMin.prems(5) by (auto simp: run_def res_simps)
  have "evals cx' (EMin (fst (fold_expr fd a fsc)) (fst (fold_expr fd b fsc))) env' v" unfolding xy(3)
    by (rule evals_step2 [OF EMin.IH(1) [OF parts(1) EMin.prems(2,3) sub(1) xy(1)] EMin.IH(2) [OF parts(2) EMin.prems(2,3) sub(2) xy(2)]])
       (rule run_number_ops)
  then show ?case by (rule folded_step [OF fold_expr_parts(5) has])
next
  case (EMax a b)
  note has = fold_expr_run_has(2) [OF ok EMax.prems(1,2,5)]
  note parts = checked_binary [OF EMax.prems(1), of OpAdd a b, simplified]
  have sub: "set (calls a) \<subseteq> A" "set (calls b) \<subseteq> A" using EMax.prems(4) by (auto simp: calls_children)
  obtain x y w1 where xy: "run cx f a env w = Inr (VNumber x, w1)" "run cx f b env w1 = Inr (VNumber y, w')" "v = VNumber (max x y)"
    using EMax.prems(5) by (auto simp: run_def res_simps)
  have "evals cx' (EMax (fst (fold_expr fd a fsc)) (fst (fold_expr fd b fsc))) env' v" unfolding xy(3)
    by (rule evals_step2 [OF EMax.IH(1) [OF parts(1) EMax.prems(2,3) sub(1) xy(1)] EMax.IH(2) [OF parts(2) EMax.prems(2,3) sub(2) xy(2)]])
       (rule run_number_ops)
  then show ?case by (rule folded_step [OF fold_expr_parts(6) has])
qed (auto elim!: checkedE simp: res_simps)

end
