(* ===== verification/Native_Opt_Program.thy ===== *)
theory Native_Opt_Program
  imports Native_Opt_Correct
begin

text \<open>
  The numeric lowering of rules and programs: the \<open>let\<close>s of a rule and its value, the calls among lowered
  rules (by induction on the depth of the original run), and the whole pass \<open>lower\<close>, which succeeds on
  exactly the programs that the overflow checker accepts.
\<close>

section \<open>Lets\<close>

definition fold_inv :: "rule \<Rightarrow> concept \<Rightarrow> (string \<times> val) list \<Rightarrow> fold_st \<Rightarrow> env \<Rightarrow> env \<Rightarrow> bool" where
  "fold_inv r c fs fd env env' \<longleftrightarrow> locals_wf c (fd_values fd)
     \<and> (\<forall>n nv. fd_values fd n = Some nv \<longrightarrow> (\<exists>v. env n = Some v \<and> nv_has nv v))
     \<and> (\<forall>n b. fd_bools fd n = Some b \<longrightarrow> env n = Some (VBool b))
     \<and> (env (r_input_name r) = Some (VRecord fs) \<or> (\<forall>g. env (r_input_name r) \<noteq> Some (VRecord g)))
     \<and> env_low fd (scope_new r c (fd_values fd)) env env'"

lemma fold_inv_ok:
  assumes "fold_inv r c fs fd env env'" "input_ok c fs" "concept_i64 c"
  shows "fold_ok cx r c fs fd (scope_new r c (fd_values fd)) env"
proof -
  have "holds_at (ev_in cx env (r_input_name r) fs) (EIdent n) rg" if "scope_local (scope_new r c (fd_values fd)) n = Some (NNumber rg)" for n rg
    using that assms(1) by (fastforce simp: fold_inv_def scope_local_def scope_new_def holds_at_def ev_in_def ev_num_def run_ident
      split: option.splits nval.splits)
  moreover have "holds_at (ev_in cx env (r_input_name r) fs) (EField (EIdent (r_input_name r)) n) rg"
    if "scope_field (scope_new r c (fd_values fd)) n = Some rg" for n rg
  proof -
    from that obtain f where f: "f \<in> set (c_fields c)" "f_name f = n" "f_ty f = TNumber" "rg = declared_range f"
      by (auto simp: scope_field_def scope_new_def split: option.splits dest!: find_SomeD)
    from declared_range_ok [OF assms(2,3) f(1,3)] f obtain x where "map_of fs n = Some (VNumber x)" "wf_ranges rg" "x \<in> gam rg" by auto
    moreover from this(1) assms(1) have "ev_in cx env (r_input_name r) fs (EField (EIdent (r_input_name r)) n) x"
      by (auto simp: fold_inv_def ev_in_def ev_num_def run_field)
    ultimately show ?thesis by (auto simp: holds_at_def)
  qed
  ultimately show ?thesis using assms(1) scope_wf_new [of c "fd_values fd" r]
    by (auto simp: fold_ok_def scope_sound_def fold_inv_def) (auto simp: scope_new_def)
qed

lemma scope_local_new [simp]: "scope_local (scope_new r c locals) n = locals n"
  by (auto simp: scope_local_def scope_new_def split: option.split nval.split)

lemma fold_bind_sel:
  "fd_values (fold_bind n f fd) m = (if m = n then (case f of FNumber rg \<Rightarrow> Some (NNumber rg) | FBool _ \<Rightarrow> Some NBool | FUnknown \<Rightarrow> None)
     else fd_values fd m)"
  "fd_bools (fold_bind n f fd) m = (if m = n then (case f of FBool b \<Rightarrow> b | _ \<Rightarrow> None) else fd_bools fd m)"
  "fd_calls (fold_bind n f fd) = fd_calls fd"
  by (auto simp: fold_bind_def Let_def split: fact.split option.split)

lemma fold_bind_other: "n \<noteq> m \<Longrightarrow> fold_ident (fold_bind m f fd) (scope_new r c (fd_values (fold_bind m f fd))) n
    = fold_ident fd (scope_new r c (fd_values fd)) n"
  by (simp add: fold_ident_def fold_bind_sel cong: option.case_cong)

lemma fold_bind_same: "fact_constant (fold_ident (fold_bind n f fd) (scope_new r c (fd_values (fold_bind n f fd))) n) = fact_constant f"
  by (cases f) (auto simp: fold_ident_def fold_bind_sel fact_from_def fact_constant_def split: option.splits)

lemma fold_inv_bind:
  assumes "fold_inv r c fs fd env env'" "fact_has f v" "fact_wf f" "\<And>g. v \<noteq> VRecord g"
    and "e' = env'(n \<mapsto> v) \<or> (e' = env' \<and> fact_constant f \<noteq> None)"
  shows "fold_inv r c fs (fold_bind n f fd) (env(n \<mapsto> v)) e'"
proof -
  have "env_low (fold_bind n f fd) (scope_new r c (fd_values (fold_bind n f fd))) (env(n \<mapsto> v)) e'"
    unfolding env_low_def
  proof
    fix m
    show "e' m = (env(n \<mapsto> v)) m \<or> fact_constant (fold_ident (fold_bind n f fd) (scope_new r c (fd_values (fold_bind n f fd))) m) \<noteq> None"
    proof (cases "m = n")
      case True
      then show ?thesis using assms(5) fold_bind_same [of n f fd r c] by auto
    next
      case False
      then have "e' m = env' m" using assms(5) by auto
      moreover have "env' m = env m \<or> fact_constant (fold_ident fd (scope_new r c (fd_values fd)) m) \<noteq> None"
        using assms(1) unfolding fold_inv_def env_low_def by blast
      ultimately show ?thesis using False fold_bind_other [OF False, of f fd r c] by (metis fun_upd_other)
    qed
  qed
  moreover have "locals_wf c (fd_values (fold_bind n f fd))"
    using assms(1,3) by (auto simp: fold_inv_def locals_wf_def fold_bind_sel split: if_splits fact.splits)
  moreover have "\<exists>x. (env(n \<mapsto> v)) m = Some x \<and> nv_has nv x" if "fd_values (fold_bind n f fd) m = Some nv" for m nv
    using that assms(1,2) by (auto simp: fold_inv_def fold_bind_sel split: if_splits fact.splits)
  moreover have "(env(n \<mapsto> v)) m = Some (VBool b)" if "fd_bools (fold_bind n f fd) m = Some b" for m b
    using that assms(1,2) by (auto simp: fold_inv_def fold_bind_sel split: if_splits fact.splits)
  ultimately show ?thesis using assms(1,4) by (auto simp: fold_inv_def)
qed

lemma lower_lets_correct:
  fixes cx cx' :: "'w ictx"
  assumes ok: "calls_ok cx nt known" and chk: "i_chk cx' = i_chk cx"
    and low: "\<And>n r' v w w'. n \<in> A \<Longrightarrow> nt_rules nt n = Some r' \<Longrightarrow> r_input_ty r' = r_input_ty r \<Longrightarrow>
      eval_rule_with_value cx f r' (VRecord fs) w = Inr (v, w') \<Longrightarrow>
      \<exists>r''. find (\<lambda>r. r_name r = n) (i_rules cx') = Some r'' \<and> rule_evals cx' r'' fs v"
    and call: "call_ok cx nt call" and same: "same_rules cx nt" and adm: "admissible nt r fs"
    and inp: "input_ok c fs" and c64: "concept_i64 c"
  shows "check_lets nt call r c bs locals st = (Inr locals', st') \<Longrightarrow> cache_ok cx nt st \<Longrightarrow>
    list_all (\<lambda>(_, e). lits_i64 e) bs \<Longrightarrow> locals_wf c locals \<Longrightarrow> locals_ok r fs locals env \<Longrightarrow> fd_calls fd = known \<Longrightarrow>
    fold_inv r c fs fd env env' \<Longrightarrow> (\<forall>(n, e) \<in> set bs. set (calls e) \<subseteq> A) \<Longrightarrow>
    eval_lets cx (eval_rule_with_value cx f) bs env w = Inr (env1, w1) \<Longrightarrow>
    \<exists>env1'. lets_eval cx' (fst (lower_lets r c bs fd)) env' env1' \<and> fold_inv r c fs (snd (lower_lets r c bs fd)) env1 env1' \<and>
      fd_calls (snd (lower_lets r c bs fd)) = known \<and> locals_ok r fs locals' env1"
proof (induction bs arbitrary: locals st env fd env' w)
  case Nil
  then show ?case by (auto simp: res_simps lets_eval_def)
next
  case (Cons b bs)
  obtain n e where b: "b = (n, e)" by (cases b)
  from Cons.prems(1) b obtain nv s1 where e: "check_expr nt call r e (scope_new r c locals) 0 st = (Inr nv, s1)"
    and bs: "check_lets nt call r c bs (locals(n \<mapsto> nv)) s1 = (Inr locals', st')" by (auto simp: res_simps)
  from Cons.prems(9) b obtain v w2 where v: "run cx f e env w = Inr (v, w2)"
    and rest: "eval_lets cx (eval_rule_with_value cx f) bs (env(n \<mapsto> v)) w2 = Inr (env1, w1)" by (auto simp: res_simps run_def)
  have lits: "lits_i64 e" "list_all (\<lambda>(_, e). lits_i64 e) bs" using Cons.prems(3) b by auto
  note wf = scope_wf_new [OF Cons.prems(4), of r]
  have rok: "run_ok cx r c fs (scope_new r c locals) env"
    using run_ok_new [OF inp c64] Cons.prems(5) by (auto simp: locals_ok_def)
  have ck: "checked cx nt r c fs env (scope_new r c locals) e" by (rule checkedI [OF same adm rok lits(1) wf call Cons.prems(2) e])
  have fok: "fold_ok cx r c fs fd (scope_new r c (fd_values fd)) env" by (rule fold_inv_ok [OF Cons.prems(7) inp c64])
  let ?f = "fold_expr fd e (scope_new r c (fd_values fd))"
  have known: "calls_ok cx nt (fd_calls fd)" using ok Cons.prems(6) by simp
  note has = fold_expr_run_has [OF known ck fok v]
  have nv: "nv_has nv v" using check_expr_sound [OF call same adm Cons.prems(2) e rok lits(1) wf] has(1) evals_det by blast
  then have norec: "v \<noteq> VRecord g" for g by (cases nv) auto
  have fwf: "fact_wf (snd ?f)"
    by (rule fold_expr_wf) (use calls_ok_wf [OF known] fok lits(1) in \<open>auto simp: fold_ok_def\<close>)
  have el: "env_low fd (scope_new r c (fd_values fd)) env env'" using Cons.prems(7) by (simp add: fold_inv_def)
  have low_e: "evals cx' (fst ?f) env' v"
    using fold_expr_lower [OF known chk low ck fok el _ v] Cons.prems(8) b by auto
  define e' where "e' = (if fact_constant (snd ?f) = None then env'(n \<mapsto> v) else env')"
  have inv: "fold_inv r c fs (fold_bind n (snd ?f) fd) (env(n \<mapsto> v)) e'"
    by (rule fold_inv_bind [OF Cons.prems(7) has(2) fwf norec]) (simp add: e'_def)
  have lw: "locals_wf c (locals(n \<mapsto> nv))"
    using check_expr_wf [OF call Cons.prems(2) e wf lits(1)] Cons.prems(4) by (auto simp: locals_wf_def)
  have "\<exists>env1'. lets_eval cx' (fst (lower_lets r c bs (fold_bind n (snd ?f) fd))) e' env1' \<and>
      fold_inv r c fs (snd (lower_lets r c bs (fold_bind n (snd ?f) fd))) env1 env1' \<and>
      fd_calls (snd (lower_lets r c bs (fold_bind n (snd ?f) fd))) = known \<and> locals_ok r fs locals' env1"
    by (rule Cons.IH [OF bs check_expr_cache [OF call Cons.prems(2) e] lits(2) lw locals_ok_update [OF Cons.prems(5) nv] _ inv _ rest])
       (use Cons.prems(6,8) in \<open>auto simp: fold_bind_sel\<close>)
  then obtain env1' where env1': "lets_eval cx' (fst (lower_lets r c bs (fold_bind n (snd ?f) fd))) e' env1'"
    "fold_inv r c fs (snd (lower_lets r c bs (fold_bind n (snd ?f) fd))) env1 env1'"
    "fd_calls (snd (lower_lets r c bs (fold_bind n (snd ?f) fd))) = known" "locals_ok r fs locals' env1" by blast
  have l: "fst (lower_lets r c (b # bs) fd) =
      (if fact_constant (snd ?f) = None then [(n, fst ?f)] else []) @ fst (lower_lets r c bs (fold_bind n (snd ?f) fd))"
    "snd (lower_lets r c (b # bs) fd) = snd (lower_lets r c bs (fold_bind n (snd ?f) fd))"
    by (simp_all add: b case_prod_unfold)
  have "lets_eval cx' (fst (lower_lets r c (b # bs) fd)) env' env1'"
    unfolding l using env1'(1) lets_eval_Cons [OF low_e] by (auto simp: e'_def split: if_splits)
  then show ?case using env1'(2-4) unfolding l(2) by blast
qed

section \<open>Rules\<close>

text \<open>
  Besides being sound, every value the checker returns or caches comes from a successful analysis of
  the rule of that name.
\<close>

definition derived :: "'w ictx \<Rightarrow> num_tables \<Rightarrow> string \<Rightarrow> nval \<Rightarrow> bool" where
  "derived cx nt n v \<longleftrightarrow> nt_good cx nt n v \<and>
     (\<exists>k vis st st'. cache_ok cx nt st \<and> rule_inner nt (check_rule nt k vis) n st = (Inr v, st'))"

lemma cache_derived: "cache_good ck_cache (derived cx nt) st \<Longrightarrow> cache_ok cx nt st"
  by (auto simp: cache_good_def derived_def)

lemma check_rule_derived:
  assumes "tables_ok cx nt"
  shows "call_good ck_cache (derived cx nt) (check_rule nt k vis)"
proof (induction k arbitrary: vis)
  case 0
  show ?case by (rule call_goodI) (auto simp: cache_good_def split: option.splits)
next
  case (Suc k)
  show ?case
  proof (rule call_goodI)
    fix n st res st'
    assume st: "cache_good ck_cache (derived cx nt) st" and c: "check_rule nt (Suc k) vis n st = (res, st')"
    show "cache_good ck_cache (derived cx nt) st' \<and> (\<forall>v. res = Inr v \<longrightarrow> derived cx nt n v)"
    proof (cases "ck_cache st n \<noteq> None \<or> n \<in> set vis")
      case True
      with c st show ?thesis by (auto simp: cache_good_def split: option.splits if_splits)
    next
      case False
      obtain r1 s1 where r1: "rule_inner nt (check_rule nt k (n # vis)) n st = (r1, s1)"
        by (cases "rule_inner nt (check_rule nt k (n # vis)) n st")
      have s1: "cache_good ck_cache (derived cx nt) s1" by (rule keepsD [OF keeps_rule_inner [OF Suc.IH] st r1])
      have v: "derived cx nt n v" if "r1 = Inr v" for v
        using rule_inner_sound [OF check_rule_ok [OF assms] assms cache_derived [OF st]] r1 that cache_derived [OF st]
        unfolding derived_def nt_good_def by blast
      have "(res, st') = finish_rule n (rule_inner nt (check_rule nt k (n # vis)) n) st"
        using c False by (auto split: option.splits)
      then show ?thesis using r1 s1 v by (cases r1) (auto simp: finish_rule_def cache_good_def)
    qed
  qed
qed

lemma entry_guard_input_ok:
  assumes "find (\<lambda>c. r_input_ty r = TNamed (c_name c)) (i_concepts cx) = Some c" "input_ok c fs"
  shows "entry_guard cx r (VRecord fs) = Inr ()"
proof -
  have "find (\<lambda>f. \<not> field_ok f (map_of fs (f_name f))) (c_fields c) = None"
    using assms(2) by (auto simp: find_None input_ok_def)
  with assms(1) show ?thesis by (auto simp: entry_guard_def Let_def)
qed

text \<open>A rule that an active name stands for, and its lowered form among the lowered rules.\<close>

definition lowered_rules :: "'w ictx \<Rightarrow> 'w ictx \<Rightarrow> num_tables \<Rightarrow> string set \<Rightarrow> (string \<rightharpoonup> fact) \<Rightarrow> bool" where
  "lowered_rules cx cx' nt A known \<longleftrightarrow> tables_ok cx nt \<and> calls_ok cx nt known
     \<and> i_chk cx' = i_chk cx \<and> i_concepts cx' = i_concepts cx
     \<and> (\<forall>n \<in> A. \<exists>nv. derived cx nt n nv)
     \<and> (\<forall>n r. n \<in> A \<longrightarrow> nt_rules nt n = Some r \<longrightarrow> set (rule_deps r) \<subseteq> A)
     \<and> (\<forall>n r cn c. n \<in> A \<longrightarrow> nt_rules nt n = Some r \<longrightarrow> r_input_ty r = TNamed cn \<longrightarrow> nt_concepts nt cn = Some c \<longrightarrow>
          find (\<lambda>r. r_name r = n) (i_rules cx') = Some (lower_rule known c r))"

lemma lower_rule_sel:
  "l_bindings (r_logic (lower_rule known c r)) = fst (lower_lets r c (l_bindings (r_logic r)) \<lparr>fd_values = Map.empty, fd_bools = Map.empty, fd_calls = known\<rparr>)"
  "l_value (r_logic (lower_rule known c r)) =
     fst (fold_expr (snd (lower_lets r c (l_bindings (r_logic r)) \<lparr>fd_values = Map.empty, fd_bools = Map.empty, fd_calls = known\<rparr>))
       (l_value (r_logic r)) (scope_new r c (fd_values (snd (lower_lets r c (l_bindings (r_logic r)) \<lparr>fd_values = Map.empty, fd_bools = Map.empty, fd_calls = known\<rparr>)))))"
  "r_input_name (lower_rule known c r) = r_input_name r" "r_input_ty (lower_rule known c r) = r_input_ty r"
  "r_output_text_max (lower_rule known c r) = r_output_text_max r" "r_name (lower_rule known c r) = r_name r"
  by (simp_all add: lower_rule_def case_prod_unfold)

lemma lower_rule_correct:
  fixes cx cx' :: "'w ictx"
  assumes low: "lowered_rules cx cx' nt A known"
  shows "n \<in> A \<Longrightarrow> nt_rules nt n = Some r \<Longrightarrow> admissible nt r fs \<Longrightarrow>
    eval_rule_with_value cx f r (VRecord fs) w = Inr (v, w') \<Longrightarrow>
    \<exists>r'. find (\<lambda>r. r_name r = n) (i_rules cx') = Some r' \<and> rule_evals cx' r' fs v"
proof (induction f arbitrary: n r w v w')
  case (Suc f)
  have tab: "tables_ok cx nt" and ok: "calls_ok cx nt known" and chk: "i_chk cx' = i_chk cx"
    using low by (simp_all add: lowered_rules_def)
  obtain nv k vis st st' where st: "cache_ok cx nt st" and ri: "rule_inner nt (check_rule nt k vis) n st = (Inr nv, st')"
    using low Suc.prems(1) unfolding lowered_rules_def derived_def by blast
  from ri Suc.prems(2) obtain c locals s1 u where sig: "check_signature nt r = Inr c"
    and lets: "check_lets nt (check_rule nt k vis) r c (l_bindings (r_logic r)) Map.empty st = (Inr locals, s1)"
    and val: "check_expr nt (check_rule nt k vis) r (l_value (r_logic r)) (scope_new r c locals) 0 s1 = (Inr u, st')"
    by (auto simp: rule_inner_def res_simps cfail_def split: option.splits)
  have c64: "nt_concepts nt m = Some d \<Longrightarrow> concept_i64 d" for m d using tab unfolding tables_ok_def by blast
  obtain cn where cn: "r_input_ty r = TNamed cn" "nt_concepts nt cn = Some c" "locals_wf c Map.empty"
    "r_output_ty r = TNumber \<or> r_output_ty r = TBool"
    by (rule check_signature_eq [OF sig]) (use c64 in blast)+
  have rok: "rule_i64 r" "r_output_text_max r = None" "same_rules cx nt"
    using tab Suc.prems(2) cn(4) unfolding tables_ok_def text_max_typed_def by (blast, metis vtype.distinct, blast)
  then have lits: "list_all (\<lambda>(_, e). lits_i64 e) (l_bindings (r_logic r))" "lits_i64 (l_value (r_logic r))"
    by (simp_all add: rule_i64_def)
  have inp: "input_ok c fs" using Suc.prems(3) cn by (auto simp: admissible_def)
  have "set (rule_deps r) \<subseteq> A" using low Suc.prems(1,2) unfolding lowered_rules_def by blast
  then have deps: "\<forall>(m, e) \<in> set (l_bindings (r_logic r)). set (calls e) \<subseteq> A" "set (calls (l_value (r_logic r))) \<subseteq> A"
    by (auto simp: rule_deps_def)
  from Suc.prems(4) obtain env1 w1 w2 where
    el: "eval_lets cx (eval_rule_with_value cx f) (l_bindings (r_logic r)) [r_input_name r \<mapsto> VRecord fs] w = Inr (env1, w1)"
    and ev: "run cx f (l_value (r_logic r)) env1 w1 = Inr (v, w2)"
    using rok(2) by (auto simp: res_simps run_def check_output_def)
  let ?fd = "\<lparr>fd_values = Map.empty, fd_bools = Map.empty, fd_calls = known\<rparr>"
  have IH: "\<exists>r''. find (\<lambda>r. r_name r = m) (i_rules cx') = Some r'' \<and> rule_evals cx' r'' fs x"
    if "m \<in> A" "nt_rules nt m = Some r'" "r_input_ty r' = r_input_ty r" "eval_rule_with_value cx f r' (VRecord fs) w = Inr (x, w')" for m r' x w w'
    using Suc.IH [OF that(1,2) _ that(4)] Suc.prems(3) that(3) by (simp add: admissible_def)
  note call = check_rule_ok [OF tab, of k vis] and c64' = c64 [OF cn(2)]
  have inv0: "fold_inv r c fs ?fd [r_input_name r \<mapsto> VRecord fs] [r_input_name r \<mapsto> VRecord fs]"
    using cn(3) by (simp add: fold_inv_def env_low_def)
  have "\<exists>env1'. lets_eval cx' (fst (lower_lets r c (l_bindings (r_logic r)) ?fd)) [r_input_name r \<mapsto> VRecord fs] env1' \<and>
      fold_inv r c fs (snd (lower_lets r c (l_bindings (r_logic r)) ?fd)) env1 env1' \<and>
      fd_calls (snd (lower_lets r c (l_bindings (r_logic r)) ?fd)) = known \<and> locals_ok r fs locals env1"
    by (rule lower_lets_correct [OF ok chk _ call rok(3) Suc.prems(3) inp c64' lets st lits(1) cn(3) _ _ inv0 deps(1) el])
       (rule IH, assumption+, simp_all add: locals_ok_def)
  then obtain env1' where env1': "lets_eval cx' (fst (lower_lets r c (l_bindings (r_logic r)) ?fd)) [r_input_name r \<mapsto> VRecord fs] env1'"
    and inv: "fold_inv r c fs (snd (lower_lets r c (l_bindings (r_logic r)) ?fd)) env1 env1'"
    and kn: "fd_calls (snd (lower_lets r c (l_bindings (r_logic r)) ?fd)) = known" and lok: "locals_ok r fs locals env1"
    by blast
  note ok1 = check_lets_cache [OF call st lets]
  note wf = scope_wf_new [OF check_lets_wf [OF call st lets lits(1) cn(3)], of r]
  have "run_ok cx r c fs (scope_new r c locals) env1"
    using lok unfolding locals_ok_def by (intro run_ok_new [OF inp c64']) blast+
  then have ck: "checked cx nt r c fs env1 (scope_new r c locals) (l_value (r_logic r))"
    by (rule checkedI [OF rok(3) Suc.prems(3) _ lits(2) wf call ok1 val])
  have "evals cx' (l_value (r_logic (lower_rule known c r))) env1' v" unfolding lower_rule_sel
    by (rule fold_expr_lower [OF _ chk _ ck fold_inv_ok [OF inv inp c64'] _ deps(2) ev])
       (use ok kn in simp, rule IH, assumption+, use inv in \<open>simp add: fold_inv_def\<close>)
  moreover have "find (\<lambda>c. r_input_ty (lower_rule known c' r) = TNamed (c_name c)) (i_concepts cx') = Some c" for c'
    using tab low cn(1,2) by (simp add: lower_rule_sel tables_ok_def lowered_rules_def eq_commute)
  ultimately have "rule_evals cx' (lower_rule known c r) fs v"
    by (intro rule_evalsI [OF entry_guard_input_ok [OF _ inp], where env = env1'])
       (use env1' rok(2) in \<open>simp_all add: lower_rule_sel check_output_def\<close>)
  moreover have "find (\<lambda>r. r_name r = n) (i_rules cx') = Some (lower_rule known c r)"
    using low Suc.prems(1,2) cn(1,2) unfolding lowered_rules_def by blast
  ultimately show ?case by blast
qed (simp add: ethrow_def)

section \<open>Programs\<close>

lemma lower_calls_derived:
  assumes "tables_ok cx nt"
  shows "lower_calls nt names st known = Inr known' \<Longrightarrow> cache_good ck_cache (derived cx nt) st \<Longrightarrow>
    (\<forall>n f. known' n = Some f \<longrightarrow> known n = Some f \<or> (\<exists>v. f = fact_from v \<and> derived cx nt n v)) \<and>
    (\<forall>n \<in> set names. \<exists>v. derived cx nt n v)"
proof (induction names arbitrary: st known)
  case (Cons m names)
  note good = check_rule_derived [OF assms, of max_nested_calls "[]"]
  obtain v s1 where c: "check_rule nt max_nested_calls [] m st = (Inr v, s1)"
    "lower_calls nt names s1 (known(m \<mapsto> fact_from v)) = Inr known'"
    using Cons.prems(1) by (auto split: prod.splits sum.splits)
  have s1: "cache_good ck_cache (derived cx nt) s1"
    using keepsD [of "cache_good ck_cache (derived cx nt)" "check_rule nt max_nested_calls [] m"] good Cons.prems(2) c(1)
    by (auto simp: call_good_def)
  have v: "derived cx nt m v" using good Cons.prems(2) c(1) unfolding call_good_def by blast
  from Cons.IH [OF c(2) s1] v show ?case by (auto split: if_splits)
qed simp

lemma lower_calls_total: "check_all nt names st = [] \<Longrightarrow> \<exists>known'. lower_calls nt names st known = Inr known'"
  by (induction nt names st arbitrary: known rule: check_all.induct) (auto split: prod.splits sum.splits)

lemma lower_item_rules:
  "lower_item nt A known it = Inr it' \<Longrightarrow>
     (case it' of IRule r \<Rightarrow> [r] | _ \<Rightarrow> []) = map (\<lambda>r. if r_name r \<in> A then
        lower_rule known (the (nt_concepts nt (case r_input_ty r of TNamed n \<Rightarrow> n))) r else r) (case it of IRule r \<Rightarrow> [r] | _ \<Rightarrow> [])"
  by (auto simp: lower_item_def split: item.splits if_splits vtype.splits option.splits)

lemma rmapM_eq_Inr_Cons: "rmapM f (x # xs) = Inr ys \<longleftrightarrow> (\<exists>y zs. f x = Inr y \<and> rmapM f xs = Inr zs \<and> ys = y # zs)"
  by (auto simp: rbind_eq_Inr)

lemma lower_items_rules:
  "rmapM (lower_item nt A known) its = Inr its' \<Longrightarrow>
     concat (map (\<lambda>it. case it of IRule r \<Rightarrow> [r] | _ \<Rightarrow> []) its') = map (\<lambda>r. if r_name r \<in> A then
        lower_rule known (the (nt_concepts nt (case r_input_ty r of TNamed n \<Rightarrow> n))) r else r)
       (concat (map (\<lambda>it. case it of IRule r \<Rightarrow> [r] | _ \<Rightarrow> []) its))"
proof (induction its arbitrary: its')
  case (Cons it its)
  then obtain y zs where "lower_item nt A known it = Inr y" "rmapM (lower_item nt A known) its = Inr zs" "its' = y # zs"
    by (auto simp: rmapM_eq_Inr_Cons simp del: rmapM.simps)
  with Cons.IH lower_item_rules show ?case by (simp add: map_concat comp_def)
qed simp

lemma lower_eq:
  assumes "lower p = Inr p'"
  obtains known where "numeric_verify p = []"
    "lower_calls (check_new p) (sorted_list_of_set (active_rules p)) \<lparr>ck_cache = Map.empty, ck_steps = 0\<rparr> Map.empty = Inr known"
    "rules_of p' = map (\<lambda>r. if r_name r \<in> active_rules p then
        lower_rule known (the (nt_concepts (check_new p) (case r_input_ty r of TNamed n \<Rightarrow> n))) r else r) (rules_of p)"
proof -
  from assms obtain known its where k: "numeric_verify p = []"
    "lower_calls (check_new p) (sorted_list_of_set (active_rules p)) \<lparr>ck_cache = Map.empty, ck_steps = 0\<rparr> Map.empty = Inr known"
    and its: "rmapM (lower_item (check_new p) (active_rules p) known) (p_items p) = Inr its" "p' = p\<lparr>p_items := its\<rparr>"
    by (auto simp: lower_def Let_def rbind_eq_Inr split: list.splits)
  with lower_items_rules [OF its(1)] show ?thesis by (intro that [OF k]) (simp add: rules_of_def)
qed

lemma find_map_name: "(\<And>r. r_name (g r) = r_name r) \<Longrightarrow> find (\<lambda>r. r_name r = n) (map g rs) = map_option g (find (\<lambda>r. r_name r = n) rs)"
  by (induction rs) auto

lemma active_closed:
  assumes "nt_rules (check_new p) n = Some r" "program_ok p" "n \<in> active_rules p"
  shows "r \<in> set (rules_of p)" "r_name r = n" "set (rule_deps r) \<subseteq> active_rules p"
proof -
  have "find (\<lambda>r. r_name r = n) (rules_of p) = Some r"
    using assms(1,2) collect_map_find [of r_name "rules_of p" n] by (simp add: program_ok_def check_new_def)
  then show r: "r \<in> set (rules_of p)" "r_name r = n" by (auto dest!: find_SomeD)
  show "set (rule_deps r) \<subseteq> active_rules p"
    using num_scope.callee_in_part [OF r(1)] r(2) assms(3) by (auto simp: active_rules_def)
qed

lemma lowered_rules_program:
  assumes "lower p = Inr p'" "program_ok p" "runs_program cx p"
  obtains known where "lowered_rules cx (cx\<lparr>i_rules := rules_of p'\<rparr>) (check_new p) (active_rules p) known"
proof -
  note tab = tables_ok_program [OF assms(2,3)]
  from assms(1) obtain known where k: "numeric_verify p = []"
    "lower_calls (check_new p) (sorted_list_of_set (active_rules p)) \<lparr>ck_cache = Map.empty, ck_steps = 0\<rparr> Map.empty = Inr known"
    and rules: "rules_of p' = map (\<lambda>r. if r_name r \<in> active_rules p then
        lower_rule known (the (nt_concepts (check_new p) (case r_input_ty r of TNamed n \<Rightarrow> n))) r else r) (rules_of p)"
    by (rule lower_eq)
  have fin: "finite (active_rules p)" by (simp add: active_rules_def num_scope.finite_part)
  have st: "cache_good ck_cache (derived cx (check_new p)) \<lparr>ck_cache = Map.empty, ck_steps = 0\<rparr>" by (simp add: cache_good_def)
  have d: "\<forall>n f. known n = Some f \<longrightarrow> (\<exists>v. f = fact_from v \<and> derived cx (check_new p) n v)"
    "\<forall>n \<in> active_rules p. \<exists>v. derived cx (check_new p) n v"
    using lower_calls_derived [OF tab k(2) st] fin by auto
  have "calls_ok cx (check_new p) known" using d(1) unfolding calls_ok_def derived_def nt_good_def by metis
  moreover have "find (\<lambda>r. r_name r = n) (rules_of p') = Some (lower_rule known c r)"
    if "n \<in> active_rules p" "nt_rules (check_new p) n = Some r" "r_input_ty r = TNamed cn" "nt_concepts (check_new p) cn = Some c" for n r cn c
  proof -
    have "find (\<lambda>r. r_name r = n) (rules_of p) = Some r"
      using that(2) collect_map_find [of r_name "rules_of p" n] assms(2) by (simp add: program_ok_def check_new_def)
    with that active_closed(2) [OF that(2) assms(2) that(1)] show ?thesis
      unfolding rules by (subst find_map_name) (simp_all add: lower_rule_sel)
  qed
  moreover have "\<forall>n r. n \<in> active_rules p \<longrightarrow> nt_rules (check_new p) n = Some r \<longrightarrow> set (rule_deps r) \<subseteq> active_rules p"
    using active_closed(3) assms(2) by blast
  ultimately show ?thesis using that [of known] tab d(2) by (simp add: lowered_rules_def)
qed

text \<open>The pass refuses exactly what the checker refuses: nothing in it can fail after verification.\<close>

lemma lower_item_total:
  assumes "program_ok p" "\<forall>n \<in> active_rules p. \<exists>v. derived cx (check_new p) n v" "it \<in> set (p_items p)"
  shows "\<exists>it'. lower_item (check_new p) (active_rules p) known it = Inr it'"
proof (cases "\<exists>r. it = IRule r \<and> r_name r \<in> active_rules p")
  case True
  then obtain r where r: "it = IRule r" "r_name r \<in> active_rules p" by blast
  have rr: "r \<in> set (rules_of p)" using assms(3) r(1) by (force simp: rules_of_def)
  have "find (\<lambda>y. r_name y = r_name r) (rules_of p) = Some r"
    by (rule find_distinct) (use assms(1) rr in \<open>auto simp: program_ok_def\<close>)
  then have n: "nt_rules (check_new p) (r_name r) = Some r"
    using collect_map_find [of r_name "rules_of p"] assms(1) by (simp add: program_ok_def check_new_def)
  obtain v k vis st st' where "rule_inner (check_new p) (check_rule (check_new p) k vis) (r_name r) st = (Inr v, st')"
    using assms(2) r(2) unfolding derived_def by blast
  with n obtain c where "check_signature (check_new p) r = Inr c" by (auto simp: rule_inner_def res_simps)
  then obtain cn where "r_input_ty r = TNamed cn" "nt_concepts (check_new p) cn = Some c"
    by (auto simp: check_signature_def split: if_splits vtype.splits option.splits)
  with r show ?thesis by (simp add: lower_item_def)
next
  case False
  then show ?thesis by (auto simp: lower_item_def split: item.split)
qed

lemma rmapM_total: "(\<And>x. x \<in> set xs \<Longrightarrow> \<exists>y. f x = Inr y) \<Longrightarrow> \<exists>ys. rmapM f xs = Inr ys"
  by (induction xs) (fastforce simp: rbind_eq_Inr)+

lemma lower_total:
  assumes "program_ok p"
  shows "(\<exists>p'. lower p = Inr p') \<longleftrightarrow> numeric_verify p = []"
proof
  assume v: "numeric_verify p = []"
  define cx :: "unit ictx" where "cx = \<lparr>i_chk = True, i_host = \<lparr>h_now = (\<lambda>w. (0, w)), h_urandom = (\<lambda>_ w. (None, w))\<rparr>,
     i_rules = rules_of p, i_concepts = concepts_of p, i_entropies = []\<rparr>"
  have tab: "tables_ok cx (check_new p)" by (rule tables_ok_program [OF assms]) (simp add: runs_program_def cx_def)
  have fin: "finite (active_rules p)" by (simp add: active_rules_def num_scope.finite_part)
  let ?st = "\<lparr>ck_cache = Map.empty, ck_steps = 0\<rparr> :: check_st"
  have "check_all (check_new p) (sorted_list_of_set (active_rules p)) ?st = []"
  proof (cases "active_rules p = {}")
    case False
    with v show ?thesis by (auto simp: numeric_verify_def Let_def)
  qed simp
  then obtain known where known: "lower_calls (check_new p) (sorted_list_of_set (active_rules p)) ?st Map.empty = Inr known"
    using lower_calls_total by blast
  have "cache_good ck_cache (derived cx (check_new p)) ?st" by (simp add: cache_good_def)
  from lower_calls_derived [OF tab known this] fin have "\<forall>n \<in> active_rules p. \<exists>v. derived cx (check_new p) n v" by simp
  with rmapM_total [of "p_items p"] lower_item_total [OF assms] obtain its
    where "rmapM (lower_item (check_new p) (active_rules p) known) (p_items p) = Inr its" by metis
  with v known show "\<exists>p'. lower p = Inr p'" by (simp add: lower_def Let_def)
next
  assume "\<exists>p'. lower p = Inr p'"
  then show "numeric_verify p = []" using lower_eq by blast
qed

end
