(* ===== verification/Domain_Properties.thy ===== *)
theory Domain_Properties
  imports Native_Opt_Correct
begin

text \<open>
  What the interval domain promises, stated over its operations: the arithmetic of two-piece domains is
  safe and contains every result, a join loses no value and is exact whenever two pieces suffice, and a
  comparison only narrows.
\<close>

section \<open>Interval domain\<close>

text \<open>
  C5. Arithmetic on two-piece domains is sound: when \<open>Ranges::arithmetic\<close> accepts, the resulting domain is well
  formed, and for every pair of values of the operands the operation does not overflow, does not divide
  by zero, and its result lies in the domain.
\<close>

theorem ranges_arithmetic_safe:
  assumes "rg_arithmetic a op b = Inr c" "wf_ranges a" "wf_ranges b" "x \<in> gam a" "y \<in> gam b"
  shows "wf_ranges c \<and> arith_val op x y \<in> gam c \<and> in_i64 (arith_val op x y)
    \<and> apply_binop chk op (VNumber x) (VNumber y) = Inr (VNumber (arith_val op x y))"
proof -
  have r: "wf_ranges c" "arith_val op x y \<in> gam c" "arith_ok op x y"
    using rg_arithmetic_sound(1) [OF assms(1-3)] rg_arithmetic_sound(2) [OF assms(1-3), of x y] assms(4,5) by auto
  have "apply_binop chk op (VNumber x) (VNumber y) = Inr (VNumber (arith_val op x y))"
    using r(3) by (cases op) (auto simp: arith_ok_def arith_val_def apply_binop_def num_args_def panicking_def i64_div_def i64_rem_def)
  with r gam_in_i64 [OF r(1,2)] show ?thesis by blast
qed

theorem ranges_arithmetic_safe_witness:
  "wf_ranges (mk_interval (-3) (-1)) \<and> arith_val OpDiv (-7) 3 \<in> gam (mk_interval (-3) (-1)) \<and> in_i64 (arith_val OpDiv (-7) 3)
    \<and> apply_binop True OpDiv (VNumber (-7)) (VNumber 3) = Inr (VNumber (arith_val OpDiv (-7) 3))"
  by (rule ranges_arithmetic_safe [where a = "mk_interval (-9) (-6)" and b = "mk_interval 3 4"])
     (code_simp, simp_all add: valid_ivl_def in_i64_def)

text \<open>Separated pieces are a normal form: a set of integers has at most one such description.\<close>

lemma separated_Cons:
  "separated (p # ps) \<longleftrightarrow> fst p \<le> snd p \<and> (\<forall>q \<in> set ps. snd p + 1 < fst q) \<and> separated ps"
  by (auto simp: separated_def)

lemma separated_tail:
  assumes "separated (p # ps)" "x \<in> ivl_set ps"
  shows "snd p + 1 < x"
  using assms by (fastforce simp: separated_Cons ivl_set_def)

lemma separated_first:
  assumes "separated (p # ps)" "separated (q # qs)" "ivl_set (p # ps) = ivl_set (q # qs)"
  shows "fst p \<le> fst q" "snd p \<le> snd q"
proof -
  have qle: "fst q \<le> snd q" and ple: "fst p \<le> snd p" using assms(1,2) by (auto simp: separated_Cons)
  have "fst q \<in> ivl_set (p # ps)" using qle assms(3) by simp
  then show fst: "fst p \<le> fst q" using separated_tail [OF assms(1), of "fst q"] ple by auto
  show "snd p \<le> snd q"
  proof (rule ccontr)
    assume n: "\<not> snd p \<le> snd q"
    have "snd q + 1 \<in> ivl_set (p # ps)" using n fst qle by simp
    then have "snd q + 1 \<in> ivl_set (q # qs)" unfolding assms(3) .
    then show False using separated_tail [OF assms(2), of "snd q + 1"] by auto
  qed
qed

lemma separated_unique: "separated ps \<Longrightarrow> separated qs \<Longrightarrow> ivl_set ps = ivl_set qs \<Longrightarrow> ps = qs"
proof (induction ps arbitrary: qs)
  case Nil
  then show ?case by (cases qs) (auto simp: separated_Cons)
next
  case (Cons p ps)
  then obtain q qs' where qs: "qs = q # qs'" by (cases qs) (auto simp: separated_Cons)
  note sep = Cons.prems(1) Cons.prems(2) [unfolded qs] and eq = Cons.prems(3) [unfolded qs]
  have pq: "p = q"
    using separated_first [OF sep eq] separated_first [OF sep(2,1) eq [symmetric]] by (simp add: prod_eq_iff)
  have "ivl_set ps = ivl_set qs'"
  proof -
    have "ivl_set ps = ivl_set (p # ps) - {fst p .. snd p}" using separated_tail [OF sep(1)] by force
    also have "\<dots> = ivl_set (q # qs') - {fst q .. snd q}" using eq pq by simp
    also have "\<dots> = ivl_set qs'" using separated_tail [OF sep(2)] by force
    finally show ?thesis .
  qed
  with Cons.IH [of qs'] sep pq qs show ?case by (simp add: separated_Cons)
qed

lemma wf_separated: "wf_ranges c \<Longrightarrow> separated (pieces c)"
  by (auto simp: wf_ranges_def pieces_def separated_def valid_ivl_def split: option.splits)

lemma collect_merge:
  assumes "collect ps = Some r" "length (merge_pieces [] (sort (filter (\<lambda>(lo, hi). lo \<le> hi) ps))) \<le> 2"
  shows "gam r = ivl_set ps"
proof -
  let ?m = "merge_pieces [] (sort (filter (\<lambda>(lo, hi). lo \<le> hi) ps))"
  have ne: "?m \<noteq> []" using assms(1) collect_None_iff [of ps] merge_sorted(2) [of ps] by auto
  then have "?m = pieces r" using assms
    by (cases ?m rule: list.exhaust; cases "tl ?m") (auto simp: collect_def Let_def pieces_def mk_interval_def split: if_splits prod.splits list.splits)
  with merge_sorted(2) [of ps] show ?thesis by (simp add: gam_def)
qed

text \<open>
  C6. Joining two domains yields a well-formed domain with every value of both, and no further value
  whenever some two-piece domain describes the union exactly.
\<close>

theorem ranges_join_best:
  assumes "wf_ranges a" "wf_ranges b"
  shows "wf_ranges (join a b) \<and> gam a \<union> gam b \<subseteq> gam (join a b)
    \<and> ((\<exists>c. wf_ranges c \<and> gam c = gam a \<union> gam b) \<longrightarrow> gam (join a b) = gam a \<union> gam b)"
proof (intro conjI impI)
  show "wf_ranges (join a b)" "gam a \<union> gam b \<subseteq> gam (join a b)" using join_sound [OF assms] by auto
  assume "\<exists>c. wf_ranges c \<and> gam c = gam a \<union> gam b"
  then obtain c where c: "wf_ranges c" "gam c = gam a \<union> gam b" by blast
  let ?ps = "pieces a @ pieces b"
  obtain r where r: "collect ?ps = Some r" by (rule collect_Some [of ?ps]) (use assms wf_pieces in auto)
  have "merge_pieces [] (sort (filter (\<lambda>(lo, hi). lo \<le> hi) ?ps)) = pieces c"
    by (rule separated_unique [OF merge_sorted(1) wf_separated [OF c(1)]])
       (use c(2) in \<open>simp add: merge_sorted(2) gam_def del: filter_append\<close>)
  then have "gam r = ivl_set ?ps" using collect_merge [OF r] length_pieces [of c] by simp
  with r show "gam (join a b) = gam a \<union> gam b" by (simp add: join_def gam_def)
qed

theorem ranges_join_best_witness:
  "wf_ranges (join (mk_interval 1 4) (mk_interval 5 9)) \<and> gam (join (mk_interval 1 4) (mk_interval 5 9)) = gam (mk_interval 1 4) \<union> gam (mk_interval 5 9)"
proof -
  have wf: "wf_ranges (mk_interval 1 4)" "wf_ranges (mk_interval 5 9)" "wf_ranges (mk_interval 1 9)"
    by (simp_all add: valid_ivl_def in_i64_def)
  moreover have "gam (mk_interval 1 9) = gam (mk_interval 1 4) \<union> gam (mk_interval 5 9)" by auto
  ultimately show ?thesis using ranges_join_best [OF wf(1,2)] by blast
qed

text \<open>
  C7. Restricting a domain by a comparison with another is sound and only narrows: the values that can satisfy
  the comparison survive, nothing is added, and \<open>None\<close> means that no pair of values satisfies it.
\<close>

theorem constrain_exact_direction:
  assumes "is_comparison op" "wf_ranges a" "wf_ranges b"
  shows "case constrain a op b of
      None \<Rightarrow> \<not> (\<exists>x \<in> gam a. \<exists>y \<in> gam b. compare_val op x y)
    | Some c \<Rightarrow> wf_ranges c \<and> gam c \<subseteq> gam a \<and> (\<forall>x \<in> gam a. \<forall>y \<in> gam b. compare_val op x y \<longrightarrow> x \<in> gam c)"
proof (cases "constrain a op b")
  case None
  with constrain_sound [OF assms] show ?thesis by force
next
  case (Some c)
  with constrain_wf [OF assms Some] constrain_subset [OF assms(1) Some] constrain_sound [OF assms] show ?thesis by force
qed

theorem constrain_exact_direction_witness:
  "wf_ranges (mk_interval 0 9) \<and> gam (mk_interval 0 9) \<subseteq> gam (mk_interval (-3) 9) \<and> compare_val OpGtEq 5 0 \<and> 5 \<in> gam (mk_interval 0 9)
   \<and> \<not> (\<exists>x \<in> gam (mk_interval (-3) 9). \<exists>y \<in> gam (mk_interval 10 20). compare_val OpGtEq x y)"
proof -
  have c: "constrain (mk_interval (-3) 9) OpGtEq (mk_interval 0 0) = Some (mk_interval 0 9)"
    "constrain (mk_interval (-3) 9) OpGtEq (mk_interval 10 20) = None" by code_simp+
  have w: "is_comparison OpGtEq" "wf_ranges (mk_interval (-3) 9)" "wf_ranges (mk_interval 0 0)" "wf_ranges (mk_interval 10 20)"
    by (simp_all add: is_comparison_def valid_ivl_def in_i64_def)
  have "compare_val OpGtEq 5 0" "5 \<in> gam (mk_interval (-3) 9)" "0 \<in> gam (mk_interval 0 0)" by (simp_all add: compare_val_def)
  with constrain_exact_direction [OF w(1,2,3)] constrain_exact_direction [OF w(1,2,4)] show ?thesis
    unfolding c option.case by blast
qed

end
