(* ===== verification/Text_Bounds.thy ===== *)
theory Text_Bounds
  imports Numeric_Bounds
begin

text \<open>
  The bounded text checker (\<open>src/src/text_bounds.rs\<close>): byte capacities of text results, for the rules
  that a \<open>text [..N]\<close> output reaches. The surviving parts of \<open>struct Check\<close> are \<open>text_st\<close>, the tables and
  the \<open>native\<close> flag are \<open>text_tables\<close>; a \<open>HashMap\<close> of field values is an association list with distinct keys.
  An index into \<open>self.concepts\<close> that is not there is a panic of the source and the error \<open>IndexPanic\<close> here.
\<close>

section \<open>Values and diagnostics\<close>

datatype (plugins only: size code) tval =
    XNumber int int
  | XBool
  | XText "nat option"
  | XInput string
  | XRecord string "(string \<times> tval) list"

datatype (plugins only: size code) txt_error =
    ExpectedType vtype vtype
  | ConcatArgument
  | LogLimit
  | LogShape
  | LogContent
  | MissingHandler
  | LogCapacityUnknown
  | LogCapacityExceeded nat
  | UnknownInputField string string
  | InvalidNumericInterval string int int
  | UnsupportedFieldType
  | FieldVisitLimit
  | MissingConditionalField
  | InConditionalField string string txt_error
  | IncompatibleConditional
  | UnknownTextCallee
  | CallNeedsRecord string
  | UnknownConcept
  | MissingInputField
  | DeclaredCapacityUnknown string string
  | ArgumentCapacityUnknown string string
  | ArgumentTooLong string string nat nat
  | ArgumentRange string string int int int int
  | FlatConceptField string string
  | TextNestedCallLimit
  | TextRecursion string
  | InTextRule string txt_error
  | UnknownRuleName string
  | TextContextUnsupported
  | TextHintsUnsupported
  | FlatNamedConcept
  | NativeInputCapacity
  | OutputBoundShape
  | OutputTooLong nat nat
  | OutputCapacityUnknown nat
  | TextAnalysisLimit
  | NegationOverflow
  | TextUnknownBinding string
  | UnknownRecordField
  | FieldNeedsRecord
  | CapacityOverflow
  | TextCallArity string
  | ComparisonNotScalar
  | TextArithmetic num_error
  | UnknownOutputConcept
  | RecordFieldsMismatch
  | NestedRecord
  | DuplicateRecordField
  | UnsupportedText string
  | NativeCapacity
  | StateNeedsSequentialHttp
  | StateCallShape
  | StateFieldUndeclared
  | StateNeedsText
  | StateCapacityRange
  | StateCapacityExceeded nat int
  | AfterNeedsCompleteCall
  | LogNeedsAppendFile
  | IndexPanic

definition tv_ty :: "tval \<Rightarrow> vtype" where
  "tv_ty v = (case v of XNumber _ _ \<Rightarrow> TNumber | XBool \<Rightarrow> TBool | XText _ \<Rightarrow> TText
     | XInput n \<Rightarrow> TNamed n | XRecord n _ \<Rightarrow> TNamed n)"

definition tv_require :: "vtype \<Rightarrow> tval \<Rightarrow> txt_error + unit" where
  "tv_require ty v = (if tv_ty v = ty then Inr () else Inl (ExpectedType ty (tv_ty v)))"

definition tv_number :: "tval \<Rightarrow> txt_error + interval" where
  "tv_number v = (case v of XNumber lo hi \<Rightarrow> Inr (lo, hi) | _ \<Rightarrow> Inl (ExpectedType TNumber (tv_ty v)))"

definition tv_capacity :: "tval \<Rightarrow> txt_error + nat option" where
  "tv_capacity v = (case v of XText n \<Rightarrow> Inr n | XNumber _ _ \<Rightarrow> Inr (Some 20) | _ \<Rightarrow> Inl ConcatArgument)"

section \<open>State\<close>

record text_tables =
  tt_rules :: "string \<rightharpoonup> rule"
  tt_concepts :: "string \<rightharpoonup> concept"
  tt_native :: bool

record text_st =
  tx_cache :: "string \<rightharpoonup> tval"
  tx_steps :: nat

type_synonym 'a tcheck = "text_st \<Rightarrow> (txt_error + 'a) \<times> text_st"

section \<open>Fields and joins\<close>

text \<open>\<open>u64::try_from\<close> of a declared capacity.\<close>

definition declared_capacity :: "field \<Rightarrow> nat option" where
  "declared_capacity f = (case f_range f of None \<Rightarrow> None | Some (_, n) \<Rightarrow> if n < 0 then None else Some (nat n))"

definition declared_field :: "field \<Rightarrow> txt_error + tval" where
  "declared_field f =
     (case f_ty f of
        TNumber \<Rightarrow>
          (case (case f_range f of None \<Rightarrow> (i64_MIN, i64_MAX) | Some b \<Rightarrow> b) of (mn, mx) \<Rightarrow>
             if mn > mx then Inl (InvalidNumericInterval (f_name f) mn mx) else Inr (XNumber mn mx))
      | TText \<Rightarrow> Inr (XText (declared_capacity f))
      | _ \<Rightarrow> Inl UnsupportedFieldType)"

definition input_field :: "text_tables \<Rightarrow> string \<Rightarrow> string \<Rightarrow> txt_error + tval" where
  "input_field tt cn name =
     (case tt_concepts tt cn of
        None \<Rightarrow> Inl IndexPanic
      | Some c \<Rightarrow>
          (case find (\<lambda>f. f_name f = name) (c_fields c) of
             None \<Rightarrow> Inl (UnknownInputField cn name)
           | Some f \<Rightarrow> declared_field f))"

definition declared_fields :: "field list \<Rightarrow> txt_error + (string \<times> tval) list" where
  "declared_fields fs =
     rbind (rmapM (\<lambda>f. rbind (declared_field f) (\<lambda>v. Inr (f_name f, v))) fs)
       (\<lambda>kvs. Inr (foldl (\<lambda>m (k, v). AList.update k v m) [] kvs))"

definition materialize_input :: "text_tables \<Rightarrow> tval \<Rightarrow> txt_error + tval" where
  "materialize_input tt v =
     (case v of
        XInput name \<Rightarrow>
          (case tt_concepts tt name of
             None \<Rightarrow> Inl IndexPanic
           | Some c \<Rightarrow> rbind (declared_fields (c_fields c)) (\<lambda>fs. Inr (XRecord name fs)))
      | _ \<Rightarrow> Inr v)"

text \<open>The nesting of records, which decreases from a value to the fields it is joined by.\<close>

fun tdepth :: "tval \<Rightarrow> nat" where
  "tdepth (XRecord _ fs) = Suc (foldr max (map (\<lambda>(_, v). tdepth v) fs) 0)"
| "tdepth (XInput _) = 1"
| "tdepth _ = 0"

definition fdepth :: "(string \<times> tval) list \<Rightarrow> nat" where
  "fdepth fs = foldr max (map (\<lambda>(_, v). tdepth v) fs) 0"

lemma tdepth_record [simp]: "tdepth (XRecord n fs) = Suc (fdepth fs)"
  by (simp add: fdepth_def)

declare tdepth.simps(1) [simp del]

lemma fdepth_member: "(k, v) \<in> set fs \<Longrightarrow> tdepth v \<le> fdepth fs"
  by (induction fs) (auto simp: fdepth_def le_max_iff_disj)

lemma fdepth_leI: "(\<And>k v. (k, v) \<in> set fs \<Longrightarrow> tdepth v \<le> d) \<Longrightarrow> fdepth fs \<le> d"
  by (induction fs) (auto simp: fdepth_def split: prod.splits)

lemma set_update: "set (AList.update k v m) \<subseteq> insert (k, v) (set m)"
  by (induction m) auto

lemma insert_all_members:
  "set (foldl (\<lambda>m (k, v). AList.update k v m) m0 kvs) \<subseteq> set m0 \<union> set kvs"
proof (induction kvs arbitrary: m0)
  case (Cons kv kvs)
  obtain k v where kv: "kv = (k, v)" by (cases kv)
  show ?case using Cons.IH [of "AList.update k v m0"] set_update [of k v m0] kv by auto
qed simp

lemma declared_field_depth: "declared_field f = Inr v \<Longrightarrow> tdepth v = 0"
  by (auto simp: declared_field_def split: vtype.splits option.splits if_splits prod.splits)

lemma rmapM_members:
  "rmapM g xs = Inr ys \<Longrightarrow> y \<in> set ys \<Longrightarrow> \<exists>x \<in> set xs. g x = Inr y"
  by (induction xs arbitrary: ys) (auto simp: rbind_eq_Inr)

lemma declared_fields_depth: "declared_fields fs = Inr kvs \<Longrightarrow> fdepth kvs = 0"
proof -
  assume "declared_fields fs = Inr kvs"
  then obtain l where l: "rmapM (\<lambda>f. rbind (declared_field f) (\<lambda>v. Inr (f_name f, v))) fs = Inr l"
    and kvs: "kvs = foldl (\<lambda>m (k, v). AList.update k v m) [] l"
    by (auto simp: declared_fields_def rbind_eq_Inr)
  have "tdepth v = 0" if "(k, v) \<in> set kvs" for k v
  proof -
    have "(k, v) \<in> set l" using that kvs insert_all_members [of "[]" l] by auto
    with rmapM_members [OF l] show ?thesis using declared_field_depth by (fastforce simp: rbind_eq_Inr)
  qed
  then have "fdepth kvs \<le> 0" by (intro fdepth_leI) auto
  then show ?thesis by simp
qed

lemma materialize_depth:
  "materialize_input tt a = Inr (XRecord n fs) \<Longrightarrow> fdepth fs < tdepth a"
  by (cases a) (auto simp: materialize_input_def rbind_eq_Inr declared_fields_depth split: option.splits)

lemma fdepth_delete: "fdepth (AList.delete k fs) \<le> fdepth fs"
  by (rule fdepth_leI) (auto simp: AList.delete_eq intro: fdepth_member)

definition cap_max :: "nat option \<Rightarrow> nat option \<Rightarrow> nat option" where
  "cap_max a b = (case a of None \<Rightarrow> None | Some x \<Rightarrow> (case b of None \<Rightarrow> None | Some y \<Rightarrow> Some (max x y)))"

definition add_steps :: "nat \<Rightarrow> txt_error \<Rightarrow> unit tcheck" where
  "add_steps n e st =
     (let st' = st\<lparr>tx_steps := tx_steps st + n\<rparr> in
      if tx_steps st' > 100000 then (Inl e, st') else (Inr (), st'))"

text \<open>\<open>Check::join\<close> and its loop over the declared field names, which removes each field it has used.\<close>

declare cbind_cong [fundef_cong] cmap_err_cong [fundef_cong]

function (sequential) text_join :: "text_tables \<Rightarrow> tval \<Rightarrow> tval \<Rightarrow> tval tcheck"
  and join_fields :: "text_tables \<Rightarrow> string \<Rightarrow> string list \<Rightarrow> (string \<times> tval) list \<Rightarrow> (string \<times> tval) list
    \<Rightarrow> (string \<times> tval) list tcheck" where
  "text_join tt a b st =
     cbind (clift (tv_require (tv_ty b) a)) (\<lambda>_.
     cbind (clift (materialize_input tt a)) (\<lambda>a'.
     cbind (clift (materialize_input tt b)) (\<lambda>b' st.
       case (a', b') of
         (XText x, XText y) \<Rightarrow> cret (XText (cap_max x y)) st
       | (XNumber p q, XNumber r s) \<Rightarrow> cret (XNumber (min p r) (max q s)) st
       | (XBool, XBool) \<Rightarrow> cret XBool st
       | (XRecord name fa, XRecord _ fb) \<Rightarrow>
           cbind (add_steps (length fa) FieldVisitLimit) (\<lambda>_.
           cbind (clift (ok_or IndexPanic (tt_concepts tt name))) (\<lambda>c.
           cbind (join_fields tt name (map f_name (c_fields c)) fa fb) (\<lambda>fs.
           cret (XRecord name fs)))) st
       | _ \<Rightarrow> cfail IncompatibleConditional st))) st"
| "join_fields tt name [] fa fb st = cret [] st"
| "join_fields tt name (f # fs) fa fb st =
     cbind (clift (ok_or MissingConditionalField (map_of fa f))) (\<lambda>va.
     cbind (clift (ok_or MissingConditionalField (map_of fb f))) (\<lambda>vb.
     cbind (cmap_err (InConditionalField name f) (text_join tt va vb)) (\<lambda>v.
     cbind (join_fields tt name fs (AList.delete f fa) (AList.delete f fb)) (\<lambda>rest.
     cret ((f, v) # rest))))) st"
  by pat_completeness auto

termination
proof (relation "measures
    [\<lambda>x. case x of Inl (tt, a, b, st) \<Rightarrow> 2 * tdepth a | Inr (tt, name, fs, fa, fb, st) \<Rightarrow> Suc (2 * fdepth fa),
     \<lambda>x. case x of Inl (tt, a, b, st) \<Rightarrow> 0 | Inr (tt, name, fs, fa, fb, st) \<Rightarrow> length fs]",
    goal_cases)
  case 1
  then show ?case by simp
next
  case 2
  then show ?case using materialize_depth by (fastforce simp: clift_def)
next
  case 3
  then show ?case using fdepth_member map_of_SomeD by (fastforce simp: clift_eq_Inr ok_or_eq_Inr le_imp_less_Suc)
next
  case (4 tt name f fs fa fb st)
  then show ?case using fdepth_delete [of f fa] by (auto simp: le_less)
qed

declare cbind_cong [fundef_cong del] cmap_err_cong [fundef_cong del]
declare text_join.simps [simp del]

section \<open>Expressions\<close>

text \<open>
  A call's argument against the callee's declared input: rule bodies are checked for the declaration,
  so the argument's capacities and ranges have to fit it.
\<close>

definition fits_field :: "string \<Rightarrow> (string \<times> tval) list \<Rightarrow> field \<Rightarrow> txt_error + unit" where
  "fits_field name vals f =
     (case map_of vals (f_name f) of
        None \<Rightarrow> Inl MissingInputField
      | Some v \<Rightarrow>
          rbind (tv_require (f_ty f) v) (\<lambda>_.
            case v of
              XText actual \<Rightarrow>
                (case declared_capacity f of
                   None \<Rightarrow> Inl (DeclaredCapacityUnknown name (f_name f))
                 | Some mx \<Rightarrow>
                     (case actual of
                        None \<Rightarrow> Inl (ArgumentCapacityUnknown name (f_name f))
                      | Some n \<Rightarrow> if n > mx then Inl (ArgumentTooLong name (f_name f) n mx) else Inr ()))
            | XNumber lo hi \<Rightarrow>
                (case f_range f of
                   None \<Rightarrow> Inr ()
                 | Some (mn, mx) \<Rightarrow>
                     if lo < mn \<or> hi > mx then Inl (ArgumentRange name (f_name f) lo hi mn mx) else Inr ())
            | _ \<Rightarrow> Inl (FlatConceptField name (f_name f))))"

definition call_input :: "text_tables \<Rightarrow> string \<Rightarrow> tval \<Rightarrow> txt_error + unit" where
  "call_input tt name v =
     (case tt_rules tt name of
        None \<Rightarrow> Inl UnknownTextCallee
      | Some callee \<Rightarrow>
          rbind (tv_require (r_input_ty callee) v) (\<lambda>_.
            case v of
              XInput _ \<Rightarrow> Inr ()
            | XRecord cn vals \<Rightarrow>
                (case tt_concepts tt cn of
                   None \<Rightarrow> Inl UnknownConcept
                 | Some c \<Rightarrow> rbind (rmapM (fits_field name vals) (c_fields c)) (\<lambda>_. Inr ()))
            | _ \<Rightarrow> Inl (CallNeedsRecord name)))"

definition u64_MAX :: nat where
  "u64_MAX = 18446744073709551615"

definition add_cap :: "nat option \<Rightarrow> nat option \<Rightarrow> txt_error + nat option" where
  "add_cap tot n =
     (case tot of
        None \<Rightarrow> Inr None
      | Some a \<Rightarrow>
          (case n of
             None \<Rightarrow> Inr None
           | Some b \<Rightarrow> if a + b > u64_MAX then Inl CapacityOverflow else Inr (Some (a + b))))"

text \<open>The argument loop of \<open>concat\<close>: an operand is evaluated only after the ones before it were added.\<close>

fun cap_loop :: "('a \<Rightarrow> tval tcheck) \<Rightarrow> nat option \<Rightarrow> 'a list \<Rightarrow> nat option tcheck" where
  "cap_loop ev tot [] = cret tot"
| "cap_loop ev tot (e # es) =
     cbind (ev e) (\<lambda>v. cbind (clift (tv_capacity v)) (\<lambda>n. cbind (clift (add_cap tot n)) (\<lambda>t. cap_loop ev t es)))"

text \<open>The field loop of a record construction.\<close>

definition is_scalar_tval :: "tval \<Rightarrow> bool" where
  "is_scalar_tval v = (case v of XText _ \<Rightarrow> True | XNumber _ _ \<Rightarrow> True | XBool \<Rightarrow> True | _ \<Rightarrow> False)"

fun record_loop :: "('a \<Rightarrow> tval tcheck) \<Rightarrow> concept \<Rightarrow> (string \<times> tval) list \<Rightarrow> (string \<times> 'a) list
    \<Rightarrow> (string \<times> tval) list tcheck" where
  "record_loop ev c vals [] = cret vals"
| "record_loop ev c vals ((n, e) # fs) =
     (case find (\<lambda>f. f_name f = n) (c_fields c) of
        None \<Rightarrow> cfail UnknownRecordField
      | Some f \<Rightarrow>
          cbind (ev e) (\<lambda>v. cbind (clift (tv_require (f_ty f) v)) (\<lambda>_.
            if \<not> is_scalar_tval v then cfail NestedRecord
            else if map_of vals n \<noteq> None then cfail DuplicateRecordField
            else record_loop ev c ((n, v) # vals) fs)))"

lemma cap_loop_cong [fundef_cong]:
  "\<lbrakk>es = es'; t = t'; \<And>e. e \<in> set es' \<Longrightarrow> f e = g e\<rbrakk> \<Longrightarrow> cap_loop f t es = cap_loop g t' es'"
proof (induction es' arbitrary: es t t')
  case (Cons e es')
  have "f e = g e" "\<And>t. cap_loop f t es' = cap_loop g t es'" using Cons by auto
  with Cons.prems show ?case by simp
qed simp

lemma record_loop_cong [fundef_cong]:
  "\<lbrakk>fs = fs'; c = c'; vals = vals'; \<And>n e. (n, e) \<in> set fs' \<Longrightarrow> f e = g e\<rbrakk> \<Longrightarrow>
     record_loop f c vals fs = record_loop g c' vals' fs'"
proof (induction fs' arbitrary: fs vals vals')
  case (Cons ne fs')
  obtain n e where ne: "ne = (n, e)" by (cases ne)
  have "f e = g e" using Cons.prems(4) [of n e] ne by simp
  moreover have "record_loop f c vals fs' = record_loop g c vals fs'" for vals
    using Cons.IH [OF refl Cons.prems(2) refl, of vals] Cons.prems(2,4) ne by (metis list.set_intros(2))
  ultimately show ?case using Cons.prems ne by (simp cong: option.case_cong if_cong)
qed simp

definition text_neg :: "interval \<Rightarrow> txt_error + tval" where
  "text_neg p = (case p of (lo, hi) \<Rightarrow> if lo = i64_MIN then Inl NegationOverflow else Inr (XNumber (- hi) (- lo)))"

definition text_abs :: "interval \<Rightarrow> txt_error + tval" where
  "text_abs p = (case p of (lo, hi) \<Rightarrow>
     if lo = i64_MIN then Inl NegationOverflow
     else Inr (XNumber (if lo \<le> 0 \<and> hi \<ge> 0 then 0 else min \<bar>lo\<bar> \<bar>hi\<bar>) (max \<bar>lo\<bar> \<bar>hi\<bar>)))"

definition text_binary :: "binop \<Rightarrow> tval \<Rightarrow> tval \<Rightarrow> txt_error + tval" where
  "text_binary op a b =
     (if op = OpEq \<or> op = OpNotEq then
        rbind (tv_require (tv_ty b) a) (\<lambda>_. if is_scalar_tval a then Inr XBool else Inl ComparisonNotScalar)
      else if op = OpAnd \<or> op = OpOr then
        rbind (tv_require TBool a) (\<lambda>_. rbind (tv_require TBool b) (\<lambda>_. Inr XBool))
      else if op \<in> {OpGt, OpLt, OpGtEq, OpLtEq} then
        rbind (tv_require TNumber a) (\<lambda>_. rbind (tv_require TNumber b) (\<lambda>_. Inr XBool))
      else rbind (tv_number a) (\<lambda>p. rbind (tv_number b) (\<lambda>q.
        rbind (rmap_err TextArithmetic (interval_arith op p q)) (\<lambda>(lo, hi). Inr (XNumber lo hi)))))"

definition text_field :: "text_tables \<Rightarrow> tval \<Rightarrow> string \<Rightarrow> txt_error + tval" where
  "text_field tt base name =
     (case base of
        XInput c \<Rightarrow> input_field tt c name
      | XRecord _ vals \<Rightarrow> (case map_of vals name of Some v \<Rightarrow> Inr v | None \<Rightarrow> Inl UnknownRecordField)
      | _ \<Rightarrow> Inl FieldNeedsRecord)"

definition text_length :: "tval \<Rightarrow> txt_error + tval" where
  "text_length v =
     (case v of
        XText cap \<Rightarrow>
          Inr (XNumber 0 (case cap of Some n \<Rightarrow> if int n \<le> i64_MAX then int n else i64_MAX | None \<Rightarrow> i64_MAX))
      | _ \<Rightarrow> Inl (ExpectedType TText (tv_ty v)))"

definition shape :: "expr \<Rightarrow> string" where
  "shape e =
     (case e of
        ERead _ \<Rightarrow> ''effect'' | EFetch _ _ \<Rightarrow> ''effect'' | ERandom _ \<Rightarrow> ''effect'' | ENowUnix \<Rightarrow> ''effect''
      | EOk _ \<Rightarrow> ''Result'' | EErr _ \<Rightarrow> ''Result'' | EMatchResult _ _ _ _ _ \<Rightarrow> ''Result'' | ETryByteAt _ _ \<Rightarrow> ''Result''
      | EJsonEscape _ \<Rightarrow> ''json_escape''
      | ESubstring _ _ _ \<Rightarrow> ''substring''
      | EFold _ _ _ _ _ \<Rightarrow> ''collection or fold'' | EFoldBytes _ _ _ _ _ _ \<Rightarrow> ''collection or fold''
      | EMap _ _ _ \<Rightarrow> ''collection or fold'' | EFilter _ _ _ \<Rightarrow> ''collection or fold''
      | EQuantifier _ _ _ _ \<Rightarrow> ''collection or fold''
      | _ \<Rightarrow> ''form outside the supported subset'')"

text \<open>The prologue and epilogue of every visit: limits, then the native capacity of the value.\<close>

definition text_visit :: "nat \<Rightarrow> tval tcheck \<Rightarrow> tval tcheck" where
  "text_visit depth m st =
     (let st' = st\<lparr>tx_steps := tx_steps st + 1\<rparr> in
      if tx_steps st' > 100000 \<or> depth > 256 then (Inl TextAnalysisLimit, st') else m st')"

definition native_cap :: "text_tables \<Rightarrow> tval \<Rightarrow> txt_error + tval" where
  "native_cap tt v =
     (if tt_native tt \<and> (case v of XText None \<Rightarrow> True | XText (Some n) \<Rightarrow> n \<ge> 1048577 | _ \<Rightarrow> False)
      then Inl NativeCapacity else Inr v)"

definition text_node :: "text_tables \<Rightarrow> nat \<Rightarrow> tval tcheck \<Rightarrow> tval tcheck" where
  "text_node tt depth m = text_visit depth (cbind m (\<lambda>v. clift (native_cap tt v)))"

fun text_expr :: "text_tables \<Rightarrow> (string \<Rightarrow> tval tcheck) \<Rightarrow> expr \<Rightarrow> (string \<rightharpoonup> tval) \<Rightarrow> nat \<Rightarrow> tval tcheck" where
  "text_expr tt call (EText s) env depth = text_node tt depth (cret (XText (Some (length s))))"
| "text_expr tt call (ENumber n) env depth = text_node tt depth (cret (XNumber n n))"
| "text_expr tt call (ENeg e) env depth = text_node tt depth
     (cbind (text_expr tt call e env (Suc depth)) (\<lambda>v. clift (rbind (tv_number v) text_neg)))"
| "text_expr tt call (EAbs e) env depth = text_node tt depth
     (cbind (text_expr tt call e env (Suc depth)) (\<lambda>v. clift (rbind (tv_number v) text_abs)))"
| "text_expr tt call (EMin a b) env depth = text_node tt depth
     (cbind (text_expr tt call a env (Suc depth)) (\<lambda>va. cbind (clift (tv_number va)) (\<lambda>(p, q).
      cbind (text_expr tt call b env (Suc depth)) (\<lambda>vb. cbind (clift (tv_number vb)) (\<lambda>(r, s).
      cret (XNumber (min p r) (min q s)))))))"
| "text_expr tt call (EMax a b) env depth = text_node tt depth
     (cbind (text_expr tt call a env (Suc depth)) (\<lambda>va. cbind (clift (tv_number va)) (\<lambda>(p, q).
      cbind (text_expr tt call b env (Suc depth)) (\<lambda>vb. cbind (clift (tv_number vb)) (\<lambda>(r, s).
      cret (XNumber (max p r) (max q s)))))))"
| "text_expr tt call (EIdent n) env depth = text_node tt depth
     (clift (case env n of Some v \<Rightarrow> Inr v | None \<Rightarrow> Inl (TextUnknownBinding n)))"
| "text_expr tt call (EField base name) env depth = text_node tt depth
     (cbind (text_expr tt call base env (Suc depth)) (\<lambda>v. clift (text_field tt v name)))"
| "text_expr tt call (EConcat args) env depth = text_node tt depth
     (cbind (cap_loop (\<lambda>a. text_expr tt call a env (Suc depth)) (Some 0) args) (\<lambda>t. cret (XText t)))"
| "text_expr tt call (EIf cnd a b) env depth = text_node tt depth
     (cbind (text_expr tt call cnd env (Suc depth)) (\<lambda>c. cbind (clift (tv_require TBool c)) (\<lambda>_.
      cbind (text_expr tt call a env (Suc depth)) (\<lambda>va. cbind (text_expr tt call b env (Suc depth)) (\<lambda>vb.
      text_join tt va vb)))))"
| "text_expr tt call (ECall name args) env depth = text_node tt depth
     (case args of
        [arg] \<Rightarrow>
          cbind (text_expr tt call arg env (Suc depth)) (\<lambda>v. cbind (clift (call_input tt name v)) (\<lambda>_. call name))
      | _ \<Rightarrow> cfail (TextCallArity name))"
| "text_expr tt call (EBinary op a b) env depth = text_node tt depth
     (cbind (text_expr tt call a env (Suc depth)) (\<lambda>va. cbind (text_expr tt call b env (Suc depth)) (\<lambda>vb.
      clift (text_binary op va vb))))"
| "text_expr tt call (ENot e) env depth = text_node tt depth
     (cbind (text_expr tt call e env (Suc depth)) (\<lambda>v. cbind (clift (tv_require TBool v)) (\<lambda>_. cret XBool)))"
| "text_expr tt call (ELength e) env depth = text_node tt depth
     (cbind (text_expr tt call e env (Suc depth)) (\<lambda>v. clift (text_length v)))"
| "text_expr tt call (ERecord name fs) env depth = text_node tt depth
     (case tt_concepts tt name of
        None \<Rightarrow> cfail UnknownOutputConcept
      | Some c \<Rightarrow>
          if c_variants c \<noteq> [] \<or> length fs \<noteq> length (c_fields c) then cfail RecordFieldsMismatch
          else cbind (record_loop (\<lambda>e. text_expr tt call e env (Suc depth)) c [] fs)
                 (\<lambda>vals. cret (XRecord name vals)))"
| "text_expr tt call e env depth = text_node tt depth (cfail (UnsupportedText (shape e)))"

section \<open>Rules\<close>

fun text_lets :: "text_tables \<Rightarrow> (string \<Rightarrow> tval tcheck) \<Rightarrow> (string \<times> expr) list \<Rightarrow> (string \<rightharpoonup> tval)
    \<Rightarrow> (string \<rightharpoonup> tval) tcheck" where
  "text_lets tt call [] env = cret env"
| "text_lets tt call ((n, e) # bs) env =
     cbind (text_expr tt call e env 0) (\<lambda>v. text_lets tt call bs (env(n \<mapsto> v)))"

definition text_signature :: "text_tables \<Rightarrow> rule \<Rightarrow> txt_error + string" where
  "text_signature tt r =
     (if r_context_ty r \<noteq> None \<or> r_context_name r \<noteq> None then Inl TextContextUnsupported
      else if r_hints r \<noteq> None then Inl TextHintsUnsupported
      else case r_input_ty r of
        TNamed input \<Rightarrow>
          (case tt_concepts tt input of
             None \<Rightarrow> Inl UnknownConcept
           | Some c \<Rightarrow>
               if c_variants c \<noteq> [] \<or> list_ex (\<lambda>f. f_ty f \<noteq> TNumber \<and> f_ty f \<noteq> TText) (c_fields c)
               then Inl FlatNamedConcept
               else if tt_native tt \<and> list_ex (\<lambda>f. f_ty f = TText \<and>
                      (case f_range f of None \<Rightarrow> False | Some (_, n) \<Rightarrow> \<not> (0 \<le> n \<and> n \<le> 1048576))) (c_fields c)
               then Inl NativeInputCapacity
               else Inr input)
      | _ \<Rightarrow> Inl FlatNamedConcept)"

definition text_contract :: "rule \<Rightarrow> tval \<Rightarrow> txt_error + tval" where
  "text_contract r v =
     rbind (tv_require (r_output_ty r) v) (\<lambda>_.
       case r_output_text_max r of
         None \<Rightarrow> Inr v
       | Some mx \<Rightarrow>
           if mx > 1048576 \<or> r_output_ty r \<noteq> TText then Inl OutputBoundShape
           else case v of
                  XText (Some actual) \<Rightarrow>
                    if actual \<le> mx then Inr (XText (Some mx)) else Inl (OutputTooLong actual mx)
                | _ \<Rightarrow> Inl (OutputCapacityUnknown mx))"

definition text_rule_inner :: "text_tables \<Rightarrow> (string \<Rightarrow> tval tcheck) \<Rightarrow> string \<Rightarrow> tval tcheck" where
  "text_rule_inner tt call name =
     (case tt_rules tt name of
        None \<Rightarrow> cfail (UnknownRuleName name)
      | Some r \<Rightarrow>
          cbind (clift (text_signature tt r)) (\<lambda>input.
          cbind (text_lets tt call (l_bindings (r_logic r)) [r_input_name r \<mapsto> XInput input]) (\<lambda>env.
          cbind (text_expr tt call (l_value (r_logic r)) env 0) (\<lambda>v.
          clift (text_contract r v)))))"

fun text_rule :: "text_tables \<Rightarrow> nat \<Rightarrow> string list \<Rightarrow> string \<Rightarrow> tval tcheck" where
  "text_rule tt 0 visiting name st =
     (case tx_cache st name of Some v \<Rightarrow> (Inr v, st) | None \<Rightarrow> (Inl TextNestedCallLimit, st))"
| "text_rule tt (Suc left) visiting name st =
     (case tx_cache st name of
        Some v \<Rightarrow> (Inr v, st)
      | None \<Rightarrow>
          if name \<in> set visiting then (Inl (TextRecursion name), st)
          else case text_rule_inner tt (text_rule tt left (name # visiting)) name st of
                 (Inl e, st') \<Rightarrow> (Inl (InTextRule name e), st')
               | (Inr v, st') \<Rightarrow> (Inr v, st'\<lparr>tx_cache := (tx_cache st')(name \<mapsto> v)\<rparr>))"

section \<open>Services\<close>

text \<open>The compiler's own HTTP concepts (\<open>src/src/verifier.rs\<close>).\<close>

definition builtin_source :: source_ref where
  "builtin_source = \<lparr>src_file = ''<builtin>'', src_line = 0\<rparr>"

definition builtin_http_request :: "int \<Rightarrow> concept" where
  "builtin_http_request body_max =
     \<lparr>c_name = ''HttpRequest'',
      c_intention = ''A parsed HTTP/1.0 request: method, path, and body (compiler built-in for Protocol::Http10)'',
      c_source = builtin_source,
      c_fields =
        [\<lparr>f_name = ''method'', f_ty = TText, f_range = Some (0, 8)\<rparr>,
         \<lparr>f_name = ''path'', f_ty = TText, f_range = Some (0, 256)\<rparr>,
         \<lparr>f_name = ''body'', f_ty = TText, f_range = Some (0, body_max)\<rparr>],
      c_variants = []\<rparr>"

definition builtin_http_response :: concept where
  "builtin_http_response =
     \<lparr>c_name = ''HttpResponse'',
      c_intention = ''An HTTP/1.0 response: status and body (compiler built-in for Protocol::Http10)'',
      c_source = builtin_source,
      c_fields =
        [\<lparr>f_name = ''status'', f_ty = TNumber, f_range = Some (100, 599)\<rparr>,
         \<lparr>f_name = ''body'', f_ty = TText, f_range = Some (0, 4096)\<rparr>],
      c_variants = []\<rparr>"

fun log_args :: "expr list \<Rightarrow> unit tcheck" where
  "log_args [] = cret ()"
| "log_args (e # es) =
     cbind (\<lambda>st. let st' = st\<lparr>tx_steps := tx_steps st + 1\<rparr> in
       if tx_steps st' > 100000 then (Inl LogLimit, st')
       else case e of
              EText _ \<Rightarrow> (Inr (), st') | ENumber _ \<Rightarrow> (Inr (), st')
            | EField base _ \<Rightarrow>
                (case base of EIdent n \<Rightarrow> if n = ''req'' \<or> n = ''resp'' then (Inr (), st') else (Inl LogShape, st')
                 | _ \<Rightarrow> (Inl LogShape, st'))
            | _ \<Rightarrow> (Inl LogShape, st')) (\<lambda>_. log_args es)"

text \<open>
  \<open>log_shape\<close> at depth 0, where the caller has already established a literal or a concatenation; its
  only recursion is into the arguments of that concatenation, at depth 1 (\<open>log_args\<close>).
\<close>

definition log_shape :: "expr \<Rightarrow> unit tcheck" where
  "log_shape e st =
     (let st' = st\<lparr>tx_steps := tx_steps st + 1\<rparr> in
      if tx_steps st' > 100000 then (Inl LogLimit, st')
      else case e of
             EText _ \<Rightarrow> (Inr (), st') | ENumber _ \<Rightarrow> (Inr (), st')
           | EField base _ \<Rightarrow>
               (case base of EIdent n \<Rightarrow> if n = ''req'' \<or> n = ''resp'' then (Inr (), st') else (Inl LogShape, st')
                | _ \<Rightarrow> (Inl LogShape, st'))
           | EConcat args \<Rightarrow> log_args args st'
           | _ \<Rightarrow> (Inl LogShape, st'))"

definition log_env :: "service \<Rightarrow> tval \<Rightarrow> txt_error + (string \<rightharpoonup> tval)" where
  "log_env s response =
     rbind (declared_fields (c_fields (builtin_http_request (int (s_max_request s))))) (\<lambda>fs.
       Inr [''req'' \<mapsto> XRecord ''HttpRequest'' (AList.update ''timestamp'' (XNumber i64_MIN i64_MAX) fs),
            ''resp'' \<mapsto> response])"

definition service_log :: "text_tables \<Rightarrow> service \<Rightarrow> expr \<Rightarrow> unit tcheck" where
  "service_log tt s content =
     (if \<not> (case content of EText _ \<Rightarrow> True | EConcat _ \<Rightarrow> True | _ \<Rightarrow> False) then cfail LogContent
      else cbind (log_shape content) (\<lambda>_.
        case tt_rules tt (s_handler s) of
          None \<Rightarrow> cfail MissingHandler
        | Some _ \<Rightarrow>
            cbind (text_rule tt max_nested_calls [] (s_handler s)) (\<lambda>response.
            cbind (clift (log_env s response)) (\<lambda>env.
            cbind (text_expr tt (text_rule tt max_nested_calls []) content env 0) (\<lambda>v.
            cbind (clift (tv_require TText v)) (\<lambda>_.
            cbind (clift (tv_capacity v)) (\<lambda>cap.
              case cap of
                None \<Rightarrow> cfail LogCapacityUnknown
              | Some n \<Rightarrow> if n > 1048576 then cfail (LogCapacityExceeded n) else cret ())))))))"

definition state_call :: "service \<Rightarrow> rule \<Rightarrow> state_set \<Rightarrow> (string \<rightharpoonup> rule) \<Rightarrow> txt_error + rule option" where
  "state_call s handler ss rules =
     (case ss_value ss of
        ECall name args \<Rightarrow>
          (case rules name of
             None \<Rightarrow> Inr None
           | Some callee \<Rightarrow>
               (case r_output_text_max callee of
                  None \<Rightarrow> Inr None
                | Some cap \<Rightarrow>
                    if s_protocol s \<noteq> Http10 \<or> s_concurrency s \<noteq> Sequential then Inl StateNeedsSequentialHttp
                    else if length args \<noteq> 1
                      \<or> \<not> (case args ! 0 of EIdent n \<Rightarrow> n = r_input_name handler | _ \<Rightarrow> False)
                      \<or> r_input_ty handler \<noteq> TNamed ''HttpRequest'' \<or> r_input_ty callee \<noteq> r_input_ty handler
                    then Inl StateCallShape
                    else case find (\<lambda>f. sf_name f = ss_field_name ss) (s_state_fields s) of
                      None \<Rightarrow> Inl StateFieldUndeclared
                    | Some f \<Rightarrow>
                        if sf_ty f \<noteq> TText \<or> r_output_ty callee \<noteq> TText then Inl StateNeedsText
                        else (case sf_max_bytes f of
                          None \<Rightarrow> Inl StateCapacityRange
                        | Some mx \<Rightarrow>
                            if \<not> (1 \<le> mx \<and> mx \<le> 65536) then Inl StateCapacityRange
                            else if int cap > mx then Inl (StateCapacityExceeded cap mx)
                            else Inr (Some callee))))
      | _ \<Rightarrow> Inr None)"

section \<open>Programs\<close>

datatype text_diag =
    TextRule string txt_error
  | TextLog string nat txt_error
  | TextAfter string string txt_error
  | TextEffect
  | TextService string

definition http_body_max :: "program \<Rightarrow> int option" where
  "http_body_max p =
     (let ms = concat (map (\<lambda>it. case it of
          IService s \<Rightarrow> if s_protocol s = Http10 then [int (s_max_request s)] else [] | _ \<Rightarrow> []) (p_items p))
      in if ms = [] then None else Some (foldr max ms 0))"

definition text_concepts :: "program \<Rightarrow> concept list" where
  "text_concepts p =
     concepts_of p @ (case http_body_max p of
        None \<Rightarrow> [] | Some mx \<Rightarrow> [builtin_http_request mx, builtin_http_response])"

definition text_new :: "program \<Rightarrow> bool \<Rightarrow> concept list \<Rightarrow> text_tables" where
  "text_new p native cs =
     \<lparr>tt_rules = collect_map (map (\<lambda>r. (r_name r, r)) (rules_of p)),
      tt_concepts = collect_map (map (\<lambda>c. (c_name c, c)) cs),
      tt_native = native\<rparr>"

definition text_start :: text_st where
  "text_start = \<lparr>tx_cache = Map.empty, tx_steps = 0\<rparr>"

definition verify_entry :: "program \<Rightarrow> string \<Rightarrow> txt_error + unit" where
  "verify_entry p name =
     (case text_rule (text_new p True (concepts_of p)) max_nested_calls [] name text_start of
        (Inl e, _) \<Rightarrow> Inl e | (Inr _, _) \<Rightarrow> Inr ())"

fun text_rules :: "text_tables \<Rightarrow> string list \<Rightarrow> text_st \<Rightarrow> text_diag list \<times> text_st" where
  "text_rules tt [] st = ([], st)"
| "text_rules tt (name # names) st =
     (case text_rule tt max_nested_calls [] name st of
        (Inl e, st') \<Rightarrow> (case text_rules tt names st' of (ds, st'') \<Rightarrow> (TextRule name e # ds, st''))
      | (Inr _, st') \<Rightarrow> text_rules tt names st')"

fun text_logs :: "text_tables \<Rightarrow> service \<Rightarrow> nat \<Rightarrow> log_block list \<Rightarrow> text_st \<Rightarrow> text_diag list \<times> text_st" where
  "text_logs tt s i [] st = ([], st)"
| "text_logs tt s i (lb # lbs) st =
     (case (case lb_effect lb of AppendFile _ content \<Rightarrow> service_log tt s content | _ \<Rightarrow> cfail LogNeedsAppendFile) st of
        (r, st') \<Rightarrow>
          (case text_logs tt s (Suc i) lbs st' of
             (ds, st'') \<Rightarrow> (case r of Inl e \<Rightarrow> (TextLog (s_name s) i e # ds, st'') | Inr _ \<Rightarrow> (ds, st''))))"

definition after_diag :: "text_tables \<Rightarrow> string set \<Rightarrow> service \<Rightarrow> state_set \<Rightarrow> text_diag list" where
  "after_diag tt active s ss =
     (if list_ex (\<lambda>n. n \<in> active) (calls (ss_value ss)) then
        (case (case tt_rules tt (s_handler s) of
                 None \<Rightarrow> Inl MissingHandler
               | Some h \<Rightarrow> rbind (state_call s h ss (tt_rules tt))
                   (\<lambda>callee. case callee of None \<Rightarrow> Inl AfterNeedsCompleteCall | Some c \<Rightarrow> Inr c)) of
           Inl e \<Rightarrow> [TextAfter (s_name s) (ss_field_name ss) e] | Inr _ \<Rightarrow> [])
      else [])"

definition item_effects :: "string set \<Rightarrow> item \<Rightarrow> string list" where
  "item_effects active it =
     (case it of
        IReaction rx \<Rightarrow> concat (map effect_calls (rx_effects rx)) @ (if rx_trigger rx \<in> active then [rx_trigger rx] else [])
      | IService s \<Rightarrow> concat (map (\<lambda>lb. effect_calls (lb_effect lb)) (s_logs s))
      | _ \<Rightarrow> [])"

definition text_item :: "text_tables \<Rightarrow> string set \<Rightarrow> item \<Rightarrow> text_st \<Rightarrow> text_diag list \<times> text_st" where
  "text_item tt active it st =
     (case (case it of
              IService s \<Rightarrow>
                (case (if s_handler s \<in> active then text_logs tt s 0 (s_logs s) st else ([], st)) of
                   (ds, st') \<Rightarrow> (ds @ concat (map (after_diag tt active s) (s_after_sets s)), st'))
            | _ \<Rightarrow> ([], st)) of
        (ds, st') \<Rightarrow>
          (ds
           @ (if list_ex (\<lambda>n. n \<in> active) (item_effects active it) then [TextEffect] else [])
           @ (case it of
                IService s \<Rightarrow>
                  if s_handler s \<in> active
                    \<and> (s_protocol s \<noteq> Http10 \<or> s_after_sets s \<noteq> [] \<or> s_state_fields s \<noteq> [])
                  then [TextService (s_name s)] else []
              | _ \<Rightarrow> []),
           st'))"

fun text_items :: "text_tables \<Rightarrow> string set \<Rightarrow> item list \<Rightarrow> text_st \<Rightarrow> text_diag list" where
  "text_items tt active [] st = []"
| "text_items tt active (it # its) st =
     (case text_item tt active it st of (ds, st') \<Rightarrow> ds @ text_items tt active its st')"

definition verify_mode :: "program \<Rightarrow> bool \<Rightarrow> text_diag list" where
  "verify_mode p native =
     (let active = text_participating (rules_of p); tt = text_new p native (text_concepts p) in
      if active = {} then []
      else case text_rules tt (sorted_list_of_set active) text_start of
             (ds, st) \<Rightarrow> ds @ text_items tt active (p_items p) st)"

definition text_verify :: "program \<Rightarrow> text_diag list" where
  "text_verify p = verify_mode p False"

end
