(* ===== verification/Text_Soundness.thy ===== *)
theory Text_Soundness
  imports Text_Bounds Numeric_Soundness
begin

text \<open>
  The bounded text checker against the interpreter: an accepted rule evaluates on every record that
  meets its entry guard, and its text result never exceeds the declared capacity.
\<close>

section \<open>The checker's state\<close>

lemma tx_steps_cache [simp]: "cache_good tx_cache good (st\<lparr>tx_steps := k\<rparr>) = cache_good tx_cache good st"
  by (simp add: cache_good_def)

lemma keeps_text_visit: "keeps (cache_good tx_cache good) m \<Longrightarrow> keeps (cache_good tx_cache good) (text_visit d m)"
  by (simp add: keeps_def text_visit_def Let_def)

lemma keeps_text_node [simp]: "keeps (cache_good tx_cache good) m \<Longrightarrow> keeps (cache_good tx_cache good) (text_node tt d m)"
  by (simp add: text_node_def keeps_text_visit keeps_cbind)

lemma keeps_add_steps [simp]: "keeps (cache_good tx_cache good) (add_steps n e)"
  by (simp add: keeps_def add_steps_def Let_def)

lemma text_join_eq:
  "text_join tt a b =
     cbind (clift (tv_require (tv_ty b) a)) (\<lambda>_.
     cbind (clift (materialize_input tt a)) (\<lambda>a'.
     cbind (clift (materialize_input tt b)) (\<lambda>b' st.
       case (a', b') of
         (XText x, XText y) \<Rightarrow> cret (XText (cap_max x y)) st
       | (XNumber p q, XNumber r s) \<Rightarrow> cret (XNumber (min p r) (max q s)) st
       | (XBool, XBool) \<Rightarrow> cret XBool st
       | (XRecord name fa, XRecord _ fb) \<Rightarrow>
           cbind (add_steps (length fa) FieldVisitLimit) (\<lambda>_.
           cbind (clift (ok_or IndexPanic (tt_concepts tt name))) (\<lambda>c.
           cbind (join_fields tt name (map f_name (c_fields c)) fa fb) (\<lambda>fs.
           cret (XRecord name fs)))) st
       | _ \<Rightarrow> cfail IncompatibleConditional st)))"
  by (rule ext) (rule text_join.simps)

lemma join_fields_eq:
  "join_fields tt name [] fa fb = cret []"
  "join_fields tt name (f # fs) fa fb =
     cbind (clift (ok_or MissingConditionalField (map_of fa f))) (\<lambda>va.
     cbind (clift (ok_or MissingConditionalField (map_of fb f))) (\<lambda>vb.
     cbind (cmap_err (InConditionalField name f) (text_join tt va vb)) (\<lambda>v.
     cbind (join_fields tt name fs (AList.delete f fa) (AList.delete f fb)) (\<lambda>rest.
     cret ((f, v) # rest)))))"
  by (rule ext, rule join_fields.simps)+

lemma keeps_at_basic [simp]: "keeps_at P (cret a) st" "keeps_at P (cfail e) st" "keeps_at P (clift x) st"
  by (simp_all add: keeps_at_def cret_def cfail_def clift_def)

lemma keeps_join:
  "keeps_at (cache_good tx_cache good) (text_join tt a b) st"
  "keeps_at (cache_good tx_cache good) (join_fields tt name fs fa fb) st"
proof (induction tt a b st and tt name fs fa fb st rule: text_join_join_fields.induct)
  case (1 tt a b st)
  have k: "keeps_at (cache_good tx_cache good) (add_steps n e) st" for n e st
    using keeps_add_steps [of good n e] by (simp add: keeps_iff_at)
  have body: "keeps_at (cache_good tx_cache good) (\<lambda>st. case (a', b') of
         (XText x, XText y) \<Rightarrow> cret (XText (cap_max x y)) st
       | (XNumber p q, XNumber r s) \<Rightarrow> cret (XNumber (min p r) (max q s)) st
       | (XBool, XBool) \<Rightarrow> cret XBool st
       | (XRecord name fa, XRecord _ fb) \<Rightarrow>
           cbind (add_steps (length fa) FieldVisitLimit) (\<lambda>_.
           cbind (clift (ok_or IndexPanic (tt_concepts tt name))) (\<lambda>c.
           cbind (join_fields tt name (map f_name (c_fields c)) fa fb) (\<lambda>fs.
           cret (XRecord name fs)))) st
       | _ \<Rightarrow> cfail IncompatibleConditional st) t"
    if "clift (tv_require (tv_ty b) a) st = (Inr u, t1)" "clift (materialize_input tt a) t1 = (Inr a', t2)"
      "clift (materialize_input tt b) t2 = (Inr b', t)" for u t1 a' t2 b' t
  proof (cases "\<exists>name fa name' fb. a' = XRecord name fa \<and> b' = XRecord name' fb")
    case False
    then show ?thesis by (cases a'; cases b') simp_all
  next
    case True
    then obtain name fa name' fb where ab: "a' = XRecord name fa" "b' = XRecord name' fb" by auto
    show ?thesis unfolding ab prod.case tval.case
      by (rule keeps_at_cbind [OF k], rule keeps_at_cbind, simp, rule keeps_at_cbind)
         (use 1 [OF that] ab in simp_all)
  qed
  show ?case
    by (subst text_join_eq, rule keeps_at_cbind, simp, rule keeps_at_cbind, simp,
        rule keeps_at_cbind, simp, rule body)
next
  case 2
  then show ?case by (simp add: join_fields_eq)
next
  case (3 tt name f fs fa fb st)
  show ?case
    by (subst join_fields_eq, rule keeps_at_cbind, simp, rule keeps_at_cbind, simp,
        rule keeps_at_cbind, simp, erule (1) 3, rule keeps_at_cbind, erule (2) 3, simp)
qed

lemma keeps_text_join [simp]: "keeps (cache_good tx_cache good) (text_join tt a b)"
  by (simp add: keeps_iff_at keeps_join)

lemma keeps_cap_loop:
  "(\<And>e. e \<in> set es \<Longrightarrow> keeps (cache_good tx_cache good) (ev e)) \<Longrightarrow> keeps (cache_good tx_cache good) (cap_loop ev tot es)"
  by (induction es arbitrary: tot) (auto intro!: keeps_cbind)

lemma keeps_record_loop:
  "(\<And>n e. (n, e) \<in> set fs \<Longrightarrow> keeps (cache_good tx_cache good) (ev e)) \<Longrightarrow>
     keeps (cache_good tx_cache good) (record_loop ev c vals fs)"
proof (induction fs arbitrary: vals)
  case (Cons nv fs)
  obtain n e where "nv = (n, e)" by (cases nv)
  with Cons.IH Cons.prems [of n e] Cons.prems show ?case
    by (auto intro!: keeps_cbind split: option.splits) blast+
qed simp

lemma keeps_text_expr:
  "(\<And>n. keeps (cache_good tx_cache good) (call n)) \<Longrightarrow> keeps (cache_good tx_cache good) (text_expr tt call e env d)"
proof (induction tt call e env d rule: text_expr.induct)
  case (11 tt call name args env d)
  then show ?case by (auto intro!: keeps_cbind keeps_text_node split: list.splits)
next
  case (15 tt call name fs env d)
  then show ?case by (auto intro!: keeps_cbind keeps_text_node keeps_record_loop split: option.splits)
qed (auto intro!: keeps_cbind keeps_text_node keeps_cap_loop split: prod.splits)

lemma keeps_text_lets:
  "(\<And>n. keeps (cache_good tx_cache good) (call n)) \<Longrightarrow> keeps (cache_good tx_cache good) (text_lets tt call bs env)"
  by (induction tt call bs env rule: text_lets.induct) (simp_all add: keeps_cbind keeps_text_expr)

lemma keeps_text_rule_inner:
  "call_good tx_cache good call \<Longrightarrow> keeps (cache_good tx_cache good) (text_rule_inner tt call name)"
  by (auto simp: text_rule_inner_def call_good_def split: option.splits
    intro!: keeps_cbind keeps_text_lets keeps_text_expr)

section \<open>Well-formed values\<close>

fun tv_wf :: "tval \<Rightarrow> bool" where
  "tv_wf (XNumber lo hi) \<longleftrightarrow> valid_ivl (lo, hi)"
| "tv_wf (XRecord _ fs) \<longleftrightarrow> (\<forall>kv \<in> set fs. tv_wf (snd kv))"
| "tv_wf _ \<longleftrightarrow> True"

definition text_i64 :: "text_tables \<Rightarrow> bool" where
  "text_i64 tt \<longleftrightarrow> (\<forall>n c. tt_concepts tt n = Some c \<longrightarrow> concept_i64 c)"

lemma declared_field_wf:
  assumes "declared_field f = Inr v" "concept_i64 c" "f \<in> set (c_fields c)"
  shows "tv_wf v"
proof -
  have "case f_range f of None \<Rightarrow> True | Some (lo, hi) \<Rightarrow> in_i64 lo \<and> in_i64 hi"
    using assms(2,3) by (auto simp: concept_i64_def list_all_iff)
  with assms(1) show ?thesis
    by (auto simp: declared_field_def valid_ivl_def in_i64_def split: vtype.splits option.splits if_splits)
qed

lemma declared_fields_wf:
  assumes "declared_fields fs = Inr kvs" "concept_i64 c" "set fs \<subseteq> set (c_fields c)"
  shows "\<forall>kv \<in> set kvs. tv_wf (snd kv)"
proof
  fix kv assume kv: "kv \<in> set kvs"
  from assms(1) obtain l where l: "rmapM (\<lambda>f. rbind (declared_field f) (\<lambda>v. Inr (f_name f, v))) fs = Inr l"
    and kvs: "kvs = foldl (\<lambda>m (k, v). AList.update k v m) [] l"
    by (auto simp: declared_fields_def rbind_eq_Inr)
  have "kv \<in> set l" using kv kvs insert_all_members [of "[]" l] by auto
  with rmapM_members [OF l] obtain f where "f \<in> set fs" "declared_field f = Inr (snd kv)"
    by (fastforce simp: rbind_eq_Inr)
  with declared_field_wf assms(2,3) show "tv_wf (snd kv)" by blast
qed

lemma materialize_wf: "materialize_input tt a = Inr a' \<Longrightarrow> text_i64 tt \<Longrightarrow> tv_wf a \<Longrightarrow> tv_wf a'"
  by (cases a) (auto simp: materialize_input_def rbind_eq_Inr text_i64_def
    split: option.splits dest!: declared_fields_wf)

lemma input_field_wf: "input_field tt cn n = Inr v \<Longrightarrow> text_i64 tt \<Longrightarrow> tv_wf v"
  by (auto simp: input_field_def text_i64_def split: option.splits dest!: find_SomeD intro: declared_field_wf)

lemma join_cases:
  assumes "text_join tt a b st = (Inr v, st')"
  obtains (strings) x y where "materialize_input tt a = Inr (XText x)" "materialize_input tt b = Inr (XText y)" "v = XText (cap_max x y)"
    | (numbers) p q r s where "materialize_input tt a = Inr (XNumber p q)" "materialize_input tt b = Inr (XNumber r s)"
        "v = XNumber (min p r) (max q s)"
    | (booleans) "materialize_input tt a = Inr XBool" "materialize_input tt b = Inr XBool" "v = XBool"
    | (records) name fa name' fb c fs u t where "materialize_input tt a = Inr (XRecord name fa)"
        "materialize_input tt b = Inr (XRecord name' fb)" "tv_require (tv_ty b) a = Inr ()"
        "add_steps (length fa) FieldVisitLimit st = (Inr u, t)"
        "tt_concepts tt name = Some c" "join_fields tt name (map f_name (c_fields c)) fa fb t = (Inr fs, st')"
        "v = XRecord name fs"
proof -
  from assms obtain a' b' where ab: "materialize_input tt a = Inr a'" "materialize_input tt b = Inr b'"
    and rest: "(case (a', b') of
         (XText x, XText y) \<Rightarrow> cret (XText (cap_max x y)) st
       | (XNumber p q, XNumber r s) \<Rightarrow> cret (XNumber (min p r) (max q s)) st
       | (XBool, XBool) \<Rightarrow> cret XBool st
       | (XRecord name fa, XRecord _ fb) \<Rightarrow>
           cbind (add_steps (length fa) FieldVisitLimit) (\<lambda>_.
           cbind (clift (ok_or IndexPanic (tt_concepts tt name))) (\<lambda>c.
           cbind (join_fields tt name (map f_name (c_fields c)) fa fb) (\<lambda>fs.
           cret (XRecord name fs)))) st
       | _ \<Rightarrow> cfail IncompatibleConditional st) = (Inr v, st')"
    and req: "tv_require (tv_ty b) a = Inr ()"
    by (auto simp: text_join_eq res_simps)
  consider x y where "a' = XText x" "b' = XText y" | p q r s where "a' = XNumber p q" "b' = XNumber r s"
    | "a' = XBool" "b' = XBool" | name fa name' fb where "a' = XRecord name fa" "b' = XRecord name' fb"
    using rest by (cases a'; cases b') (auto simp: res_simps)
  then show ?thesis
  proof cases
    case (4 name fa name' fb)
    with rest obtain u t c fs where "add_steps (length fa) FieldVisitLimit st = (Inr u, t)"
      "tt_concepts tt name = Some c" "join_fields tt name (map f_name (c_fields c)) fa fb t = (Inr fs, st')"
      "v = XRecord name fs" by (auto simp: res_simps)
    with 4 ab req show ?thesis by (intro records) auto
  qed (use rest ab strings numbers booleans in \<open>auto simp: res_simps\<close>)
qed

lemma join_fields_Cons:
  assumes "join_fields tt name (f # fs) fa fb st = (Inr vs, st')"
  obtains va vb v t rest where "map_of fa f = Some va" "map_of fb f = Some vb" "text_join tt va vb st = (Inr v, t)"
    "join_fields tt name fs (AList.delete f fa) (AList.delete f fb) t = (Inr rest, st')" "vs = (f, v) # rest"
  using assms by (auto simp: join_fields_eq res_simps)

lemma join_wf:
  "text_join tt a b st = (Inr v, st') \<Longrightarrow> text_i64 tt \<Longrightarrow> tv_wf a \<Longrightarrow> tv_wf b \<Longrightarrow> tv_wf v"
  "join_fields tt name fs fa fb st = (Inr vs, st') \<Longrightarrow> text_i64 tt \<Longrightarrow>
     \<forall>kv \<in> set fa. tv_wf (snd kv) \<Longrightarrow> \<forall>kv \<in> set fb. tv_wf (snd kv) \<Longrightarrow> \<forall>kv \<in> set vs. tv_wf (snd kv)"
proof (induction tt a b st and tt name fs fa fb st arbitrary: v st' and vs st' rule: text_join_join_fields.induct)
  case (1 tt a b st)
  note m = materialize_wf [OF _ "1.prems"(2,3)] materialize_wf [OF _ "1.prems"(2,4)]
  from "1.prems"(1) show ?case
  proof (cases rule: join_cases)
    case (numbers p q r s)
    with m show ?thesis by (fastforce simp: valid_ivl_def)
  next
    case (records name fa name' fb c fs u t)
    have "\<forall>kv \<in> set fs. tv_wf (snd kv)"
      by (rule "1.IH" [OF _ _ _ refl refl refl records(4) _ records(6)])
         (use records m "1.prems"(2) in \<open>auto simp: clift_def ok_or_def\<close>)
    with records show ?thesis by simp
  qed simp_all
next
  case 2
  then show ?case by (simp add: join_fields_eq res_simps)
next
  case (3 tt name f fs fa fb st)
  from join_fields_Cons [OF "3.prems"(1)] obtain va vb v t rest where m: "map_of fa f = Some va" "map_of fb f = Some vb"
    and j: "text_join tt va vb st = (Inr v, t)"
    and r: "join_fields tt name fs (AList.delete f fa) (AList.delete f fb) t = (Inr rest, st')"
    and vs: "vs = (f, v) # rest" by blast
  have "tv_wf va" "tv_wf vb" using m "3.prems"(3,4) by (auto dest!: map_of_SomeD)
  then have "tv_wf v"
    using "3.IH"(1) [OF _ _ j "3.prems"(2)] m by (auto simp: clift_def ok_or_def)
  moreover have "\<forall>kv \<in> set rest. tv_wf (snd kv)"
    by (rule "3.IH"(2) [OF _ _ _ r "3.prems"(2)])
       (use m j "3.prems"(3,4) in \<open>auto simp: clift_def ok_or_def cmap_err_def rmap_err_def AList.delete_eq\<close>)
  ultimately show ?case using vs by simp
qed

lemma text_visit_eq_Inr [res_simps]: "text_visit d m st = (Inr a, st') \<longleftrightarrow>
    tx_steps st < 100000 \<and> d \<le> 256 \<and> m (st\<lparr>tx_steps := tx_steps st + 1\<rparr>) = (Inr a, st')"
  by (auto simp: text_visit_def Let_def)

lemma text_node_native: "text_node tt d m st = (Inr v, st') \<Longrightarrow> native_cap tt v = Inr v"
  by (auto simp: text_node_def text_visit_eq_Inr cbind_eq_Inr clift_eq_Inr native_cap_def split: if_splits)

lemma text_node_D:
  "text_node tt d m st = (Inr v, st') \<Longrightarrow> m (st\<lparr>tx_steps := tx_steps st + 1\<rparr>) = (Inr v, st')"
  by (auto simp: text_node_def text_visit_eq_Inr cbind_eq_Inr clift_eq_Inr native_cap_def split: if_splits)

lemma tv_number_eq: "tv_number v = Inr p \<longleftrightarrow> v = XNumber (fst p) (snd p)"
  by (cases v; cases p) (auto simp: tv_number_def)

lemma tv_require_eq: "tv_require ty v = Inr u \<longleftrightarrow> tv_ty v = ty"
  by (auto simp: tv_require_def)

lemma text_neg_eq: "text_neg p = Inr v \<longleftrightarrow> (\<exists>q. neg_ivl p = Inr q \<and> v = XNumber (fst q) (snd q))"
  by (cases p) (auto simp: text_neg_def neg_ivl_def)

lemma text_abs_eq: "text_abs p = Inr v \<longleftrightarrow> (\<exists>q. abs_ivl p = Inr q \<and> v = XNumber (fst q) (snd q))"
  by (cases p) (auto simp: text_abs_def abs_ivl_def)

lemma text_binary_cases:
  assumes "text_binary op a b = Inr v"
  obtains (eq) "op = OpEq \<or> op = OpNotEq" "tv_ty a = tv_ty b" "is_scalar_tval a" "v = XBool"
    | (logic) "op = OpAnd \<or> op = OpOr" "tv_ty a = TBool" "tv_ty b = TBool" "v = XBool"
    | (ord) "op \<in> {OpGt, OpLt, OpGtEq, OpLtEq}" "tv_ty a = TNumber" "tv_ty b = TNumber" "v = XBool"
    | (arith) p q r where "a = XNumber (fst p) (snd p)" "b = XNumber (fst q) (snd q)"
        "interval_arith op p q = Inr r" "v = XNumber (fst r) (snd r)"
proof (cases "op = OpEq \<or> op = OpNotEq")
  case True
  with assms eq show ?thesis by (auto simp: text_binary_def rbind_eq_Inr tv_require_eq split: if_splits)
next
  case no_eq: False
  show ?thesis
  proof (cases "op = OpAnd \<or> op = OpOr")
    case True
    with assms no_eq logic show ?thesis by (auto simp: text_binary_def rbind_eq_Inr tv_require_eq)
  next
    case no_logic: False
    have def: "text_binary op a b = (if op \<in> {OpGt, OpLt, OpGtEq, OpLtEq} then
        rbind (tv_require TNumber a) (\<lambda>_. rbind (tv_require TNumber b) (\<lambda>_. Inr XBool))
      else rbind (tv_number a) (\<lambda>p. rbind (tv_number b) (\<lambda>q.
        rbind (rmap_err TextArithmetic (interval_arith op p q)) (\<lambda>(lo, hi). Inr (XNumber lo hi)))))"
      using no_eq no_logic by (simp only: text_binary_def if_False)
    show ?thesis
    proof (cases "op \<in> {OpGt, OpLt, OpGtEq, OpLtEq}")
      case True
      with assms def have "rbind (tv_require TNumber a) (\<lambda>_. rbind (tv_require TNumber b) (\<lambda>_. Inr XBool)) = Inr v" by simp
      then show ?thesis using ord [OF True] by (auto simp: rbind_eq_Inr tv_require_eq)
    next
      case False
      with assms def have "rbind (tv_number a) (\<lambda>p. rbind (tv_number b) (\<lambda>q.
        rbind (rmap_err TextArithmetic (interval_arith op p q)) (\<lambda>(lo, hi). Inr (XNumber lo hi)))) = Inr v" by simp
      then obtain p q r where "a = XNumber (fst p) (snd p)" "b = XNumber (fst q) (snd q)"
        "interval_arith op p q = Inr r" "v = XNumber (fst r) (snd r)"
        by (auto simp: rbind_eq_Inr tv_number_eq case_prod_unfold)
      then show ?thesis by (rule arith)
    qed
  qed
qed

lemma lits_more:
  "lits_i64 (EField a n) \<longleftrightarrow> lits_i64 a" "lits_i64 (EConcat es) \<longleftrightarrow> list_all lits_i64 es"
  "lits_i64 (ECall n es) \<longleftrightarrow> list_all lits_i64 es" "lits_i64 (ELength a) \<longleftrightarrow> lits_i64 a"
  "lits_i64 (ERecord n fs) \<longleftrightarrow> (\<forall>kv \<in> set fs. lits_i64 (snd kv))"
  by (subst lits_i64.simps; auto simp: expr_children_def list_all_iff)+

lemma text_expr_cache:
  assumes "call_good tx_cache good call" "cache_good tx_cache good st" "text_expr tt call e env d st = (res, st')"
  shows "cache_good tx_cache good st'"
  by (rule keepsD [OF keeps_text_expr assms(2,3)]) (use assms(1) in \<open>simp add: call_good_def\<close>)

lemma min_max_node:
  assumes "text_expr tt call e env d st = (Inr v, st')" "(e = EMin a b \<and> g = min) \<or> (e = EMax a b \<and> g = max)"
  obtains p q s1 where "text_expr tt call a env (Suc d) (st\<lparr>tx_steps := tx_steps st + 1\<rparr>) = (Inr (XNumber (fst p) (snd p)), s1)"
    "text_expr tt call b env (Suc d) s1 = (Inr (XNumber (fst q) (snd q)), st')"
    "v = XNumber (g (fst p) (fst q)) (g (snd p) (snd q))"
proof -
  from assms have "cbind (text_expr tt call a env (Suc d)) (\<lambda>va. cbind (clift (tv_number va)) (\<lambda>(p, q).
      cbind (text_expr tt call b env (Suc d)) (\<lambda>vb. cbind (clift (tv_number vb)) (\<lambda>(r, s).
      cret (XNumber (g p r) (g q s)))))) (st\<lparr>tx_steps := tx_steps st + 1\<rparr>) = (Inr v, st')"
    by (auto dest!: text_node_D)
  then obtain va s1 p vb q where "text_expr tt call a env (Suc d) (st\<lparr>tx_steps := tx_steps st + 1\<rparr>) = (Inr va, s1)"
    "tv_number va = Inr p" "text_expr tt call b env (Suc d) s1 = (Inr vb, st')" "tv_number vb = Inr q"
    "v = XNumber (g (fst p) (fst q)) (g (snd p) (snd q))"
    by (auto simp: res_simps case_prod_unfold)
  then show ?thesis using that by (simp add: tv_number_eq)
qed

lemma text_call_node:
  assumes "text_expr tt call (ECall name args) env d st = (Inr v, st')"
  obtains arg av t where "args = [arg]"
    "text_expr tt call arg env (Suc d) (st\<lparr>tx_steps := tx_steps st + 1\<rparr>) = (Inr av, t)"
    "call_input tt name av = Inr ()" "call name t = (Inr v, st')"
proof -
  from text_node_D [OF assms [unfolded text_expr.simps]] obtain arg where arg: "args = [arg]"
    by (auto simp: cfail_def split: list.splits)
  from text_node_D [OF assms [unfolded text_expr.simps]] arg that show ?thesis
    by (auto simp: res_simps)
qed

definition text_good :: "text_tables \<Rightarrow> (string \<Rightarrow> tval \<Rightarrow> bool) \<Rightarrow> bool" where
  "text_good tt good \<longleftrightarrow> (\<forall>n v. good n v \<longrightarrow> tv_wf v)"

lemma cap_loop_scalars:
  "cap_loop ev tot es st = (Inr t, st') \<Longrightarrow> tot = None \<Longrightarrow> t = None"
  by (induction es arbitrary: tot st) (auto simp: res_simps add_cap_def split: option.splits)

lemma record_loop_wf:
  assumes "record_loop ev c vals fs st = (Inr vs, st')" "cache_good tx_cache good st" "\<forall>kv \<in> set vals. tv_wf (snd kv)"
    and "\<And>n e. (n, e) \<in> set fs \<Longrightarrow> keeps (cache_good tx_cache good) (ev e)"
    and "\<And>n e st v st'. (n, e) \<in> set fs \<Longrightarrow> cache_good tx_cache good st \<Longrightarrow> ev e st = (Inr v, st') \<Longrightarrow> tv_wf v"
  shows "\<forall>kv \<in> set vs. tv_wf (snd kv)"
  using assms
proof (induction fs arbitrary: vals st)
  case (Cons ne fs)
  obtain n e where ne: "ne = (n, e)" by (cases ne)
  from Cons.prems(1) ne obtain v t where v: "ev e st = (Inr v, t)" "record_loop ev c ((n, v) # vals) fs t = (Inr vs, st')"
    by (auto simp: res_simps split: option.splits if_splits)
  have "cache_good tx_cache good t" "tv_wf v"
    using keepsD [OF Cons.prems(4) Cons.prems(2) v(1)] Cons.prems(5) [OF _ Cons.prems(2) v(1)] ne by auto
  then show ?case using Cons.IH [OF v(2)] Cons.prems(3-5) by (metis list.set_intros(2) set_ConsD snd_conv)
qed (simp add: res_simps)

lemma text_expr_wf:
  "call_good tx_cache good call \<Longrightarrow> text_good tt good \<Longrightarrow> text_i64 tt \<Longrightarrow> cache_good tx_cache good st \<Longrightarrow>
     \<forall>n v. env n = Some v \<longrightarrow> tv_wf v \<Longrightarrow> lits_i64 e \<Longrightarrow> text_expr tt call e env d st = (Inr v, st') \<Longrightarrow> tv_wf v"
proof (induction tt call e env d arbitrary: st v st' rule: text_expr.induct)
  case (1 tt call s env d)
  then show ?case by (auto simp: res_simps dest!: text_node_D)
next
  case (2 tt call n env d)
  then show ?case by (auto simp: res_simps lits_simps valid_ivl_def dest!: text_node_D)
next
  case (3 tt call e env d)
  from text_node_D [OF "3.prems"(7) [unfolded text_expr.simps]] obtain p q s1 where e: "text_expr tt call e env (Suc d) (st\<lparr>tx_steps := tx_steps st + 1\<rparr>) = (Inr (XNumber (fst p) (snd p)), s1)"
    "neg_ivl p = Inr q" "v = XNumber (fst q) (snd q)"
    by (auto simp: res_simps tv_number_eq text_neg_eq)
  have "valid_ivl p"
    using "3.IH" [OF "3.prems"(1-3) _ "3.prems"(5) _ e(1)] "3.prems"(4,6) by (simp add: lits_simps)
  then show ?case using negate.f_valid [OF _ e(2)] e(3) by simp
next
  case (4 tt call e env d)
  from text_node_D [OF "4.prems"(7) [unfolded text_expr.simps]] obtain p q s1 where e: "text_expr tt call e env (Suc d) (st\<lparr>tx_steps := tx_steps st + 1\<rparr>) = (Inr (XNumber (fst p) (snd p)), s1)"
    "abs_ivl p = Inr q" "v = XNumber (fst q) (snd q)"
    by (auto simp: res_simps tv_number_eq text_abs_eq)
  have "valid_ivl p"
    using "4.IH" [OF "4.prems"(1-3) _ "4.prems"(5) _ e(1)] "4.prems"(4,6) by (simp add: lits_simps)
  then show ?case using absolute.f_valid [OF _ e(2)] e(3) by simp
next
  case (5 tt call a b env d)
  obtain p q s1 where a: "text_expr tt call a env (Suc d) (st\<lparr>tx_steps := tx_steps st + 1\<rparr>) = (Inr (XNumber (fst p) (snd p)), s1)"
    and b: "text_expr tt call b env (Suc d) s1 = (Inr (XNumber (fst q) (snd q)), st')"
    and v: "v = XNumber (min (fst p) (fst q)) (min (snd p) (snd q))"
    by (rule min_max_node [OF "5.prems"(7), of a b min]) simp_all
  have s1: "cache_good tx_cache good s1" using text_expr_cache [OF "5.prems"(1) _ a] "5.prems"(4) by simp
  have "valid_ivl p" "valid_ivl q"
    using "5.IH"(1) [OF "5.prems"(1-3) _ "5.prems"(5) _ a] "5.IH"(2) [OF "5.prems"(1-3) s1 "5.prems"(5) _ b]
      "5.prems"(4,6) by (simp_all add: lits_simps)
  then show ?case using v by (auto simp: valid_ivl_def in_i64_def)
next
  case (6 tt call a b env d)
  obtain p q s1 where a: "text_expr tt call a env (Suc d) (st\<lparr>tx_steps := tx_steps st + 1\<rparr>) = (Inr (XNumber (fst p) (snd p)), s1)"
    and b: "text_expr tt call b env (Suc d) s1 = (Inr (XNumber (fst q) (snd q)), st')"
    and v: "v = XNumber (max (fst p) (fst q)) (max (snd p) (snd q))"
    by (rule min_max_node [OF "6.prems"(7), of a b max]) simp_all
  have s1: "cache_good tx_cache good s1" using text_expr_cache [OF "6.prems"(1) _ a] "6.prems"(4) by simp
  have "valid_ivl p" "valid_ivl q"
    using "6.IH"(1) [OF "6.prems"(1-3) _ "6.prems"(5) _ a] "6.IH"(2) [OF "6.prems"(1-3) s1 "6.prems"(5) _ b]
      "6.prems"(4,6) by (simp_all add: lits_simps)
  then show ?case using v by (auto simp: valid_ivl_def in_i64_def)
next
  case (7 tt call n env d)
  then show ?case by (auto simp: res_simps split: option.splits dest!: text_node_D)
next
  case (8 tt call base name env d)
  from text_node_D [OF "8.prems"(7) [unfolded text_expr.simps]] obtain b s1 where b: "text_expr tt call base env (Suc d) (st\<lparr>tx_steps := tx_steps st + 1\<rparr>) = (Inr b, s1)"
    and f: "text_field tt b name = Inr v" by (auto simp: res_simps)
  have "tv_wf b"
    using "8.IH" [OF "8.prems"(1-3) _ "8.prems"(5) _ b] "8.prems"(4,6) by (simp add: lits_more)
  with f "8.prems"(3) show ?case
    by (auto simp: text_field_def input_field_wf split: tval.splits option.splits dest!: map_of_SomeD)
next
  case (9 tt call args env d)
  then show ?case by (auto simp: res_simps dest!: text_node_D)
next
  case (10 tt call c a b env d)
  from text_node_D [OF "10.prems"(7) [unfolded text_expr.simps]] obtain vc s1 va s2 vb s3 where c: "text_expr tt call c env (Suc d) (st\<lparr>tx_steps := tx_steps st + 1\<rparr>) = (Inr vc, s1)"
    and a: "text_expr tt call a env (Suc d) s1 = (Inr va, s2)" and b: "text_expr tt call b env (Suc d) s2 = (Inr vb, s3)"
    and j: "text_join tt va vb s3 = (Inr v, st')" by (auto simp: res_simps)
  have s1: "cache_good tx_cache good s1" using text_expr_cache [OF "10.prems"(1) _ c] "10.prems"(4) by simp
  have s2: "cache_good tx_cache good s2" by (rule text_expr_cache [OF "10.prems"(1) s1 a])
  have "tv_wf va" "tv_wf vb"
    using "10.IH"(2) [OF "10.prems"(1-3) s1 "10.prems"(5) _ a] "10.IH"(3) [OF "10.prems"(1-3) s2 "10.prems"(5) _ b]
      "10.prems"(6) by (simp_all add: lits_simps)
  then show ?case by (rule join_wf(1) [OF j "10.prems"(3)])
next
  case (11 tt call name args env d)
  obtain arg av t where "args = [arg]"
    "text_expr tt call arg env (Suc d) (st\<lparr>tx_steps := tx_steps st + 1\<rparr>) = (Inr av, t)" "call name t = (Inr v, st')" by (rule text_call_node [OF "11.prems"(7)])
  moreover from this have "cache_good tx_cache good t"
    using text_expr_cache [OF "11.prems"(1), of "st\<lparr>tx_steps := tx_steps st + 1\<rparr>"] "11.prems"(4) by simp
  ultimately show ?case using "11.prems"(1,2) unfolding call_good_def text_good_def by blast
next
  case (12 tt call op a b env d)
  from text_node_D [OF "12.prems"(7) [unfolded text_expr.simps]] obtain va s1 vb where a: "text_expr tt call a env (Suc d) (st\<lparr>tx_steps := tx_steps st + 1\<rparr>) = (Inr va, s1)"
    and b: "text_expr tt call b env (Suc d) s1 = (Inr vb, st')" and v: "text_binary op va vb = Inr v"
    by (auto simp: res_simps)
  have s1: "cache_good tx_cache good s1" using text_expr_cache [OF "12.prems"(1) _ a] "12.prems"(4) by simp
  have wf: "tv_wf va" "tv_wf vb"
    using "12.IH"(1) [OF "12.prems"(1-3) _ "12.prems"(5) _ a] "12.IH"(2) [OF "12.prems"(1-3) s1 "12.prems"(5) _ b]
      "12.prems"(4,6) by (simp_all add: lits_simps)
  from v show ?case
  proof (cases rule: text_binary_cases)
    case (arith p q r)
    then show ?thesis using wf interval_arith_valid [OF arith(3)] by simp
  qed simp_all
next
  case (13 tt call e env d)
  then show ?case by (auto simp: res_simps dest!: text_node_D)
next
  case (14 tt call e env d)
  from text_node_D [OF "14.prems"(7) [unfolded text_expr.simps]] obtain w where "text_length w = Inr v"
    by (auto simp: res_simps)
  then show ?case by (cases w) (auto simp: text_length_def valid_ivl_def in_i64_def split: option.splits)
next
  case (15 tt call name fs env d)
  from text_node_D [OF "15.prems"(7) [unfolded text_expr.simps]] obtain c vals where c: "tt_concepts tt name = Some c" "c_variants c = []" "length fs = length (c_fields c)"
    and l: "record_loop (\<lambda>e. text_expr tt call e env (Suc d)) c [] fs (st\<lparr>tx_steps := tx_steps st + 1\<rparr>) = (Inr vals, st')"
    and v: "v = XRecord name vals" by (auto simp: res_simps split: option.splits if_splits)
  have "\<forall>kv \<in> set vals. tv_wf (snd kv)"
  proof (rule record_loop_wf [OF l, of good])
    fix n e assume ne: "(n, e) \<in> set fs"
    show "keeps (cache_good tx_cache good) (text_expr tt call e env (Suc d))"
      using keeps_text_expr "15.prems"(1) by (auto simp: call_good_def)
    have "lits_i64 e" using "15.prems"(6) ne by (auto simp: lits_more)
    then show "tv_wf v" if "cache_good tx_cache good st" "text_expr tt call e env (Suc d) st = (Inr v, st')" for st v st'
      using "15.IH" [OF c(1) _ ne "15.prems"(1-3) that(1) "15.prems"(5) _ that(2)] c by simp
  qed (use "15.prems"(4) in simp_all)
  then show ?case using v by simp
qed (auto simp: res_simps dest!: text_node_D)

section \<open>Values that a run produces\<close>

fun tv_has :: "text_tables \<Rightarrow> tval \<Rightarrow> val \<Rightarrow> bool" where
  "tv_has tt (XNumber lo hi) v \<longleftrightarrow> valid_ivl (lo, hi) \<and> (\<exists>n. v = VNumber n \<and> lo \<le> n \<and> n \<le> hi)"
| "tv_has tt XBool v \<longleftrightarrow> (\<exists>b. v = VBool b)"
| "tv_has tt (XText cap) v \<longleftrightarrow> (\<exists>s. v = VText s \<and> (case cap of None \<Rightarrow> True | Some k \<Rightarrow> length s \<le> k))"
| "tv_has tt (XInput cn) v \<longleftrightarrow> (\<exists>c fs. tt_concepts tt cn = Some c \<and> v = VRecord fs \<and> input_ok c fs)"
| "tv_has tt (XRecord _ kvs) v \<longleftrightarrow>
     (\<exists>fs. v = VRecord fs \<and> (\<forall>kv \<in> set kvs. \<exists>x. map_of fs (fst kv) = Some x \<and> tv_has tt (snd kv) x))"

definition fields_have :: "text_tables \<Rightarrow> (string \<times> tval) list \<Rightarrow> (string \<times> val) list \<Rightarrow> bool" where
  "fields_have tt kvs fs \<longleftrightarrow> (\<forall>kv \<in> set kvs. \<exists>x. map_of fs (fst kv) = Some x \<and> tv_has tt (snd kv) x)"

lemma tv_has_record: "tv_has tt (XRecord n kvs) v \<longleftrightarrow> (\<exists>fs. v = VRecord fs \<and> fields_have tt kvs fs)"
  by (auto simp: fields_have_def)

lemma declared_field_has:
  assumes "declared_field f = Inr v" "f \<in> set (c_fields c)" "input_ok c fs" "concept_i64 c"
  shows "\<exists>x. map_of fs (f_name f) = Some x \<and> tv_has tt v x"
proof -
  note wf = declared_field_wf [OF assms(1,4,2)]
  have ok: "field_ok f (map_of fs (f_name f))" and
    num: "case map_of fs (f_name f) of Some (VNumber n) \<Rightarrow> in_i64 n | _ \<Rightarrow> True"
    using assms(2,3) by (auto simp: input_ok_def)
  consider "f_ty f = TNumber" | "f_ty f = TText"
    using assms(1) by (auto simp: declared_field_def split: vtype.splits)
  then show ?thesis
  proof cases
    case 1
    with ok obtain n where "map_of fs (f_name f) = Some (VNumber n)"
      "case f_range f of None \<Rightarrow> True | Some (mn, mx) \<Rightarrow> mn \<le> n \<and> n \<le> mx"
      by (auto simp: field_ok_def split: option.splits val.splits)
    with 1 num wf assms(1) show ?thesis
      by (auto simp: declared_field_def in_i64_def split: option.splits if_splits)
  next
    case 2
    with ok obtain s where "map_of fs (f_name f) = Some (VText s)"
      "case f_range f of None \<Rightarrow> True | Some (_, mx) \<Rightarrow> int (length s) \<le> mx"
      by (auto simp: field_ok_def split: option.splits val.splits)
    with 2 assms(1) show ?thesis
      by (auto simp: declared_field_def declared_capacity_def split: option.splits if_splits)
  qed
qed

lemma declared_fields_have:
  assumes "declared_fields gs = Inr kvs" "set gs \<subseteq> set (c_fields c)" "input_ok c fs" "concept_i64 c"
  shows "fields_have tt kvs fs"
  unfolding fields_have_def
proof
  fix kv assume kv: "kv \<in> set kvs"
  from assms(1) obtain l where l: "rmapM (\<lambda>f. rbind (declared_field f) (\<lambda>v. Inr (f_name f, v))) gs = Inr l"
    and kvs: "kvs = foldl (\<lambda>m (k, v). AList.update k v m) [] l"
    by (auto simp: declared_fields_def rbind_eq_Inr)
  have "kv \<in> set l" using kv kvs insert_all_members [of "[]" l] by auto
  with rmapM_members [OF l] obtain f where "f \<in> set gs" "declared_field f = Inr (snd kv)" "fst kv = f_name f"
    by (fastforce simp: rbind_eq_Inr)
  with declared_field_has [of f "snd kv" c fs tt] assms(2-4) show "\<exists>x. map_of fs (fst kv) = Some x \<and> tv_has tt (snd kv) x"
    by auto
qed

lemma materialize_has:
  assumes "materialize_input tt a = Inr a'" "text_i64 tt" "tv_has tt a x"
  shows "tv_has tt a' x"
proof (cases "\<exists>n. a = XInput n")
  case True
  then obtain n c kvs fs where a: "tt_concepts tt n = Some c" "declared_fields (c_fields c) = Inr kvs" "a' = XRecord n kvs"
    "x = VRecord fs" "input_ok c fs"
    using assms(1,3) by (auto simp: materialize_input_def rbind_eq_Inr)
  then show ?thesis
    using declared_fields_have [OF a(2) _ a(5)] assms(2)
    by (auto simp: tv_has_record text_i64_def simp del: tv_has.simps)
next
  case False
  with assms show ?thesis by (cases a) (auto simp: materialize_input_def)
qed

lemma fields_have_delete: "fields_have tt kvs fs \<Longrightarrow> fields_have tt (AList.delete k kvs) fs"
  by (auto simp: fields_have_def AList.delete_eq)

lemma join_has:
  "text_join tt a b st = (Inr v, st') \<Longrightarrow> text_i64 tt \<Longrightarrow> tv_wf a \<Longrightarrow> tv_wf b \<Longrightarrow>
     tv_has tt a x \<or> tv_has tt b x \<Longrightarrow> tv_has tt v x"
  "join_fields tt name fs fa fb st = (Inr vs, st') \<Longrightarrow> text_i64 tt \<Longrightarrow>
     \<forall>kv \<in> set fa. tv_wf (snd kv) \<Longrightarrow> \<forall>kv \<in> set fb. tv_wf (snd kv) \<Longrightarrow>
     fields_have tt fa ws \<or> fields_have tt fb ws \<Longrightarrow> fields_have tt vs ws"
proof (induction tt a b st and tt name fs fa fb st arbitrary: v st' x and vs st' ws rule: text_join_join_fields.induct)
  case (1 tt a b st)
  note w = materialize_wf [OF _ "1.prems"(2,3)] materialize_wf [OF _ "1.prems"(2,4)]
  have h: "tv_has tt a' x \<or> tv_has tt b' x" if "materialize_input tt a = Inr a'" "materialize_input tt b = Inr b'" for a' b'
    using materialize_has that "1.prems"(2,5) by blast
  from "1.prems"(1) show ?case
  proof (cases rule: join_cases)
    case (strings p q)
    with h [OF strings(1,2)] show ?thesis by (auto simp: cap_max_def split: option.splits)
  next
    case (numbers p q r s)
    with h [OF numbers(1,2)] w(1) [OF numbers(1)] w(2) [OF numbers(2)] show ?thesis
      by (auto simp: valid_ivl_def)
  next
    case booleans
    with h [OF booleans(1,2)] show ?thesis by simp
  next
    case (records name fa name' fb c fs u t)
    from h [OF records(1,2)] obtain ws where x: "x = VRecord ws" "fields_have tt fa ws \<or> fields_have tt fb ws"
      by (auto simp: tv_has_record simp del: tv_has.simps)
    have "fields_have tt fs ws"
      by (rule "1.IH" [OF _ _ _ refl refl refl records(4) _ records(6) "1.prems"(2) _ _ x(2)])
         (use records w in \<open>auto simp: clift_def ok_or_def\<close>)
    with records x show ?thesis by (auto simp: tv_has_record simp del: tv_has.simps)
  qed
next
  case 2
  then show ?case by (auto simp: join_fields_eq res_simps fields_have_def)
next
  case (3 tt name f fs fa fb st)
  from join_fields_Cons [OF "3.prems"(1)] obtain va vb v t rest where m: "map_of fa f = Some va" "map_of fb f = Some vb"
    and j: "text_join tt va vb st = (Inr v, t)"
    and r: "join_fields tt name fs (AList.delete f fa) (AList.delete f fb) t = (Inr rest, st')"
    and vs: "vs = (f, v) # rest" by blast
  have wf: "tv_wf va" "tv_wf vb" using m "3.prems"(3,4) by (auto dest!: map_of_SomeD)
  have "\<exists>x. map_of ws f = Some x \<and> (tv_has tt va x \<or> tv_has tt vb x)"
    using "3.prems"(5)
  proof
    assume "fields_have tt fa ws"
    with map_of_SomeD [OF m(1)] show ?thesis by (force simp: fields_have_def)
  next
    assume "fields_have tt fb ws"
    with map_of_SomeD [OF m(2)] show ?thesis by (force simp: fields_have_def)
  qed
  then obtain x where x: "map_of ws f = Some x" "tv_has tt va x \<or> tv_has tt vb x" by blast
  have "tv_has tt v x"
    by (rule "3.IH"(1) [OF _ _ j "3.prems"(2) wf x(2)]) (use m in \<open>auto simp: clift_def ok_or_def\<close>)
  moreover have "fields_have tt rest ws"
    by (rule "3.IH"(2) [OF _ _ _ r "3.prems"(2)])
       (use m j "3.prems"(3-5) fields_have_delete in
         \<open>auto simp: clift_def ok_or_def cmap_err_def rmap_err_def AList.delete_eq\<close>)
  ultimately show ?case using vs x(1) by (auto simp: fields_have_def)
qed

section \<open>Checked expressions\<close>

definition text_admissible :: "text_tables \<Rightarrow> rule \<Rightarrow> (string \<times> val) list \<Rightarrow> bool" where
  "text_admissible tt r fs \<longleftrightarrow> (\<exists>cn c. r_input_ty r = TNamed cn \<and> tt_concepts tt cn = Some c \<and> input_ok c fs)"

definition text_rule_sound :: "'w ictx \<Rightarrow> text_tables \<Rightarrow> rule \<Rightarrow> tval \<Rightarrow> bool" where
  "text_rule_sound cx tt r v \<longleftrightarrow> tv_wf v
     \<and> (\<forall>fs. text_admissible tt r fs \<longrightarrow> (\<exists>x. tv_has tt v x \<and> rule_evals cx r fs x))
     \<and> (\<forall>mx. r_output_text_max r = Some mx \<longrightarrow> v = XText (Some mx))"

definition tt_good :: "'w ictx \<Rightarrow> text_tables \<Rightarrow> string \<Rightarrow> tval \<Rightarrow> bool" where
  "tt_good cx tt n v \<longleftrightarrow> (\<exists>r. tt_rules tt n = Some r \<and> text_rule_sound cx tt r v)"

definition env_has :: "text_tables \<Rightarrow> (string \<rightharpoonup> tval) \<Rightarrow> env \<Rightarrow> bool" where
  "env_has tt tenv env \<longleftrightarrow> (\<forall>n v. tenv n = Some v \<longrightarrow> tv_wf v \<and> (\<exists>x. env n = Some x \<and> tv_has tt v x))"

lemma text_good_tt: "text_good tt (tt_good cx tt)"
  by (auto simp: text_good_def tt_good_def text_rule_sound_def)

lemma run_text_eq:
  "run cx f a env = eret (VText x) \<Longrightarrow> run cx f b env = eret (VText y) \<Longrightarrow> op = OpEq \<or> op = OpNotEq \<Longrightarrow>
     run cx f (EBinary op a b) env = eret (VBool (if op = OpEq then x = y else x \<noteq> y))"
  by (auto simp: run_def apply_binop_def eq_scalars_def)

lemma scalar_cases:
  assumes "tv_ty a = tv_ty b" "is_scalar_tval a" "tv_has tt a x" "tv_has tt b y"
  obtains m n where "x = VNumber m" "y = VNumber n" | m n where "x = VBool m" "y = VBool n"
    | m n where "x = VText m" "y = VText n"
  using assms by (cases a; cases b) (auto simp: tv_ty_def is_scalar_tval_def)

lemma text_binary_has:
  assumes "text_binary op a b = Inr v" "tv_has tt a x" "tv_has tt b y"
    and ev: "evals cx ea env x" "evals cx eb env y"
  shows "\<exists>z. tv_has tt v z \<and> evals cx (EBinary op ea eb) env z"
  using assms(1)
proof (cases rule: text_binary_cases)
  case eq
  note eqs = eq
  from scalar_cases [OF eq(2,3) assms(2,3)] show ?thesis
  proof cases
    case (1 m n)
    with evals_ops(1) [of cx ea env m eb n op] eqs ev show ?thesis by (auto simp: is_comparison_def)
  next
    case (2 m n)
    with evals_ops(3) [of cx ea env m eb n op] eqs ev show ?thesis by auto
  next
    case (3 m n)
    then have "evals cx (EBinary op ea eb) env (VBool (if op = OpEq then m = n else m \<noteq> n))"
      by (intro evals_step2 [OF ev] run_text_eq) (use eqs in simp_all)
    with eqs show ?thesis by auto
  qed
next
  case logic
  then obtain m n where "x = VBool m" "y = VBool n"
    using assms(2,3) by (cases a; cases b) (auto simp: tv_ty_def)
  with evals_ops(2) [of cx ea env m eb n op] logic ev show ?thesis by auto
next
  case ord
  then obtain m n where "x = VNumber m" "y = VNumber n"
    using assms(2,3) by (cases a; cases b) (auto simp: tv_ty_def)
  with evals_ops(1) [of cx ea env m eb n op] ord ev show ?thesis by (auto simp: is_comparison_def)
next
  case (arith p q r)
  with assms(2,3) obtain m n where xy: "x = VNumber m" "y = VNumber n"
    and b: "fst p \<le> m" "m \<le> snd p" "fst q \<le> n" "n \<le> snd q" and v: "valid_ivl p" "valid_ivl q" by auto
  have "evals cx (EBinary op ea eb) env (VNumber (arith_val op m n))"
    using interval_arith_ok [OF arith(3) v b] xy by (intro evals_step2 [OF ev]) (simp add: run_number_ops(5))
  moreover have "valid_ivl r" "fst r \<le> arith_val op m n \<and> arith_val op m n \<le> snd r"
    using interval_arith_valid [OF arith(3) v] interval_arith_sound [OF arith(3) b] by auto
  ultimately show ?thesis using arith(4) by auto
qed

lemma number_has:
  assumes "tv_has tt (XNumber (fst p) (snd p)) x" "evals cx e env x"
  shows "neg_ivl p = Inr q \<Longrightarrow> \<exists>z. tv_has tt (XNumber (fst q) (snd q)) z \<and> evals cx (ENeg e) env z"
    and "abs_ivl p = Inr q \<Longrightarrow> \<exists>z. tv_has tt (XNumber (fst q) (snd q)) z \<and> evals cx (EAbs e) env z"
proof -
  from assms(1) obtain n where n: "x = VNumber n" "valid_ivl p" "fst p \<le> n" "n \<le> snd p" by auto
  show "\<exists>z. tv_has tt (XNumber (fst q) (snd q)) z \<and> evals cx (ENeg e) env z" if q: "neg_ivl p = Inr q"
  proof -
    have v: "valid_ivl q" "fst q \<le> - n \<and> - n \<le> snd q"
      using negate.f_valid [OF n(2) q] negate.f_sound [OF n(2) q n(3,4)] by auto
    then have "in_i64 (- n)" by (auto simp: valid_ivl_def in_i64_def)
    then have "evals cx (ENeg e) env (VNumber (- n))"
      using assms(2) n(1) by (intro evals_step [OF assms(2)] run_number_ops(1)) simp_all
    with v show ?thesis by auto
  qed
  show "\<exists>z. tv_has tt (XNumber (fst q) (snd q)) z \<and> evals cx (EAbs e) env z" if q: "abs_ivl p = Inr q"
  proof -
    have v: "valid_ivl q" "fst q \<le> \<bar>n\<bar> \<and> \<bar>n\<bar> \<le> snd q"
      using absolute.f_valid [OF n(2) q] absolute.f_sound [OF n(2) q n(3,4)] by auto
    then have "in_i64 \<bar>n\<bar>" by (auto simp: valid_ivl_def in_i64_def)
    then have "evals cx (EAbs e) env (VNumber \<bar>n\<bar>)"
      using assms(2) n(1) by (intro evals_step [OF assms(2)] run_number_ops(2)) simp_all
    with v show ?thesis by auto
  qed
qed

lemma min_max_has:
  assumes "tv_has tt (XNumber (fst p) (snd p)) x" "tv_has tt (XNumber (fst q) (snd q)) y" "evals cx a env x" "evals cx b env y"
  shows "\<exists>z. tv_has tt (XNumber (min (fst p) (fst q)) (min (snd p) (snd q))) z \<and> evals cx (EMin a b) env z"
    and "\<exists>z. tv_has tt (XNumber (max (fst p) (fst q)) (max (snd p) (snd q))) z \<and> evals cx (EMax a b) env z"
proof -
  from assms(1,2) obtain m n where n: "x = VNumber m" "y = VNumber n" "valid_ivl p" "fst p \<le> m" "m \<le> snd p"
    "valid_ivl q" "fst q \<le> n" "n \<le> snd q" by auto
  have ev: "evals cx (EMin a b) env (VNumber (min m n))" "evals cx (EMax a b) env (VNumber (max m n))"
    using n(1,2) by (intro evals_step2 [OF assms(3,4)] run_number_ops; simp)+
  have "tv_has tt (XNumber (min (fst p) (fst q)) (min (snd p) (snd q))) (VNumber (min m n))"
    "tv_has tt (XNumber (max (fst p) (fst q)) (max (snd p) (snd q))) (VNumber (max m n))"
    using n by (auto simp: valid_ivl_def in_i64_def)
  with ev show "\<exists>z. tv_has tt (XNumber (min (fst p) (fst q)) (min (snd p) (snd q))) z \<and> evals cx (EMin a b) env z"
    "\<exists>z. tv_has tt (XNumber (max (fst p) (fst q)) (max (snd p) (snd q))) z \<and> evals cx (EMax a b) env z"
    by blast+
qed

text \<open>Concatenation: every operand is text or a number, whose decimal form has at most 20 bytes.\<close>

definition text_of :: "val \<Rightarrow> string" where
  "text_of v = (case v of VText s \<Rightarrow> s | VNumber n \<Rightarrow> show_int n | _ \<Rightarrow> [])"

definition textual :: "val \<Rightarrow> bool" where
  "textual v \<longleftrightarrow> (case v of VText _ \<Rightarrow> True | VNumber _ \<Rightarrow> True | _ \<Rightarrow> False)"

definition evals_list :: "'w ictx \<Rightarrow> expr list \<Rightarrow> env \<Rightarrow> val list \<Rightarrow> bool" where
  "evals_list cx es env xs \<longleftrightarrow> (\<forall>\<^sub>F f in sequentially. emapM (\<lambda>a. run cx f a env) es = eret xs)"

lemma emapM_eret: "emapM g [] = eret []" "g x = eret y \<Longrightarrow> emapM g xs = eret ys \<Longrightarrow> emapM g (x # xs) = eret (y # ys)"
  by (auto simp: fun_eq_iff eret_def ebind_def)

lemma evals_list_intros:
  "evals_list cx [] env []"
  "evals cx e env x \<Longrightarrow> evals_list cx es env xs \<Longrightarrow> evals_list cx (e # es) env (x # xs)"
proof -
  show "evals_list cx [] env []" by (simp add: evals_list_def emapM_eret del: emapM.simps)
  assume "evals cx e env x" "evals_list cx es env xs"
  then show "evals_list cx (e # es) env (x # xs)"
    unfolding evals_def evals_list_def by eventually_elim (rule emapM_eret(2))
qed

lemma concat_val_textual: "\<forall>x \<in> set xs. textual x \<Longrightarrow> concat_val xs = Inr (VText (concat (map text_of xs)))"
proof -
  assume t: "\<forall>x \<in> set xs. textual x"
  then have "\<not> list_ex (\<lambda>v. case v of VBytes _ \<Rightarrow> True | _ \<Rightarrow> False) xs"
    by (auto simp: list_ex_iff textual_def split: val.splits)
  moreover have "rmapM text_form xs = Inr (map text_of xs)"
    using t by (induction xs) (auto simp: textual_def text_of_def text_form_def split: val.splits)
  ultimately show ?thesis by (simp add: concat_val_def)
qed

lemma evals_concat:
  assumes "evals_list cx es env xs" "\<forall>x \<in> set xs. textual x"
  shows "evals cx (EConcat es) env (VText (concat (map text_of xs)))"
  using assms(1) unfolding evals_list_def evals_def
  by (rule eventually_mono) (simp add: run_def concat_val_textual [OF assms(2)])

lemma capacity_has:
  assumes "tv_capacity v = Inr n" "tv_has tt v x"
  shows "textual x" "n = Some k \<Longrightarrow> length (text_of x) \<le> k"
  using assms length_show_int
  by (cases v; auto simp: tv_capacity_def textual_def text_of_def valid_ivl_def in_i64_def)+

lemma cap_loop_has:
  assumes "cap_loop ev tot es st = (Inr t, st')" "cache_good tx_cache good st"
    and keep: "\<And>e. e \<in> set es \<Longrightarrow> keeps (cache_good tx_cache good) (ev e)"
    and has: "\<And>e st v st'. e \<in> set es \<Longrightarrow> cache_good tx_cache good st \<Longrightarrow> ev e st = (Inr v, st') \<Longrightarrow>
      \<exists>x. tv_has tt v x \<and> evals cx e env x"
  shows "\<exists>xs. evals_list cx es env xs \<and> (\<forall>x \<in> set xs. textual x) \<and>
    (\<forall>k. t = Some k \<longrightarrow> (\<exists>k0. tot = Some k0 \<and> k0 + length (concat (map text_of xs)) \<le> k))"
  using assms
proof (induction es arbitrary: tot st)
  case Nil
  then show ?case using evals_list_intros(1) by (fastforce simp: res_simps)
next
  case (Cons e es)
  from Cons.prems(1) obtain v s1 n tot' where e: "ev e st = (Inr v, s1)" "tv_capacity v = Inr n" "add_cap tot n = Inr tot'"
    and r: "cap_loop ev tot' es s1 = (Inr t, st')" by (auto simp: res_simps)
  obtain x where x: "tv_has tt v x" "evals cx e env x" using Cons.prems(4) [OF _ Cons.prems(2) e(1)] by auto
  have "cache_good tx_cache good s1" by (rule keepsD [OF Cons.prems(3) Cons.prems(2) e(1)]) simp
  from Cons.IH [OF r this] Cons.prems(3,4) obtain xs where xs: "evals_list cx es env xs" "\<forall>x \<in> set xs. textual x"
    "\<forall>k. t = Some k \<longrightarrow> (\<exists>k0. tot' = Some k0 \<and> k0 + length (concat (map text_of xs)) \<le> k)" by auto
  have "\<exists>k0. tot = Some k0 \<and> k0 + length (concat (map text_of (x # xs))) \<le> k" if "t = Some k" for k
  proof -
    from xs(3) that obtain k1 where k1: "tot' = Some k1" "k1 + length (concat (map text_of xs)) \<le> k" by blast
    with e(3) obtain a b where "tot = Some a" "n = Some b" "k1 = a + b"
      by (auto simp: add_cap_def split: option.splits if_splits)
    with k1 capacity_has(2) [OF e(2) x(1)] show ?thesis by fastforce
  qed
  with evals_list_intros(2) [OF x(2) xs(1)] capacity_has(1) [OF e(2) x(1)] xs(2) show ?case by fastforce
qed

text \<open>Record construction: the fields are distinct, so every declared field keeps its value.\<close>

definition evals_fields :: "'w ictx \<Rightarrow> (string \<times> expr) list \<Rightarrow> env \<Rightarrow> (string \<times> val) list \<Rightarrow> bool" where
  "evals_fields cx fs env kvs \<longleftrightarrow>
     (\<forall>\<^sub>F f in sequentially. emapM (\<lambda>(n, e). ebind (run cx f e env) (\<lambda>v. eret (n, v))) fs = eret kvs)"

lemma evals_fields_intros:
  "evals_fields cx [] env []"
  "evals cx e env x \<Longrightarrow> evals_fields cx fs env kvs \<Longrightarrow> evals_fields cx ((n, e) # fs) env ((n, x) # kvs)"
proof -
  show "evals_fields cx [] env []" by (simp add: evals_fields_def emapM_eret del: emapM.simps)
  assume "evals cx e env x" "evals_fields cx fs env kvs"
  then show "evals_fields cx ((n, e) # fs) env ((n, x) # kvs)"
    unfolding evals_def evals_fields_def by eventually_elim (rule emapM_eret(2), simp_all)
qed

lemma map_of_insert_all:
  "distinct (map fst kvs) \<Longrightarrow> map_of (foldl (\<lambda>m (k, v). AList.update k v m) m0 kvs) k =
     (case map_of kvs k of Some x \<Rightarrow> Some x | None \<Rightarrow> map_of m0 k)"
proof (induction kvs arbitrary: m0)
  case (Cons kv kvs)
  obtain a v where kv: "kv = (a, v)" by (cases kv)
  have "map_of kvs a = None" using Cons.prems kv by (simp add: map_of_eq_None_iff)
  with Cons kv show ?case by (auto simp: update_conv' split: option.splits)
qed simp

lemma map_of_insert_fields: "distinct (map fst kvs) \<Longrightarrow> (k, x) \<in> set kvs \<Longrightarrow> map_of (insert_fields kvs) k = Some x"
  by (simp add: insert_fields_def map_of_insert_all)

lemma record_loop_has:
  assumes "record_loop ev c vals fs st = (Inr vs, st')" "cache_good tx_cache good st"
    and keep: "\<And>n e. (n, e) \<in> set fs \<Longrightarrow> keeps (cache_good tx_cache good) (ev e)"
    and has: "\<And>n e st v st'. (n, e) \<in> set fs \<Longrightarrow> cache_good tx_cache good st \<Longrightarrow> ev e st = (Inr v, st') \<Longrightarrow>
      \<exists>x. tv_has tt v x \<and> evals cx e env x"
  shows "\<exists>kvs. evals_fields cx fs env kvs \<and> distinct (map fst kvs) \<and> fst ` set kvs \<inter> fst ` set vals = {} \<and>
    (\<forall>(k, v) \<in> set vs. (k, v) \<in> set vals \<or> (\<exists>x. (k, x) \<in> set kvs \<and> tv_has tt v x))"
  using assms
proof (induction fs arbitrary: vals st)
  case Nil
  then show ?case using evals_fields_intros(1) by (fastforce simp: res_simps)
next
  case (Cons ne fs)
  obtain n e where ne: "ne = (n, e)" by (cases ne)
  from Cons.prems(1) ne obtain v s1 where e: "ev e st = (Inr v, s1)" "map_of vals n = None"
    and r: "record_loop ev c ((n, v) # vals) fs s1 = (Inr vs, st')"
    by (auto simp: res_simps split: option.splits if_splits)
  obtain x where x: "tv_has tt v x" "evals cx e env x" using Cons.prems(4) [OF _ Cons.prems(2) e(1)] ne by auto
  have "cache_good tx_cache good s1" using keepsD [OF Cons.prems(3) Cons.prems(2) e(1)] ne by auto
  then have "\<exists>kvs. evals_fields cx fs env kvs \<and> distinct (map fst kvs) \<and> fst ` set kvs \<inter> fst ` set ((n, v) # vals) = {} \<and>
    (\<forall>(k, v') \<in> set vs. (k, v') \<in> set ((n, v) # vals) \<or> (\<exists>x. (k, x) \<in> set kvs \<and> tv_has tt v' x))"
    by (rule Cons.IH [OF r]) (rule Cons.prems(3,4); auto)+
  then obtain kvs where kvs: "evals_fields cx fs env kvs" "distinct (map fst kvs)"
    "fst ` set kvs \<inter> fst ` set ((n, v) # vals) = {}"
    "\<forall>(k, v') \<in> set vs. (k, v') \<in> set ((n, v) # vals) \<or> (\<exists>x. (k, x) \<in> set kvs \<and> tv_has tt v' x)"
    by blast
  have "n \<notin> fst ` set vals" using e(2) by (simp add: map_of_eq_None_iff)
  then have d: "distinct (map fst ((n, x) # kvs))" "fst ` set ((n, x) # kvs) \<inter> fst ` set vals = {}"
    using kvs(2,3) by auto
  have m: "(k, v') \<in> set vals \<or> (\<exists>y. (k, y) \<in> set ((n, x) # kvs) \<and> tv_has tt v' y)" if "(k, v') \<in> set vs" for k v'
    using bspec [OF kvs(4) that] x(1) by auto
  from evals_fields_intros(2) [OF x(2) kvs(1), of n] d m show ?case unfolding ne by blast
qed

definition same_text_rules :: "'w ictx \<Rightarrow> text_tables \<Rightarrow> bool" where
  "same_text_rules cx tt \<longleftrightarrow> (\<forall>n. tt_rules tt n = find (\<lambda>r. r_name r = n) (i_rules cx))"

lemma fits_field_ok:
  assumes "fits_field name vals f = Inr u" "fields_have tt vals fs"
  shows "field_ok f (map_of fs (f_name f)) \<and>
    (case map_of fs (f_name f) of Some (VNumber n) \<Rightarrow> in_i64 n | _ \<Rightarrow> True)"
proof -
  from assms(1) obtain v where v: "map_of vals (f_name f) = Some v" "tv_ty v = f_ty f"
    by (auto simp: fits_field_def rbind_eq_Inr tv_require_eq split: option.splits)
  with assms(2) obtain x where x: "map_of fs (f_name f) = Some x" "tv_has tt v x"
    using map_of_SomeD [OF v(1)] by (force simp: fields_have_def)
  show ?thesis
  proof (cases v)
    case (XNumber lo hi)
    with assms(1) v x show ?thesis
      by (auto simp: fits_field_def tv_require_def rbind_def tv_ty_def field_ok_def valid_ivl_def in_i64_def
        split: option.splits if_splits vtype.splits)
  next
    case (XText cap)
    with assms(1) v x show ?thesis
      by (auto simp: fits_field_def tv_require_def rbind_def tv_ty_def field_ok_def declared_capacity_def
        split: option.splits if_splits vtype.splits)
  qed (use assms(1) v in \<open>auto simp: fits_field_def tv_require_def\<close>)
qed

lemma rmapM_all: "rmapM g xs = Inr ys \<Longrightarrow> x \<in> set xs \<Longrightarrow> \<exists>y. g x = Inr y"
  by (induction xs arbitrary: ys) (auto simp: rbind_eq_Inr)

lemma call_input_has:
  assumes "call_input tt name v = Inr ()" "tt_rules tt name = Some r" "tv_has tt v x"
  shows "\<exists>fs. x = VRecord fs \<and> text_admissible tt r fs"
proof (cases "\<exists>cn. v = XInput cn")
  case True
  with assms obtain cn where "v = XInput cn" "r_input_ty r = TNamed cn"
    by (auto simp: call_input_def rbind_eq_Inr tv_require_eq tv_ty_def)
  with assms(3) show ?thesis by (auto simp: text_admissible_def)
next
  case False
  with assms(1,2) obtain cn vals c us where v: "v = XRecord cn vals" "tt_concepts tt cn = Some c"
    "rmapM (fits_field name vals) (c_fields c) = Inr us" "r_input_ty r = TNamed cn"
    by (auto simp: call_input_def rbind_eq_Inr tv_require_eq tv_ty_def split: tval.splits option.splits)
  with assms(3) obtain fs where fs: "x = VRecord fs" "fields_have tt vals fs"
    by (auto simp: tv_has_record simp del: tv_has.simps)
  have "\<exists>u. fits_field name vals f = Inr u" if "f \<in> set (c_fields c)" for f
    by (rule rmapM_all [OF v(3) that])
  then have "input_ok c fs" using fits_field_ok [OF _ fs(2)] by (auto simp: input_ok_def)
  with v fs show ?thesis by (auto simp: text_admissible_def)
qed

text \<open>
  \<open>length(t)\<close> is at most \<open>i64::MAX\<close> because no Rust allocation is longer; the model's lists have no such
  limit. The analysis below therefore assumes the native gate, under which every capacity is known and
  small, or a program without \<open>length\<close>.
\<close>

function length_free :: "expr \<Rightarrow> bool" where
  "length_free e = ((case e of ELength _ \<Rightarrow> False | _ \<Rightarrow> True) \<and> list_all length_free (expr_children e))"
  by pat_completeness auto
termination by (relation "measure size") (auto simp: size_child)

declare length_free.simps [simp del]

definition len_ok :: "text_tables \<Rightarrow> expr \<Rightarrow> bool" where
  "len_ok tt e \<longleftrightarrow> lits_i64 e \<and> (tt_native tt \<or> length_free e)"

lemma len_ok_child: "len_ok tt e \<Longrightarrow> c \<in> set (expr_children e) \<Longrightarrow> len_ok tt c"
  by (auto simp: len_ok_def lits_i64.simps [of e] length_free.simps [of e] list_all_iff)

lemma len_ok_children:
  "len_ok tt (ENeg a) \<Longrightarrow> len_ok tt a" "len_ok tt (EAbs a) \<Longrightarrow> len_ok tt a" "len_ok tt (ENot a) \<Longrightarrow> len_ok tt a"
  "len_ok tt (EField a n) \<Longrightarrow> len_ok tt a" "len_ok tt (ELength a) \<Longrightarrow> len_ok tt a"
  "len_ok tt (EMin a b) \<Longrightarrow> len_ok tt a" "len_ok tt (EMin a b) \<Longrightarrow> len_ok tt b"
  "len_ok tt (EMax a b) \<Longrightarrow> len_ok tt a" "len_ok tt (EMax a b) \<Longrightarrow> len_ok tt b"
  "len_ok tt (EBinary op a b) \<Longrightarrow> len_ok tt a" "len_ok tt (EBinary op a b) \<Longrightarrow> len_ok tt b"
  "len_ok tt (EIf c a b) \<Longrightarrow> len_ok tt c" "len_ok tt (EIf c a b) \<Longrightarrow> len_ok tt a" "len_ok tt (EIf c a b) \<Longrightarrow> len_ok tt b"
  "len_ok tt (EConcat es) \<Longrightarrow> e \<in> set es \<Longrightarrow> len_ok tt e" "len_ok tt (ECall n es) \<Longrightarrow> e \<in> set es \<Longrightarrow> len_ok tt e"
  "len_ok tt (ERecord m fs) \<Longrightarrow> (n, e) \<in> set fs \<Longrightarrow> len_ok tt e"
  by (erule len_ok_child, force simp: expr_children_def)+

lemma len_ok_length: "len_ok tt (ELength a) \<Longrightarrow> tt_native tt"
  by (simp add: len_ok_def length_free.simps [of "ELength a"])

lemma text_expr_native: "text_expr tt call e env d st = (Inr v, st') \<Longrightarrow> native_cap tt v = Inr v"
  by (cases e) (simp_all, (erule text_node_native)+)

lemma text_field_has:
  assumes "text_field tt b name = Inr v" "tv_has tt b x" "text_i64 tt"
  shows "\<exists>fs y. x = VRecord fs \<and> map_of fs name = Some y \<and> tv_has tt v y"
proof (cases b)
  case (XInput cn)
  with assms obtain c f fs where "tt_concepts tt cn = Some c" "find (\<lambda>f. f_name f = name) (c_fields c) = Some f"
    "declared_field f = Inr v" "x = VRecord fs" "input_ok c fs"
    by (auto simp: text_field_def input_field_def split: option.splits)
  with declared_field_has [of f v c fs tt] assms(3) show ?thesis
    by (auto simp: text_i64_def dest!: find_SomeD)
next
  case (XRecord n vals)
  with assms obtain fs where fs: "x = VRecord fs" "fields_have tt vals fs" "map_of vals name = Some v"
    by (auto simp: text_field_def tv_has_record simp del: tv_has.simps split: option.splits)
  with map_of_SomeD [OF fs(3)] show ?thesis by (force simp: fields_have_def)
qed (use assms(1) in \<open>simp_all add: text_field_def\<close>)

lemma evals_call:
  assumes "evals cx arg env (VRecord fs)" "rule_evals cx r fs y"
    and "args = [arg]" "find (\<lambda>r. r_name r = name) (i_rules cx) = Some r"
  shows "evals cx (ECall name args) env y"
  using assms(1,2) unfolding evals_def rule_evals_def
proof eventually_elim
  case (elim f)
  with assms(3,4) show ?case by (simp add: run_def eret_def [symmetric, abs_def])
qed

lemma text_expr_has:
  "call_good tx_cache (tt_good cx tt) call \<Longrightarrow> text_i64 tt \<Longrightarrow> same_text_rules cx tt \<Longrightarrow>
     cache_good tx_cache (tt_good cx tt) st \<Longrightarrow> env_has tt tenv env \<Longrightarrow> len_ok tt e \<Longrightarrow>
     text_expr tt call e tenv d st = (Inr tv, st') \<Longrightarrow> \<exists>x. tv_has tt tv x \<and> evals cx e env x"
proof (induction tt call e tenv d arbitrary: st tv st' rule: text_expr.induct)
  case (1 tt call s tenv d)
  have "evals cx (EText s) env (VText s)" by (rule evals_always) (simp add: run_def)
  moreover have "tv = XText (Some (length s))"
    using text_node_D [OF "1.prems"(7) [unfolded text_expr.simps]] by (auto simp: res_simps)
  ultimately show ?case by fastforce
next
  case (2 tt call n tenv d)
  have "evals cx (ENumber n) env (VNumber n)" by (rule evals_always) (simp add: run_def)
  moreover have "tv = XNumber n n"
    using text_node_D [OF "2.prems"(7) [unfolded text_expr.simps]] by (auto simp: res_simps)
  ultimately show ?case using "2.prems"(6) by (fastforce simp: lits_simps len_ok_def valid_ivl_def)
next
  case (3 tt call e tenv d)
  from text_node_D [OF "3.prems"(7) [unfolded text_expr.simps]] obtain p q s1 where
    e: "text_expr tt call e tenv (Suc d) (st\<lparr>tx_steps := tx_steps st + 1\<rparr>) = (Inr (XNumber (fst p) (snd p)), s1)"
      "neg_ivl p = Inr q" "tv = XNumber (fst q) (snd q)"
    by (auto simp: res_simps tv_number_eq text_neg_eq)
  obtain x where "tv_has tt (XNumber (fst p) (snd p)) x" "evals cx e env x"
    using "3.IH" [OF "3.prems"(1-3) _ "3.prems"(5) _ e(1)] "3.prems"(4,6) by (auto dest: len_ok_children)
  then show ?case using number_has(1) [OF _ _ e(2)] unfolding e(3) by blast
next
  case (4 tt call e tenv d)
  from text_node_D [OF "4.prems"(7) [unfolded text_expr.simps]] obtain p q s1 where
    e: "text_expr tt call e tenv (Suc d) (st\<lparr>tx_steps := tx_steps st + 1\<rparr>) = (Inr (XNumber (fst p) (snd p)), s1)"
      "abs_ivl p = Inr q" "tv = XNumber (fst q) (snd q)"
    by (auto simp: res_simps tv_number_eq text_abs_eq)
  obtain x where "tv_has tt (XNumber (fst p) (snd p)) x" "evals cx e env x"
    using "4.IH" [OF "4.prems"(1-3) _ "4.prems"(5) _ e(1)] "4.prems"(4,6) by (auto dest: len_ok_children)
  then show ?case using number_has(2) [OF _ _ e(2)] unfolding e(3) by blast
next
  case (5 tt call a b tenv d)
  obtain p q s1 where a: "text_expr tt call a tenv (Suc d) (st\<lparr>tx_steps := tx_steps st + 1\<rparr>) = (Inr (XNumber (fst p) (snd p)), s1)"
    and b: "text_expr tt call b tenv (Suc d) s1 = (Inr (XNumber (fst q) (snd q)), st')"
    and v: "tv = XNumber (min (fst p) (fst q)) (min (snd p) (snd q))"
    by (rule min_max_node [OF "5.prems"(7), of a b min]) simp_all
  have s1: "cache_good tx_cache (tt_good cx tt) s1" using text_expr_cache [OF "5.prems"(1) _ a] "5.prems"(4) by simp
  obtain x y where "tv_has tt (XNumber (fst p) (snd p)) x" "evals cx a env x" "tv_has tt (XNumber (fst q) (snd q)) y" "evals cx b env y"
    using "5.IH"(1) [OF "5.prems"(1-3) _ "5.prems"(5) _ a] "5.IH"(2) [OF "5.prems"(1-3) s1 "5.prems"(5) _ b]
      "5.prems"(4,6) by (auto dest: len_ok_children)
  then show ?case unfolding v by (intro min_max_has(1))
next
  case (6 tt call a b tenv d)
  obtain p q s1 where a: "text_expr tt call a tenv (Suc d) (st\<lparr>tx_steps := tx_steps st + 1\<rparr>) = (Inr (XNumber (fst p) (snd p)), s1)"
    and b: "text_expr tt call b tenv (Suc d) s1 = (Inr (XNumber (fst q) (snd q)), st')"
    and v: "tv = XNumber (max (fst p) (fst q)) (max (snd p) (snd q))"
    by (rule min_max_node [OF "6.prems"(7), of a b max]) simp_all
  have s1: "cache_good tx_cache (tt_good cx tt) s1" using text_expr_cache [OF "6.prems"(1) _ a] "6.prems"(4) by simp
  obtain x y where "tv_has tt (XNumber (fst p) (snd p)) x" "evals cx a env x" "tv_has tt (XNumber (fst q) (snd q)) y" "evals cx b env y"
    using "6.IH"(1) [OF "6.prems"(1-3) _ "6.prems"(5) _ a] "6.IH"(2) [OF "6.prems"(1-3) s1 "6.prems"(5) _ b]
      "6.prems"(4,6) by (auto dest: len_ok_children)
  then show ?case unfolding v by (intro min_max_has(2))
next
  case (7 tt call n tenv d)
  from text_node_D [OF "7.prems"(7) [unfolded text_expr.simps]] have "tenv n = Some tv"
    by (auto simp: res_simps split: option.splits)
  with "7.prems"(5) obtain x where "env n = Some x" "tv_has tt tv x" by (auto simp: env_has_def)
  then show ?case by (auto intro: evals_always run_ident)
next
  case (8 tt call base name tenv d)
  from text_node_D [OF "8.prems"(7) [unfolded text_expr.simps]] obtain b s1 where
    b: "text_expr tt call base tenv (Suc d) (st\<lparr>tx_steps := tx_steps st + 1\<rparr>) = (Inr b, s1)"
    and f: "text_field tt b name = Inr tv" by (auto simp: res_simps)
  obtain x where x: "tv_has tt b x" "evals cx base env x"
    using "8.IH" [OF "8.prems"(1-3) _ "8.prems"(5) _ b] "8.prems"(4,6) by (auto dest: len_ok_children)
  obtain fs y where y: "x = VRecord fs" "map_of fs name = Some y" "tv_has tt tv y"
    using text_field_has [OF f x(1) "8.prems"(2)] by blast
  have "evals cx (EField base name) env y"
    by (rule evals_step [OF x(2)]) (use y in \<open>simp add: run_def\<close>)
  with y show ?case by blast
next
  case (9 tt call args tenv d)
  from text_node_D [OF "9.prems"(7) [unfolded text_expr.simps]] obtain t where
    t: "cap_loop (\<lambda>a. text_expr tt call a tenv (Suc d)) (Some 0) args (st\<lparr>tx_steps := tx_steps st + 1\<rparr>) = (Inr t, st')"
      "tv = XText t" by (auto simp: res_simps)
  have "\<exists>xs. evals_list cx args env xs \<and> (\<forall>x \<in> set xs. textual x) \<and>
    (\<forall>k. t = Some k \<longrightarrow> (\<exists>k0. Some 0 = Some k0 \<and> k0 + length (concat (map text_of xs)) \<le> k))"
  proof (rule cap_loop_has [OF t(1)])
    fix e assume e: "e \<in> set args"
    show "keeps (cache_good tx_cache (tt_good cx tt)) (text_expr tt call e tenv (Suc d))"
      by (rule keeps_text_expr) (use "9.prems"(1) in \<open>simp add: call_good_def\<close>)
    have "len_ok tt e" using "9.prems"(6) e by (auto dest: len_ok_children)
    then show "\<exists>x. tv_has tt v x \<and> evals cx e env x"
      if "cache_good tx_cache (tt_good cx tt) st" "text_expr tt call e tenv (Suc d) st = (Inr v, st')" for st v st'
      using "9.IH" [OF e "9.prems"(1-3) that(1) "9.prems"(5) _ that(2)] by blast
  qed (use "9.prems"(4) in simp)
  then obtain xs where xs: "evals_list cx args env xs" "\<forall>x \<in> set xs. textual x"
    "\<forall>k. t = Some k \<longrightarrow> length (concat (map text_of xs)) \<le> k" by auto
  have "tv_has tt tv (VText (concat (map text_of xs)))" using xs(3) t(2) by (auto split: option.splits)
  with evals_concat [OF xs(1,2)] show ?case by blast
next
  case (10 tt call c a b tenv d)
  from text_node_D [OF "10.prems"(7) [unfolded text_expr.simps]] obtain vc s1 va s2 vb s3 where
    c: "text_expr tt call c tenv (Suc d) (st\<lparr>tx_steps := tx_steps st + 1\<rparr>) = (Inr vc, s1)" "tv_ty vc = TBool"
    and a: "text_expr tt call a tenv (Suc d) s1 = (Inr va, s2)" and b: "text_expr tt call b tenv (Suc d) s2 = (Inr vb, s3)"
    and j: "text_join tt va vb s3 = (Inr tv, st')" by (auto simp: res_simps tv_require_eq)
  have s1: "cache_good tx_cache (tt_good cx tt) s1" using text_expr_cache [OF "10.prems"(1) _ c(1)] "10.prems"(4) by simp
  have s2: "cache_good tx_cache (tt_good cx tt) s2" by (rule text_expr_cache [OF "10.prems"(1) s1 a])
  note lits = len_ok_children(12-14) [OF "10.prems"(6)]
  have wfe: "\<forall>n v. tenv n = Some v \<longrightarrow> tv_wf v" using "10.prems"(5) by (simp add: env_has_def)
  have wf: "tv_wf va" "tv_wf vb"
    using text_expr_wf [OF "10.prems"(1) text_good_tt "10.prems"(2) s1 wfe _ a]
      text_expr_wf [OF "10.prems"(1) text_good_tt "10.prems"(2) s2 wfe _ b] lits by (auto simp: len_ok_def)
  obtain z where "tv_has tt vc z" "evals cx c env z"
    using "10.IH"(1) [OF "10.prems"(1-3) _ "10.prems"(5) lits(1) c(1)] "10.prems"(4) by auto
  with c(2) obtain t where t: "evals cx c env (VBool t)" by (cases vc) (auto simp: tv_ty_def)
  obtain x where x: "tv_has tt va x \<or> tv_has tt vb x" "evals cx (if t then a else b) env x"
    using "10.IH"(2) [OF "10.prems"(1-3) s1 "10.prems"(5) lits(2) a] "10.IH"(3) [OF "10.prems"(1-3) s2 "10.prems"(5) lits(3) b]
    by (cases t) auto
  have "evals cx (EIf c a b) env x" by (rule evals_step2 [OF t x(2)]) (cases t; simp add: run_def)
  with join_has(1) [OF j "10.prems"(2) wf x(1)] show ?case by blast
next
  case (11 tt call name args tenv d)
  obtain arg av t where arg: "args = [arg]"
    "text_expr tt call arg tenv (Suc d) (st\<lparr>tx_steps := tx_steps st + 1\<rparr>) = (Inr av, t)"
    "call_input tt name av = Inr ()" "call name t = (Inr tv, st')"
    by (rule text_call_node [OF "11.prems"(7)])
  have ct: "cache_good tx_cache (tt_good cx tt) t"
    using text_expr_cache [OF "11.prems"(1) _ arg(2)] "11.prems"(4) by simp
  then obtain r where r: "tt_rules tt name = Some r" "text_rule_sound cx tt r tv"
    using "11.prems"(1) arg(4) unfolding call_good_def tt_good_def by blast
  have "len_ok tt arg" by (rule len_ok_children(16) [OF "11.prems"(6)]) (simp add: arg(1))
  then obtain x where x: "tv_has tt av x" "evals cx arg env x"
    using "11.IH" [OF arg(1) refl "11.prems"(1-3) _ "11.prems"(5) _ arg(2)] "11.prems"(4) by auto
  obtain fs where fs: "x = VRecord fs" "text_admissible tt r fs" using call_input_has [OF arg(3) r(1) x(1)] by blast
  with r(2) obtain y where y: "tv_has tt tv y" "rule_evals cx r fs y" by (auto simp: text_rule_sound_def)
  have "evals cx (ECall name args) env y"
    by (rule evals_call [OF x(2) [unfolded fs(1)] y(2)]) (use r(1) arg(1) "11.prems"(3) in \<open>auto simp: same_text_rules_def\<close>)
  with y(1) show ?case by blast
next
  case (12 tt call op a b tenv d)
  from text_node_D [OF "12.prems"(7) [unfolded text_expr.simps]] obtain va s1 vb where
    a: "text_expr tt call a tenv (Suc d) (st\<lparr>tx_steps := tx_steps st + 1\<rparr>) = (Inr va, s1)"
    and b: "text_expr tt call b tenv (Suc d) s1 = (Inr vb, st')" and v: "text_binary op va vb = Inr tv"
    by (auto simp: res_simps)
  have s1: "cache_good tx_cache (tt_good cx tt) s1" using text_expr_cache [OF "12.prems"(1) _ a] "12.prems"(4) by simp
  obtain x y where "tv_has tt va x" "evals cx a env x" "tv_has tt vb y" "evals cx b env y"
    using "12.IH"(1) [OF "12.prems"(1-3) _ "12.prems"(5) _ a] "12.IH"(2) [OF "12.prems"(1-3) s1 "12.prems"(5) _ b]
      "12.prems"(4,6) by (auto dest: len_ok_children)
  then show ?case using text_binary_has [OF v] by blast
next
  case (13 tt call e tenv d)
  from text_node_D [OF "13.prems"(7) [unfolded text_expr.simps]] obtain v s1 where
    e: "text_expr tt call e tenv (Suc d) (st\<lparr>tx_steps := tx_steps st + 1\<rparr>) = (Inr v, s1)" "tv_ty v = TBool" "tv = XBool"
    by (auto simp: res_simps tv_require_eq)
  obtain x where "tv_has tt v x" "evals cx e env x"
    using "13.IH" [OF "13.prems"(1-3) _ "13.prems"(5) _ e(1)] "13.prems"(4,6) by (auto dest: len_ok_children)
  with e(2) obtain t where t: "evals cx e env (VBool t)" by (cases v) (auto simp: tv_ty_def)
  have "evals cx (ENot e) env (VBool (\<not> t))" by (rule evals_step [OF t]) (rule run_bool_ops)
  with e(3) show ?case by auto
next
  case (14 tt call e tenv d)
  from text_node_D [OF "14.prems"(7) [unfolded text_expr.simps]] obtain v s1 where
    e: "text_expr tt call e tenv (Suc d) (st\<lparr>tx_steps := tx_steps st + 1\<rparr>) = (Inr v, s1)" "text_length v = Inr tv"
    by (auto simp: res_simps)
  obtain x where x: "tv_has tt v x" "evals cx e env x"
    using "14.IH" [OF "14.prems"(1-3) _ "14.prems"(5) _ e(1)] "14.prems"(4,6) by (auto dest: len_ok_children)
  have "tt_native tt" by (rule len_ok_length [OF "14.prems"(6)])
  with text_expr_native [OF e(1)] e(2) obtain n where n: "v = XText (Some n)" "n < 1048577" "tv = XNumber 0 (int n)"
    by (cases v) (auto simp: text_length_def native_cap_def split: if_splits option.splits)
  with x(1) obtain w where w: "x = VText w" "length w \<le> n" by auto
  have "evals cx (ELength e) env (VNumber (int (length w)))"
    by (rule evals_step [OF x(2)]) (simp add: run_def w(1) length_val_def)
  moreover have "tv_has tt tv (VNumber (int (length w)))" using n w by (simp add: valid_ivl_def in_i64_def)
  ultimately show ?case by blast
next
  case (15 tt call name fs tenv d)
  from text_node_D [OF "15.prems"(7) [unfolded text_expr.simps]] obtain c vals where
    c: "tt_concepts tt name = Some c" "c_variants c = []" "length fs = length (c_fields c)"
    and l: "record_loop (\<lambda>e. text_expr tt call e tenv (Suc d)) c [] fs (st\<lparr>tx_steps := tx_steps st + 1\<rparr>) = (Inr vals, st')"
    and v: "tv = XRecord name vals" by (auto simp: res_simps split: option.splits if_splits)
  have "\<exists>kvs. evals_fields cx fs env kvs \<and> distinct (map fst kvs) \<and> fst ` set kvs \<inter> fst ` set ([] :: (string \<times> tval) list) = {} \<and>
    (\<forall>(k, v) \<in> set vals. (k, v) \<in> set [] \<or> (\<exists>x. (k, x) \<in> set kvs \<and> tv_has tt v x))"
  proof (rule record_loop_has [OF l])
    fix n e assume ne: "(n, e) \<in> set fs"
    show "keeps (cache_good tx_cache (tt_good cx tt)) (text_expr tt call e tenv (Suc d))"
      by (rule keeps_text_expr) (use "15.prems"(1) in \<open>simp add: call_good_def\<close>)
    have "len_ok tt e" using "15.prems"(6) ne by (auto dest: len_ok_children)
    then show "\<exists>x. tv_has tt v x \<and> evals cx e env x"
      if "cache_good tx_cache (tt_good cx tt) st" "text_expr tt call e tenv (Suc d) st = (Inr v, st')" for st v st'
      using "15.IH" [OF c(1) _ ne "15.prems"(1-3) that(1) "15.prems"(5) _ that(2)] c by simp
  qed (use "15.prems"(4) in simp)
  then obtain kvs where kvs: "evals_fields cx fs env kvs" "distinct (map fst kvs)"
    "\<forall>(k, v) \<in> set vals. \<exists>x. (k, x) \<in> set kvs \<and> tv_has tt v x" by auto
  have "fields_have tt vals (insert_fields kvs)"
    using kvs(3) map_of_insert_fields [OF kvs(2)] by (fastforce simp: fields_have_def)
  moreover have "evals cx (ERecord name fs) env (VRecord (insert_fields kvs))"
    using kvs(1) unfolding evals_fields_def evals_def by (rule eventually_mono) (simp add: run_def)
  ultimately show ?case unfolding v by (auto simp: tv_has_record simp del: tv_has.simps)
qed (auto simp: res_simps dest!: text_node_D)

section \<open>Checked rules\<close>

definition text_rule_ok :: "text_tables \<Rightarrow> rule \<Rightarrow> bool" where
  "text_rule_ok tt r \<longleftrightarrow> list_all (\<lambda>(_, e). len_ok tt e) (l_bindings (r_logic r)) \<and> len_ok tt (l_value (r_logic r))"

definition text_tables_ok :: "'w ictx \<Rightarrow> text_tables \<Rightarrow> bool" where
  "text_tables_ok cx tt \<longleftrightarrow> same_text_rules cx tt \<and> text_i64 tt
     \<and> (\<forall>n. tt_concepts tt n = find (\<lambda>c. c_name c = n) (i_concepts cx))
     \<and> (\<forall>n r. tt_rules tt n = Some r \<longrightarrow> text_rule_ok tt r)"

lemma text_guard_passes:
  assumes "text_tables_ok cx tt" "text_admissible tt r fs"
  shows "entry_guard cx r (VRecord fs) = Inr ()"
proof -
  from assms obtain cn c where c: "r_input_ty r = TNamed cn" "find (\<lambda>c. c_name c = cn) (i_concepts cx) = Some c"
    "input_ok c fs" by (auto simp: text_admissible_def text_tables_ok_def)
  then have "find (\<lambda>c. r_input_ty r = TNamed (c_name c)) (i_concepts cx) = Some c"
    by (simp add: eq_commute)
  moreover have "find (\<lambda>f. \<not> field_ok f (map_of fs (f_name f))) (c_fields c) = None"
    using c(3) by (auto simp: find_None input_ok_def)
  ultimately show ?thesis by (auto simp: entry_guard_def Let_def)
qed

lemma text_lets_cache:
  assumes "call_good tx_cache good call" "cache_good tx_cache good st" "text_lets tt call bs env st = (res, st')"
  shows "cache_good tx_cache good st'"
  by (rule keepsD [OF keeps_text_lets assms(2,3)]) (use assms(1) in \<open>simp add: call_good_def\<close>)

definition tenv_wf :: "(string \<rightharpoonup> tval) \<Rightarrow> bool" where
  "tenv_wf tenv \<longleftrightarrow> (\<forall>n v. tenv n = Some v \<longrightarrow> tv_wf v)"

lemma text_lets_wf:
  assumes "call_good tx_cache (tt_good cx tt) call" "text_i64 tt" "cache_good tx_cache (tt_good cx tt) st"
    and "list_all (\<lambda>(_, e). len_ok tt e) bs" "tenv_wf tenv" "text_lets tt call bs tenv st = (Inr tenv', st')"
  shows "tenv_wf tenv'"
  using assms(3-)
proof (induction bs arbitrary: tenv st)
  case (Cons b bs)
  obtain n e where b: "b = (n, e)" by (cases b)
  from Cons.prems(4) b obtain v s1 where e: "text_expr tt call e tenv 0 st = (Inr v, s1)"
    and bs: "text_lets tt call bs (tenv(n \<mapsto> v)) s1 = (Inr tenv', st')" by (auto simp: res_simps)
  have "tv_wf v"
    by (rule text_expr_wf [OF assms(1) text_good_tt assms(2) Cons.prems(1) _ _ e])
       (use Cons.prems(2,3) b in \<open>auto simp: tenv_wf_def len_ok_def\<close>)
  then have "tenv_wf (tenv(n \<mapsto> v))" using Cons.prems(3) by (auto simp: tenv_wf_def)
  from Cons.IH [OF text_expr_cache [OF assms(1) Cons.prems(1) e] _ this bs] Cons.prems(2) b show ?case by simp
qed (simp add: res_simps)

lemma text_lets_has:
  assumes "call_good tx_cache (tt_good cx tt) call" "text_i64 tt" "same_text_rules cx tt"
    and "cache_good tx_cache (tt_good cx tt) st" "list_all (\<lambda>(_, e). len_ok tt e) bs" "env_has tt tenv env"
    and "text_lets tt call bs tenv st = (Inr tenv', st')"
  shows "\<exists>env'. lets_eval cx bs env env' \<and> env_has tt tenv' env'"
  using assms(4-)
proof (induction bs arbitrary: tenv env st)
  case Nil
  then show ?case by (auto simp: res_simps lets_eval_def)
next
  case (Cons b bs)
  obtain n e where b: "b = (n, e)" by (cases b)
  from Cons.prems(4) b obtain v s1 where e: "text_expr tt call e tenv 0 st = (Inr v, s1)"
    and bs: "text_lets tt call bs (tenv(n \<mapsto> v)) s1 = (Inr tenv', st')" by (auto simp: res_simps)
  have l: "len_ok tt e" "list_all (\<lambda>(_, e). len_ok tt e) bs" using Cons.prems(2) b by auto
  obtain x where x: "tv_has tt v x" "evals cx e env x"
    using text_expr_has [OF assms(1-3) Cons.prems(1,3) l(1) e] by blast
  have "tv_wf v"
    by (rule text_expr_wf [OF assms(1) text_good_tt assms(2) Cons.prems(1) _ _ e])
       (use Cons.prems(3) l in \<open>auto simp: env_has_def len_ok_def\<close>)
  with Cons.prems(3) x(1) have "env_has tt (tenv(n \<mapsto> v)) (env(n \<mapsto> x))" by (auto simp: env_has_def)
  from Cons.IH [OF text_expr_cache [OF assms(1) Cons.prems(1) e] l(2) this bs]
  show ?case using lets_eval_Cons [OF x(2)] b by blast
qed

lemma text_contract_has:
  assumes "text_contract r v = Inr v'" "tv_wf v"
  shows "tv_wf v'" "tv_has tt v x \<Longrightarrow> tv_has tt v' x \<and> check_output r x = Inr x"
    "r_output_text_max r = Some mx \<Longrightarrow> v' = XText (Some mx)"
proof -
  consider "r_output_text_max r = None" "v' = v"
    | mx n where "r_output_text_max r = Some mx" "v = XText (Some n)" "n \<le> mx" "v' = XText (Some mx)"
    using assms(1) by (auto simp: text_contract_def rbind_eq_Inr split: option.splits if_splits tval.splits)
  then have "tv_wf v' \<and> (tv_has tt v x \<longrightarrow> tv_has tt v' x \<and> check_output r x = Inr x)
    \<and> (r_output_text_max r = Some mx \<longrightarrow> v' = XText (Some mx))"
    by cases (use assms(2) in \<open>auto simp: check_output_def\<close>)
  then show "tv_wf v'" "tv_has tt v x \<Longrightarrow> tv_has tt v' x \<and> check_output r x = Inr x"
    "r_output_text_max r = Some mx \<Longrightarrow> v' = XText (Some mx)" by auto
qed

lemma text_signature_eq:
  "text_signature tt r = Inr input \<Longrightarrow> r_input_ty r = TNamed input \<and> (\<exists>c. tt_concepts tt input = Some c)"
  by (auto simp: text_signature_def split: if_splits vtype.splits option.splits)

lemma text_rule_inner_sound:
  assumes call: "call_good tx_cache (tt_good cx tt) call" and tab: "text_tables_ok cx tt"
    and ok: "cache_good tx_cache (tt_good cx tt) st"
    and ri: "text_rule_inner tt call name st = (Inr v', st')"
  shows "tt_good cx tt name v'"
proof -
  from ri obtain r input tenv s1 v where r: "tt_rules tt name = Some r" and sig: "text_signature tt r = Inr input"
    and lets: "text_lets tt call (l_bindings (r_logic r)) [r_input_name r \<mapsto> XInput input] st = (Inr tenv, s1)"
    and val: "text_expr tt call (l_value (r_logic r)) tenv 0 s1 = (Inr v, st')"
    and con: "text_contract r v = Inr v'"
    by (auto simp: text_rule_inner_def res_simps split: option.splits)
  have t: "text_i64 tt" "same_text_rules cx tt" "list_all (\<lambda>(_, e). len_ok tt e) (l_bindings (r_logic r))"
    "len_ok tt (l_value (r_logic r))"
    using tab r by (auto simp: text_tables_ok_def text_rule_ok_def)
  note ok1 = text_lets_cache [OF call ok lets]
  have "tenv_wf [r_input_name r \<mapsto> XInput input]" by (simp add: tenv_wf_def)
  note wfe = text_lets_wf [OF call t(1) ok t(3) this lets]
  have wf: "tv_wf v"
    by (rule text_expr_wf [OF call text_good_tt t(1) ok1 _ _ val]) (use wfe t(4) in \<open>auto simp: tenv_wf_def len_ok_def\<close>)
  have "\<exists>x. tv_has tt v' x \<and> rule_evals cx r fs x" if adm: "text_admissible tt r fs" for fs
  proof -
    have "env_has tt [r_input_name r \<mapsto> XInput input] [r_input_name r \<mapsto> VRecord fs]"
      using adm text_signature_eq [OF sig] by (auto simp: env_has_def text_admissible_def)
    from text_lets_has [OF call t(1,2) ok t(3) this lets] obtain env where
      env: "lets_eval cx (l_bindings (r_logic r)) [r_input_name r \<mapsto> VRecord fs] env" "env_has tt tenv env" by blast
    from text_expr_has [OF call t(1,2) ok1 env(2) t(4) val] obtain x where
      x: "tv_has tt v x" "evals cx (l_value (r_logic r)) env x" by blast
    note c = text_contract_has(2) [OF con wf x(1)]
    have "rule_evals cx r fs x"
      by (rule rule_evalsI [OF text_guard_passes [OF tab adm] _ env(1) x(2)]) (use c in simp)
    with c show ?thesis by blast
  qed
  with r text_contract_has(1,3) [OF con wf] show ?thesis by (auto simp: tt_good_def text_rule_sound_def)
qed

definition txt_good :: "'w ictx \<Rightarrow> text_tables \<Rightarrow> string \<Rightarrow> tval \<Rightarrow> bool" where
  "txt_good cx tt n v \<longleftrightarrow> (text_tables_ok cx tt \<longrightarrow> tt_good cx tt n v)"

lemma txt_good_eq: "text_tables_ok cx tt \<Longrightarrow> txt_good cx tt = tt_good cx tt"
  by (auto simp: txt_good_def fun_eq_iff)

interpretation text_cache: cached_rules tx_cache "\<lambda>n v st. st\<lparr>tx_cache := (tx_cache st)(n \<mapsto> v)\<rparr>"
  "text_rule tt" "text_rule_inner tt" InTextRule "txt_good cx tt" for tt :: text_tables and cx :: "'w ictx"
proof unfold_locales
  fix call st n v st'
  assume c: "call_good tx_cache (txt_good cx tt) call" "cache_good tx_cache (txt_good cx tt) st"
    "text_rule_inner tt call n st = (Inr v, st')"
  show "txt_good cx tt n v"
    unfolding txt_good_def
  proof
    assume t: "text_tables_ok cx tt"
    show "tt_good cx tt n v"
      using text_rule_inner_sound [OF _ t _ c(3)] c(1,2) by (simp add: txt_good_eq [OF t])
  qed
next
  fix st :: text_st and n v k vis assume "tx_cache st n = Some v"
  then show "text_rule tt k vis n st = (Inr v, st)" by (cases k) simp_all
qed (auto simp: keeps_text_rule_inner split: prod.splits sum.splits)

lemma text_rule_good: "text_tables_ok cx tt \<Longrightarrow> call_good tx_cache (tt_good cx tt) (text_rule tt left visiting)"
  using text_cache.chk_good [of cx tt left visiting] by (simp add: txt_good_eq)

section \<open>Checked programs\<close>

definition text_program_ok :: "program \<Rightarrow> bool \<Rightarrow> bool" where
  "text_program_ok p native \<longleftrightarrow> distinct (map r_name (rules_of p)) \<and> distinct (map c_name (text_concepts p))
     \<and> list_all concept_i64 (text_concepts p) \<and> list_all rule_i64 (rules_of p)
     \<and> (native \<or> list_all (\<lambda>r. list_all (\<lambda>(_, e). length_free e) (l_bindings (r_logic r)) \<and> length_free (l_value (r_logic r))) (rules_of p))"

lemma text_tables_ok_program:
  assumes "text_program_ok p native" "i_rules cx = rules_of p" "i_concepts cx = text_concepts p"
  shows "text_tables_ok cx (text_new p native (text_concepts p))"
proof -
  have d: "distinct (map r_name (rules_of p))" "distinct (map c_name (text_concepts p))"
    using assms(1) by (simp_all add: text_program_ok_def)
  let ?tt = "text_new p native (text_concepts p)"
  have e: "tt_rules ?tt n = find (\<lambda>r. r_name r = n) (rules_of p)"
    "tt_concepts ?tt n = find (\<lambda>c. c_name c = n) (text_concepts p)" "tt_native ?tt = native" for n
    using collect_map_find [OF d(1)] collect_map_find [OF d(2)] by (simp_all add: text_new_def)
  have "text_rule_ok ?tt r" if "r \<in> set (rules_of p)" for r
    using that assms(1) e(3)
    by (fastforce simp: text_program_ok_def text_rule_ok_def len_ok_def rule_i64_def list_all_iff)
  then show ?thesis using assms e
    by (auto simp: text_tables_ok_def same_text_rules_def text_program_ok_def text_i64_def list_all_iff dest!: find_SomeD)
qed

lemma text_rules_sound:
  assumes "text_tables_ok cx tt" "cache_good tx_cache (tt_good cx tt) st" "text_rules tt names st = ([], st')" "n \<in> set names"
  shows "\<exists>v. tt_good cx tt n v"
  using assms(2-)
proof (induction names arbitrary: st)
  case (Cons m names)
  note ok = text_rule_good [OF assms(1), of max_nested_calls "[]"]
  obtain v s1 where c: "text_rule tt max_nested_calls [] m st = (Inr v, s1)" "text_rules tt names s1 = ([], st')"
    using Cons.prems(2) by (auto split: prod.splits sum.splits)
  have "cache_good tx_cache (tt_good cx tt) s1"
    using keepsD [of "cache_good tx_cache (tt_good cx tt)" "text_rule tt max_nested_calls [] m"] ok Cons.prems(1) c(1)
    by (auto simp: call_good_def)
  moreover have "tt_good cx tt m v" using ok Cons.prems(1) c(1) unfolding call_good_def by blast
  ultimately show ?case using Cons.IH [OF _ c(2)] Cons.prems(3) by (cases "n = m") auto
qed simp

lemma verify_mode_rule:
  assumes "verify_mode p native = []" "text_program_ok p native" "i_rules cx = rules_of p" "i_concepts cx = text_concepts p"
    and "r \<in> set (rules_of p)" "r_name r \<in> text_participating (rules_of p)"
  shows "\<exists>v. text_rule_sound cx (text_new p native (text_concepts p)) r v"
proof -
  let ?tt = "text_new p native (text_concepts p)"
  note tab = text_tables_ok_program [OF assms(2-4)]
  obtain st where st: "text_rules ?tt (sorted_list_of_set (text_participating (rules_of p))) text_start = ([], st)"
    using assms(1,6) by (auto simp: verify_mode_def Let_def split: if_splits prod.splits)
  have "cache_good tx_cache (tt_good cx ?tt) text_start" by (simp add: cache_good_def text_start_def)
  from text_rules_sound [OF tab this st, of "r_name r"] assms(6)
  obtain v where "tt_good cx ?tt (r_name r) v" by (auto simp: text_scope.finite_part)
  moreover have "find (\<lambda>y. r_name y = r_name r) (rules_of p) = Some r"
    by (rule find_distinct) (use assms(2,5) in \<open>auto simp: text_program_ok_def\<close>)
  ultimately show ?thesis
    using collect_map_find [of r_name "rules_of p"] assms(2)
    by (auto simp: tt_good_def text_program_ok_def text_new_def)
qed

lemma text_admissibleI:
  assumes "text_program_ok p native" "c \<in> set (text_concepts p)" "r_input_ty r = TNamed (c_name c)" "input_ok c fs"
  shows "text_admissible (text_new p native (text_concepts p)) r fs"
proof -
  have "find (\<lambda>y. c_name y = c_name c) (text_concepts p) = Some c"
    by (rule find_distinct) (use assms(1,2) in \<open>auto simp: text_program_ok_def\<close>)
  then have "tt_concepts (text_new p native (text_concepts p)) (c_name c) = Some c"
    using collect_map_find [of c_name "text_concepts p"] assms(1) by (simp add: text_program_ok_def text_new_def)
  with assms(3,4) show ?thesis by (auto simp: text_admissible_def)
qed

end
