(* ===== verification/Samples.thy ===== *)
theory Samples
  imports Text_Soundness
begin

text \<open>
  Three small programs on which the properties are exhibited: an order with a price and a quantity, whose unit price
  is under an overflow contract and calls a second rule; a greeting with a bounded text output; and two HTTP
  services, one that logs its requests and one that keeps the last path in a state field.
\<close>

definition sample_src :: source_ref where
  "sample_src = \<lparr>src_file = ''sample.verbose'', src_line = 1\<rparr>"

definition sample_proofs :: proofs where
  "sample_proofs = \<lparr>pr_purity = \<lparr>reads = [], calls_decl = []\<rparr>,
     pr_termination = \<lparr>t_bound = None, t_structural = None, t_decreasing = None, t_increasing = None\<rparr>,
     pr_native_stack = None\<rparr>"

definition sample_rule :: "string \<Rightarrow> vtype \<Rightarrow> (string \<times> expr) list \<Rightarrow> expr \<Rightarrow> overflow_hint option \<Rightarrow> rule" where
  "sample_rule name out bs e h =
     \<lparr>r_name = name, r_intention = [], r_source = sample_src, r_input_name = ''x'', r_input_ty = TNamed ''Order'',
      r_output_name = ''y'', r_output_ty = out, r_output_text_max = None,
      r_logic = \<lparr>l_bindings = bs, l_target = ''y'', l_value = e\<rparr>, r_proofs = sample_proofs,
      r_hints = Some \<lparr>h_vectorizable = None, h_parallel = None, h_cache_result = None, h_overflow = h\<rparr>,
      r_layer = None, r_context_name = None, r_context_ty = None\<rparr>"

definition sample_concept :: concept where
  "sample_concept =
     \<lparr>c_name = ''Order'', c_intention = [], c_source = sample_src,
      c_fields = [\<lparr>f_name = ''price'', f_ty = TNumber, f_range = Some (0, 1000)\<rparr>,
                  \<lparr>f_name = ''qty'', f_ty = TNumber, f_range = Some (-5, 100)\<rparr>],
      c_variants = []\<rparr>"

definition x_price :: expr where "x_price = EField (EIdent ''x'') ''price''"
definition x_qty :: expr where "x_qty = EField (EIdent ''x'') ''qty''"

definition sample_base :: rule where
  "sample_base = sample_rule ''base'' TNumber [] (EBinary OpMul x_price x_qty) None"

definition sample_unit :: rule where
  "sample_unit = sample_rule ''unit'' TNumber [(''t'', ECall ''base'' [EIdent ''x''])]
     (EIf (EBinary OpGt x_qty (ENumber 0)) (EBinary OpDiv (EIdent ''t'') x_qty) (ENumber 0))
     (Some \<lparr>o_min = -5000, o_max = 100000\<rparr>)"

definition sample_program :: program where
  "sample_program = \<lparr>p_version = \<lparr>major = 0, minor = 1, patch = 0\<rparr>, p_uses = [],
     p_items = [IConcept sample_concept, IRule sample_base, IRule sample_unit]\<rparr>"

definition sample_ctx :: "program \<Rightarrow> unit ictx" where
  "sample_ctx p = \<lparr>i_chk = True, i_host = \<lparr>h_now = (\<lambda>w. (0, w)), h_urandom = (\<lambda>_ w. (None, w))\<rparr>,
     i_rules = rules_of p, i_concepts = concepts_of p, i_entropies = []\<rparr>"

lemma sample_accepted: "numeric_verify sample_program = []"
  by code_simp

lemma sample_ok: "program_ok sample_program"
  by code_simp

definition text_sample_concept :: concept where
  "text_sample_concept =
     \<lparr>c_name = ''Order'', c_intention = [], c_source = sample_src,
      c_fields = [\<lparr>f_name = ''who'', f_ty = TText, f_range = Some (0, 40)\<rparr>,
                  \<lparr>f_name = ''qty'', f_ty = TNumber, f_range = Some (0, 1000)\<rparr>],
      c_variants = []\<rparr>"

definition text_sample_rule :: rule where
  "text_sample_rule = (sample_rule ''greet'' TText
     [(''n'', EIf (EBinary OpGt (ELength (EField (EIdent ''x'') ''who'')) (ENumber 0))
        (EField (EIdent ''x'') ''who'') (EText ''nobody''))]
     (EConcat [EText ''dear '', EIdent ''n'', EText '': '', EField (EIdent ''x'') ''qty'']) None)
     \<lparr>r_output_text_max := Some 70, r_hints := None\<rparr>"

definition text_sample :: program where
  "text_sample = \<lparr>p_version = \<lparr>major = 0, minor = 1, patch = 0\<rparr>, p_uses = [],
     p_items = [IConcept text_sample_concept, IRule text_sample_rule]\<rparr>"

lemma text_sample_accepted: "verify_mode text_sample True = []"
  by code_simp

lemma text_sample_ok: "text_program_ok text_sample True"
  by code_simp

definition http_rule :: "string \<Rightarrow> vtype \<Rightarrow> expr \<Rightarrow> rule" where
  "http_rule name out e = (sample_rule name out [] e None)\<lparr>r_input_ty := TNamed ''HttpRequest'', r_hints := None\<rparr>"

definition http_tag :: rule where
  "http_tag = (http_rule ''tag'' TText (EConcat [EText ''path '', EField (EIdent ''x'') ''path'']))\<lparr>r_output_text_max := Some 300\<rparr>"

definition http_hello :: rule where
  "http_hello = http_rule ''hello'' (TNamed ''HttpResponse'')
     (ERecord ''HttpResponse'' [(''status'', ENumber 200), (''body'', ECall ''tag'' [EIdent ''x''])])"

definition http_count :: rule where
  "http_count = http_rule ''count'' (TNamed ''HttpResponse'')
     (ERecord ''HttpResponse'' [(''status'', ENumber 200), (''body'', EText ''ok'')])"

definition http_line :: expr where
  "http_line = EConcat [EField (EIdent ''req'') ''path'', EText '' '', EField (EIdent ''resp'') ''status'',
     EText '' '', EField (EIdent ''req'') ''timestamp'']"

definition http_service :: "string \<Rightarrow> string \<Rightarrow> log_block list \<Rightarrow> state_field list \<Rightarrow> state_set list \<Rightarrow> service" where
  "http_service name handler logs states afters =
     \<lparr>s_name = name, s_intention = [], s_source = sample_src, s_protocol = Http10, s_port = 8080, s_max_request = 1024,
      s_handler = handler, s_logs = logs, s_concurrency = Sequential, s_state_fields = states, s_after_sets = afters,
      s_max_steps = None, s_read_timeout = None, s_request_timeout = None, s_response_timeout = None,
      s_max_connections = None, s_workers = None, s_shutdown_timeout = None, s_native_stack = None\<rparr>"

definition http_web :: service where
  "http_web = http_service ''web'' ''hello'' [\<lparr>lb_effect = AppendFile ''web.log'' http_line, lb_on_error = Drop\<rparr>] [] []"

definition http_keep :: service where
  "http_keep = http_service ''keep'' ''count'' []
     [\<lparr>sf_name = ''last'', sf_ty = TText, sf_max_bytes = Some 512, sf_init = InitText []\<rparr>]
     [\<lparr>ss_field_name = ''last'', ss_value = ECall ''tag'' [EIdent ''x'']\<rparr>]"

definition http_sample :: program where
  "http_sample = \<lparr>p_version = \<lparr>major = 0, minor = 1, patch = 0\<rparr>, p_uses = [],
     p_items = [IRule http_tag, IRule http_hello, IRule http_count, IService http_web, IService http_keep]\<rparr>"

definition http_ctx :: "unit ictx" where
  "http_ctx = (sample_ctx http_sample)\<lparr>i_rules := rules_of http_sample, i_concepts := text_concepts http_sample\<rparr>"

definition http_request :: "(string \<times> val) list" where
  "http_request = [(''method'', VText ''GET''), (''path'', VText ''/''), (''body'', VText [])]"

lemma http_sample_accepted: "verify_mode http_sample True = []"
  by code_simp

lemma http_sample_ok: "text_program_ok http_sample True"
  by code_simp

lemma http_active:
  "s_handler http_web \<in> text_participating (rules_of http_sample)"
  "list_ex (\<lambda>n. n \<in> text_participating (rules_of http_sample)) (calls (ECall ''tag'' [EIdent ''x'']))"
  by code_simp+

lemma http_request_ok:
  "input_ok (builtin_http_request (int (s_max_request http_web))) http_request"
  "input_ok (builtin_http_request (int (s_max_request http_keep))) http_request"
  by (simp_all add: input_ok_def builtin_http_request_def http_request_def field_ok_def)

end
