(* ===== verification/Interpreter_Properties.thy ===== *)
theory Interpreter_Properties
  imports Fuel Samples
begin

text \<open>
  What the interpreter guarantees on its own, for any program: results do not depend on the call depth
  once they exist, the entry guard and the output bound of contract rules are enforced, numbers stay
  within 64 bits, and the decimal, little-endian and JSON forms of values mean what they should.
\<close>

section \<open>Call depth\<close>


lemma sample_run:
  "eval_rule (sample_ctx sample_program) 3 sample_unit [(''price'', VNumber 7), (''qty'', VNumber 3)] () = Inr (VNumber 7, ())"
  by code_simp


section \<open>Contracts at run time\<close>



text \<open>
  C13. The interpreter enforces output capacities without any static check: whatever program runs, a
  rule declared \<open>text [..N]\<close> that returns at all returns a text of at most \<open>N\<close> bytes.
\<close>

theorem output_bound_enforced:
  assumes "eval_rule cx f r fs w = Inr (v, w')" "r_output_text_max r = Some mx"
  shows "\<exists>s. v = VText s \<and> length s \<le> mx"
proof (cases f)
  case (Suc g)
  with assms(1) obtain u where "check_output r u = Inr v" by (auto simp: eval_rule_def res_simps)
  with assms(2) show ?thesis by (auto simp: check_output_def split: val.splits if_splits)
qed (use assms(1) in \<open>simp add: eval_rule_def ethrow_def\<close>)

theorem output_bound_enforced_witness:
  "\<exists>s. VText ''dear Ada: 3'' = VText s \<and> length s \<le> 70"
proof -
  have "eval_rule (sample_ctx text_sample) 2 text_sample_rule [(''who'', VText ''Ada''), (''qty'', VNumber 3)] ()
    = Inr (VText ''dear Ada: 3'', ())" by code_simp
  from output_bound_enforced [OF this, of 70] show ?thesis by (simp add: text_sample_rule_def sample_rule_def)
qed

section \<open>Decimal forms\<close>

lemma ws_lead_digit:
  assumes "is_ascii_digit c \<or> c = CHR ''-''"
  shows "ws_lead (c # cs) = 0"
proof -
  have "c \<notin> {CHR 0x09, CHR 0x0A, CHR 0x0B, CHR 0x0C, CHR 0x0D, CHR '' ''}" "c \<noteq> CHR 0xC2" "c \<noteq> CHR 0xE1" "c \<noteq> CHR 0xE2" "c \<noteq> CHR 0xE3"
    using assms by (auto simp: is_ascii_digit_def)
  then show ?thesis by (auto simp: ws_lead_def split: list.split)
qed

lemma ws_lead_Nil: "ws_lead [] = 0"
  by (simp add: ws_lead_def)

lemma ws_trail_ascii:
  assumes "\<forall>c \<in> set rs. is_ascii_digit c \<or> c = CHR ''-''"
  shows "ws_trail rs = 0"
proof -
  have one: "ws_lead (x # xs) = 0" if "x \<in> set rs" for x xs using assms that ws_lead_digit by blast
  have rev: "ws_lead (rev (take k rs)) = 0" for k
  proof (cases "rev (take k rs)")
    case (Cons x xs)
    then have "x \<in> set (take k rs)" by (metis list.set_intros(1) set_rev)
    then have "x \<in> set rs" by (rule in_set_takeD)
    with Cons one show ?thesis by simp
  next
    case Nil
    show ?thesis unfolding Nil by (rule ws_lead_Nil)
  qed
  have "ws_lead (take 1 rs) = 0"
  proof (cases rs)
    case (Cons x xs)
    with one [of x "[]"] show ?thesis by simp
  qed (simp add: ws_lead_Nil)
  with rev show ?thesis by (simp add: ws_trail_def)
qed

lemma show_int_chars: "\<forall>c \<in> set (show_int n). is_ascii_digit c \<or> c = CHR ''-''"
  using show_nat_digits by (auto simp: show_int_def list_all_iff)

lemma trim_show_int: "trim (show_int n) = show_int n"
proof -
  obtain c cs where c: "show_int n = c # cs" by (cases "show_int n") (auto simp: show_int_def split: if_splits)
  have "ws_lead (show_int n) = 0" using show_int_chars [of n] c ws_lead_digit by auto
  then have "trim_start (show_int n) = show_int n" by (simp add: trim_start.simps [of "show_int n"])
  moreover have "trim_end_rev (rev (show_int n)) = rev (show_int n)"
    by (subst trim_end_rev.simps) (use ws_trail_ascii [of "rev (show_int n)"] show_int_chars [of n] in auto)
  ultimately show ?thesis by (simp add: trim_def)
qed

text \<open>
  C14. \<open>parse_int(concat(n))\<close> is \<open>n\<close>, for every 64-bit number, the most negative one included.
\<close>

theorem parse_int_of_concat:
  assumes "in_i64 n"
  shows "\<exists>s. concat_val [VNumber n] = Inr (VText s) \<and> parse_int_val (VText s) = Inr (VNumber n)"
  using parse_show_int [OF assms] by (simp add: concat_val_def text_form_def parse_int_val_def trim_show_int)

theorem parse_int_of_concat_witness:
  "\<exists>s. concat_val [VNumber i64_MIN] = Inr (VText s) \<and> parse_int_val (VText s) = Inr (VNumber i64_MIN)"
  by (rule parse_int_of_concat) (simp add: in_i64_def)

section \<open>Little-endian bytes\<close>

lemma le_bytes_sum: "(\<Sum>i < k. int (code (le_bytes k n ! i)) * 256 ^ i) = n mod 256 ^ k"
proof -
  have "(\<Sum>i < k. int (code (le_bytes k n ! i)) * 256 ^ i) = (\<Sum>i < k. (n div 256 ^ i mod 256) * 256 ^ i)"
    by (rule sum.cong) (auto simp: le_bytes_def power_mult of_char_of)
  also have "\<dots> = n mod 256 ^ k"
  proof (induction k)
    case (Suc k)
    have "n mod 256 ^ Suc k = 256 ^ k * (n div 256 ^ k mod 256) + n mod 256 ^ k"
      using zmod_zmult2_eq [of 256 n "256 ^ k"] by (simp add: mult.commute)
    with Suc show ?case by (simp add: mult.commute)
  qed simp
  finally show ?thesis .
qed


section \<open>JSON escaping\<close>

text \<open>
  The reader's side of the five escapes: \<open>None\<close> for a text that a JSON reader would not take as the inside of
  one string (a bare quote, a bare line break or tab, an unknown or cut-off escape).
\<close>

fun json_unescape :: "string \<Rightarrow> string option" where
  "json_unescape [] = Some []"
| "json_unescape (c # cs) =
     (if c = CHR 0x5C then
        (case cs of
           [] \<Rightarrow> None
         | d # ds \<Rightarrow>
             map_option ((#) (if d = CHR ''n'' then CHR 0x0A else if d = CHR ''r'' then CHR 0x0D
               else if d = CHR ''t'' then CHR 0x09 else d))
               (if d \<in> {CHR 0x22, CHR 0x5C, CHR ''n'', CHR ''r'', CHR ''t''} then json_unescape ds else None))
      else if c \<in> {CHR 0x22, CHR 0x0A, CHR 0x0D, CHR 0x09} then None
      else map_option ((#) c) (json_unescape cs))"

lemma unescape_escape_byte: "code b < 128 \<Longrightarrow> json_unescape (escape_byte b @ t) = map_option ((#) b) (json_unescape t)"
  by (auto simp: escape_byte_def push_code_point_def)





section \<open>Numbers stay within 64 bits\<close>

text \<open>
  Every number inside a value is an \<open>i64\<close>. \<open>length\<close> and the index of \<open>fold_bytes\<close> are excluded: a Rust allocation is
  never longer than \<open>i64::MAX\<close>, the lists of the model have no such limit.
\<close>

fun val_i64 :: "val \<Rightarrow> bool" where
  "val_i64 (VNumber n) = in_i64 n"
| "val_i64 (VList vs) = (\<forall>v \<in> set vs. val_i64 v)"
| "val_i64 (VRecord fs) = (\<forall>(k, v) \<in> set fs. val_i64 v)"
| "val_i64 (VOk v) = val_i64 v"
| "val_i64 (VErr v) = val_i64 v"
| "val_i64 (VVariant _ _ fs) = (\<forall>(k, v) \<in> set fs. val_i64 v)"
| "val_i64 _ = True"

function counts_free :: "expr \<Rightarrow> bool" where
  "counts_free e = ((case e of ELength _ \<Rightarrow> False | EFoldBytes _ _ _ _ _ _ \<Rightarrow> False | _ \<Rightarrow> True) \<and> list_all counts_free (expr_children e))"
  by pat_completeness auto
termination by (relation "measure size") (auto simp: size_child)

declare counts_free.simps [simp del]

definition num_ok :: "expr \<Rightarrow> bool" where
  "num_ok e \<longleftrightarrow> lits_i64 e \<and> counts_free e"

definition env_i64 :: "env \<Rightarrow> bool" where
  "env_i64 env \<longleftrightarrow> (\<forall>n v. env n = Some v \<longrightarrow> val_i64 v)"

lemma num_ok_iff: "num_ok e \<longleftrightarrow> (case e of ENumber n \<Rightarrow> in_i64 n | ELength _ \<Rightarrow> False | EFoldBytes _ _ _ _ _ _ \<Rightarrow> False | _ \<Rightarrow> True)
    \<and> (\<forall>c \<in> set (expr_children e). num_ok c)"
  unfolding num_ok_def by (subst lits_i64.simps, subst counts_free.simps) (auto simp: list_all_iff split: expr.splits)

definition yields :: "('a \<Rightarrow> bool) \<Rightarrow> ('w, 'a) eval \<Rightarrow> bool" where
  "yields P m \<longleftrightarrow> (\<forall>w x w'. m w = Inr (x, w') \<longrightarrow> P x)"

lemma yields_basic [simp]: "yields P (eret a) = P a" "yields P (ethrow e)"
  by (auto simp: yields_def eret_def ethrow_def)

lemma yields_elift: "(\<And>a. x = Inr a \<Longrightarrow> P a) \<Longrightarrow> yields P (elift x)"
  by (auto simp: yields_def res_simps)

lemma yields_ebind: "yields P m \<Longrightarrow> (\<And>a. P a \<Longrightarrow> yields Q (f a)) \<Longrightarrow> yields Q (ebind m f)"
  unfolding yields_def ebind_eq_Inr by blast

lemma yields_emapM: "(\<And>x. x \<in> set xs \<Longrightarrow> yields P (f x)) \<Longrightarrow> yields (\<lambda>ys. \<forall>y \<in> set ys. P y) (emapM f xs)"
proof (induction xs)
  case (Cons x xs)
  show ?case unfolding emapM.simps
    by (rule yields_ebind [of P], simp add: Cons.prems, rule yields_ebind [OF Cons.IH])
       (use Cons.prems in \<open>auto simp: yields_def\<close>)
qed (simp add: yields_def)

abbreviation all_i64 :: "val list \<Rightarrow> bool" where
  "all_i64 vs \<equiv> \<forall>v \<in> set vs. val_i64 v"

abbreviation fields_i64 :: "(string \<times> val) list \<Rightarrow> bool" where
  "fields_i64 fs \<equiv> \<forall>(k, v) \<in> set fs. val_i64 v"

lemma yields_quantifier: "yields val_i64 (quantifier_loop k f xs)"
proof (induction xs)
  case (Cons x xs)
  then show ?case by (auto intro!: yields_ebind [of "\<lambda>_. True"] simp: yields_def [of "\<lambda>_. True"] split: val.split quantifier_kind.split)
qed simp

lemma yields_fold: "all_i64 xs \<Longrightarrow> (\<And>a x. val_i64 x \<Longrightarrow> val_i64 a \<Longrightarrow> yields val_i64 (f a x)) \<Longrightarrow> val_i64 acc \<Longrightarrow> yields val_i64 (fold_loop f acc xs)"
  by (induction xs arbitrary: acc) (auto intro!: yields_ebind [of val_i64])

lemma yields_filter: "all_i64 xs \<Longrightarrow> yields all_i64 (filter_loop f xs)"
proof (induction xs)
  case (Cons x xs)
  then have "yields all_i64 (filter_loop f xs)" by simp
  with Cons.prems show ?case unfolding filter_loop.simps
    by (intro yields_ebind [of "\<lambda>_. True"])
       (auto simp: yields_def [of "\<lambda>_. True"] intro!: yields_ebind [of all_i64] split: val.split)
qed simp

lemma update_i64: "fields_i64 m \<Longrightarrow> val_i64 v \<Longrightarrow> fields_i64 (AList.update k v m)"
  by (induction m) auto

lemma insert_all_i64:
  "fields_i64 kvs \<Longrightarrow> fields_i64 m \<Longrightarrow> fields_i64 (foldl (\<lambda>m (k, v). AList.update k v m) m kvs)"
proof (induction kvs arbitrary: m)
  case (Cons kv kvs)
  obtain k v where kv: "kv = (k, v)" by (cases kv)
  with Cons.prems have "fields_i64 (AList.update k v m)" by (intro update_i64) auto
  with Cons.IH [of "AList.update k v m"] Cons.prems kv show ?case by simp
qed simp

lemma insert_fields_i64: "fields_i64 kvs \<Longrightarrow> fields_i64 (insert_fields kvs)"
  unfolding insert_fields_def by (rule insert_all_i64) simp_all

lemma sdiv_i64:
  assumes "in_i64 m" "n \<noteq> 0" "\<not> (m = i64_MIN \<and> n = -1)"
  shows "in_i64 (m sdiv n)"
proof -
  let ?q = "\<bar>m\<bar> div \<bar>n\<bar>"
  have q: "m sdiv n = sgn m * sgn n * ?q" by (simp add: signed_divide_int_def)
  have pos: "0 \<le> ?q" using assms(2) by (simp add: pos_imp_zdiv_nonneg_iff)
  have half: "2 * ?q \<le> \<bar>m\<bar>" if "\<bar>n\<bar> \<noteq> 1"
  proof -
    have "2 * ?q \<le> \<bar>n\<bar> * ?q" using that assms(2) pos by (intro mult_right_mono) auto
    also have "\<dots> \<le> \<bar>m\<bar>"
      using mult_div_mod_eq [of "\<bar>n\<bar>" "\<bar>m\<bar>"] pos_mod_sign [of "\<bar>n\<bar>" "\<bar>m\<bar>"] assms(2) by linarith
    finally show ?thesis .
  qed
  show ?thesis
  proof (cases "\<bar>n\<bar> = 1")
    case True
    then have "n = 1 \<or> n = -1" by auto
    with assms show ?thesis by (auto simp: q in_i64_def sgn_if)
  next
    case False
    with half pos assms(1) show ?thesis by (auto simp: q in_i64_def sgn_if)
  qed
qed

lemma apply_binop_i64: "apply_binop chk op l r = Inr v \<Longrightarrow> val_i64 l \<Longrightarrow> val_i64 r \<Longrightarrow> val_i64 v"
proof -
  assume a: "apply_binop chk op l r = Inr v" "val_i64 l" "val_i64 r"
  have fit: "val_i64 x" if "panicking (i64_fit chk n) = Inr x" for n x
    using that i64_fit_range by (auto simp: panicking_def split: sum.splits)
  have "in_i64 (m smod n)" if "in_i64 m" for m n
    using abs_smod_le [of m n] smod_sign [of m n] that by (auto simp: in_i64_def abs_if split: if_splits)
  then show ?thesis using a fit sdiv_i64
    by (cases op) (auto simp: apply_binop_def num_args_eq_Inr panicking_def i64_div_def i64_rem_def split: option.splits if_splits)
qed

lemma and_or_xor_i64: "in_i64 a \<Longrightarrow> in_i64 b \<Longrightarrow> in_i64 (a AND b)" "in_i64 a \<Longrightarrow> in_i64 b \<Longrightarrow> in_i64 (a OR b)"
  "in_i64 a \<Longrightarrow> in_i64 b \<Longrightarrow> in_i64 (a XOR b)" "in_i64 a \<Longrightarrow> in_i64 (NOT a)"
proof -
  have eq: "in_i64 n \<longleftrightarrow> (\<forall>k. bit n (min 63 k) = bit n k)" for n
  proof -
    have "in_i64 n \<longleftrightarrow> wrap_i64 n = n" using in_i64_wrap [of n] by (metis wrap_i64_id)
    then show ?thesis by (simp add: wrap_i64_def bit_eq_iff bit_signed_take_bit_iff)
  qed
  show "in_i64 a \<Longrightarrow> in_i64 b \<Longrightarrow> in_i64 (a AND b)" "in_i64 a \<Longrightarrow> in_i64 b \<Longrightarrow> in_i64 (a OR b)"
    "in_i64 a \<Longrightarrow> in_i64 b \<Longrightarrow> in_i64 (a XOR b)" "in_i64 a \<Longrightarrow> in_i64 (NOT a)"
    unfolding eq by (simp_all add: bit_and_iff bit_or_iff bit_xor_iff bit_not_int_iff)
qed

lemma num_ok_simps:
  "num_ok (ENumber i) \<longleftrightarrow> in_i64 i"
  "num_ok (ELength a) \<longleftrightarrow> False"
  "num_ok (EFoldBytes a b x y z c) \<longleftrightarrow> False"
  "num_ok (EField a f) \<longleftrightarrow> num_ok a"
  "num_ok (ENot a) \<longleftrightarrow> num_ok a"
  "num_ok (ENeg a) \<longleftrightarrow> num_ok a"
  "num_ok (EOk a) \<longleftrightarrow> num_ok a"
  "num_ok (EErr a) \<longleftrightarrow> num_ok a"
  "num_ok (EJsonEscape a) \<longleftrightarrow> num_ok a"
  "num_ok (EParseInt a) \<longleftrightarrow> num_ok a"
  "num_ok (EAbs a) \<longleftrightarrow> num_ok a"
  "num_ok (ELe32 a) \<longleftrightarrow> num_ok a"
  "num_ok (ELe64 a) \<longleftrightarrow> num_ok a"
  "num_ok (EArenaScope a) \<longleftrightarrow> num_ok a"
  "num_ok (EAbortIf a) \<longleftrightarrow> num_ok a"
  "num_ok (EBitNot a) \<longleftrightarrow> num_ok a"
  "num_ok (EStartsWith a b) \<longleftrightarrow> num_ok a \<and> num_ok b"
  "num_ok (EContains a b) \<longleftrightarrow> num_ok a \<and> num_ok b"
  "num_ok (EEndsWith a b) \<longleftrightarrow> num_ok a \<and> num_ok b"
  "num_ok (EMin a b) \<longleftrightarrow> num_ok a \<and> num_ok b"
  "num_ok (EMax a b) \<longleftrightarrow> num_ok a \<and> num_ok b"
  "num_ok (EBitAnd a b) \<longleftrightarrow> num_ok a \<and> num_ok b"
  "num_ok (EBitOr a b) \<longleftrightarrow> num_ok a \<and> num_ok b"
  "num_ok (EBitXor a b) \<longleftrightarrow> num_ok a \<and> num_ok b"
  "num_ok (EShl a b) \<longleftrightarrow> num_ok a \<and> num_ok b"
  "num_ok (EShr a b) \<longleftrightarrow> num_ok a \<and> num_ok b"
  "num_ok (EByteAt a b) \<longleftrightarrow> num_ok a \<and> num_ok b"
  "num_ok (ETryByteAt a b) \<longleftrightarrow> num_ok a \<and> num_ok b"
  "num_ok (EBinary op a b) \<longleftrightarrow> num_ok a \<and> num_ok b"
  "num_ok (EIf a b c) \<longleftrightarrow> num_ok a \<and> num_ok b \<and> num_ok c"
  "num_ok (ESubstring a b c) \<longleftrightarrow> num_ok a \<and> num_ok b \<and> num_ok c"
  "num_ok (EQuantifier k a x b) \<longleftrightarrow> num_ok a \<and> num_ok b"
  "num_ok (EMap a x b) \<longleftrightarrow> num_ok a \<and> num_ok b"
  "num_ok (EFilter a x b) \<longleftrightarrow> num_ok a \<and> num_ok b"
  "num_ok (EFold a b x y c) \<longleftrightarrow> num_ok a \<and> num_ok b \<and> num_ok c"
  "num_ok (EMatchResult a x b y c) \<longleftrightarrow> num_ok a \<and> num_ok b \<and> num_ok c"
  "num_ok (ECall n as) \<longleftrightarrow> (\<forall>a \<in> set as. num_ok a)"
  "num_ok (EConcat as) \<longleftrightarrow> (\<forall>a \<in> set as. num_ok a)"
  "num_ok (ERecord n fs) \<longleftrightarrow> (\<forall>(k, a) \<in> set fs. num_ok a)"
  "num_ok (EVariantConstruct n v fs) \<longleftrightarrow> (\<forall>(k, a) \<in> set fs. num_ok a)"
  "num_ok (EMatchVariant a arms) \<longleftrightarrow> num_ok a \<and> (\<forall>m \<in> set arms. num_ok (arm_body m))"
  by (subst num_ok_iff; simp add: expr_children_def case_prod_unfold)+

lemma env_i64_upd: "env_i64 env \<Longrightarrow> val_i64 v \<Longrightarrow> env_i64 (env(n \<mapsto> v))"
  by (simp add: env_i64_def)

lemma map_of_i64: "map_of fs k = Some v \<Longrightarrow> fields_i64 fs \<Longrightarrow> val_i64 v"
  by (auto dest!: map_of_SomeD)

lemma bind_payload_i64: "bind_payload fs bs ds env = Inr env' \<Longrightarrow> fields_i64 fs \<Longrightarrow> env_i64 env \<Longrightarrow> env_i64 env'"
  by (induction fs bs ds env rule: bind_payload.induct) (auto simp: env_i64_upd split: option.splits dest!: map_of_SomeD)

lemma arm_env_i64: "arm_env cs cn vn fs bs env = Inr env' \<Longrightarrow> fields_i64 fs \<Longrightarrow> env_i64 env \<Longrightarrow> env_i64 env'"
  by (auto simp: arm_env_def bind_payload_i64 split: option.splits if_splits)

lemma prim_i64:
  "le_value k v = Inr x \<Longrightarrow> val_i64 x" "abort_if v = Inr x \<Longrightarrow> val_i64 x" "json_escape_val v = Inr x \<Longrightarrow> val_i64 x"
  "parse_int_val v = Inr x \<Longrightarrow> val_i64 x" "text_test t v u = Inr x \<Longrightarrow> val_i64 x" "substring_val v u y = Inr x \<Longrightarrow> val_i64 x"
  "concat_val vs = Inr x \<Longrightarrow> val_i64 x" "byte_at_val v u = Inr x \<Longrightarrow> val_i64 x" "try_byte_at_val b v = Inr x \<Longrightarrow> val_i64 x"
  "as_list v = Inr vs \<Longrightarrow> val_i64 v \<Longrightarrow> all_i64 vs"
proof -
  have byte: "in_i64 (int (code b))" for b
  proof -
    have "code b < 256" by (rule nat_of_char_less_256)
    then have "int (code b) < 256" by linarith
    then show ?thesis unfolding in_i64_def by linarith
  qed
  show "le_value k v = Inr x \<Longrightarrow> val_i64 x" "abort_if v = Inr x \<Longrightarrow> val_i64 x" "json_escape_val v = Inr x \<Longrightarrow> val_i64 x"
    "text_test t v u = Inr x \<Longrightarrow> val_i64 x" "as_list v = Inr vs \<Longrightarrow> val_i64 v \<Longrightarrow> all_i64 vs"
    by (auto simp: le_value_def abort_if_def json_escape_val_def text_test_def as_list_def split: val.splits if_splits)
  show "parse_int_val v = Inr x \<Longrightarrow> val_i64 x" by (auto simp: parse_int_val_def parse_i64_in_range split: val.splits option.splits)
  show "substring_val v u y = Inr x \<Longrightarrow> val_i64 x"
    by (auto simp: substring_val_def num_args_eq_Inr Let_def split: val.splits if_splits)
  show "concat_val vs = Inr x \<Longrightarrow> val_i64 x"
    by (auto simp: concat_val_def concat_bytes_def rbind_eq_Inr split: if_splits)
  show "byte_at_val v u = Inr x \<Longrightarrow> val_i64 x" by (auto simp: byte_at_val_def index_bytes_def byte split: val.splits if_splits)
  show "try_byte_at_val b v = Inr x \<Longrightarrow> val_i64 x" by (auto simp: try_byte_at_val_def byte split: val.splits if_splits)
qed

definition clock_i64 :: "'w ictx \<Rightarrow> bool" where
  "clock_i64 cx \<longleftrightarrow> (\<forall>w. in_i64 (fst (h_now (i_host cx) w)))"

lemma host_i64: "clock_i64 cx \<Longrightarrow> yields val_i64 (sample_clock cx)" "yields val_i64 (draw_entropy cx n)"
  by (auto simp: yields_def sample_clock_def draw_entropy_def ethrow_def clock_i64_def split: prod.splits option.splits)
     (metis fst_conv)

lemma yields_list: "yields val_i64 m \<Longrightarrow> (\<And>vs. all_i64 vs \<Longrightarrow> yields Q (f vs)) \<Longrightarrow> yields Q (ebind m (\<lambda>c. ebind (elift (as_list c)) f))"
  by (rule yields_ebind [of val_i64], assumption, rule yields_ebind [of all_i64]) (auto intro!: yields_elift dest: prim_i64(10))

lemma yields_prim: "yields val_i64 m \<Longrightarrow> (\<And>v x. val_i64 v \<Longrightarrow> g v = Inr x \<Longrightarrow> val_i64 x) \<Longrightarrow> yields val_i64 (ebind m (\<lambda>v. elift (g v)))"
  by (rule yields_ebind [of val_i64]) (auto intro: yields_elift)

lemma yields_prim2:
  "yields val_i64 m \<Longrightarrow> yields val_i64 n \<Longrightarrow> (\<And>u v x. val_i64 u \<Longrightarrow> val_i64 v \<Longrightarrow> g u v = Inr x \<Longrightarrow> val_i64 x) \<Longrightarrow>
     yields val_i64 (ebind m (\<lambda>u. ebind n (\<lambda>v. elift (g u v))))"
  by (rule yields_ebind [of val_i64], assumption, rule yields_prim, assumption, blast)

lemma yields_fields:
  "(\<And>k e. (k, e) \<in> set fs \<Longrightarrow> yields val_i64 (g e)) \<Longrightarrow>
     yields fields_i64 (emapM (\<lambda>(k, e). ebind (g e) (\<lambda>v. eret (k, v))) fs)"
  by (rule yields_emapM) (auto intro!: yields_ebind [of val_i64])

lemma eval_expr_i64:
  "num_ok e \<Longrightarrow> env_i64 env \<Longrightarrow> (\<And>r v. r \<in> set (i_rules cx) \<Longrightarrow> val_i64 v \<Longrightarrow> yields val_i64 (call r v)) \<Longrightarrow>
     clock_i64 cx \<Longrightarrow> yields val_i64 (eval_expr cx call e env)"
proof (induction cx call e env rule: eval_expr.induct)
  case (4 cx call n env)
  then show ?case by (auto simp: env_i64_def split: option.split)
next
  case (5 cx call base fld env)
  then show ?case
    by (auto simp: num_ok_simps map_of_i64 intro!: yields_ebind [of val_i64] split: val.split option.split)
next
  case (6 cx call op l r env)
  then have l: "yields val_i64 (eval_expr cx call l env)" by (simp add: num_ok_simps)
  show ?case
  proof (cases "op = OpAnd \<or> op = OpOr")
    case True
    then show ?thesis by (auto intro!: yields_ebind [OF l] simp: yields_def res_simps split: val.splits)
  next
    case False
    have "yields val_i64 (eval_expr cx call r env)" if "val_i64 x" for x
      using "6.IH"(3) "6.prems" False by (simp add: num_ok_simps)
    with False show ?thesis
      by (auto intro!: yields_ebind [OF l] yields_prim dest: apply_binop_i64)
  qed
next
  case (7 cx call c a b env)
  then show ?case by (auto simp: num_ok_simps intro!: yields_ebind [of val_i64] split: val.split)
next
  case (8 cx call e env)
  then show ?case by (auto simp: num_ok_simps intro!: yields_ebind [of val_i64] split: val.split)
next
  case (9 cx call e env)
  then show ?case
    by (auto simp: num_ok_simps panicking_def intro!: yields_ebind [of val_i64] yields_elift split: val.split sum.splits dest: i64_fit_range)
next
  case (10 cx call e env)
  then show ?case by (auto simp: num_ok_simps wrapping_abs_def intro!: yields_ebind [of val_i64] split: val.split)
next
  case (15 cx call k coll x pred env)
  then show ?case by (auto simp: num_ok_simps intro!: yields_list yields_quantifier)
next
  case (16 cx call coll init acc x body env)
  have init: "yields val_i64 (eval_expr cx call init env)" using "16.IH"(2) "16.prems" by (simp add: num_ok_simps)
  have body: "yields val_i64 (eval_expr cx call body (env(acc \<mapsto> a, x \<mapsto> v)))" if "val_i64 v" "val_i64 a" for a v
    by (rule "16.IH"(3)) (use "16.prems" that in \<open>simp_all add: num_ok_simps env_i64_upd del: fun_upd_apply\<close>)
  show ?case unfolding eval_expr.simps
    by (rule yields_list, use "16.IH"(1) "16.prems" in \<open>simp add: num_ok_simps\<close>, rule yields_ebind [OF init], rule yields_fold)
       (use body in auto)
next
  case (18 cx call coll x body env)
  have body: "yields val_i64 (eval_expr cx call body (env(x \<mapsto> v)))" if "val_i64 v" for v
    by (rule "18.IH"(2) [OF list.set_intros(1)]) (use "18.prems" that in \<open>simp_all add: num_ok_simps env_i64_upd del: fun_upd_apply\<close>)
  show ?case unfolding eval_expr.simps
    by (rule yields_list, use "18.IH"(1) "18.prems" in \<open>simp add: num_ok_simps\<close>, rule yields_ebind [OF yields_emapM [of _ val_i64]])
       (use body in auto)
next
  case (19 cx call coll x pred env)
  show ?case unfolding eval_expr.simps
    by (rule yields_list, use "19.IH"(1) "19.prems" in \<open>simp add: num_ok_simps\<close>, rule yields_ebind [OF yields_filter]) auto
next
  case (20 cx call e env)
  then show ?case by (auto simp: num_ok_simps intro!: yields_ebind [of val_i64])
next
  case (21 cx call e env)
  then show ?case by (auto simp: num_ok_simps intro!: yields_ebind [of val_i64])
next
  case (22 cx call n flds env)
  have "yields fields_i64 (emapM (\<lambda>(n, e). ebind (eval_expr cx call e env) (\<lambda>v. eret (n, v))) flds)"
    by (rule yields_fields) (use 22 in \<open>auto simp: num_ok_simps\<close>)
  then show ?case unfolding eval_expr.simps by (rule yields_ebind) (use insert_fields_i64 in auto)
next
  case (23 cx call cn vn flds env)
  have "yields fields_i64 (emapM (\<lambda>(n, e). ebind (eval_expr cx call e env) (\<lambda>v. eret (n, v))) flds)"
    by (rule yields_fields) (use 23 in \<open>auto simp: num_ok_simps\<close>)
  then show ?case unfolding eval_expr.simps by (rule yields_ebind) (use insert_fields_i64 in auto)
next
  case (24 cx call args env)
  show ?case unfolding eval_expr.simps
    by (rule yields_ebind [of "\<lambda>_. True"]) (auto simp: yields_def [of "\<lambda>_. True"] intro!: yields_elift dest: prim_i64(7))
next
  case (25 cx call t okv okb errv errb env)
  have "yields val_i64 (eval_expr cx call okb (env(okv \<mapsto> v)))" "yields val_i64 (eval_expr cx call errb (env(errv \<mapsto> v)))" if "val_i64 v" for v
    by (rule "25.IH"(2) "25.IH"(3); use "25.prems" that in \<open>simp add: num_ok_simps env_i64_upd del: fun_upd_apply\<close>)+
  with 25 show ?case by (auto simp: num_ok_simps simp del: fun_upd_apply intro!: yields_ebind [of val_i64] split: val.split)
next
  case (26 cx call scrut arms env)
  have arm: "yields val_i64 (ebind (elift (arm_env (i_concepts cx) cn vn fs (arm_binders a) env)) (\<lambda>env'. eval_expr cx call (arm_body a) env'))"
    if "fields_i64 fs" "find (\<lambda>a. arm_variant a = vn) arms = Some a" for cn vn fs a
  proof (rule yields_ebind [of env_i64])
    show "yields env_i64 (elift (arm_env (i_concepts cx) cn vn fs (arm_binders a) env))"
      by (rule yields_elift) (use arm_env_i64 that(1) "26.prems"(2) in blast)
    fix env' assume "env_i64 env'"
    then show "yields val_i64 (eval_expr cx call (arm_body a) env')"
      using "26.IH"(2) [OF that(2)] "26.prems" find_SomeD [OF that(2)] by (auto simp: num_ok_simps)
  qed
  show ?case unfolding eval_expr.simps
    by (rule yields_ebind [of val_i64], use "26.IH"(1) "26.prems" in \<open>simp add: num_ok_simps\<close>)
       (use arm in \<open>auto split: val.split option.split\<close>)
next
  case (27 cx call name args env)
  show ?case
  proof (cases "find (\<lambda>r. r_name r = name) (i_rules cx)")
    case (Some r)
    show ?thesis
    proof (cases args)
      case (Cons a as)
      have "yields val_i64 (ebind (eval_expr cx call a env) (call r))" if "as = []"
        by (rule yields_ebind [of val_i64]) (use "27.IH" [OF Some] "27.prems" find_SomeD [OF Some] that Cons in \<open>auto simp: num_ok_simps\<close>)
      moreover have "eval_expr cx call (ECall name [a]) env = ebind (eval_expr cx call a env) (call r)"
        by (rule ext) (simp add: Some ebind_def split: sum.split)
      ultimately show ?thesis using Some Cons by (cases as) (simp_all del: eval_expr.simps add: eval_expr.simps(27))
    qed (simp add: Some)
  qed simp
next
  case (40 cx call t s e env)
  show ?case unfolding eval_expr.simps
    by (rule yields_ebind [of val_i64], use "40.IH"(1) "40.prems" in \<open>simp add: num_ok_simps\<close>, rule yields_prim2)
       (use "40.IH"(2,3) "40.prems" prim_i64(6) in \<open>auto simp: num_ok_simps\<close>)
next
  case (41 cx call tbl i env)
  show ?case unfolding eval_expr.simps
    by (rule yields_ebind [of "\<lambda>_. True"], simp add: yields_def, rule yields_prim)
       (use "41.IH" "41.prems" prim_i64(9) in \<open>auto simp: num_ok_simps\<close>)
next
  case (46 cx call e env)
  then show ?case by (auto simp: num_ok_simps and_or_xor_i64 intro!: yields_ebind [of val_i64] split: val.split)
qed (auto simp: num_ok_simps host_i64 num_args_eq_Inr in_i64_shifts and_or_xor_i64 intro!: yields_prim yields_prim2 dest: prim_i64)

definition program_num_ok :: "'w ictx \<Rightarrow> bool" where
  "program_num_ok cx \<longleftrightarrow> clock_i64 cx \<and>
     (\<forall>r \<in> set (i_rules cx). list_all (\<lambda>(_, e). num_ok e) (l_bindings (r_logic r)) \<and> num_ok (l_value (r_logic r)))"

lemma eval_lets_i64:
  assumes "\<And>r v. r \<in> set (i_rules cx) \<Longrightarrow> val_i64 v \<Longrightarrow> yields val_i64 (call r v)" "clock_i64 cx"
  shows "list_all (\<lambda>(_, e). num_ok e) bs \<Longrightarrow> env_i64 env \<Longrightarrow> yields env_i64 (eval_lets cx call bs env)"
proof (induction bs arbitrary: env)
  case (Cons b bs)
  obtain n e where b: "b = (n, e)" by (cases b)
  have "yields val_i64 (eval_expr cx call e env)" by (rule eval_expr_i64) (use assms Cons.prems b in auto)
  then show ?case unfolding b eval_lets.simps by (rule yields_ebind) (use Cons b env_i64_upd in auto)
qed simp

lemma eval_rule_with_value_i64:
  assumes "program_num_ok cx"
  shows "r \<in> set (i_rules cx) \<Longrightarrow> val_i64 v \<Longrightarrow> yields val_i64 (eval_rule_with_value cx f r v)"
proof (induction f arbitrary: r v)
  case (Suc f)
  have ck: "clock_i64 cx" and ok: "list_all (\<lambda>(_, e). num_ok e) (l_bindings (r_logic r))" "num_ok (l_value (r_logic r))"
    using assms Suc.prems(1) by (auto simp: program_num_ok_def)
  have env: "env_i64 [r_input_name r \<mapsto> v]" using Suc.prems(2) by (simp add: env_i64_def)
  have lets: "yields env_i64 (eval_lets cx (eval_rule_with_value cx f) (l_bindings (r_logic r)) [r_input_name r \<mapsto> v])"
    by (rule eval_lets_i64 [OF Suc.IH ck ok(1) env])
  have out: "val_i64 y" if "check_output r x = Inr y" "val_i64 x" for x y
    using that by (auto simp: check_output_def split: option.splits val.splits if_splits)
  have body: "yields val_i64 (ebind (eval_expr cx (eval_rule_with_value cx f) (l_value (r_logic r)) env') (\<lambda>x. elift (check_output r x)))"
    if "env_i64 env'" for env'
    by (rule yields_prim [OF eval_expr_i64 [OF ok(2) that Suc.IH ck]]) (use out in auto)
  show ?case unfolding eval_rule_with_value.simps
    by (rule yields_ebind [of "\<lambda>_. True"], simp add: yields_def, rule yields_ebind [OF lets body])
qed simp



end
