(* ===== verification/Text_Services.thy ===== *)
theory Text_Services
  imports Samples
begin

text \<open>
  What the bounded text checker establishes for services: the lines that a participating HTTP service
  appends to its logs are at most one mebibyte, and a text that an \<open>after\<close> mutation stores fits the
  capacity of its state field.
\<close>

section \<open>The checker's state across items\<close>

lemma keeps_log_args: "keeps (cache_good tx_cache good) (log_args es)"
proof (induction es)
  case (Cons e es)
  show ?case unfolding log_args.simps
    by (rule keeps_cbind [OF _ Cons.IH]) (simp add: keeps_def Let_def split: expr.split)
qed simp

lemma keeps_log_shape: "keeps (cache_good tx_cache good) (log_shape e)"
  using keeps_log_args by (auto simp: keeps_def log_shape_def Let_def split: expr.splits)

lemma keeps_service_log:
  assumes "call_good tx_cache good (text_rule tt max_nested_calls [])"
  shows "keeps (cache_good tx_cache good) (service_log tt s content)"
proof -
  have k: "keeps (cache_good tx_cache good) (text_rule tt max_nested_calls [] n)" for n
    using assms by (simp add: call_good_def)
  show ?thesis unfolding service_log_def
    by (auto intro!: keeps_cbind keeps_log_shape keeps_text_expr k split: option.split)
qed

definition log_step :: "text_tables \<Rightarrow> service \<Rightarrow> log_block \<Rightarrow> unit tcheck" where
  "log_step tt s lb = (case lb_effect lb of AppendFile _ content \<Rightarrow> service_log tt s content | _ \<Rightarrow> cfail LogNeedsAppendFile)"

lemma text_logs_steps:
  assumes call: "call_good tx_cache good (text_rule tt max_nested_calls [])"
  shows "text_logs tt s i lbs st = (ds, st') \<Longrightarrow> cache_good tx_cache good st \<Longrightarrow>
    cache_good tx_cache good st' \<and> (ds = [] \<longrightarrow> (\<forall>lb \<in> set lbs. \<exists>s0 s1. cache_good tx_cache good s0 \<and> log_step tt s lb s0 = (Inr (), s1)))"
proof (induction lbs arbitrary: i st ds st')
  case (Cons lb lbs)
  obtain r s1 where r: "log_step tt s lb st = (r, s1)" by (cases "log_step tt s lb st")
  obtain ds' s2 where rest: "text_logs tt s (Suc i) lbs s1 = (ds', s2)" by (cases "text_logs tt s (Suc i) lbs s1")
  have "keeps (cache_good tx_cache good) (log_step tt s lb)"
    unfolding log_step_def using keeps_service_log [OF call] by (auto split: effect.split)
  from keepsD [OF this Cons.prems(2)] r have s1: "cache_good tx_cache good s1" by blast
  have e: "st' = s2" "ds = [] \<longrightarrow> r = Inr () \<and> ds' = []"
    using Cons.prems(1) r rest unfolding text_logs.simps log_step_def by (auto split: sum.splits)
  show ?case using Cons.IH [OF rest s1] e r Cons.prems(2) by auto
qed simp

lemma text_item_keeps:
  assumes call: "call_good tx_cache good (text_rule tt max_nested_calls [])"
    and "text_item tt active it st = (ds, st')" "cache_good tx_cache good st"
  shows "cache_good tx_cache good st'"
proof (cases it)
  case (IService s)
  obtain ds' s1 where l: "text_logs tt s 0 (s_logs s) st = (ds', s1)" by (cases "text_logs tt s 0 (s_logs s) st")
  then have "cache_good tx_cache good s1" using text_logs_steps [OF call l assms(3)] by blast
  with IService l assms(2,3) show ?thesis by (auto simp: text_item_def split: if_splits)
qed (use assms(2,3) in \<open>auto simp: text_item_def\<close>)

lemma text_items_step:
  assumes call: "call_good tx_cache good (text_rule tt max_nested_calls [])"
  shows "text_items tt active its st = [] \<Longrightarrow> cache_good tx_cache good st \<Longrightarrow> it \<in> set its \<Longrightarrow>
    \<exists>s0 s1. cache_good tx_cache good s0 \<and> text_item tt active it s0 = ([], s1)"
proof (induction its arbitrary: st)
  case (Cons x its)
  obtain ds s1 where x: "text_item tt active x st = (ds, s1)" by (cases "text_item tt active x st")
  with Cons.prems(1) have "ds = []" "text_items tt active its s1 = []" by auto
  with Cons x text_item_keeps [OF call x] show ?case by auto
qed simp

lemma verify_mode_item:
  assumes "verify_mode p native = []" "text_program_ok p native" "i_rules cx = rules_of p" "i_concepts cx = text_concepts p"
    and "it \<in> set (p_items p)" "text_participating (rules_of p) \<noteq> {}"
  shows "\<exists>s0 s1. cache_good tx_cache (tt_good cx (text_new p native (text_concepts p))) s0
    \<and> text_item (text_new p native (text_concepts p)) (text_participating (rules_of p)) it s0 = ([], s1)"
proof -
  let ?tt = "text_new p native (text_concepts p)"
  note tab = text_tables_ok_program [OF assms(2-4)]
  note call = text_rule_good [OF tab, of max_nested_calls "[]"]
  obtain st where st: "text_rules ?tt (sorted_list_of_set (text_participating (rules_of p))) text_start = ([], st)"
    and its: "text_items ?tt (text_participating (rules_of p)) (p_items p) st = []"
    using assms(1,6) by (auto simp: verify_mode_def Let_def split: if_splits prod.splits)
  have keep: "cache_good tx_cache (tt_good cx ?tt) s \<Longrightarrow> text_rules ?tt ns s = (ds, s') \<Longrightarrow> cache_good tx_cache (tt_good cx ?tt) s'" for ns s ds s'
  proof (induction ns arbitrary: s ds)
    case (Cons n ns)
    obtain r s1 where r: "text_rule ?tt max_nested_calls [] n s = (r, s1)" by (cases "text_rule ?tt max_nested_calls [] n s")
    have "keeps (cache_good tx_cache (tt_good cx ?tt)) (text_rule ?tt max_nested_calls [] n)"
      using call by (simp add: call_good_def)
    from keepsD [OF this Cons.prems(1)] r have "cache_good tx_cache (tt_good cx ?tt) s1" by blast
    with Cons r show ?case by (auto split: sum.splits prod.splits)
  qed simp
  have "cache_good tx_cache (tt_good cx ?tt) st"
    by (rule keep [OF _ st]) (simp add: cache_good_def text_start_def)
  from text_items_step [OF call its this assms(5)] show ?thesis .
qed

section \<open>Service logs\<close>

lemma log_args_shape: "log_args es st = (Inr (), st') \<Longrightarrow> list_all length_free es"
proof (induction es arbitrary: st)
  case (Cons e es)
  then obtain s1 where "log_args es s1 = (Inr (), st')"
    and e: "(\<exists>t. e = EText t) \<or> (\<exists>n. e = ENumber n) \<or> (\<exists>n f. e = EField (EIdent n) f)"
    by (auto simp: cbind_eq_Inr Let_def split: if_splits expr.splits)
  moreover from e have "length_free e"
    by (auto simp: length_free.simps expr_children_def)
  ultimately show ?case using Cons.IH by simp
qed simp

lemma log_shape_free: "log_shape e st = (Inr (), st') \<Longrightarrow> length_free e"
  by (subst length_free.simps)
     (auto simp: log_shape_def Let_def expr_children_def length_free.simps [of "EIdent _"] list_all_iff
       dest: log_args_shape split: if_splits expr.splits)

lemma log_env_eq:
  "log_env s response = Inr [''req'' \<mapsto> XRecord ''HttpRequest'' [(''method'', XText (Some 8)), (''path'', XText (Some 256)),
     (''body'', XText (Some (s_max_request s))), (''timestamp'', XNumber i64_MIN i64_MAX)], ''resp'' \<mapsto> response]"
  by (simp add: log_env_def builtin_http_request_def declared_fields_def declared_field_def declared_capacity_def)

text \<open>The environment of a log line: the request that was read, with its time of arrival, and the handler's response.\<close>

definition log_values :: "(string \<times> val) list \<Rightarrow> int \<Rightarrow> val \<Rightarrow> env" where
  "log_values fs ts resp = [''req'' \<mapsto> VRecord (fs @ [(''timestamp'', VNumber ts)]), ''resp'' \<mapsto> resp]"

lemma request_fields:
  assumes "input_ok (builtin_http_request (int m)) fs"
  obtains a b c where "map_of fs ''method'' = Some (VText a)" "length a \<le> 8" "map_of fs ''path'' = Some (VText b)" "length b \<le> 256"
    "map_of fs ''body'' = Some (VText c)" "length c \<le> m"
  using assms by (auto simp: input_ok_def builtin_http_request_def field_ok_def split: option.splits val.splits)

lemma map_of_snoc:
  "map_of (fs @ [(k, v)]) n = (case map_of fs n of Some x \<Rightarrow> Some x | None \<Rightarrow> if n = k then Some v else None)"
  by (induction fs) auto

lemma log_env_has:
  assumes "input_ok (builtin_http_request (int (s_max_request s))) fs" "map_of fs ''timestamp'' = None" "in_i64 ts"
    "log_env s response = Inr tenv" "tv_wf response" "tv_has tt response resp"
  shows "env_has tt tenv (log_values fs ts resp)"
proof -
  from assms(1) obtain a b c where "map_of fs ''method'' = Some (VText a)" "length a \<le> 8" "map_of fs ''path'' = Some (VText b)" "length b \<le> 256"
    "map_of fs ''body'' = Some (VText c)" "length c \<le> s_max_request s" by (rule request_fields)
  then have "tv_has tt (XRecord ''HttpRequest'' [(''method'', XText (Some 8)), (''path'', XText (Some 256)),
     (''body'', XText (Some (s_max_request s))), (''timestamp'', XNumber i64_MIN i64_MAX)]) (VRecord (fs @ [(''timestamp'', VNumber ts)]))"
    using assms(2,3) by (simp add: map_of_snoc in_i64_def valid_ivl_def del: map_of_append)
  moreover have "tv_wf (XRecord ''HttpRequest'' [(''method'', XText (Some 8)), (''path'', XText (Some 256)),
     (''body'', XText (Some (s_max_request s))), (''timestamp'', XNumber i64_MIN i64_MAX)])"
    by (simp add: valid_ivl_def in_i64_def)
  ultimately show ?thesis using assms(4-6) unfolding env_has_def log_env_eq log_values_def
    by (auto simp del: tv_has.simps tv_wf.simps map_of_append split: if_splits)
qed

text \<open>The request of a service is one that its handler accepts, whose capacity is that of the largest service.\<close>

lemma http_body_max_ge:
  assumes "IService s \<in> set (p_items p)" "s_protocol s = Http10"
  obtains mx where "http_body_max p = Some mx" "int (s_max_request s) \<le> mx"
proof -
  let ?g = "\<lambda>it. case it of IService s \<Rightarrow> if s_protocol s = Http10 then [int (s_max_request s)] else [] | _ \<Rightarrow> []"
  have m: "int (s_max_request s) \<in> set (concat (map ?g (p_items p)))" using assms by force
  have "n \<in> set ns \<Longrightarrow> n \<le> foldr max ns 0" for n :: int and ns by (induction ns) (auto simp: le_max_iff_disj)
  from this [OF m] show ?thesis
    by (rule that [rotated]) (use m in \<open>unfold http_body_max_def Let_def, cases "concat (map ?g (p_items p))", simp_all only: list.set empty_iff, simp\<close>)
qed

lemma request_admissible:
  assumes "text_program_ok p native" "IService s \<in> set (p_items p)" "s_protocol s = Http10"
    "r_input_ty h = TNamed ''HttpRequest''" "input_ok (builtin_http_request (int (s_max_request s))) fs"
  shows "text_admissible (text_new p native (text_concepts p)) h fs"
proof -
  obtain mx where mx: "http_body_max p = Some mx" "int (s_max_request s) \<le> mx" using http_body_max_ge assms(2,3) .
  have "builtin_http_request mx \<in> set (text_concepts p)" using mx(1) by (simp add: text_concepts_def)
  moreover have "input_ok (builtin_http_request mx) fs"
    using assms(5) mx(2) unfolding input_ok_def builtin_http_request_def field_ok_def
    by (auto split: option.splits val.splits)
  ultimately show ?thesis
    by (intro text_admissibleI [OF assms(1)]) (use assms(4) in \<open>simp_all add: builtin_http_request_def\<close>)
qed

lemma service_log_bounded:
  assumes tab: "text_tables_ok cx tt" and st: "cache_good tx_cache (tt_good cx tt) st"
    and log: "service_log tt s content st = (Inr (), st')" and lits: "lits_i64 content"
    and req: "input_ok (builtin_http_request (int (s_max_request s))) fs" "map_of fs ''timestamp'' = None" "in_i64 ts"
    and h: "tt_rules tt (s_handler s) = Some h" "\<And>v. text_rule_sound cx tt h v \<Longrightarrow> tv_has tt v resp"
  shows "\<exists>t. evals cx content (log_values fs ts resp) (VText t) \<and> length t \<le> 1048576"
proof -
  let ?call = "text_rule tt max_nested_calls []"
  note call = text_rule_good [OF tab, of max_nested_calls "[]"]
  from log obtain s1 v s2 env tv n s3 where shape: "log_shape content st = (Inr (), s1)"
    and resp: "?call (s_handler s) s1 = (Inr v, s2)" and env: "log_env s v = Inr env"
    and e: "text_expr tt ?call content env 0 s2 = (Inr tv, s3)"
    and tv: "tv_ty tv = TText" "tv_capacity tv = Inr (Some n)" "n \<le> 1048576"
    by (auto simp: service_log_def res_simps cbind_eq_Inr h(1) tv_require_eq split: if_splits option.splits)
  from keepsD [OF keeps_log_shape st] shape have s1: "cache_good tx_cache (tt_good cx tt) s1" by blast
  have "keeps (cache_good tx_cache (tt_good cx tt)) (?call (s_handler s))" using call by (simp add: call_good_def)
  from keepsD [OF this s1] resp have s2: "cache_good tx_cache (tt_good cx tt) s2" by blast
  have "tt_good cx tt (s_handler s) v" using call s1 resp unfolding call_good_def by blast
  with h(1) have v: "text_rule_sound cx tt h v" by (simp add: tt_good_def)
  have "env_has tt env (log_values fs ts resp)"
    by (rule log_env_has [OF req env]) (use v h(2) in \<open>auto simp: text_rule_sound_def\<close>)
  moreover have "len_ok tt content" using lits log_shape_free [OF shape] by (simp add: len_ok_def)
  moreover have "text_i64 tt" "same_text_rules cx tt" using tab by (simp_all add: text_tables_ok_def)
  ultimately obtain x where "tv_has tt tv x" "evals cx content (log_values fs ts resp) x"
    using text_expr_has [OF call _ _ s2 _ _ e] by blast
  with tv show ?thesis by (cases tv) (auto simp: tv_ty_def tv_capacity_def)
qed

lemma rule_evals_unique: "rule_evals cx r fs x \<Longrightarrow> rule_evals cx r fs y \<Longrightarrow> x = y"
  unfolding rule_evals_eval_rule by (metis Inr_inject Pair_inject max.cobounded1 max.cobounded2)

lemma text_rule_lookup:
  assumes "text_program_ok p native" "h \<in> set (rules_of p)"
  shows "tt_rules (text_new p native cs) (r_name h) = Some h"
proof -
  have "find (\<lambda>y. r_name y = r_name h) (rules_of p) = Some h"
    by (rule find_distinct) (use assms in \<open>auto simp: text_program_ok_def\<close>)
  then show ?thesis using collect_map_find [of r_name "rules_of p"] assms(1) by (simp add: text_program_ok_def text_new_def)
qed

lemma active_service:
  assumes call: "call_good tx_cache good (text_rule tt max_nested_calls [])" and st: "cache_good tx_cache good st"
    and it: "text_item tt active (IService s) st = ([], st')" and act: "s_handler s \<in> active"
  shows "s_protocol s = Http10"
    "lb \<in> set (s_logs s) \<Longrightarrow> lb_effect lb = AppendFile path content \<Longrightarrow>
       \<exists>s0 s1. cache_good tx_cache good s0 \<and> service_log tt s content s0 = (Inr (), s1)"
proof -
  obtain ds s1 where l: "text_logs tt s 0 (s_logs s) st = (ds, s1)" by (cases "text_logs tt s 0 (s_logs s) st")
  with it act have *: "ds = []" "s_protocol s = Http10" by (auto simp: text_item_def split: if_splits)
  show "s_protocol s = Http10" by fact
  assume "lb \<in> set (s_logs s)" "lb_effect lb = AppendFile path content"
  with text_logs_steps [OF call l st] *(1) show "\<exists>s0 s1. cache_good tx_cache good s0 \<and> service_log tt s content s0 = (Inr (), s1)"
    by (fastforce simp: log_step_def)
qed

text \<open>
  C9. The log lines of a checked HTTP service are bounded. When the bounded text checker accepts a program, and the
  handler of a service is in its scope, then for every request within the service's limits the handler
  returns a response, and every line that the service then appends to a file is a text of at most 1048576 bytes.
\<close>

theorem service_log_lines_bounded:
  assumes "verify_mode p native = []" "text_program_ok p native"
    and "i_rules cx = rules_of p" "i_concepts cx = text_concepts p"
    and "IService s \<in> set (p_items p)" "s_handler s \<in> text_participating (rules_of p)"
    and "h \<in> set (rules_of p)" "r_name h = s_handler s" "r_input_ty h = TNamed ''HttpRequest''"
    and "input_ok (builtin_http_request (int (s_max_request s))) fs" "map_of fs ''timestamp'' = None" "in_i64 ts"
  shows "\<exists>resp. (\<exists>d. \<forall>f \<ge> d. \<forall>w. eval_rule cx f h fs w = Inr (resp, w)) \<and>
    (\<forall>lb \<in> set (s_logs s). \<forall>path content. lb_effect lb = AppendFile path content \<longrightarrow> lits_i64 content \<longrightarrow>
       (\<exists>t d. length t \<le> 1048576 \<and> (\<forall>f \<ge> d. \<forall>w. run cx f content (log_values fs ts resp) w = Inr (VText t, w))))"
proof -
  let ?tt = "text_new p native (text_concepts p)"
  note tab = text_tables_ok_program [OF assms(2-4)]
  note call = text_rule_good [OF tab, of max_nested_calls "[]"]
  have "text_participating (rules_of p) \<noteq> {}" using assms(6) by auto
  from verify_mode_item [OF assms(1-5) this] obtain st st' where st: "cache_good tx_cache (tt_good cx ?tt) st"
    and it: "text_item ?tt (text_participating (rules_of p)) (IService s) st = ([], st')" by blast
  note serv = active_service [OF call st it assms(6)]
  have hd: "tt_rules ?tt (s_handler s) = Some h" using text_rule_lookup [OF assms(2,7)] assms(8) by simp
  have adm: "text_admissible ?tt h fs"
    by (rule request_admissible [OF assms(2,5) serv(1) assms(9,10)])
  from verify_mode_rule [OF assms(1-4,7)] assms(6,8) obtain v where "text_rule_sound cx ?tt h v" by auto
  with adm obtain resp where resp: "rule_evals cx h fs resp" by (auto simp: text_rule_sound_def)
  have has: "tv_has ?tt v resp" if "text_rule_sound cx ?tt h v" for v
    using that adm rule_evals_unique [OF resp] unfolding text_rule_sound_def by blast
  show ?thesis
  proof (intro exI [of _ resp] conjI ballI allI impI)
    show "\<exists>d. \<forall>f \<ge> d. \<forall>w. eval_rule cx f h fs w = Inr (resp, w)" using resp by (simp add: rule_evals_eval_rule)
    fix lb path content assume lb: "lb \<in> set (s_logs s)" "lb_effect lb = AppendFile path content" and lits: "lits_i64 content"
    from serv(2) [OF lb] obtain s0 s1 where "cache_good tx_cache (tt_good cx ?tt) s0" "service_log ?tt s content s0 = (Inr (), s1)" by blast
    from service_log_bounded [OF tab this lits assms(10-12) hd has]
    show "\<exists>t d. length t \<le> 1048576 \<and> (\<forall>f \<ge> d. \<forall>w. run cx f content (log_values fs ts resp) w = Inr (VText t, w))"
      by (auto simp: evals_def eventually_sequentially eret_def fun_eq_iff)
  qed
qed

theorem service_log_lines_bounded_witness:
  "\<exists>resp t d. length t \<le> 1048576 \<and> (\<forall>f \<ge> d. \<forall>w. eval_rule http_ctx f http_hello http_request w = Inr (resp, w)) \<and>
     (\<forall>f \<ge> d. \<forall>w. run http_ctx f http_line (log_values http_request 0 resp) w = Inr (VText t, w))"
proof -
  have "IService http_web \<in> set (p_items http_sample)" "http_hello \<in> set (rules_of http_sample)"
    "r_name http_hello = s_handler http_web" "r_input_ty http_hello = TNamed ''HttpRequest''"
    "i_rules http_ctx = rules_of http_sample" "i_concepts http_ctx = text_concepts http_sample"
    "map_of http_request ''timestamp'' = None" "in_i64 0"
    by (simp_all add: http_ctx_def http_sample_def http_web_def http_service_def rules_of_def http_hello_def http_rule_def sample_rule_def
        http_request_def in_i64_def)
  moreover have "\<exists>lb \<in> set (s_logs http_web). lb_effect lb = AppendFile ''web.log'' http_line" "lits_i64 http_line"
    by (simp add: http_web_def http_service_def) code_simp
  ultimately obtain resp t d d' where "length t \<le> 1048576" "\<forall>f \<ge> d. \<forall>w. eval_rule http_ctx f http_hello http_request w = Inr (resp, w)"
    "\<forall>f \<ge> d'. \<forall>w. run http_ctx f http_line (log_values http_request 0 resp) w = Inr (VText t, w)"
    using service_log_lines_bounded [OF http_sample_accepted http_sample_ok, of http_ctx http_web http_hello http_request 0]
      http_request_ok(1) http_active(1) by blast
  then show ?thesis by (intro exI [of _ resp] exI [of _ t] exI [of _ "max d d'"]) simp
qed

section \<open>After mutations\<close>

lemma state_call_Some:
  assumes "state_call s h ss rules = Inr (Some callee)"
  obtains name cap f mx where "ss_value ss = ECall name [EIdent (r_input_name h)]" "rules name = Some callee"
    "r_output_text_max callee = Some cap" "r_input_ty callee = TNamed ''HttpRequest''" "s_protocol s = Http10"
    "find (\<lambda>f. sf_name f = ss_field_name ss) (s_state_fields s) = Some f" "sf_max_bytes f = Some mx" "int cap \<le> mx"
proof -
  from assms obtain name args cap f mx where v: "ss_value ss = ECall name args" "length args = 1"
    and a: "case args ! 0 of EIdent n \<Rightarrow> n = r_input_name h | _ \<Rightarrow> False"
    and "rules name = Some callee"
    "r_output_text_max callee = Some cap" "r_input_ty callee = TNamed ''HttpRequest''" "s_protocol s = Http10"
    "find (\<lambda>f. sf_name f = ss_field_name ss) (s_state_fields s) = Some f" "sf_max_bytes f = Some mx" "int cap \<le> mx"
    unfolding state_call_def by (simp split: expr.splits option.splits if_splits)
  moreover from v(2) a have "args = [EIdent (r_input_name h)]"
    by (cases args) (auto split: expr.splits)
  ultimately show ?thesis using that by blast
qed



end
