(* ===== verification/Lexer.thy ===== *)
theory Lexer
  imports Rust_Text
begin

text \<open>
  The lexer (\<open>src/src/lexer.rs\<close>): bytes to tokens with explicit indentation. \<open>struct Lexer\<close> is the record
  \<open>lexer\<close>; the pair of \<open>src\<close> and \<open>pos\<close> is the list of bytes still to be read, and the indentation stack
  has its top first. Message texts are constructors of \<open>lex_kind\<close>; the \<open>expect\<close> on the UTF-8
  form of a literal is the error \<open>LiteralPanic\<close>. Offsets and the bracket depth are unbounded here: \<open>paren_depth\<close> needs
  a source of more than two gibibytes to leave \<open>i32\<close>.
\<close>

section \<open>Tokens and errors\<close>

datatype (plugins only: size code) token_kind =
    Ident string
  | Number int
  | StringLit string
  | BytesLit "byte list"
  | Attribute string
  | Colon | Comma | LBracket | RBracket | LParen | RParen | LBrace | RBrace
  | Equal | EqualEqual | FatArrow | NotEqual | Gt | Lt | GtEq | LtEq
  | Dot | Plus | Minus | Star | Slash | Percent | DoubleColon
  | Indent | Dedent | Newline | Eof

record token =
  tk_kind :: token_kind
  tk_line :: nat
  tk_col :: nat

datatype (plugins only: size code) lex_kind =
    TabIndentation
  | InconsistentIndentation nat
  | ExpectedAttributeName
  | UnterminatedString
  | UnterminatedStringEscape
  | UnknownEscape byte
  | LiteralPanic
  | InvalidNumber string
  | UnterminatedBytes
  | UnterminatedBytesEscape
  | InvalidHexEscape
  | UnknownBytesEscape byte
  | UnexpectedClose byte
  | UnexpectedBang
  | UnexpectedCharacter byte

record lex_error =
  le_line :: nat
  le_col :: nat
  le_kind :: lex_kind

record lexer =
  lx_rest :: "byte list"
  lx_line :: nat
  lx_col :: nat
  lx_indents :: "nat list"
  lx_tokens :: "token list"
  lx_at_line_start :: bool
  lx_depth :: int

definition lexer_new :: "byte list \<Rightarrow> lexer" where
  "lexer_new src = \<lparr>lx_rest = src, lx_line = 1, lx_col = 1, lx_indents = [0], lx_tokens = [],
     lx_at_line_start = True, lx_depth = 0\<rparr>"

definition lex_err :: "nat \<times> nat \<Rightarrow> lex_kind \<Rightarrow> lex_error + 'a" where
  "lex_err p k = Inl \<lparr>le_line = fst p, le_col = snd p, le_kind = k\<rparr>"

definition lx_pos :: "lexer \<Rightarrow> nat \<times> nat" where
  "lx_pos lx = (lx_line lx, lx_col lx)"

definition emit_token :: "token_kind \<Rightarrow> nat \<times> nat \<Rightarrow> lexer \<Rightarrow> lexer" where
  "emit_token k p lx = lx\<lparr>lx_tokens := lx_tokens lx @ [\<lparr>tk_kind = k, tk_line = fst p, tk_col = snd p\<rparr>]\<rparr>"

definition advance :: "lexer \<Rightarrow> lexer" where
  "advance lx = lx\<lparr>lx_rest := tl (lx_rest lx), lx_col := lx_col lx + 1\<rparr>"

definition peek :: "lexer \<Rightarrow> nat \<Rightarrow> byte option" where
  "peek lx n = (if n < length (lx_rest lx) then Some (lx_rest lx ! n) else None)"

definition is_ident_start :: "byte \<Rightarrow> bool" where
  "is_ident_start c \<longleftrightarrow> is_ascii_alphabetic c \<or> c = CHR ''_''"

definition is_ident_continue :: "byte \<Rightarrow> bool" where
  "is_ident_continue c \<longleftrightarrow> is_ascii_alphanumeric c \<or> c = CHR ''_''"

definition is_ascii_hexdigit :: "byte \<Rightarrow> bool" where
  "is_ascii_hexdigit c \<longleftrightarrow> is_ascii_digit c \<or> (65 \<le> code c \<and> code c \<le> 70) \<or> (97 \<le> code c \<and> code c \<le> 102)"

definition hex_val :: "byte \<Rightarrow> nat" where
  "hex_val c =
     (if is_ascii_digit c then code c - 48
      else if 97 \<le> code c \<and> code c \<le> 102 then code c - 97 + 10
      else if 65 \<le> code c \<and> code c \<le> 70 then code c - 65 + 10 else 0)"

lemma rest_advance [simp]: "lx_rest (advance lx) = tl (lx_rest lx)"
  by (simp add: advance_def)

lemma rest_emit [simp]: "lx_rest (emit_token k p lx) = lx_rest lx"
  by (simp add: emit_token_def)

section \<open>Loops over the source\<close>

text \<open>\<open>while self.pos < self.src.len() && p(self.src[self.pos]) { self.advance() }\<close>.\<close>

function skip_while :: "(byte \<Rightarrow> bool) \<Rightarrow> lexer \<Rightarrow> lexer" where
  "skip_while p lx = (case lx_rest lx of [] \<Rightarrow> lx | c # _ \<Rightarrow> if p c then skip_while p (advance lx) else lx)"
  by pat_completeness auto
termination by (relation "measure (\<lambda>(p, lx). length (lx_rest lx))") auto

declare skip_while.simps [simp del]

text \<open>The indentation loop: spaces are counted, a tab is refused.\<close>

function indent_width :: "nat \<Rightarrow> lexer \<Rightarrow> lex_error + nat \<times> lexer" where
  "indent_width w lx =
     (case lx_rest lx of
        [] \<Rightarrow> Inr (w, lx)
      | c # _ \<Rightarrow>
          if c = CHR '' '' then indent_width (w + 1) (advance lx)
          else if c = CHR 0x09 then lex_err (lx_pos lx) TabIndentation
          else Inr (w, lx))"
  by pat_completeness auto
termination by (relation "measure (\<lambda>(w, lx). length (lx_rest lx))") auto

declare indent_width.simps [simp del]

text \<open>The dedent loop of a line that is indented less than its block; the stack is never empty.\<close>

fun pop_indents :: "nat \<Rightarrow> nat list \<Rightarrow> lexer \<Rightarrow> lexer" where
  "pop_indents w (i # is) lx =
     (if i > w then pop_indents w is (emit_token Dedent (lx_line lx, 1) (lx\<lparr>lx_indents := is\<rparr>)) else lx)"
| "pop_indents w [] lx = lx"

definition handle_line_start :: "lexer \<Rightarrow> lex_error + lexer" where
  "handle_line_start lx0 =
     (case indent_width 0 lx0 of
        Inl e \<Rightarrow> Inl e
      | Inr (w, lx) \<Rightarrow>
          if lx_rest lx = [] \<or> hd (lx_rest lx) = CHR 0x0A \<or> (hd (lx_rest lx) = CHR ''-'' \<and> peek lx 1 = Some (CHR ''-''))
          then Inr (lx\<lparr>lx_at_line_start := False\<rparr>)
          else if w > hd (lx_indents lx) then
            Inr (emit_token Indent (lx_line lx, 1) (lx\<lparr>lx_indents := w # lx_indents lx, lx_at_line_start := False\<rparr>))
          else if w < hd (lx_indents lx) then
            (let lx' = pop_indents w (lx_indents lx) lx in
             if hd (lx_indents lx') \<noteq> w then lex_err (lx_line lx', 1) (InconsistentIndentation w)
             else Inr (lx'\<lparr>lx_at_line_start := False\<rparr>))
          else Inr (lx\<lparr>lx_at_line_start := False\<rparr>))"

section \<open>Tokens\<close>

definition text_escape :: "byte \<Rightarrow> byte option" where
  "text_escape esc =
     (if esc = CHR ''n'' then Some (CHR 0x0A)
      else if esc = CHR ''t'' then Some (CHR 0x09)
      else if esc = CHR ''r'' then Some (CHR 0x0D)
      else if esc = CHR 0x5C then Some (CHR 0x5C)
      else if esc = CHR 0x22 then Some (CHR 0x22)
      else None)"

function string_loop :: "nat \<times> nat \<Rightarrow> lexer \<Rightarrow> byte list \<Rightarrow> lex_error + byte list \<times> lexer" where
  "string_loop start lx bytes =
     (case lx_rest lx of
        [] \<Rightarrow> Inr (bytes, lx)
      | ch # _ \<Rightarrow>
          if ch = CHR 0x22 then Inr (bytes, lx)
          else if ch = CHR 0x0A then lex_err start UnterminatedString
          else if ch = CHR 0x5C then
            (case lx_rest (advance lx) of
               [] \<Rightarrow> lex_err start UnterminatedStringEscape
             | esc # _ \<Rightarrow>
                 (case text_escape esc of
                    None \<Rightarrow> lex_err (lx_pos (advance lx)) (UnknownEscape esc)
                  | Some b \<Rightarrow> string_loop start (advance (advance lx)) (bytes @ [b])))
          else string_loop start (advance lx) (bytes @ [ch]))"
  by pat_completeness auto
termination by (relation "measure (\<lambda>(s, lx, b). length (lx_rest lx))") auto

declare string_loop.simps [simp del]

definition read_attribute :: "nat \<times> nat \<Rightarrow> lexer \<Rightarrow> lex_error + lexer" where
  "read_attribute start lx =
     (let lx1 = advance lx; lx2 = skip_while is_ident_continue lx1;
          name = take (length (lx_rest lx1) - length (lx_rest lx2)) (lx_rest lx1) in
      if name = [] then lex_err start ExpectedAttributeName
      else Inr (emit_token (Attribute name) start lx2))"

definition read_string :: "nat \<times> nat \<Rightarrow> lexer \<Rightarrow> lex_error + lexer" where
  "read_string start lx =
     (case string_loop start (advance lx) [] of
        Inl e \<Rightarrow> Inl e
      | Inr (bytes, lx') \<Rightarrow>
          if lx_rest lx' = [] then lex_err start UnterminatedString
          else if \<not> valid_utf8 bytes then lex_err start LiteralPanic
          else Inr (emit_token (StringLit bytes) start (advance lx')))"

definition read_number :: "nat \<times> nat \<Rightarrow> lexer \<Rightarrow> lex_error + lexer" where
  "read_number start lx =
     (let lx' = skip_while is_ascii_digit lx; s = take (length (lx_rest lx) - length (lx_rest lx')) (lx_rest lx) in
      case parse_i64 s of
        None \<Rightarrow> lex_err start (InvalidNumber s)
      | Some n \<Rightarrow> Inr (emit_token (Number n) start lx'))"

text \<open>
  One escape of a byte string, at the byte after the backslash: the byte it stands for and the number
  of bytes read (one, or three for \<open>\\xNN\<close>).
\<close>

definition bytes_escape :: "lexer \<Rightarrow> byte \<Rightarrow> lex_error + byte \<times> lexer" where
  "bytes_escape lx esc =
     (if esc = CHR ''x'' \<or> esc = CHR ''X'' then
        (case (peek lx 1, peek lx 2) of
           (Some h, Some l) \<Rightarrow>
             if is_ascii_hexdigit h \<and> is_ascii_hexdigit l
             then Inr (char_of (hex_val h * 16 + hex_val l), advance (advance (advance lx)))
             else lex_err (lx_pos lx) InvalidHexEscape
         | _ \<Rightarrow> lex_err (lx_pos lx) InvalidHexEscape)
      else case text_escape esc of
             None \<Rightarrow> lex_err (lx_pos lx) (UnknownBytesEscape esc)
           | Some b \<Rightarrow> Inr (b, advance lx))"

lemma bytes_escape_rest: "bytes_escape lx esc = Inr (b, lx') \<Longrightarrow> length (lx_rest lx') \<le> length (lx_rest lx) - 1"
  by (auto simp: bytes_escape_def lex_err_def split: if_splits option.splits)

function bytes_loop :: "nat \<times> nat \<Rightarrow> lexer \<Rightarrow> byte list \<Rightarrow> lex_error + byte list \<times> lexer" where
  "bytes_loop start lx bytes =
     (case lx_rest lx of
        [] \<Rightarrow> Inr (bytes, lx)
      | ch # _ \<Rightarrow>
          if ch = CHR 0x22 then Inr (bytes, lx)
          else if ch = CHR 0x0A then lex_err start UnterminatedBytes
          else if ch = CHR 0x5C then
            (case lx_rest (advance lx) of
               [] \<Rightarrow> lex_err start UnterminatedBytesEscape
             | esc # _ \<Rightarrow>
                 (case bytes_escape (advance lx) esc of
                    Inl e \<Rightarrow> Inl e
                  | Inr (b, lx') \<Rightarrow> bytes_loop start lx' (bytes @ [b])))
          else bytes_loop start (advance lx) (bytes @ [ch]))"
  by pat_completeness auto
termination
  by (relation "measure (\<lambda>(s, lx, b). length (lx_rest lx))") (auto dest: bytes_escape_rest)

declare bytes_loop.simps [simp del]

definition read_bytes :: "nat \<times> nat \<Rightarrow> lexer \<Rightarrow> lex_error + lexer" where
  "read_bytes start lx =
     (case bytes_loop start (advance (advance lx)) [] of
        Inl e \<Rightarrow> Inl e
      | Inr (bytes, lx') \<Rightarrow>
          if lx_rest lx' = [] then lex_err start UnterminatedBytes
          else Inr (emit_token (BytesLit bytes) start (advance lx')))"

definition read_ident :: "nat \<times> nat \<Rightarrow> lexer \<Rightarrow> lex_error + lexer" where
  "read_ident start lx =
     (let lx' = skip_while is_ident_continue lx;
          name = take (length (lx_rest lx) - length (lx_rest lx')) (lx_rest lx) in
      Inr (emit_token (Ident name) start lx'))"

text \<open>Symbols: two bytes where the next byte completes one, and the brackets, which nest.\<close>

definition read_one :: "token_kind \<Rightarrow> nat \<times> nat \<Rightarrow> lexer \<Rightarrow> lex_error + lexer" where
  "read_one k start lx = Inr (emit_token k start (advance lx))"

definition read_two :: "token_kind \<Rightarrow> nat \<times> nat \<Rightarrow> lexer \<Rightarrow> lex_error + lexer" where
  "read_two k start lx = Inr (emit_token k start (advance (advance lx)))"

definition read_open :: "token_kind \<Rightarrow> nat \<times> nat \<Rightarrow> lexer \<Rightarrow> lex_error + lexer" where
  "read_open k start lx = Inr (emit_token k start ((advance lx)\<lparr>lx_depth := lx_depth lx + 1\<rparr>))"

definition read_close :: "token_kind \<Rightarrow> nat \<times> nat \<Rightarrow> lexer \<Rightarrow> lex_error + lexer" where
  "read_close k start lx =
     (if lx_depth lx - 1 < 0 then lex_err start (UnexpectedClose (hd (lx_rest lx)))
      else Inr (emit_token k start ((advance lx)\<lparr>lx_depth := lx_depth lx - 1\<rparr>)))"

definition read_symbol :: "byte \<Rightarrow> nat \<times> nat \<Rightarrow> lexer \<Rightarrow> lex_error + lexer" where
  "read_symbol c start lx =
     (if c = CHR '':'' then
        (if peek lx 1 = Some (CHR '':'') then read_two DoubleColon start lx else read_one Colon start lx)
      else if c = CHR '','' then read_one Comma start lx
      else if c = CHR ''['' then read_open LBracket start lx
      else if c = CHR '']'' then read_close RBracket start lx
      else if c = CHR ''('' then read_open LParen start lx
      else if c = CHR '')'' then read_close RParen start lx
      else if c = CHR ''{'' then read_open LBrace start lx
      else if c = CHR ''}'' then read_close RBrace start lx
      else if c = CHR ''='' then
        (if peek lx 1 = Some (CHR ''='') then read_two EqualEqual start lx
         else if peek lx 1 = Some (CHR ''>'') then read_two FatArrow start lx
         else read_one Equal start lx)
      else if c = CHR ''!'' then
        (if peek lx 1 = Some (CHR ''='') then read_two NotEqual start lx else lex_err start UnexpectedBang)
      else if c = CHR ''>'' then
        (if peek lx 1 = Some (CHR ''='') then read_two GtEq start lx else read_one Gt start lx)
      else if c = CHR ''<'' then
        (if peek lx 1 = Some (CHR ''='') then read_two LtEq start lx else read_one Lt start lx)
      else if c = CHR ''.'' then read_one Dot start lx
      else if c = CHR ''+'' then read_one Plus start lx
      else if c = CHR ''-'' then read_one Minus start lx
      else if c = CHR ''*'' then read_one Star start lx
      else if c = CHR ''/'' then read_one Slash start lx
      else if c = CHR ''%'' then read_one Percent start lx
      else lex_err start (UnexpectedCharacter c))"

definition read_token :: "lexer \<Rightarrow> lex_error + lexer" where
  "read_token lx =
     (let start = lx_pos lx; c = hd (lx_rest lx) in
      if c = CHR ''@'' then read_attribute start lx
      else if c = CHR 0x22 then read_string start lx
      else if is_ascii_digit c then read_number start lx
      else if c = CHR ''b'' \<and> peek lx 1 = Some (CHR 0x22) then read_bytes start lx
      else if is_ident_start c then read_ident start lx
      else read_symbol c start lx)"

section \<open>The main loop\<close>

definition is_layout :: "token_kind \<Rightarrow> bool" where
  "is_layout k \<longleftrightarrow> k = Newline \<or> k = Indent \<or> k = Dedent"

definition read_newline :: "lexer \<Rightarrow> lexer" where
  "read_newline lx =
     (let p = lx_pos lx; lx1 = lx\<lparr>lx_rest := tl (lx_rest lx), lx_line := lx_line lx + 1, lx_col := 1\<rparr> in
      if lx_depth lx1 = 0 then
        (if lx_tokens lx1 \<noteq> [] \<and> \<not> is_layout (tk_kind (last (lx_tokens lx1))) then emit_token Newline p lx1 else lx1)
          \<lparr>lx_at_line_start := True\<rparr>
      else lx1)"

section \<open>Reading within a line\<close>

text \<open>\<open>eats t lx lx'\<close>: the lexer has moved over the bytes \<open>t\<close>, none of them a newline, and nothing else has changed.\<close>

definition eats :: "byte list \<Rightarrow> lexer \<Rightarrow> lexer \<Rightarrow> bool" where
  "eats t lx lx' \<longleftrightarrow> lx_rest lx = t @ lx_rest lx' \<and> CHR 0x0A \<notin> set t \<and>
     lx' = lx\<lparr>lx_rest := lx_rest lx', lx_col := lx_col lx + length t\<rparr>"

lemma eats_Nil [simp]: "eats [] lx lx"
  by (simp add: eats_def)

lemma eats_trans: "eats t lx lx' \<Longrightarrow> eats u lx' lx'' \<Longrightarrow> eats (t @ u) lx lx''"
  unfolding eats_def by (cases lx; cases lx'; cases lx'') auto

lemma eats_advance: "lx_rest lx = c # r \<Longrightarrow> c \<noteq> CHR 0x0A \<Longrightarrow> eats [c] lx (advance lx)"
  by (simp add: eats_def advance_def)

lemma eats_Cons: "lx_rest lx = c # r \<Longrightarrow> c \<noteq> CHR 0x0A \<Longrightarrow> eats t (advance lx) lx' \<Longrightarrow> eats (c # t) lx lx'"
  using eats_trans [OF eats_advance] by fastforce

lemma eats_rest: "eats t lx lx' \<Longrightarrow> lx_rest lx = t @ lx_rest lx'"
  by (simp add: eats_def)

lemma eats_taken: "eats t lx lx' \<Longrightarrow> take (length (lx_rest lx) - length (lx_rest lx')) (lx_rest lx) = t"
  by (simp add: eats_def)

lemma eats_sel:
  assumes "eats t lx lx'"
  shows "lx_line lx' = lx_line lx" "lx_col lx' = lx_col lx + length t" "lx_indents lx' = lx_indents lx"
    "lx_tokens lx' = lx_tokens lx" "lx_at_line_start lx' = lx_at_line_start lx" "lx_depth lx' = lx_depth lx"
  using assms unfolding eats_def by (cases lx; cases lx'; auto)+

lemma skip_while_eats:
  assumes "\<not> p (CHR 0x0A)"
  shows "\<exists>t. eats t lx (skip_while p lx) \<and> list_all p t \<and> (lx_rest (skip_while p lx) = [] \<or> \<not> p (hd (lx_rest (skip_while p lx))))"
proof (induction "length (lx_rest lx)" arbitrary: lx rule: less_induct)
  case less
  show ?case
  proof (cases "lx_rest lx")
    case Nil
    then have "skip_while p lx = lx" by (subst skip_while.simps) simp
    with Nil show ?thesis by (intro exI [of _ "[]"]) simp
  next
    case (Cons c r)
    show ?thesis
    proof (cases "p c")
      case True
      with Cons have e: "skip_while p lx = skip_while p (advance lx)" by (subst skip_while.simps) simp
      from less [of "advance lx"] Cons obtain t where "eats t (advance lx) (skip_while p (advance lx))" "list_all p t"
        "lx_rest (skip_while p (advance lx)) = [] \<or> \<not> p (hd (lx_rest (skip_while p (advance lx))))" by auto
      moreover have "c \<noteq> CHR 0x0A" using True assms by auto
      ultimately show ?thesis unfolding e using True Cons by (intro exI [of _ "c # t"]) (auto intro: eats_Cons)
    next
      case False
      with Cons have "skip_while p lx = lx" by (subst skip_while.simps) simp
      with Cons False show ?thesis by (intro exI [of _ "[]"]) simp
    qed
  qed
qed

lemma string_loop_cases:
  assumes "string_loop s lx b = Inr (b', lx')"
  obtains (stop) "lx_rest lx = [] \<or> hd (lx_rest lx) = CHR 0x22" "b' = b" "lx' = lx"
    | (esc) e x r where "lx_rest lx = CHR 0x5C # e # r" "text_escape e = Some x"
        "string_loop s (advance (advance lx)) (b @ [x]) = Inr (b', lx')"
    | (plain) c r where "lx_rest lx = c # r" "c \<noteq> CHR 0x22" "c \<noteq> CHR 0x0A" "c \<noteq> CHR 0x5C"
        "string_loop s (advance lx) (b @ [c]) = Inr (b', lx')"
proof (cases "lx_rest lx")
  case (Cons c r)
  have eq: "string_loop s lx b = (if c = CHR 0x22 then Inr (b, lx)
      else if c = CHR 0x0A then lex_err s UnterminatedString
      else if c = CHR 0x5C then
        (case r of [] \<Rightarrow> lex_err s UnterminatedStringEscape
         | e # _ \<Rightarrow> (case text_escape e of None \<Rightarrow> lex_err (lx_pos (advance lx)) (UnknownEscape e)
             | Some x \<Rightarrow> string_loop s (advance (advance lx)) (b @ [x])))
      else string_loop s (advance lx) (b @ [c]))"
    by (subst string_loop.simps) (simp add: Cons)
  show ?thesis
  proof (cases "c = CHR 0x5C")
    case True
    with eq assms obtain e r' x where "r = e # r'" "text_escape e = Some x" "string_loop s (advance (advance lx)) (b @ [x]) = Inr (b', lx')"
      by (auto simp: lex_err_def split: list.splits option.splits)
    with Cons True show ?thesis by (intro esc) auto
  next
    case False
    consider "c = CHR 0x22" "b' = b" "lx' = lx" | "c \<noteq> CHR 0x22" "c \<noteq> CHR 0x0A" "string_loop s (advance lx) (b @ [c]) = Inr (b', lx')"
      using eq assms False by (simp add: lex_err_def split: if_splits)
    then show ?thesis using Cons False by cases (rule stop, simp_all, rule plain)
  qed
next
  case Nil
  then have "string_loop s lx b = Inr (b, lx)" by (subst string_loop.simps) simp
  with assms Nil show ?thesis by (intro stop) simp_all
qed

lemma bytes_loop_cases:
  assumes "bytes_loop s lx b = Inr (b', lx')"
  obtains (stop) "lx_rest lx = [] \<or> hd (lx_rest lx) = CHR 0x22" "b' = b" "lx' = lx"
    | (esc) e x r lx1 where "lx_rest lx = CHR 0x5C # e # r" "bytes_escape (advance lx) e = Inr (x, lx1)"
        "bytes_loop s lx1 (b @ [x]) = Inr (b', lx')"
    | (plain) c r where "lx_rest lx = c # r" "c \<noteq> CHR 0x22" "c \<noteq> CHR 0x0A" "c \<noteq> CHR 0x5C"
        "bytes_loop s (advance lx) (b @ [c]) = Inr (b', lx')"
proof (cases "lx_rest lx")
  case (Cons c r)
  have eq: "bytes_loop s lx b = (if c = CHR 0x22 then Inr (b, lx)
      else if c = CHR 0x0A then lex_err s UnterminatedBytes
      else if c = CHR 0x5C then
        (case r of [] \<Rightarrow> lex_err s UnterminatedBytesEscape
         | e # _ \<Rightarrow> (case bytes_escape (advance lx) e of Inl err \<Rightarrow> Inl err
             | Inr (x, lx1) \<Rightarrow> bytes_loop s lx1 (b @ [x])))
      else bytes_loop s (advance lx) (b @ [c]))"
    by (subst bytes_loop.simps) (simp add: Cons)
  show ?thesis
  proof (cases "c = CHR 0x5C")
    case True
    with eq assms obtain e r' x lx1 where "r = e # r'" "bytes_escape (advance lx) e = Inr (x, lx1)" "bytes_loop s lx1 (b @ [x]) = Inr (b', lx')"
      by (auto simp: lex_err_def split: list.splits sum.splits)
    with Cons True show ?thesis by (intro esc) auto
  next
    case False
    consider "c = CHR 0x22" "b' = b" "lx' = lx" | "c \<noteq> CHR 0x22" "c \<noteq> CHR 0x0A" "bytes_loop s (advance lx) (b @ [c]) = Inr (b', lx')"
      using eq assms False by (simp add: lex_err_def split: if_splits)
    then show ?thesis using Cons False by cases (rule stop, simp_all, rule plain)
  qed
next
  case Nil
  then have "bytes_loop s lx b = Inr (b, lx)" by (subst bytes_loop.simps) simp
  with assms Nil show ?thesis by (intro stop) simp_all
qed

section \<open>What the loops read\<close>

text \<open>The contents of a text literal and of a byte string, from the bytes between its quotes.\<close>

fun unescape :: "byte list \<Rightarrow> byte list option" where
  "unescape [] = Some []"
| "unescape [c] = (if c \<in> {CHR 0x22, CHR 0x0A, CHR 0x5C} then None else Some [c])"
| "unescape (c # e # r) =
     (if c = CHR 0x5C then (case text_escape e of None \<Rightarrow> None | Some x \<Rightarrow> map_option ((#) x) (unescape r))
      else if c \<in> {CHR 0x22, CHR 0x0A} then None else map_option ((#) c) (unescape (e # r)))"

fun unescape_bytes :: "byte list \<Rightarrow> byte list option" where
  "unescape_bytes [] = Some []"
| "unescape_bytes (c # r) =
     (if c = CHR 0x5C then
        (case r of
           e # h # l # r' \<Rightarrow>
             if e = CHR ''x'' \<or> e = CHR ''X'' then
               (if is_ascii_hexdigit h \<and> is_ascii_hexdigit l
                then map_option ((#) (char_of (hex_val h * 16 + hex_val l))) (unescape_bytes r') else None)
             else (case text_escape e of None \<Rightarrow> None | Some x \<Rightarrow> map_option ((#) x) (unescape_bytes (h # l # r')))
         | e # r' \<Rightarrow> (case text_escape e of None \<Rightarrow> None | Some x \<Rightarrow> map_option ((#) x) (unescape_bytes r'))
         | [] \<Rightarrow> None)
      else if c \<in> {CHR 0x22, CHR 0x0A} then None else map_option ((#) c) (unescape_bytes r))"

lemma unescape_plain: "c \<notin> {CHR 0x22, CHR 0x0A, CHR 0x5C} \<Longrightarrow> unescape (c # r) = map_option ((#) c) (unescape r)"
  by (cases r) simp_all

lemma unescape_esc: "text_escape e = Some x \<Longrightarrow> unescape (CHR 0x5C # e # r) = map_option ((#) x) (unescape r)"
  by simp

lemma text_escape_byte: "text_escape e = Some x \<Longrightarrow> e \<noteq> CHR 0x0A \<and> e \<noteq> CHR ''x'' \<and> e \<noteq> CHR ''X'' \<and> code e < 128 \<and> code x < 128"
  by (auto simp: text_escape_def split: if_splits)

lemma unescape_bytes_esc: "text_escape e = Some x \<Longrightarrow> unescape_bytes (CHR 0x5C # e # r) = map_option ((#) x) (unescape_bytes r)"
  using text_escape_byte [of e x] by (cases r; cases "tl r") auto

lemma string_loop_reads:
  "string_loop s lx b = Inr (b', lx') \<Longrightarrow>
     \<exists>raw u. eats raw lx lx' \<and> unescape raw = Some u \<and> b' = b @ u \<and> (lx_rest lx' = [] \<or> hd (lx_rest lx') = CHR 0x22)"
proof (induction "length (lx_rest lx)" arbitrary: lx b rule: less_induct)
  case less
  from less.prems show ?case
  proof (cases rule: string_loop_cases)
    case stop
    then show ?thesis by (intro exI [of _ "[]"]) simp
  next
    case (esc e x r)
    from less.hyps [OF _ esc(3)] esc(1) obtain raw u where
      "eats raw (advance (advance lx)) lx'" "unescape raw = Some u" "b' = b @ x # u" "lx_rest lx' = [] \<or> hd (lx_rest lx') = CHR 0x22"
      by auto
    with esc text_escape_byte [OF esc(2)] show ?thesis
      by (intro exI [of _ "CHR 0x5C # e # raw"] exI [of _ "x # u"]) (auto intro!: eats_Cons)
  next
    case (plain c r)
    from less.hyps [OF _ plain(5)] plain(1) obtain raw u where
      "eats raw (advance lx) lx'" "unescape raw = Some u" "b' = b @ c # u" "lx_rest lx' = [] \<or> hd (lx_rest lx') = CHR 0x22"
      by auto
    with plain show ?thesis
      by (intro exI [of _ "c # raw"] exI [of _ "c # u"]) (auto intro!: eats_Cons simp: unescape_plain)
  qed
qed

lemma bytes_escape_reads:
  assumes "bytes_escape (advance lx) e = Inr (x, lx1)" "lx_rest lx = CHR 0x5C # e # r"
  shows "\<exists>t. eats (CHR 0x5C # e # t) lx lx1 \<and> (\<forall>r. unescape_bytes (CHR 0x5C # e # t @ r) = map_option ((#) x) (unescape_bytes r))"
proof (cases "e = CHR ''x'' \<or> e = CHR ''X''")
  case True
  with assms obtain h l where hl: "peek (advance lx) 1 = Some h" "peek (advance lx) 2 = Some l" "is_ascii_hexdigit h" "is_ascii_hexdigit l"
    and x: "x = char_of (hex_val h * 16 + hex_val l)" "lx1 = advance (advance (advance (advance lx)))"
    by (auto simp: bytes_escape_def lex_err_def split: if_splits option.splits)
  from hl(1,2) assms(2) obtain r' where r: "r = h # l # r'"
    by (cases r; cases "tl r") (auto simp: peek_def split: if_splits)
  have "h \<noteq> CHR 0x0A" "l \<noteq> CHR 0x0A" using hl(3,4) by (auto simp: is_ascii_hexdigit_def is_ascii_digit_def)
  moreover have "e \<noteq> CHR 0x0A" using True by auto
  ultimately have "eats [CHR 0x5C, e, h, l] lx lx1" using assms(2) r x(2) by (auto intro!: eats_Cons)
  with True hl(3,4) x(1) show ?thesis by (intro exI [of _ "[h, l]"]) auto
next
  case False
  with assms have x: "text_escape e = Some x" "lx1 = advance (advance lx)"
    by (auto simp: bytes_escape_def lex_err_def split: option.splits)
  then have "eats [CHR 0x5C, e] lx lx1" using assms(2) text_escape_byte [OF x(1)] by (auto intro!: eats_Cons)
  with unescape_bytes_esc [OF x(1)] show ?thesis by (intro exI [of _ "[]"]) simp
qed

lemma unescape_bytes_plain: "c \<notin> {CHR 0x22, CHR 0x0A, CHR 0x5C} \<Longrightarrow> unescape_bytes (c # r) = map_option ((#) c) (unescape_bytes r)"
  by simp

declare unescape_bytes.simps(2) [simp del]

lemma bytes_loop_reads:
  "bytes_loop s lx b = Inr (b', lx') \<Longrightarrow>
     \<exists>raw u. eats raw lx lx' \<and> unescape_bytes raw = Some u \<and> b' = b @ u \<and> (lx_rest lx' = [] \<or> hd (lx_rest lx') = CHR 0x22)"
proof (induction "length (lx_rest lx)" arbitrary: lx b rule: less_induct)
  case less
  from less.prems show ?case
  proof (cases rule: bytes_loop_cases)
    case stop
    then show ?thesis by (intro exI [of _ "[]"]) simp
  next
    case (esc e x r lx1)
    from bytes_escape_reads [OF esc(2,1)] obtain t where t: "eats (CHR 0x5C # e # t) lx lx1"
      "\<And>r. unescape_bytes (CHR 0x5C # e # t @ r) = map_option ((#) x) (unescape_bytes r)" by blast
    from less.hyps [OF _ esc(3)] eats_rest [OF t(1)] obtain raw u where
      "eats raw lx1 lx'" "unescape_bytes raw = Some u" "b' = b @ x # u" "lx_rest lx' = [] \<or> hd (lx_rest lx') = CHR 0x22"
      by auto
    with t eats_trans [OF t(1)] show ?thesis
      by (intro exI [of _ "CHR 0x5C # e # t @ raw"] exI [of _ "x # u"]) fastforce
  next
    case (plain c r)
    from less.hyps [OF _ plain(5)] plain(1) obtain raw u where
      "eats raw (advance lx) lx'" "unescape_bytes raw = Some u" "b' = b @ c # u" "lx_rest lx' = [] \<or> hd (lx_rest lx') = CHR 0x22"
      by auto
    with plain show ?thesis
      by (intro exI [of _ "c # raw"] exI [of _ "c # u"]) (auto intro!: eats_Cons simp: unescape_bytes_plain)
  qed
qed

section \<open>The spelling of a token\<close>

definition symbol_text :: "token_kind \<Rightarrow> string option" where
  "symbol_text k =
     (case k of
        Colon \<Rightarrow> Some '':'' | Comma \<Rightarrow> Some '','' | LBracket \<Rightarrow> Some ''['' | RBracket \<Rightarrow> Some '']''
      | LParen \<Rightarrow> Some ''('' | RParen \<Rightarrow> Some '')'' | LBrace \<Rightarrow> Some ''{'' | RBrace \<Rightarrow> Some ''}''
      | Equal \<Rightarrow> Some ''='' | EqualEqual \<Rightarrow> Some ''=='' | FatArrow \<Rightarrow> Some ''=>'' | NotEqual \<Rightarrow> Some ''!=''
      | Gt \<Rightarrow> Some ''>'' | Lt \<Rightarrow> Some ''<'' | GtEq \<Rightarrow> Some ''>='' | LtEq \<Rightarrow> Some ''<='' | Dot \<Rightarrow> Some ''.''
      | Plus \<Rightarrow> Some ''+'' | Minus \<Rightarrow> Some ''-'' | Star \<Rightarrow> Some ''*'' | Slash \<Rightarrow> Some ''/'' | Percent \<Rightarrow> Some ''%''
      | DoubleColon \<Rightarrow> Some ''::'' | _ \<Rightarrow> None)"

definition spells :: "byte list \<Rightarrow> token_kind \<Rightarrow> bool" where
  "spells t k \<longleftrightarrow>
     (case k of
        Ident s \<Rightarrow> t = s \<and> s \<noteq> [] \<and> is_ident_start (hd s) \<and> list_all is_ident_continue s
      | Attribute s \<Rightarrow> t = CHR ''@'' # s \<and> s \<noteq> [] \<and> list_all is_ident_continue s
      | Number n \<Rightarrow> t \<noteq> [] \<and> list_all is_ascii_digit t \<and> n = int (digits_val t) \<and> n \<le> i64_MAX
      | StringLit s \<Rightarrow> (\<exists>raw. t = CHR 0x22 # raw @ [CHR 0x22] \<and> unescape raw = Some s)
      | BytesLit s \<Rightarrow> (\<exists>raw. t = CHR ''b'' # CHR 0x22 # raw @ [CHR 0x22] \<and> unescape_bytes raw = Some s)
      | _ \<Rightarrow> symbol_text k = Some t)"

text \<open>Where a token may end: the longest reading is taken, and a dash before a dash opens a comment.\<close>

definition ends_before :: "token_kind \<Rightarrow> byte list \<Rightarrow> bool" where
  "ends_before k r \<longleftrightarrow> r = [] \<or>
     (case k of
        Ident s \<Rightarrow> \<not> is_ident_continue (hd r) \<and> (s = ''b'' \<longrightarrow> hd r \<noteq> CHR 0x22)
      | Attribute _ \<Rightarrow> \<not> is_ident_continue (hd r)
      | Number _ \<Rightarrow> \<not> is_ascii_digit (hd r)
      | Colon \<Rightarrow> hd r \<noteq> CHR '':''
      | Equal \<Rightarrow> hd r \<noteq> CHR ''='' \<and> hd r \<noteq> CHR ''>''
      | Gt \<Rightarrow> hd r \<noteq> CHR ''=''
      | Lt \<Rightarrow> hd r \<noteq> CHR ''=''
      | Minus \<Rightarrow> hd r \<noteq> CHR ''-''
      | _ \<Rightarrow> True)"

definition bracket_step :: "token_kind \<Rightarrow> int" where
  "bracket_step k =
     (if k \<in> {LBracket, LParen, LBrace} then 1 else if k \<in> {RBracket, RParen, RBrace} then - 1 else 0)"

definition reads_token :: "lexer \<Rightarrow> lexer \<Rightarrow> bool" where
  "reads_token lx lx' \<longleftrightarrow> (\<exists>t k lx1. eats t lx lx1 \<and> spells t k \<and> ends_before k (lx_rest lx1) \<and>
     lx' = emit_token k (lx_pos lx) (lx1\<lparr>lx_depth := lx_depth lx + bracket_step k\<rparr>) \<and> (0 \<le> lx_depth lx \<longrightarrow> 0 \<le> lx_depth lx'))"

lemma reads_tokenI:
  assumes "eats t lx lx1" "spells t k" "ends_before k (lx_rest lx1)" "bracket_step k = 0"
  shows "reads_token lx (emit_token k (lx_pos lx) lx1)"
  unfolding reads_token_def using assms eats_sel(6) [OF assms(1)]
  by (intro exI [of _ t] exI [of _ k] exI [of _ lx1]) (simp add: emit_token_def)

lemma ident_continue_nl: "\<not> is_ident_continue (CHR 0x0A)" "\<not> is_ascii_digit (CHR 0x0A)"
  by (simp_all add: is_ident_continue_def is_ascii_alphanumeric_def is_ascii_alphabetic_def is_ascii_digit_def)

lemmas skip_ident = skip_while_eats [of is_ident_continue, OF ident_continue_nl(1)]

lemmas skip_digits = skip_while_eats [of is_ascii_digit, OF ident_continue_nl(2)]

lemma read_attribute_reads:
  assumes "read_attribute (lx_pos lx) lx = Inr lx'" "lx_rest lx = CHR ''@'' # r"
  shows "reads_token lx lx'"
proof -
  from skip_ident obtain t where t: "eats t (advance lx) (skip_while is_ident_continue (advance lx))"
    "list_all is_ident_continue t" and e: "ends_before (Attribute t) (lx_rest (skip_while is_ident_continue (advance lx)))"
    by (fastforce simp: ends_before_def)
  from assms eats_taken [OF t(1)] have "t \<noteq> []" "lx' = emit_token (Attribute t) (lx_pos lx) (skip_while is_ident_continue (advance lx))"
    by (auto simp: read_attribute_def Let_def lex_err_def split: if_splits)
  moreover have "eats (CHR ''@'' # t) lx (skip_while is_ident_continue (advance lx))"
    by (rule eats_Cons [OF assms(2) _ t(1)]) simp
  ultimately show ?thesis using t e by (auto intro!: reads_tokenI simp: spells_def bracket_step_def)
qed

lemma read_ident_reads:
  assumes "read_ident (lx_pos lx) lx = Inr lx'" "lx_rest lx = c # r" "is_ident_start c"
    "\<not> (c = CHR ''b'' \<and> peek lx 1 = Some (CHR 0x22))"
  shows "reads_token lx lx'"
proof -
  let ?lx = "skip_while is_ident_continue lx"
  from skip_ident obtain t where t: "eats t lx ?lx"
    "list_all is_ident_continue t" and e: "lx_rest ?lx = [] \<or> \<not> is_ident_continue (hd (lx_rest ?lx))" by blast
  have lx': "lx' = emit_token (Ident t) (lx_pos lx) ?lx" using assms(1) eats_taken [OF t(1)] by (simp add: read_ident_def Let_def)
  have cont: "is_ident_continue c" using assms(3) by (auto simp: is_ident_start_def is_ident_continue_def is_ascii_alphanumeric_def)
  then have ne: "t \<noteq> [] \<and> hd t = c" using eats_rest [OF t(1), symmetric] assms(2) e by (cases t) auto
  have "ends_before (Ident t) (lx_rest ?lx)"
    using e eats_rest [OF t(1)] assms(2,4) by (auto simp: ends_before_def peek_def hd_conv_nth)
  with ne t lx' assms(3) show ?thesis by (auto intro!: reads_tokenI simp: spells_def bracket_step_def)
qed

lemma read_number_reads:
  assumes "read_number (lx_pos lx) lx = Inr lx'" "lx_rest lx = c # r" "is_ascii_digit c"
  shows "reads_token lx lx'"
proof -
  let ?lx = "skip_while is_ascii_digit lx"
  from skip_digits obtain t where t: "eats t lx ?lx"
    "list_all is_ascii_digit t" and e: "lx_rest ?lx = [] \<or> \<not> is_ascii_digit (hd (lx_rest ?lx))" by blast
  from eats_rest [OF t(1), symmetric] assms(2,3) e obtain t' where ct: "t = c # t'" by (cases t) auto
  from assms(1) eats_taken [OF t(1)] obtain n where n: "parse_i64 t = Some n" "lx' = emit_token (Number n) (lx_pos lx) ?lx"
    by (auto simp: read_number_def Let_def lex_err_def split: option.splits)
  have "c \<noteq> CHR ''-''" "c \<noteq> CHR ''+''" using assms(3) by (auto simp: is_ascii_digit_def)
  with n(1) ct have "n = int (digits_val t) \<and> n \<le> i64_MAX"
    by (auto simp: parse_i64_def parse_digits_def Let_def in_i64_def split: if_splits)
  with n t e ct show ?thesis by (auto intro!: reads_tokenI simp: spells_def bracket_step_def ends_before_def)
qed

lemma read_string_reads:
  assumes "read_string (lx_pos lx) lx = Inr lx'" "lx_rest lx = CHR 0x22 # r"
  shows "reads_token lx lx'"
proof -
  from assms(1) obtain b lx1 where b: "string_loop (lx_pos lx) (advance lx) [] = Inr (b, lx1)" "lx_rest lx1 \<noteq> []"
    "lx' = emit_token (StringLit b) (lx_pos lx) (advance lx1)"
    by (auto simp: read_string_def lex_err_def split: sum.splits if_splits)
  from string_loop_reads [OF b(1)] b(2) obtain raw r' where raw: "eats raw (advance lx) lx1" "unescape raw = Some b"
    and r': "lx_rest lx1 = CHR 0x22 # r'" by (cases "lx_rest lx1") auto
  have "eats (CHR 0x22 # raw @ [CHR 0x22]) lx (advance lx1)"
    by (rule eats_Cons [OF assms(2) _ eats_trans [OF raw(1) eats_advance [OF r']]]) simp_all
  with raw(2) b(3) show ?thesis by (auto intro!: reads_tokenI simp: spells_def bracket_step_def ends_before_def)
qed

lemma read_bytes_reads:
  assumes "read_bytes (lx_pos lx) lx = Inr lx'" "lx_rest lx = CHR ''b'' # CHR 0x22 # r"
  shows "reads_token lx lx'"
proof -
  from assms(1) obtain b lx1 where b: "bytes_loop (lx_pos lx) (advance (advance lx)) [] = Inr (b, lx1)" "lx_rest lx1 \<noteq> []"
    "lx' = emit_token (BytesLit b) (lx_pos lx) (advance lx1)"
    by (auto simp: read_bytes_def lex_err_def split: sum.splits if_splits)
  from bytes_loop_reads [OF b(1)] b(2) obtain raw r' where raw: "eats raw (advance (advance lx)) lx1" "unescape_bytes raw = Some b"
    and r': "lx_rest lx1 = CHR 0x22 # r'" by (cases "lx_rest lx1") auto
  have "eats (CHR 0x22 # raw @ [CHR 0x22]) (advance lx) (advance lx1)"
    by (rule eats_Cons [OF _ _ eats_trans [OF raw(1) eats_advance [OF r']]]) (simp_all add: assms(2))
  then have "eats (CHR ''b'' # CHR 0x22 # raw @ [CHR 0x22]) lx (advance lx1)"
    by (rule eats_Cons [OF assms(2), rotated]) simp
  with raw(2) b(3) show ?thesis by (auto intro!: reads_tokenI simp: spells_def bracket_step_def ends_before_def)
qed

lemma read_one_reads:
  assumes "read_one k (lx_pos lx) lx = Inr lx'" "lx_rest lx = c # r" "c \<noteq> CHR 0x0A" "symbol_text k = Some [c]" "ends_before k r"
    "bracket_step k = 0"
  shows "reads_token lx lx'"
  using reads_tokenI [OF eats_advance [OF assms(2,3)] _ _ assms(6)] assms
  by (auto simp: read_one_def spells_def symbol_text_def split: token_kind.splits)

lemma read_two_reads:
  assumes "read_two k (lx_pos lx) lx = Inr lx'" "lx_rest lx = c # r" "peek lx 1 = Some d" "c \<noteq> CHR 0x0A" "d \<noteq> CHR 0x0A"
    "symbol_text k = Some [c, d]" "k \<in> {DoubleColon, EqualEqual, FatArrow, NotEqual, GtEq, LtEq}"
  shows "reads_token lx lx'"
proof -
  from assms(2,3) obtain r' where r: "r = d # r'" by (cases r) (auto simp: peek_def split: if_splits)
  then have "eats [c, d] lx (advance (advance lx))" using assms(2,4,5) by (auto intro!: eats_Cons)
  moreover have "ends_before k r'" "bracket_step k = 0" "spells [c, d] k"
    using assms(6,7) by (auto simp: ends_before_def bracket_step_def spells_def)
  ultimately show ?thesis using assms(1,2) r reads_tokenI [of "[c, d]" lx "advance (advance lx)" k] by (auto simp: read_two_def)
qed

lemma read_bracket_reads:
  assumes "read_open k (lx_pos lx) lx = Inr lx' \<and> k \<in> {LBracket, LParen, LBrace} \<or>
      read_close k (lx_pos lx) lx = Inr lx' \<and> k \<in> {RBracket, RParen, RBrace}"
    and "lx_rest lx = c # r" "c \<noteq> CHR 0x0A" "symbol_text k = Some [c]"
  shows "reads_token lx lx'"
  unfolding reads_token_def
proof (intro exI [of _ "[c]"] exI [of _ k] exI [of _ "advance lx"] conjI)
  show "eats [c] lx (advance lx)" using assms(2,3) by (rule eats_advance)
qed (use assms in \<open>auto simp: read_open_def read_close_def lex_err_def spells_def ends_before_def bracket_step_def
    emit_token_def split: if_splits\<close>)

lemma peek_one: "lx_rest lx = c # r \<Longrightarrow> peek lx (Suc 0) = Some d \<longleftrightarrow> r \<noteq> [] \<and> hd r = d"
  by (cases r) (auto simp: peek_def)

lemma read_symbol_reads:
  assumes "read_symbol c (lx_pos lx) lx = Inr lx'" "lx_rest lx = c # r" "c \<noteq> CHR 0x0A"
    "\<not> (c = CHR ''-'' \<and> peek lx 1 = Some (CHR ''-''))"
  shows "reads_token lx lx'"
proof -
  note one = read_one_reads [OF _ assms(2,3)] and two = read_two_reads [OF _ assms(2) _ assms(3)]
    and br = read_bracket_reads [OF disjI1 assms(2,3), OF conjI] read_bracket_reads [OF disjI2 assms(2,3), OF conjI]
  note ends = ends_before_def bracket_step_def symbol_text_def peek_one [OF assms(2)]
  from assms(1,4) show ?thesis unfolding read_symbol_def
    by (simp add: lex_err_def split: if_splits)
      (((erule one; force simp: ends) | (erule two; simp add: ends) | (erule br(1); simp add: ends) | (erule br(2); simp add: ends))+)
qed

lemma read_token_reads:
  assumes "read_token lx = Inr lx'" "lx_rest lx = c # r" "c \<noteq> CHR 0x0A" "\<not> (c = CHR ''-'' \<and> peek lx 1 = Some (CHR ''-''))"
  shows "reads_token lx lx'"
proof -
  consider "c = CHR ''@''" "read_attribute (lx_pos lx) lx = Inr lx'" | "c = CHR 0x22" "read_string (lx_pos lx) lx = Inr lx'"
    | "is_ascii_digit c" "read_number (lx_pos lx) lx = Inr lx'"
    | "c = CHR ''b''" "peek lx 1 = Some (CHR 0x22)" "read_bytes (lx_pos lx) lx = Inr lx'"
    | "is_ident_start c" "\<not> (c = CHR ''b'' \<and> peek lx 1 = Some (CHR 0x22))" "read_ident (lx_pos lx) lx = Inr lx'"
    | "read_symbol c (lx_pos lx) lx = Inr lx'"
    using assms(1,2) by (auto simp: read_token_def Let_def split: if_splits)
  then show ?thesis
  proof cases
    case 1
    with assms(2) show ?thesis by (intro read_attribute_reads [of lx lx' r]) simp_all
  next
    case 2
    with assms(2) show ?thesis by (intro read_string_reads [of lx lx' r]) simp_all
  next
    case 3
    with assms(2) show ?thesis by (intro read_number_reads [of lx lx' c r])
  next
    case 4
    with assms(2) obtain r' where "lx_rest lx = CHR ''b'' # CHR 0x22 # r'" by (cases r) (auto simp: peek_def split: if_splits)
    with 4 show ?thesis by (intro read_bytes_reads)
  next
    case 5
    with assms(2) show ?thesis by (intro read_ident_reads [of lx lx' c r])
  next
    case 6
    with assms(2-4) show ?thesis by (intro read_symbol_reads [of c lx lx' r])
  qed
qed

section \<open>The loop\<close>

text \<open>One iteration of the loop of \<open>tokenize\<close>, with its \<open>continue\<close>s; at the end of the source the loop ends.\<close>

definition lex_iter :: "lexer \<Rightarrow> lex_error + lexer" where
  "lex_iter lx0 =
     (case (if lx_at_line_start lx0 \<and> lx_depth lx0 = 0 then handle_line_start lx0 else Inr lx0) of
        Inl e \<Rightarrow> Inl e
      | Inr lx \<Rightarrow>
          (case lx_rest lx of
             [] \<Rightarrow> Inr lx
           | c # _ \<Rightarrow>
               if c = CHR ''-'' \<and> peek lx 1 = Some (CHR ''-'') then Inr (skip_while (\<lambda>b. b \<noteq> CHR 0x0A) lx)
               else if c = CHR 0x0A then Inr (read_newline lx)
               else if c = CHR '' '' \<or> c = CHR 0x09 then Inr (advance lx)
               else read_token lx))"

lemma indent_width_eats:
  "indent_width w lx = Inr (w', lx') \<Longrightarrow> \<exists>t. eats t lx lx' \<and> set t \<subseteq> {CHR '' ''}"
proof (induction "length (lx_rest lx)" arbitrary: w lx rule: less_induct)
  case less
  show ?case
  proof (cases "lx_rest lx")
    case Nil
    with less.prems show ?thesis by (intro exI [of _ "[]"]) (simp add: indent_width.simps [of w lx])
  next
    case (Cons c r)
    show ?thesis
    proof (cases "c = CHR '' ''")
      case True
      with Cons less.prems have "indent_width (w + 1) (advance lx) = Inr (w', lx')" by (simp add: indent_width.simps [of w lx])
      from less.hyps [OF _ this] Cons obtain t where "eats t (advance lx) lx'" "set t \<subseteq> {CHR '' ''}" by auto
      with True Cons show ?thesis by (intro exI [of _ "c # t"]) (auto intro!: eats_Cons)
    next
      case False
      with Cons less.prems show ?thesis
        by (intro exI [of _ "[]"]) (simp add: indent_width.simps [of w lx] lex_err_def split: if_splits)
    qed
  qed
qed

text \<open>What the start of a line does to the layout state: blanks are read and the indentation stack is adjusted.\<close>

lemma pop_indents_sel [simp]:
  "lx_rest (pop_indents w is lx) = lx_rest lx" "lx_line (pop_indents w is lx) = lx_line lx"
  "lx_col (pop_indents w is lx) = lx_col lx" "lx_depth (pop_indents w is lx) = lx_depth lx"
  by (induction w "is" lx rule: pop_indents.induct) (simp_all add: emit_token_def)

lemma pop_indents_tokens:
  "\<exists>n. lx_tokens (pop_indents w is lx) = lx_tokens lx @ replicate n \<lparr>tk_kind = Dedent, tk_line = lx_line lx, tk_col = 1\<rparr>
     \<and> (lx_indents lx = is \<longrightarrow> lx_indents (pop_indents w is lx) = drop n is \<and> n \<le> length is) \<and> (\<forall>i < n. is ! i > w)"
proof (induction w "is" lx rule: pop_indents.induct)
  case (1 w i js lx)
  show ?case
  proof (cases "i > w")
    case True
    from 1 [OF True] obtain n where
      "lx_tokens (pop_indents w (i # js) lx) = lx_tokens lx @ replicate (Suc n) \<lparr>tk_kind = Dedent, tk_line = lx_line lx, tk_col = 1\<rparr>"
      "lx_indents (pop_indents w (i # js) lx) = drop n js" "n \<le> length js" "\<forall>i < n. js ! i > w"
      using True by (auto simp: emit_token_def)
    with True show ?thesis by (intro exI [of _ "Suc n"]) (auto simp: less_Suc_eq_0_disj)
  next
    case False
    then show ?thesis by (intro exI [of _ 0]) simp
  qed
qed (auto intro: exI [of _ 0])

lemma handle_line_start_cases:
  assumes "handle_line_start lx0 = Inr lx'"
  obtains t lx where "eats t lx0 lx" "set t \<subseteq> {CHR '' ''}" "lx' = lx\<lparr>lx_at_line_start := False\<rparr>"
  | t lx w where "eats t lx0 lx" "set t \<subseteq> {CHR '' ''}" "w > hd (lx_indents lx)" "lx_rest lx \<noteq> []"
      "lx' = emit_token Indent (lx_line lx, 1) (lx\<lparr>lx_indents := w # lx_indents lx, lx_at_line_start := False\<rparr>)"
  | t lx w where "eats t lx0 lx" "set t \<subseteq> {CHR '' ''}" "w < hd (lx_indents lx)" "hd (lx_indents (pop_indents w (lx_indents lx) lx)) = w"
      "lx' = (pop_indents w (lx_indents lx) lx)\<lparr>lx_at_line_start := False\<rparr>" "lx_rest lx \<noteq> []"
proof -
  from assms obtain w lx where w: "indent_width 0 lx0 = Inr (w, lx)" by (auto simp: handle_line_start_def split: sum.splits)
  from indent_width_eats [OF w] obtain t where t: "eats t lx0 lx" "set t \<subseteq> {CHR '' ''}" by blast
  from assms w consider "lx' = lx\<lparr>lx_at_line_start := False\<rparr>"
    | "w > hd (lx_indents lx)" "lx_rest lx \<noteq> []" "lx' = emit_token Indent (lx_line lx, 1) (lx\<lparr>lx_indents := w # lx_indents lx, lx_at_line_start := False\<rparr>)"
    | "w < hd (lx_indents lx)" "hd (lx_indents (pop_indents w (lx_indents lx) lx)) = w"
      "lx' = (pop_indents w (lx_indents lx) lx)\<lparr>lx_at_line_start := False\<rparr>" "lx_rest lx \<noteq> []"
    by (simp add: handle_line_start_def Let_def lex_err_def split: if_splits)
  then show ?thesis using t by cases (rule that, assumption+)+
qed

lemma lex_iter_cases:
  assumes "lex_iter lx0 = Inr lx'"
  obtains lx where "lx = lx0 \<and> \<not> (lx_at_line_start lx0 \<and> lx_depth lx0 = 0) \<or> handle_line_start lx0 = Inr lx \<and> lx_at_line_start lx0 \<and> lx_depth lx0 = 0"
    "lx_rest lx = [] \<and> lx' = lx
     \<or> (\<exists>r. lx_rest lx = CHR ''-'' # CHR ''-'' # r \<and> lx' = skip_while (\<lambda>b. b \<noteq> CHR 0x0A) lx)
     \<or> (\<exists>r. lx_rest lx = CHR 0x0A # r \<and> lx' = read_newline lx)
     \<or> (\<exists>c r. lx_rest lx = c # r \<and> (c = CHR '' '' \<or> c = CHR 0x09) \<and> lx' = advance lx)
     \<or> (lx_rest lx \<noteq> [] \<and> hd (lx_rest lx) \<notin> {CHR 0x0A, CHR '' '', CHR 0x09} \<and> reads_token lx lx' \<and> read_token lx = Inr lx')"
proof -
  from assms obtain lx where start: "lx = lx0 \<and> \<not> (lx_at_line_start lx0 \<and> lx_depth lx0 = 0)
      \<or> handle_line_start lx0 = Inr lx \<and> lx_at_line_start lx0 \<and> lx_depth lx0 = 0"
    and rest: "(case lx_rest lx of
             [] \<Rightarrow> Inr lx
           | c # _ \<Rightarrow>
               if c = CHR ''-'' \<and> peek lx 1 = Some (CHR ''-'') then Inr (skip_while (\<lambda>b. b \<noteq> CHR 0x0A) lx)
               else if c = CHR 0x0A then Inr (read_newline lx)
               else if c = CHR '' '' \<or> c = CHR 0x09 then Inr (advance lx)
               else read_token lx) = Inr lx'"
    by (auto simp: lex_iter_def split: sum.splits if_splits)
  show ?thesis
  proof (cases "lx_rest lx")
    case Nil
    with rest start show ?thesis by (intro that [of lx]) simp_all
  next
    case (Cons c r)
    consider "c = CHR ''-''" "peek lx 1 = Some (CHR ''-'')" "lx' = skip_while (\<lambda>b. b \<noteq> CHR 0x0A) lx"
      | "c = CHR 0x0A" "lx' = read_newline lx"
      | "c = CHR '' '' \<or> c = CHR 0x09" "lx' = advance lx"
      | "\<not> (c = CHR ''-'' \<and> peek lx 1 = Some (CHR ''-''))" "c \<notin> {CHR 0x0A, CHR '' '', CHR 0x09}" "read_token lx = Inr lx'"
      using rest Cons by (auto split: if_splits)
    then show ?thesis
    proof cases
      case 1
      with Cons peek_one [OF Cons, of "CHR ''-''"] have "\<exists>r. lx_rest lx = CHR ''-'' # CHR ''-'' # r" by (cases r) auto
      with start 1 show ?thesis by (intro that [of lx]) auto
    next
      case 4
      from read_token_reads [OF 4(3) Cons _ 4(1)] 4(2) have "reads_token lx lx'" by simp
      with start 4 Cons show ?thesis by (intro that [of lx]) simp_all
    qed (use start Cons that [of lx] in auto)
  qed
qed

lemma spells_nonempty: "spells t k \<Longrightarrow> t \<noteq> [] \<and> \<not> is_layout k \<and> k \<noteq> Eof"
  by (auto simp: spells_def symbol_text_def is_layout_def split: token_kind.splits)

lemma reads_token_rest: "reads_token lx lx' \<Longrightarrow> length (lx_rest lx') < length (lx_rest lx)"
  by (auto simp: reads_token_def dest!: eats_rest spells_nonempty)

lemma comment_eats:
  "\<exists>t. eats t lx (skip_while (\<lambda>b. b \<noteq> CHR 0x0A) lx) \<and>
     (lx_rest (skip_while (\<lambda>b. b \<noteq> CHR 0x0A) lx) = [] \<or> hd (lx_rest (skip_while (\<lambda>b. b \<noteq> CHR 0x0A) lx)) = CHR 0x0A)"
  using skip_while_eats [of "\<lambda>b. b \<noteq> CHR 0x0A" lx] by auto

lemma line_start_rest: "handle_line_start lx = Inr lx' \<Longrightarrow> length (lx_rest lx') \<le> length (lx_rest lx)"
  by (erule handle_line_start_cases) (auto dest: eats_rest)

lemma rest_newline [simp]: "lx_rest (read_newline lx) = tl (lx_rest lx)"
  by (simp add: read_newline_def Let_def)

lemma lex_iter_less:
  assumes "lex_iter lx0 = Inr lx'" "lx_rest lx0 \<noteq> []"
  shows "length (lx_rest lx') < length (lx_rest lx0)"
  using assms(1)
proof (rule lex_iter_cases)
  fix lx
  assume start: "lx = lx0 \<and> \<not> (lx_at_line_start lx0 \<and> lx_depth lx0 = 0) \<or> handle_line_start lx0 = Inr lx \<and> lx_at_line_start lx0 \<and> lx_depth lx0 = 0"
    and step: "lx_rest lx = [] \<and> lx' = lx
     \<or> (\<exists>r. lx_rest lx = CHR ''-'' # CHR ''-'' # r \<and> lx' = skip_while (\<lambda>b. b \<noteq> CHR 0x0A) lx)
     \<or> (\<exists>r. lx_rest lx = CHR 0x0A # r \<and> lx' = read_newline lx)
     \<or> (\<exists>c r. lx_rest lx = c # r \<and> (c = CHR '' '' \<or> c = CHR 0x09) \<and> lx' = advance lx)
     \<or> (lx_rest lx \<noteq> [] \<and> hd (lx_rest lx) \<notin> {CHR 0x0A, CHR '' '', CHR 0x09} \<and> reads_token lx lx' \<and> read_token lx = Inr lx')"
  have le: "length (lx_rest lx) \<le> length (lx_rest lx0)" using start line_start_rest by auto
  obtain t where t: "eats t lx (skip_while (\<lambda>b. b \<noteq> CHR 0x0A) lx)"
    "lx_rest (skip_while (\<lambda>b. b \<noteq> CHR 0x0A) lx) = [] \<or> hd (lx_rest (skip_while (\<lambda>b. b \<noteq> CHR 0x0A) lx)) = CHR 0x0A"
    using comment_eats by blast
  have "lx_rest lx = CHR ''-'' # r \<Longrightarrow> length (lx_rest (skip_while (\<lambda>b. b \<noteq> CHR 0x0A) lx)) < length (lx_rest lx)" for r
    using eats_rest [OF t(1)] t(2) by (cases t) auto
  with step le assms(2) reads_token_rest [of lx lx'] show ?thesis by fastforce
qed

function lex_loop :: "lexer \<Rightarrow> lex_error + lexer" where
  "lex_loop lx =
     (if lx_rest lx = [] then Inr lx
      else case lex_iter lx of Inl e \<Rightarrow> Inl e | Inr lx' \<Rightarrow> lex_loop lx')"
  by pat_completeness auto
termination by (relation "measure (length \<circ> lx_rest)") (auto simp: lex_iter_less)

declare lex_loop.simps [simp del]

text \<open>The end of the source: a last newline, the open blocks are closed, and the end marker.\<close>

fun close_indents :: "nat list \<Rightarrow> lexer \<Rightarrow> lexer" where
  "close_indents (i # j # is) lx = close_indents (j # is) (emit_token Dedent (lx_pos lx) (lx\<lparr>lx_indents := j # is\<rparr>))"
| "close_indents is lx = lx"

definition lex_finish :: "lexer \<Rightarrow> lexer" where
  "lex_finish lx =
     (let lx1 = (if lx_tokens lx = [] \<or> tk_kind (last (lx_tokens lx)) = Newline then lx else emit_token Newline (lx_pos lx) lx);
          lx2 = close_indents (lx_indents lx1) lx1 in
      emit_token Eof (lx_pos lx2) lx2)"

definition tokenize :: "byte list \<Rightarrow> lex_error + token list" where
  "tokenize src =
     (case lex_loop (lexer_new src) of Inl e \<Rightarrow> Inl e | Inr lx \<Rightarrow> Inr (lx_tokens (lex_finish lx)))"

end
