(* ===== verification/Parser_Core.thy ===== *)
theory Parser_Core
  imports Lexer Ast
begin

text \<open>
  The cursor of the parser (\<open>src/src/parser.rs\<close>, the helpers at its end). \<open>struct Parser\<close> is the list of the
  tokens from \<open>pos\<close> on: \<open>pos\<close> moves forward only, apart from the one rewind of \<open>min\<close> and \<open>max\<close>, which
  keeps the older list. A parsing function is a state transformer with early return (\<open>ebind\<close> of \<open>Rust_Prelude\<close>
  is the \<open>?\<close> operator). A message is a constructor with the values it prints; \<open>Message\<close> carries the text of the message,
  with \<open>{}\<close> for its values, without quotation marks and cut before a remark that explains it, and the values. An index out of bounds is
  \<open>ParserPanic\<close>; a loop that is given more rounds than there are tokens is \<open>Diverges\<close>: the source would go on for ever.
\<close>

section \<open>Errors and parsing functions\<close>

datatype (plugins only: size code) msg_arg = MStr string | MInt int | MType vtype

datatype (plugins only: size code) parse_kind =
    Expected token_kind token_kind
  | ExpectedWord string token_kind
  | ExpectedIdent token_kind
  | ExpectedNumber token_kind
  | ExpectedString token_kind
  | ExpectedAttribute string token_kind
  | Message string "msg_arg list"
  | Diverges
  | ParserPanic

record parse_error =
  pe_line :: nat
  pe_col :: nat
  pe_kind :: parse_kind

type_synonym 'a parser = "token list \<Rightarrow> parse_error + 'a \<times> token list"

definition ret :: "'a \<Rightarrow> 'a parser" where
  "ret a ts = Inr (a, ts)"

definition error_at :: "parse_kind \<Rightarrow> token \<Rightarrow> parse_error" where
  "error_at k t = \<lparr>pe_line = tk_line t, pe_col = tk_col t, pe_kind = k\<rparr>"

text \<open>\<open>self.error(..)\<close> on a message that may print the current token; \<open>peek\<close> panics past the end.\<close>

definition refuse :: "(token_kind \<Rightarrow> parse_kind) \<Rightarrow> 'a parser" where
  "refuse f ts =
     (case ts of [] \<Rightarrow> Inl \<lparr>pe_line = 0, pe_col = 0, pe_kind = ParserPanic\<rparr> | t # _ \<Rightarrow> Inl (error_at (f (tk_kind t)) t))"

definition parse_err :: "parse_kind \<Rightarrow> 'a parser" where
  "parse_err k = refuse (\<lambda>_. k)"

abbreviation msg :: "string \<Rightarrow> msg_arg list \<Rightarrow> 'a parser" where
  "msg m vs \<equiv> parse_err (Message m vs)"

section \<open>The cursor\<close>

definition peek_kind :: "token list \<Rightarrow> token_kind option" where
  "peek_kind ts = (case ts of [] \<Rightarrow> None | t # _ \<Rightarrow> Some (tk_kind t))"

text \<open>A step stays on the last token.\<close>

fun cursor_step :: "token list \<Rightarrow> token list" where
  "cursor_step (t # u # ts) = u # ts"
| "cursor_step ts = ts"

definition tok_advance :: "unit parser" where
  "tok_advance ts = Inr ((), cursor_step ts)"

text \<open>A parsing function that looks at the current token first.\<close>

definition pcase :: "(token_kind option \<Rightarrow> 'a parser) \<Rightarrow> 'a parser" where
  "pcase f ts = f (peek_kind ts) ts"

definition pif :: "(token_kind option \<Rightarrow> bool) \<Rightarrow> 'a parser \<Rightarrow> 'a parser \<Rightarrow> 'a parser" where
  "pif c p q = pcase (\<lambda>o'. if c o' then p else q)"

definition check_kind :: "token_kind \<Rightarrow> token_kind option \<Rightarrow> bool" where
  "check_kind k o' \<longleftrightarrow> o' = Some k"

definition check_ident :: "string \<Rightarrow> token_kind option \<Rightarrow> bool" where
  "check_ident n o' \<longleftrightarrow> o' = Some (Ident n)"

text \<open>The condition of the loops over the lines of a block: \<open>!check_kind(Dedent) && !at_eof()\<close>.\<close>

definition in_block :: "token_kind option \<Rightarrow> bool" where
  "in_block o' \<longleftrightarrow> o' \<noteq> Some Dedent \<and> o' \<noteq> Some Eof"

definition expect_kind :: "token_kind \<Rightarrow> unit parser" where
  "expect_kind k = pif (check_kind k) tok_advance (refuse (Expected k))"

definition expect_ident :: "string \<Rightarrow> unit parser" where
  "expect_ident n = pif (check_ident n) tok_advance (refuse (ExpectedWord n))"

definition expect_ident_any :: "string parser" where
  "expect_ident_any = pcase (\<lambda>o'. case o' of
     Some (Ident n) \<Rightarrow> ebind tok_advance (\<lambda>_. ret n) | _ \<Rightarrow> refuse ExpectedIdent)"

definition expect_number :: "int parser" where
  "expect_number = pcase (\<lambda>o'. case o' of
     Some (Number n) \<Rightarrow> ebind tok_advance (\<lambda>_. ret n) | _ \<Rightarrow> refuse ExpectedNumber)"

definition expect_string :: "string parser" where
  "expect_string = pcase (\<lambda>o'. case o' of
     Some (StringLit s) \<Rightarrow> ebind tok_advance (\<lambda>_. ret s) | _ \<Rightarrow> refuse ExpectedString)"

definition expect_attribute :: "string \<Rightarrow> unit parser" where
  "expect_attribute n = pif (\<lambda>o'. o' = Some (Attribute n)) tok_advance (refuse (ExpectedAttribute n))"

text \<open>\<open>map_err(|_| self.error(..))\<close>: the functions it is used on do not move when they fail.\<close>

definition or_refuse :: "'a parser \<Rightarrow> parse_kind \<Rightarrow> 'a parser" where
  "or_refuse p k ts = (case p ts of Inl _ \<Rightarrow> parse_err k ts | Inr r \<Rightarrow> Inr r)"

text \<open>\<open>ok_or_else(|| self.error(..))\<close> on a value that a block has declared or not.\<close>

definition required :: "'a option \<Rightarrow> parse_kind \<Rightarrow> 'a parser" where
  "required v k = (case v of None \<Rightarrow> parse_err k | Some a \<Rightarrow> ret a)"

text \<open>An early return of an error under a condition.\<close>

definition reject_if :: "bool \<Rightarrow> parse_kind \<Rightarrow> unit parser" where
  "reject_if b k = (if b then parse_err k else ret ())"

section \<open>Loops\<close>

text \<open>
  \<open>while c { .. }\<close> where \<open>c\<close> looks at the current token: the body returns the state and whether the loop goes on
  (\<open>break\<close> otherwise). Without a \<open>break\<close> it is \<open>ploop\<close>, without a condition \<open>prepeat\<close>.
\<close>

fun pwhile :: "nat \<Rightarrow> (token_kind option \<Rightarrow> bool) \<Rightarrow> ('s \<Rightarrow> ('s \<times> bool) parser) \<Rightarrow> 's \<Rightarrow> 's parser" where
  "pwhile 0 c f s = parse_err Diverges"
| "pwhile (Suc n) c f s = pif c (ebind (f s) (\<lambda>(s', again). if again then pwhile n c f s' else ret s')) (ret s)"

lemma pwhile_code [code]:
  "pwhile n c f s ts =
     (case n of 0 \<Rightarrow> parse_err Diverges ts
      | Suc m \<Rightarrow> pif c (ebind (f s) (\<lambda>(s', again). if again then pwhile m c f s' else ret s')) (ret s) ts)"
  by (cases n) simp_all

definition ploop :: "nat \<Rightarrow> (token_kind option \<Rightarrow> bool) \<Rightarrow> ('s \<Rightarrow> 's parser) \<Rightarrow> 's \<Rightarrow> 's parser" where
  "ploop n c f = pwhile n c (\<lambda>s. ebind (f s) (\<lambda>s'. ret (s', True)))"

definition prepeat :: "nat \<Rightarrow> ('s \<Rightarrow> ('s \<times> bool) parser) \<Rightarrow> 's \<Rightarrow> 's parser" where
  "prepeat n f = pwhile n (\<lambda>_. True) f"

text \<open>
  \<open>skip_if_separators\<close> and the loop that closes the blocks opened inside a conditional: their only state is the
  count of open blocks. On the last token the cursor stays, so a line break there is skipped for ever.
\<close>

fun skip_if_separators :: "nat \<Rightarrow> nat parser" where
  "skip_if_separators d [] = Inr (d, [])"
| "skip_if_separators d [t] =
     (case tk_kind t of
        Newline \<Rightarrow> parse_err Diverges [t]
      | Indent \<Rightarrow> parse_err Diverges [t]
      | Dedent \<Rightarrow> Inr (0, [t])
      | _ \<Rightarrow> Inr (d, [t]))"
| "skip_if_separators d (t # u # ts) =
     (case tk_kind t of
        Newline \<Rightarrow> skip_if_separators d (u # ts)
      | Indent \<Rightarrow> skip_if_separators (Suc d) (u # ts)
      | Dedent \<Rightarrow> if 0 < d then skip_if_separators (d - 1) (u # ts) else Inr (d, t # u # ts)
      | _ \<Rightarrow> Inr (d, t # u # ts))"

fun close_if_blocks :: "nat \<Rightarrow> unit parser" where
  "close_if_blocks d [] = Inr ((), [])"
| "close_if_blocks d [t] =
     (if d = 0 then Inr ((), [t])
      else case tk_kind t of
        Newline \<Rightarrow> parse_err Diverges [t]
      | _ \<Rightarrow> Inr ((), [t]))"
| "close_if_blocks d (t # u # ts) =
     (if d = 0 then Inr ((), t # u # ts)
      else case tk_kind t of
        Newline \<Rightarrow> close_if_blocks d (u # ts)
      | Dedent \<Rightarrow> close_if_blocks (d - 1) (u # ts)
      | _ \<Rightarrow> Inr ((), t # u # ts))"

end
