(* ===== verification/Parser_Expr.thy ===== *)
theory Parser_Expr
  imports Parser_Core Ast
begin

text \<open>
  The expression grammar of \<open>src/src/parser.rs\<close>, from \<open>parse_expr\<close> down to \<open>parse_primary\<close>. The layers take the
  parsing function of whole expressions as an argument; \<open>parse_expr\<close> ties the knot with fuel for the
  nesting and for the rounds of each loop. The property files show that one more than the number of tokens is enough.
\<close>

section \<open>Argument lists\<close>

text \<open>\<open>args.push(parse_expr()?)\<close>, then one more after each comma, up to the closing parenthesis.\<close>

definition more_args :: "nat \<Rightarrow> expr parser \<Rightarrow> expr list \<Rightarrow> expr list parser" where
  "more_args n pe args =
     ploop n (check_kind Comma) (\<lambda>args. ebind tok_advance (\<lambda>_. ebind pe (\<lambda>e. ret (args @ [e])))) args"

definition call_args :: "nat \<Rightarrow> expr parser \<Rightarrow> expr list parser" where
  "call_args n pe =
     ebind (pif (check_kind RParen) (ret []) (ebind pe (\<lambda>e. more_args n pe [e]))) (\<lambda>args.
     ebind (expect_kind RParen) (\<lambda>_. ret args))"

text \<open>The fields of a record or variant, between the braces; a comma may precede the closing brace.\<close>

definition field_step :: "expr parser \<Rightarrow> (string \<times> expr) list \<Rightarrow> ((string \<times> expr) list \<times> bool) parser" where
  "field_step pe fs =
     ebind expect_ident_any (\<lambda>field_name.
     ebind (expect_kind Colon) (\<lambda>_.
     ebind pe (\<lambda>v.
     pif (check_kind Comma)
       (ebind tok_advance (\<lambda>_. pcase (\<lambda>o'. ret (fs @ [(field_name, v)], \<not> check_kind RBrace o'))))
       (ret (fs @ [(field_name, v)], False)))))"

definition brace_fields :: "nat \<Rightarrow> expr parser \<Rightarrow> (string \<times> expr) list parser" where
  "brace_fields n pe =
     ebind tok_advance (\<lambda>_.
     ebind (pif (check_kind RBrace) (ret []) (prepeat n (field_step pe) [])) (\<lambda>fs.
     ebind (expect_kind RBrace) (\<lambda>_. ret fs)))"

text \<open>The primitives of fixed arity, with their messages; \<open>m\<close> is the text before \<open>got\<close>.\<close>

definition unary_call :: "expr parser \<Rightarrow> string \<Rightarrow> (expr \<Rightarrow> expr) \<Rightarrow> expr parser" where
  "unary_call pe m mk =
     ebind tok_advance (\<lambda>_.
     pif (check_kind RParen) (msg (m @ '', got zero'') [])
       (ebind pe (\<lambda>inner.
        pif (check_kind Comma) (msg (m @ '', got more than one'') [])
          (ebind (expect_kind RParen) (\<lambda>_. ret (mk inner))))))"

definition binary_call :: "expr parser \<Rightarrow> string \<Rightarrow> (expr \<Rightarrow> expr \<Rightarrow> expr) \<Rightarrow> expr parser" where
  "binary_call pe m mk =
     ebind tok_advance (\<lambda>_.
     pif (check_kind RParen) (msg (m @ '', got zero'') [])
       (ebind pe (\<lambda>a.
        pif (\<lambda>o'. \<not> check_kind Comma o') (msg (m @ '', got one'') [])
          (ebind tok_advance (\<lambda>_.
           ebind pe (\<lambda>b.
           pif (check_kind Comma) (msg (m @ '', got more than two'') [])
             (ebind (expect_kind RParen) (\<lambda>_. ret (mk a b)))))))))"

definition substring_call :: "expr parser \<Rightarrow> expr parser" where
  "substring_call pe =
     (let m = ''substring requires exactly three arguments (text, start, end)'' in
      ebind tok_advance (\<lambda>_.
      pif (check_kind RParen) (msg (m @ '', got zero'') [])
        (ebind pe (\<lambda>a.
         pif (\<lambda>o'. \<not> check_kind Comma o') (msg (m @ '', got one'') [])
           (ebind (expect_kind Comma) (\<lambda>_.
            ebind pe (\<lambda>b.
            pif (\<lambda>o'. \<not> check_kind Comma o') (msg (m @ '', got two'') [])
              (ebind (expect_kind Comma) (\<lambda>_.
               ebind pe (\<lambda>c.
               pif (check_kind Comma) (msg (m @ '', got more than three'') [])
                 (ebind (expect_kind RParen) (\<lambda>_. ret (ESubstring a b c)))))))))))))"

section \<open>Primitives with bound names\<close>

text \<open>\<open>name(collection, var => body)\<close>.\<close>

definition lambda_call :: "expr parser \<Rightarrow> (expr \<Rightarrow> string \<Rightarrow> expr \<Rightarrow> expr) \<Rightarrow> expr parser" where
  "lambda_call pe mk =
     ebind tok_advance (\<lambda>_.
     ebind pe (\<lambda>coll.
     ebind (expect_kind Comma) (\<lambda>_.
     ebind expect_ident_any (\<lambda>var.
     ebind (expect_kind FatArrow) (\<lambda>_.
     ebind pe (\<lambda>body.
     ebind (expect_kind RParen) (\<lambda>_. ret (mk coll var body))))))))"

definition fold_call :: "expr parser \<Rightarrow> expr parser" where
  "fold_call pe =
     ebind tok_advance (\<lambda>_.
     ebind pe (\<lambda>coll.
     ebind (expect_kind Comma) (\<lambda>_.
     ebind pe (\<lambda>initial.
     ebind (expect_kind Comma) (\<lambda>_.
     ebind expect_ident_any (\<lambda>acc.
     ebind (expect_kind Comma) (\<lambda>_.
     ebind expect_ident_any (\<lambda>item.
     ebind (expect_kind FatArrow) (\<lambda>_.
     ebind pe (\<lambda>body.
     ebind (expect_kind RParen) (\<lambda>_. ret (EFold coll initial acc item body))))))))))))"

definition fold_bytes_call :: "expr parser \<Rightarrow> expr parser" where
  "fold_bytes_call pe =
     ebind tok_advance (\<lambda>_.
     ebind pe (\<lambda>text.
     ebind (expect_kind Comma) (\<lambda>_.
     ebind pe (\<lambda>initial.
     ebind (expect_kind Comma) (\<lambda>_.
     ebind expect_ident_any (\<lambda>acc.
     ebind (expect_kind Comma) (\<lambda>_.
     ebind expect_ident_any (\<lambda>byte_var.
     ebind (expect_kind Comma) (\<lambda>_.
     ebind expect_ident_any (\<lambda>idx_var.
     ebind (expect_kind FatArrow) (\<lambda>_.
     ebind pe (\<lambda>body.
     ebind (expect_kind RParen) (\<lambda>_. ret (EFoldBytes text initial acc byte_var idx_var body))))))))))))))"

definition match_result_call :: "expr parser \<Rightarrow> expr parser" where
  "match_result_call pe =
     ebind tok_advance (\<lambda>_.
     ebind pe (\<lambda>target.
     ebind (expect_kind Comma) (\<lambda>_.
     ebind expect_ident_any (\<lambda>ok_var.
     ebind (expect_kind FatArrow) (\<lambda>_.
     ebind pe (\<lambda>ok_body.
     ebind (expect_kind Comma) (\<lambda>_.
     ebind expect_ident_any (\<lambda>err_var.
     ebind (expect_kind FatArrow) (\<lambda>_.
     ebind pe (\<lambda>err_body.
     ebind (expect_kind RParen) (\<lambda>_. ret (EMatchResult target ok_var ok_body err_var err_body))))))))))))"

text \<open>
  \<open>sum\<close>, \<open>count\<close>, \<open>min\<close> and \<open>max\<close>: the second argument is parsed as an expression, and once more as the
  bound name of a fold when an arrow follows it (or, for \<open>sum\<close> and \<open>count\<close>, in any case). \<open>rewind\<close> is the
  reset of \<open>self.pos\<close>.
\<close>

definition rewind :: "'a parser \<Rightarrow> ('a \<Rightarrow> token_kind option \<Rightarrow> 'b parser option) \<Rightarrow> 'b parser \<Rightarrow> 'b parser" where
  "rewind p f q ts =
     (case p ts of
        Inl e \<Rightarrow> Inl e
      | Inr (a, ts') \<Rightarrow> (case f a (peek_kind ts') of None \<Rightarrow> q ts | Some p' \<Rightarrow> p' ts'))"

definition reduce_acc :: string where
  "reduce_acc = ''__acc''"

definition reduce_body :: "string \<Rightarrow> expr \<Rightarrow> expr" where
  "reduce_body name body =
     (if name = ''sum'' then EBinary OpAdd (EIdent reduce_acc) body
      else if name = ''count'' then EBinary OpAdd (EIdent reduce_acc) (EIf body (ENumber 1) (ENumber 0))
      else if name = ''min'' then EIf (EBinary OpLt body (EIdent reduce_acc)) body (EIdent reduce_acc)
      else EIf (EBinary OpGt body (EIdent reduce_acc)) body (EIdent reduce_acc))"

definition reduce_initial :: "string \<Rightarrow> expr" where
  "reduce_initial name =
     (if name = ''min'' then ENumber i64_MAX else if name = ''max'' then ENumber i64_MIN else ENumber 0)"

definition reduce_fold :: "expr parser \<Rightarrow> string \<Rightarrow> expr \<Rightarrow> expr parser" where
  "reduce_fold pe name coll =
     ebind expect_ident_any (\<lambda>var.
     ebind (expect_kind FatArrow) (\<lambda>_.
     ebind pe (\<lambda>body.
     ebind (expect_kind RParen) (\<lambda>_. ret (EFold coll (reduce_initial name) reduce_acc var (reduce_body name body))))))"

definition reduce_pair :: "string \<Rightarrow> expr \<Rightarrow> expr \<Rightarrow> token_kind option \<Rightarrow> expr parser option" where
  "reduce_pair name coll second o' =
     (if (name = ''min'' \<or> name = ''max'') \<and> \<not> check_kind FatArrow o'
      then Some (ebind (expect_kind RParen) (\<lambda>_. ret (if name = ''min'' then EMin coll second else EMax coll second)))
      else None)"

definition reduce_call :: "expr parser \<Rightarrow> string \<Rightarrow> expr parser" where
  "reduce_call pe name =
     ebind tok_advance (\<lambda>_.
     ebind pe (\<lambda>coll.
     ebind (expect_kind Comma) (\<lambda>_.
     rewind pe (reduce_pair name coll) (reduce_fold pe name coll))))"

section \<open>Other forms\<close>

definition variant_form :: "nat \<Rightarrow> expr parser \<Rightarrow> string \<Rightarrow> expr parser" where
  "variant_form n pe name =
     ebind tok_advance (\<lambda>_.
     ebind expect_ident_any (\<lambda>variant_name.
     ebind (pif (check_kind LBrace) (brace_fields n pe) (ret [])) (\<lambda>fs. ret (EVariantConstruct name variant_name fs))))"

definition wrap_call :: "expr parser \<Rightarrow> (expr \<Rightarrow> expr) \<Rightarrow> expr parser" where
  "wrap_call pe mk =
     ebind tok_advance (\<lambda>_. ebind pe (\<lambda>inner. ebind (expect_kind RParen) (\<lambda>_. ret (mk inner))))"

definition concat_call :: "nat \<Rightarrow> expr parser \<Rightarrow> expr parser" where
  "concat_call n pe =
     ebind tok_advance (\<lambda>_. ebind (call_args n pe) (\<lambda>args.
     ebind (reject_if (args = []) (Message ''concat() requires at least one argument'' [])) (\<lambda>_. ret (EConcat args))))"

definition name_call :: "(string \<Rightarrow> expr) \<Rightarrow> expr parser" where
  "name_call mk =
     ebind tok_advance (\<lambda>_. ebind expect_ident_any (\<lambda>x. ebind (expect_kind RParen) (\<lambda>_. ret (mk x))))"

definition fetch_call :: "expr parser \<Rightarrow> expr parser" where
  "fetch_call pe =
     ebind tok_advance (\<lambda>_.
     ebind expect_ident_any (\<lambda>connection_name.
     ebind (expect_kind Comma) (\<lambda>_.
     ebind pe (\<lambda>request.
     ebind (expect_kind RParen) (\<lambda>_. ret (EFetch connection_name request))))))"

definition now_unix_call :: "expr parser" where
  "now_unix_call =
     ebind tok_advance (\<lambda>_.
     pif (\<lambda>o'. \<not> check_kind RParen o') (msg ''now_unix takes no arguments'' [])
       (ebind (expect_kind RParen) (\<lambda>_. ret ENowUnix)))"

definition generic_call :: "nat \<Rightarrow> expr parser \<Rightarrow> string \<Rightarrow> expr parser" where
  "generic_call n pe name = ebind tok_advance (\<lambda>_. ebind (call_args n pe) (\<lambda>args. ret (ECall name args)))"

definition field_chain :: "nat \<Rightarrow> string \<Rightarrow> expr parser" where
  "field_chain n name =
     ploop n (check_kind Dot) (\<lambda>e. ebind tok_advance (\<lambda>_. ebind expect_ident_any (\<lambda>f. ret (EField e f)))) (EIdent name)"

text \<open>What follows an identifier: the chain of \<open>if .. else if\<close> of \<open>parse_primary\<close>, in its order.\<close>

definition at_call :: "bool \<Rightarrow> token_kind option \<Rightarrow> bool" where
  "at_call b o' \<longleftrightarrow> b \<and> check_kind LParen o'"

definition bitwise_op :: "string \<Rightarrow> expr \<Rightarrow> expr \<Rightarrow> expr" where
  "bitwise_op name =
     (if name = ''band'' then EBitAnd else if name = ''bor'' then EBitOr else if name = ''bxor'' then EBitXor
      else if name = ''shl'' then EShl else EShr)"

definition bitwise_forms :: "nat \<Rightarrow> expr parser \<Rightarrow> string \<Rightarrow> expr parser" where
  "bitwise_forms n pe name =
     pif (at_call (name = ''abs'')) (unary_call pe ''abs requires exactly one argument'' EAbs)
    (pif (at_call (name = ''le32'' \<or> name = ''le64''))
       (unary_call pe (name @ '' requires exactly one argument'') (if name = ''le64'' then ELe64 else ELe32))
    (pif (at_call (name = ''arena_scope'')) (unary_call pe ''arena_scope requires exactly one argument'' EArenaScope)
    (pif (at_call (name = ''abort_if'')) (unary_call pe ''abort_if requires exactly one argument'' EAbortIf)
    (pif (at_call (name = ''band'' \<or> name = ''bor'' \<or> name = ''bxor'' \<or> name = ''shl'' \<or> name = ''shr''))
       (binary_call pe (name @ '' requires exactly two arguments'') (bitwise_op name))
    (pif (at_call (name = ''bnot'')) (unary_call pe ''bnot requires exactly one argument'' EBitNot)
    (pif (at_call (name = ''match_result'')) (match_result_call pe)
    (pif (check_kind LParen) (generic_call n pe name)
       (field_chain n name))))))))"

definition text_forms :: "nat \<Rightarrow> expr parser \<Rightarrow> string \<Rightarrow> expr parser" where
  "text_forms n pe name =
     pif (check_kind LBrace) (ebind (brace_fields n pe) (\<lambda>fs. ret (ERecord name fs)))
    (pif (at_call (name = ''concat'')) (concat_call n pe)
    (pif (at_call (name = ''read'')) (name_call ERead)
    (pif (at_call (name = ''random'')) (name_call ERandom)
    (pif (at_call (name = ''fetch'')) (fetch_call pe)
    (pif (at_call (name = ''json_escape'')) (unary_call pe ''json_escape requires exactly one argument'' EJsonEscape)
    (pif (at_call (name = ''parse_int'')) (unary_call pe ''parse_int requires exactly one argument'' EParseInt)
    (pif (at_call (name = ''now_unix'')) now_unix_call
    (pif (at_call (name = ''starts_with'')) (binary_call pe ''starts_with requires exactly two arguments'' EStartsWith)
    (pif (at_call (name = ''contains'')) (binary_call pe ''contains requires exactly two arguments'' EContains)
    (pif (at_call (name = ''ends_with'')) (binary_call pe ''ends_with requires exactly two arguments'' EEndsWith)
    (pif (at_call (name = ''length'')) (unary_call pe ''length requires exactly one argument'' ELength)
    (pif (at_call (name = ''substring'')) (substring_call pe)
    (pif (at_call (name = ''byte_at'' \<or> name = ''try_byte_at''))
       (binary_call pe ''byte_at requires exactly two arguments (text, index)'' (if name = ''try_byte_at'' then ETryByteAt else EByteAt))
       (bitwise_forms n pe name))))))))))))))"

definition named_form :: "nat \<Rightarrow> expr parser \<Rightarrow> string \<Rightarrow> expr parser" where
  "named_form n pe name =
     pif (check_kind DoubleColon) (variant_form n pe name)
    (pif (at_call (name = ''sum'' \<or> name = ''count'' \<or> name = ''min'' \<or> name = ''max'')) (reduce_call pe name)
    (pif (at_call (name = ''fold'')) (fold_call pe)
    (pif (at_call (name = ''fold_bytes'')) (fold_bytes_call pe)
    (pif (at_call (name = ''all'' \<or> name = ''any''))
       (lambda_call pe (EQuantifier (if name = ''all'' then QAll else QAny)))
    (pif (at_call (name = ''map'' \<or> name = ''filter'')) (lambda_call pe (if name = ''map'' then EMap else EFilter))
    (pif (at_call (name = ''Ok'' \<or> name = ''Err'')) (wrap_call pe (if name = ''Ok'' then EOk else EErr))
       (text_forms n pe name)))))))"

section \<open>Conditionals and matches\<close>

definition if_form :: "expr parser \<Rightarrow> expr parser" where
  "if_form pe =
     ebind tok_advance (\<lambda>_.
     ebind (skip_if_separators 0) (\<lambda>d1.
     ebind pe (\<lambda>c.
     ebind (skip_if_separators d1) (\<lambda>d2.
     ebind (expect_ident ''then'') (\<lambda>_.
     ebind (skip_if_separators d2) (\<lambda>d3.
     ebind pe (\<lambda>t.
     ebind (skip_if_separators d3) (\<lambda>d4.
     ebind (expect_ident ''else'') (\<lambda>_.
     ebind (skip_if_separators d4) (\<lambda>d5.
     ebind pe (\<lambda>e.
     ebind (close_if_blocks d5) (\<lambda>_. ret (EIf c t e)))))))))))))"

definition binder_of :: "string \<Rightarrow> string option" where
  "binder_of b = (if b = ''_'' then None else Some b)"

definition binder_step :: "string option list \<Rightarrow> (string option list \<times> bool) parser" where
  "binder_step bs =
     ebind expect_ident_any (\<lambda>b.
     pif (check_kind Comma)
       (ebind tok_advance (\<lambda>_. ret (bs @ [binder_of b], True)))
       (ret (bs @ [binder_of b], False)))"

definition parse_binders :: "nat \<Rightarrow> string option list parser" where
  "parse_binders n =
     ebind tok_advance (\<lambda>_.
     ebind (pif (check_kind RParen) (ret []) (prepeat n binder_step [])) (\<lambda>bs.
     ebind (expect_kind RParen) (\<lambda>_. ret bs)))"

definition arm_step :: "nat \<Rightarrow> expr parser \<Rightarrow> expr match_arm list \<Rightarrow> expr match_arm list parser" where
  "arm_step n pe arms =
     pif (check_kind Newline) (ebind tok_advance (\<lambda>_. ret arms))
    (ebind expect_ident_any (\<lambda>variant_name.
     ebind (pif (check_kind LParen) (parse_binders n) (ret [])) (\<lambda>bs.
     ebind (expect_kind FatArrow) (\<lambda>_.
     ebind pe (\<lambda>body.
     ebind (expect_kind Newline) (\<lambda>_. ret (arms @ [MatchArm variant_name bs body])))))))"

definition match_form :: "nat \<Rightarrow> expr parser \<Rightarrow> expr parser" where
  "match_form n pe =
     ebind tok_advance (\<lambda>_.
     ebind pe (\<lambda>scrutinee.
     ebind (expect_kind Colon) (\<lambda>_.
     ebind (expect_kind Newline) (\<lambda>_.
     ebind (expect_kind Indent) (\<lambda>_.
     ebind (ploop n in_block (arm_step n pe) []) (\<lambda>arms.
     ebind (expect_kind Dedent) (\<lambda>_. ret (EMatchVariant scrutinee arms))))))))"

section \<open>Layers of precedence\<close>

definition literal_form :: "nat \<Rightarrow> expr parser \<Rightarrow> token_kind option \<Rightarrow> expr parser" where
  "literal_form n pe o' =
     (case o' of
        Some (BytesLit b) \<Rightarrow> ebind tok_advance (\<lambda>_. ret (EBytes b))
      | Some (StringLit _) \<Rightarrow> ebind expect_string (\<lambda>s. ret (EText s))
      | Some (Number _) \<Rightarrow> ebind expect_number (\<lambda>m. ret (ENumber m))
      | Some (Ident _) \<Rightarrow> ebind expect_ident_any (named_form n pe)
      | _ \<Rightarrow> msg ''expected expression (number or identifier)'' [])"

definition parse_primary :: "nat \<Rightarrow> expr parser \<Rightarrow> expr parser" where
  "parse_primary n pe =
     pif (check_ident ''if'') (if_form pe)
    (pif (check_ident ''match'') (match_form n pe)
    (pif (check_kind LParen)
       (ebind tok_advance (\<lambda>_. ebind pe (\<lambda>e. ebind (expect_kind RParen) (\<lambda>_. ret e))))
       (pcase (literal_form n pe))))"

fun parse_unary :: "nat \<Rightarrow> expr parser \<Rightarrow> expr parser" where
  "parse_unary 0 prim = parse_err Diverges"
| "parse_unary (Suc n) prim =
     pif (check_ident ''not'') (ebind tok_advance (\<lambda>_. ebind (parse_unary n prim) (\<lambda>e. ret (ENot e))))
    (pif (check_kind Minus) (ebind tok_advance (\<lambda>_. ebind (parse_unary n prim) (\<lambda>e. ret (ENeg e))))
       prim)"

definition mul_op :: "token_kind option \<Rightarrow> binop option" where
  "mul_op o' =
     (case o' of Some Star \<Rightarrow> Some OpMul | Some Slash \<Rightarrow> Some OpDiv | Some Percent \<Rightarrow> Some OpMod | _ \<Rightarrow> None)"

definition add_op :: "token_kind option \<Rightarrow> binop option" where
  "add_op o' = (case o' of Some Plus \<Rightarrow> Some OpAdd | Some Minus \<Rightarrow> Some OpSub | _ \<Rightarrow> None)"

definition cmp_op :: "token_kind option \<Rightarrow> binop option" where
  "cmp_op o' =
     (case o' of
        Some EqualEqual \<Rightarrow> Some OpEq | Some NotEqual \<Rightarrow> Some OpNotEq
      | Some Gt \<Rightarrow> Some OpGt | Some Lt \<Rightarrow> Some OpLt | Some GtEq \<Rightarrow> Some OpGtEq | Some LtEq \<Rightarrow> Some OpLtEq
      | _ \<Rightarrow> None)"

definition word_op :: "string \<Rightarrow> binop \<Rightarrow> token_kind option \<Rightarrow> binop option" where
  "word_op w op o' = (if check_ident w o' then Some op else None)"

text \<open>The four left-associative layers are one loop: while an operator follows, it takes one more operand.\<close>

definition left_layer :: "(token_kind option \<Rightarrow> binop option) \<Rightarrow> nat \<Rightarrow> expr parser \<Rightarrow> expr parser" where
  "left_layer op_of n sub =
     ebind sub (ploop n (\<lambda>o'. op_of o' \<noteq> None) (\<lambda>left. pcase (\<lambda>o'.
       ebind tok_advance (\<lambda>_. ebind sub (\<lambda>right. ret (EBinary (the (op_of o')) left right))))))"

definition parse_mul_expr :: "nat \<Rightarrow> expr parser \<Rightarrow> expr parser" where
  "parse_mul_expr n pe = left_layer mul_op n (parse_unary n (parse_primary n pe))"

definition parse_add_expr :: "nat \<Rightarrow> expr parser \<Rightarrow> expr parser" where
  "parse_add_expr n pe = left_layer add_op n (parse_mul_expr n pe)"

definition parse_cmp_expr :: "nat \<Rightarrow> expr parser \<Rightarrow> expr parser" where
  "parse_cmp_expr n pe =
     ebind (parse_add_expr n pe) (\<lambda>left.
     pcase (\<lambda>o'. case cmp_op o' of
        Some op \<Rightarrow> ebind tok_advance (\<lambda>_. ebind (parse_add_expr n pe) (\<lambda>right. ret (EBinary op left right)))
      | None \<Rightarrow> ret left))"

definition parse_and_expr :: "nat \<Rightarrow> expr parser \<Rightarrow> expr parser" where
  "parse_and_expr n pe = left_layer (word_op ''and'' OpAnd) n (parse_cmp_expr n pe)"

definition parse_or_expr :: "nat \<Rightarrow> expr parser \<Rightarrow> expr parser" where
  "parse_or_expr n pe = left_layer (word_op ''or'' OpOr) n (parse_and_expr n pe)"

fun parse_expr :: "nat \<Rightarrow> expr parser" where
  "parse_expr 0 = parse_err Diverges"
| "parse_expr (Suc n) = parse_or_expr (Suc n) (parse_expr n)"

text \<open>The layers evaluated on given tokens only: the code equations wait for the token list.\<close>

lemma expr_code [code]:
  "parse_expr n ts = (case n of 0 \<Rightarrow> parse_err Diverges ts | Suc m \<Rightarrow> parse_or_expr n (parse_expr m) ts)"
  by (cases n) simp_all

lemma unary_code [code]:
  "parse_unary n prim ts =
     (case n of 0 \<Rightarrow> parse_err Diverges ts
      | Suc m \<Rightarrow>
          pif (check_ident ''not'') (ebind tok_advance (\<lambda>_. ebind (parse_unary m prim) (\<lambda>e. ret (ENot e))))
         (pif (check_kind Minus) (ebind tok_advance (\<lambda>_. ebind (parse_unary m prim) (\<lambda>e. ret (ENeg e)))) prim) ts)"
  by (cases n) simp_all

lemma layer_code [code]:
  "parse_or_expr n pe ts = left_layer (word_op ''or'' OpOr) n (parse_and_expr n pe) ts"
  "parse_and_expr n pe ts = left_layer (word_op ''and'' OpAnd) n (parse_cmp_expr n pe) ts"
  "parse_add_expr n pe ts = left_layer add_op n (parse_mul_expr n pe) ts"
  "parse_mul_expr n pe ts = left_layer mul_op n (parse_unary n (parse_primary n pe)) ts"
  by (simp_all only: parse_or_expr_def parse_and_expr_def parse_add_expr_def parse_mul_expr_def)

lemma cmp_code [code]:
  "parse_cmp_expr n pe ts =
     ebind (parse_add_expr n pe) (\<lambda>left. pcase (\<lambda>o'. case cmp_op o' of
        Some op \<Rightarrow> ebind tok_advance (\<lambda>_. ebind (parse_add_expr n pe) (\<lambda>right. ret (EBinary op left right)))
      | None \<Rightarrow> ret left)) ts"
  by (simp only: parse_cmp_expr_def)

lemma primary_code [code]:
  "parse_primary n pe ts =
     pif (check_ident ''if'') (if_form pe)
    (pif (check_ident ''match'') (match_form n pe)
    (pif (check_kind LParen)
       (ebind tok_advance (\<lambda>_. ebind pe (\<lambda>e. ebind (expect_kind RParen) (\<lambda>_. ret e))))
       (pcase (literal_form n pe)))) ts"
  by (simp only: parse_primary_def)

declare parse_expr.simps [simp del] parse_unary.simps [simp del]

end
