(* ===== verification/Parser_Items.thy ===== *)
theory Parser_Items
  imports Parser_Expr Rust_Text
begin

text \<open>
  The declarations of \<open>src/src/parser.rs\<close> (with \<open>parser/execution.rs\<close> and \<open>parser/workload.rs\<close>): a block is a loop over
  its lines that fills the local variables of the source, here a record with one field for each of them. A number that
  has passed its range check is cast to its width (\<open>as u32\<close>); the casts without a check wrap.
\<close>

section \<open>Headers, attributes and types\<close>

definition as_u32 :: "int \<Rightarrow> nat" where
  "as_u32 n = nat (n mod 4294967296)"

definition as_u16 :: "int \<Rightarrow> nat" where
  "as_u16 n = nat (n mod 65536)"

definition peek_attribute_name :: "token_kind option \<Rightarrow> string option" where
  "peek_attribute_name o' = (case o' of Some (Attribute n) \<Rightarrow> Some n | _ \<Rightarrow> None)"

text \<open>The opening line of a declaration, and of a block inside one.\<close>

definition open_item :: "string \<Rightarrow> string parser" where
  "open_item kw =
     ebind (expect_ident kw) (\<lambda>_. ebind expect_ident_any (\<lambda>name.
     ebind (expect_kind Newline) (\<lambda>_. ebind (expect_kind Indent) (\<lambda>_. ret name))))"

definition open_lines :: "unit parser" where
  "open_lines = ebind (expect_kind Colon) (\<lambda>_. ebind (expect_kind Newline) (\<lambda>_. expect_kind Indent))"

definition open_block :: "string \<Rightarrow> unit parser" where
  "open_block kw = ebind (expect_ident kw) (\<lambda>_. open_lines)"

text \<open>\<open>key: value\<close> on the rest of a line whose key is the current token.\<close>

definition keyed :: "'a parser \<Rightarrow> 'a parser" where
  "keyed p = ebind tok_advance (\<lambda>_. ebind (expect_kind Colon) (\<lambda>_. p))"

definition line_end :: "'a \<Rightarrow> 'a parser" where
  "line_end a = ebind (expect_kind Newline) (\<lambda>_. ret a)"

definition keyed_line :: "'a parser \<Rightarrow> 'a parser" where
  "keyed_line p = keyed (ebind p line_end)"

definition parse_signed_number :: "int parser" where
  "parse_signed_number =
     pif (check_kind Minus)
       (ebind tok_advance (\<lambda>_. ebind expect_number (\<lambda>n. if n = i64_MIN then parse_err ParserPanic else ret (- n))))
       expect_number"

fun parse_type :: "nat \<Rightarrow> vtype parser" where
  "parse_type 0 = parse_err Diverges"
| "parse_type (Suc n) =
     ebind expect_ident_any (\<lambda>name.
       if name = ''number'' then ret TNumber
       else if name = ''bool'' then ret TBool
       else if name = ''text'' then ret TText
       else if name = ''bytes'' then ret TBytes
       else if name = ''BoundsError'' then ret TBoundsError
       else if name = ''collection'' then
         ebind (expect_kind LParen) (\<lambda>_. ebind expect_ident_any (\<lambda>inner. ebind (expect_kind RParen) (\<lambda>_. ret (TCollection inner))))
       else if name = ''Result'' then
         ebind (expect_kind LParen) (\<lambda>_. ebind (parse_type n) (\<lambda>t. ebind (expect_kind Comma) (\<lambda>_.
         ebind (parse_type n) (\<lambda>e. ebind (expect_kind RParen) (\<lambda>_. ret (TResult t e))))))
       else ret (TNamed name))"

text \<open>\<open>file.intent:12\<close> or \<open>\"path/file.intent\":12\<close>; \<open>join(\".\")\<close> is written as it is built.\<close>

definition dotted_name :: "nat \<Rightarrow> string parser" where
  "dotted_name n =
     ebind expect_ident_any (\<lambda>first.
     ploop n (check_kind Dot) (\<lambda>s. ebind tok_advance (\<lambda>_. ebind expect_ident_any (\<lambda>part. ret (s @ ''.'' @ part)))) first)"

definition is_string_lit :: "token_kind option \<Rightarrow> bool" where
  "is_string_lit o' \<longleftrightarrow> (case o' of Some (StringLit _) \<Rightarrow> True | _ \<Rightarrow> False)"

definition parse_source_ref :: "nat \<Rightarrow> source_ref parser" where
  "parse_source_ref n =
     ebind (pif is_string_lit expect_string (dotted_name n)) (\<lambda>file.
     ebind (expect_kind Colon) (\<lambda>_.
     ebind expect_number (\<lambda>line. ret \<lparr>src_file = file, src_line = as_u32 line\<rparr>)))"

definition parse_version_directive :: "version parser" where
  "parse_version_directive =
     ebind (expect_attribute ''verbose'') (\<lambda>_.
     ebind expect_number (\<lambda>mj. ebind (expect_kind Dot) (\<lambda>_.
     ebind expect_number (\<lambda>mn. ebind (expect_kind Dot) (\<lambda>_.
     ebind expect_number (\<lambda>pt. ebind (expect_kind Newline) (\<lambda>_.
     ret \<lparr>major = as_u32 mj, minor = as_u32 mn, patch = as_u32 pt\<rparr>)))))))"

text \<open>
  The attributes that every declaration has. Each block lists what it accepts; \<open>attributes\<close> is
  the \<open>match\<close> on the attribute's name with the two common arms and one for all others.
\<close>

definition attributes :: "nat \<Rightarrow> (string \<Rightarrow> 's) \<Rightarrow> (source_ref \<Rightarrow> 's) \<Rightarrow> (string \<Rightarrow> 's parser) \<Rightarrow> string \<Rightarrow> 's parser" where
  "attributes n set_intention set_source other a =
     (if a = ''intention'' then keyed_line (ebind expect_string (\<lambda>s. ret (set_intention s)))
      else if a = ''source'' then keyed_line (ebind (parse_source_ref n) (\<lambda>s. ret (set_source s)))
      else other a)"

definition unknown_attribute :: "string \<Rightarrow> string \<Rightarrow> 's parser" where
  "unknown_attribute block a = msg (''unknown attribute {} in '' @ block) [MStr (''@'' @ a)]"

section \<open>Concepts\<close>

definition parse_range :: "vtype \<Rightarrow> (int \<times> int) option parser" where
  "parse_range ty =
     pif (check_kind LBracket)
       (ebind tok_advance (\<lambda>_.
        pif (check_kind Dot)
          (ebind tok_advance (\<lambda>_. ebind (expect_kind Dot) (\<lambda>_. ebind parse_signed_number (\<lambda>mx. ebind (expect_kind RBracket) (\<lambda>_.
           ebind (reject_if (ty \<noteq> TText \<and> ty \<noteq> TBytes)
             (Message ''[..N] bound syntax is only valid for text or bytes fields; use [min, max] for numbers'' [])) (\<lambda>_.
           ebind (reject_if (mx \<le> 0) (Message ''max-length bound must be positive'' [])) (\<lambda>_. ret (Some (0, mx)))))))))
          (ebind parse_signed_number (\<lambda>mn. ebind (expect_kind Comma) (\<lambda>_.
           ebind parse_signed_number (\<lambda>mx. ebind (expect_kind RBracket) (\<lambda>_. ret (Some (mn, mx)))))))))
       (ret None)"

definition field_line :: "nat \<Rightarrow> field list \<Rightarrow> field list parser" where
  "field_line n fs =
     ebind expect_ident_any (\<lambda>name. ebind (expect_kind Colon) (\<lambda>_. ebind (parse_type n) (\<lambda>ty.
     ebind (parse_range ty) (\<lambda>range. line_end (fs @ [\<lparr>f_name = name, f_ty = ty, f_range = range\<rparr>])))))"

definition parse_fields_block :: "nat \<Rightarrow> field list parser" where
  "parse_fields_block n =
     ebind (open_block ''fields'') (\<lambda>_. ebind (ploop n in_block (field_line n) []) (\<lambda>fs.
     ebind (expect_kind Dedent) (\<lambda>_. ret fs)))"

text \<open>The names already seen are those of the fields, or variants, parsed so far.\<close>

definition payload_step :: "nat \<Rightarrow> string \<Rightarrow> field list \<Rightarrow> (field list \<times> bool) parser" where
  "payload_step n variant_name fs =
     ebind expect_ident_any (\<lambda>fname.
     ebind (reject_if (fname \<in> set (map f_name fs))
       (Message ''duplicate payload field {} in variant {}'' [MStr fname, MStr variant_name])) (\<lambda>_.
     ebind (expect_kind Colon) (\<lambda>_. ebind (parse_type n) (\<lambda>ty.
     let fs' = fs @ [\<lparr>f_name = fname, f_ty = ty, f_range = None\<rparr>] in
     pif (check_kind Comma) (ebind tok_advance (\<lambda>_. ret (fs', True))) (ret (fs', False))))))"

definition variant_payload :: "nat \<Rightarrow> string \<Rightarrow> field list parser" where
  "variant_payload n variant_name =
     pif (check_ident ''of'')
       (ebind tok_advance (\<lambda>_. ebind (expect_kind LParen) (\<lambda>_.
        ebind (pwhile n (\<lambda>o'. \<not> check_kind RParen o') (payload_step n variant_name) []) (\<lambda>fs.
        ebind (expect_kind RParen) (\<lambda>_. ret fs)))))
       (ret [])"

definition variant_line :: "nat \<Rightarrow> variant list \<Rightarrow> variant list parser" where
  "variant_line n vs =
     ebind expect_ident_any (\<lambda>variant_name.
     ebind (reject_if (variant_name \<in> set (map va_name vs))
       (Message ''duplicate variant name {} in variants block'' [MStr variant_name])) (\<lambda>_.
     ebind (variant_payload n variant_name) (\<lambda>fs. line_end (vs @ [\<lparr>va_name = variant_name, va_fields = fs\<rparr>]))))"

definition parse_variants_block :: "nat \<Rightarrow> variant list parser" where
  "parse_variants_block n =
     ebind (open_block ''variants'') (\<lambda>_. ebind (ploop n in_block (variant_line n) []) (\<lambda>vs.
     ebind (expect_kind Dedent) (\<lambda>_.
     ebind (reject_if (vs = []) (Message ''variants block cannot be empty'' [])) (\<lambda>_. ret vs))))"

record concept_parts =
  cp_intention :: "string option"
  cp_source :: "source_ref option"
  cp_fields :: "field list option"
  cp_variants :: "variant list option"

definition concept_line :: "nat \<Rightarrow> concept_parts \<Rightarrow> concept_parts parser" where
  "concept_line n st = pcase (\<lambda>o'. case peek_attribute_name o' of
     Some a \<Rightarrow> attributes n (\<lambda>s. st\<lparr>cp_intention := Some s\<rparr>) (\<lambda>s. st\<lparr>cp_source := Some s\<rparr>) (unknown_attribute ''concept'') a
   | None \<Rightarrow>
       if check_ident ''fields'' o' then ebind (parse_fields_block n) (\<lambda>fs. ret (st\<lparr>cp_fields := Some fs\<rparr>))
       else if check_ident ''variants'' o' then ebind (parse_variants_block n) (\<lambda>vs. ret (st\<lparr>cp_variants := Some vs\<rparr>))
       else msg ''expected attribute, fields:, or variants: in concept body'' [])"

definition concept_shape :: "string \<Rightarrow> concept_parts \<Rightarrow> (field list \<times> variant list) parser" where
  "concept_shape name st = (case (cp_fields st, cp_variants st) of
     (Some fs, None) \<Rightarrow> ret (fs, [])
   | (None, Some vs) \<Rightarrow> ret ([], vs)
   | (Some _, Some _) \<Rightarrow> msg ''concept {} has both fields: and variants: blocks'' [MStr name]
   | (None, None) \<Rightarrow> msg ''concept {} missing fields: or variants: block'' [MStr name])"

definition parse_concept :: "nat \<Rightarrow> concept parser" where
  "parse_concept n =
     ebind (open_item ''concept'') (\<lambda>name.
     ebind (ploop n in_block (concept_line n) \<lparr>cp_intention = None, cp_source = None, cp_fields = None, cp_variants = None\<rparr>) (\<lambda>st.
     ebind (expect_kind Dedent) (\<lambda>_.
     ebind (required (cp_intention st) (Message ''concept {} missing @intention'' [MStr name])) (\<lambda>intention.
     ebind (required (cp_source st) (Message ''concept {} missing @source'' [MStr name])) (\<lambda>source.
     ebind (concept_shape name st) (\<lambda>(fs, vs).
     ret \<lparr>c_name = name, c_intention = intention, c_source = source, c_fields = fs, c_variants = vs\<rparr>))))))"

text \<open>The bounds in the header of a group.\<close>

definition group_bound :: "string \<Rightarrow> string \<Rightarrow> nat parser" where
  "group_bound name key =
     ebind (expect_ident key) (\<lambda>_. ebind (expect_kind Colon) (\<lambda>_. ebind expect_number (\<lambda>raw.
     ebind (reject_if (raw < 0) (Message ''concept_group {} {} must be non-negative, got {}'' [MStr name, MStr key, MInt raw])) (\<lambda>_.
     ebind (reject_if (4294967295 < raw) (Message ''concept_group {} {} {} exceeds u32 range'' [MStr name, MStr key, MInt raw])) (\<lambda>_.
     ret (as_u32 raw))))))"

record group_parts =
  gp_intention :: "string option"
  gp_source :: "source_ref option"
  gp_concepts :: "concept list"

definition group_line :: "nat \<Rightarrow> group_parts \<Rightarrow> group_parts parser" where
  "group_line n st = pcase (\<lambda>o'. case peek_attribute_name o' of
     Some a \<Rightarrow> attributes n (\<lambda>s. st\<lparr>gp_intention := Some s\<rparr>) (\<lambda>s. st\<lparr>gp_source := Some s\<rparr>) (unknown_attribute ''concept_group'') a
   | None \<Rightarrow>
       if check_ident ''concept'' o' then ebind (parse_concept n) (\<lambda>c. ret (st\<lparr>gp_concepts := gp_concepts st @ [c]\<rparr>))
       else msg ''expected attribute or concept block in concept_group body'' [])"

definition parse_concept_group :: "nat \<Rightarrow> concept_group parser" where
  "parse_concept_group n =
     ebind (expect_ident ''concept_group'') (\<lambda>_. ebind expect_ident_any (\<lambda>name.
     ebind (expect_kind LBracket) (\<lambda>_. ebind (group_bound name ''max_depth'') (\<lambda>depth.
     ebind (expect_kind Comma) (\<lambda>_. ebind (group_bound name ''max_nodes'') (\<lambda>nodes.
     ebind (expect_kind RBracket) (\<lambda>_. ebind (expect_kind Newline) (\<lambda>_. ebind (expect_kind Indent) (\<lambda>_.
     ebind (ploop n in_block (group_line n) \<lparr>gp_intention = None, gp_source = None, gp_concepts = []\<rparr>) (\<lambda>st.
     ebind (expect_kind Dedent) (\<lambda>_.
     ebind (required (gp_intention st) (Message ''concept_group {} missing @intention'' [MStr name])) (\<lambda>intention.
     ebind (required (gp_source st) (Message ''concept_group {} missing @source'' [MStr name])) (\<lambda>source.
     ebind (reject_if (gp_concepts st = []) (Message ''concept_group {} is empty'' [MStr name])) (\<lambda>_.
     ret \<lparr>g_name = name, g_intention = intention, g_source = source, g_max_depth = depth, g_max_nodes = nodes,
       g_concepts = gp_concepts st\<rparr>))))))))))))))"

section \<open>Rules\<close>

definition parse_binding_block :: "nat \<Rightarrow> string \<Rightarrow> (string \<times> vtype) parser" where
  "parse_binding_block n keyword =
     ebind (open_block keyword) (\<lambda>_. ebind expect_ident_any (\<lambda>name. ebind (expect_kind Colon) (\<lambda>_.
     ebind (parse_type n) (\<lambda>ty. ebind (expect_kind Newline) (\<lambda>_. ebind (expect_kind Dedent) (\<lambda>_. ret (name, ty)))))))"

definition let_line :: "nat \<Rightarrow> (string \<times> expr) list \<Rightarrow> (string \<times> expr) list parser" where
  "let_line n bindings =
     ebind tok_advance (\<lambda>_. ebind expect_ident_any (\<lambda>name. ebind (expect_kind Equal) (\<lambda>_.
     ebind (parse_expr n) (\<lambda>v. line_end (bindings @ [(name, v)])))))"

definition parse_logic_block :: "nat \<Rightarrow> logic_stmt parser" where
  "parse_logic_block n =
     ebind (open_block ''logic'') (\<lambda>_.
     ebind (ploop n (check_ident ''let'') (let_line n) []) (\<lambda>bindings.
     ebind expect_ident_any (\<lambda>target. ebind (expect_kind Equal) (\<lambda>_. ebind (parse_expr n) (\<lambda>v.
     ebind (pif (check_kind Newline) tok_advance (ret ())) (\<lambda>_. ebind (expect_kind Dedent) (\<lambda>_.
     ret \<lparr>l_bindings = bindings, l_target = target, l_value = v\<rparr>)))))))"

definition path_step :: "string list \<Rightarrow> string list parser" where
  "path_step segs = ebind tok_advance (\<lambda>_. ebind expect_ident_any (\<lambda>seg. ret (segs @ [seg])))"

definition parse_path :: "nat \<Rightarrow> path parser" where
  "parse_path n =
     ebind expect_ident_any (\<lambda>first.
     ebind (ploop n (\<lambda>o'. check_kind Dot o' \<or> check_kind DoubleColon o') path_step [first]) (\<lambda>segs. ret \<lparr>segments = segs\<rparr>))"

definition parse_path_list :: "nat \<Rightarrow> path list parser" where
  "parse_path_list n =
     ebind (expect_kind LBracket) (\<lambda>_.
     ebind (pif (check_kind RBracket) (ret [])
       (ebind (parse_path n) (\<lambda>p.
        ploop n (check_kind Comma) (\<lambda>out. ebind tok_advance (\<lambda>_. ebind (parse_path n) (\<lambda>p. ret (out @ [p])))) [p]))) (\<lambda>out.
     ebind (expect_kind RBracket) (\<lambda>_. ret out)))"

record purity_parts =
  pu_reads :: "path list option"
  pu_calls :: "path list option"

definition purity_line :: "nat \<Rightarrow> purity_parts \<Rightarrow> purity_parts parser" where
  "purity_line n st =
     ebind expect_ident_any (\<lambda>key. ebind (expect_kind Colon) (\<lambda>_.
     ebind
       (if key = ''reads'' then ebind (parse_path_list n) (\<lambda>ps. ret (st\<lparr>pu_reads := Some ps\<rparr>))
        else if key = ''calls'' then ebind (parse_path_list n) (\<lambda>ps. ret (st\<lparr>pu_calls := Some ps\<rparr>))
        else msg ''unknown key {} in purity block (allowed: reads, calls)'' [MStr key]) line_end))"

definition parse_purity_block :: "nat \<Rightarrow> purity parser" where
  "parse_purity_block n =
     ebind (open_block ''purity'') (\<lambda>_. ebind (ploop n in_block (purity_line n) \<lparr>pu_reads = None, pu_calls = None\<rparr>) (\<lambda>st.
     ebind (expect_kind Dedent) (\<lambda>_.
     ebind (required (pu_reads st) (Message ''purity missing reads'' [])) (\<lambda>rs.
     ebind (required (pu_calls st) (Message ''purity missing calls'' [])) (\<lambda>cs. ret \<lparr>reads = rs, calls_decl = cs\<rparr>)))))"

definition termination_line :: "termination_decl \<Rightarrow> termination_decl parser" where
  "termination_line st =
     ebind expect_ident_any (\<lambda>key. ebind (expect_kind Colon) (\<lambda>_.
     ebind
       (if key = ''bound'' then ebind expect_number (\<lambda>b. ret (st\<lparr>t_bound := Some b\<rparr>))
        else if key = ''structural'' then ebind expect_ident_any (\<lambda>x. ret (st\<lparr>t_structural := Some x\<rparr>))
        else if key = ''decreasing'' then ebind expect_ident_any (\<lambda>x. ret (st\<lparr>t_decreasing := Some x\<rparr>))
        else if key = ''increasing'' then ebind expect_ident_any (\<lambda>x. ret (st\<lparr>t_increasing := Some x\<rparr>))
        else msg ''unknown key {} in termination block (allowed: bound, structural, decreasing, increasing)'' [MStr key]) line_end))"

definition parse_termination_block :: "nat \<Rightarrow> termination_decl parser" where
  "parse_termination_block n =
     ebind (open_block ''termination'') (\<lambda>_.
     ebind (ploop n in_block termination_line \<lparr>t_bound = None, t_structural = None, t_decreasing = None, t_increasing = None\<rparr>) (\<lambda>st.
     ebind (expect_kind Dedent) (\<lambda>_. ret st)))"

record proofs_parts =
  pp_purity :: "purity option"
  pp_termination :: "termination_decl option"
  pp_native_stack :: "nat option"

text \<open>A number in a declared range, cast to \<open>u32\<close>.\<close>

definition number_in :: "int \<Rightarrow> int \<Rightarrow> (int \<Rightarrow> parse_kind) \<Rightarrow> nat parser" where
  "number_in lo hi k =
     ebind expect_number (\<lambda>m. ebind (reject_if (\<not> (lo \<le> m \<and> m \<le> hi)) (k m)) (\<lambda>_. ret (as_u32 m)))"

definition proofs_line :: "nat \<Rightarrow> proofs_parts \<Rightarrow> proofs_parts parser" where
  "proofs_line n st = pcase (\<lambda>o'.
     if check_ident ''purity'' o' then ebind (parse_purity_block n) (\<lambda>p. ret (st\<lparr>pp_purity := Some p\<rparr>))
     else if check_ident ''termination'' o' then ebind (parse_termination_block n) (\<lambda>t. ret (st\<lparr>pp_termination := Some t\<rparr>))
     else if check_ident ''native_stack'' o' then
       ebind (reject_if (pp_native_stack st \<noteq> None) (Message ''duplicate proofs.native_stack declaration'' [])) (\<lambda>_.
       keyed_line (ebind (number_in 1 2097152 (\<lambda>_. Message ''proofs.native_stack must be in [1, 2097152] bytes'' []))
         (\<lambda>b. ret (st\<lparr>pp_native_stack := Some b\<rparr>))))
     else msg ''expected purity, termination or native_stack in proofs block'' [])"

definition parse_proofs_block :: "nat \<Rightarrow> proofs parser" where
  "parse_proofs_block n =
     ebind (open_block ''proofs'') (\<lambda>_.
     ebind (ploop n in_block (proofs_line n) \<lparr>pp_purity = None, pp_termination = None, pp_native_stack = None\<rparr>) (\<lambda>st.
     ebind (expect_kind Dedent) (\<lambda>_.
     ebind (required (pp_purity st) (Message ''proofs missing purity'' [])) (\<lambda>p.
     ebind (required (pp_termination st) (Message ''proofs missing termination'' [])) (\<lambda>t.
     ret \<lparr>pr_purity = p, pr_termination = t, pr_native_stack = pp_native_stack st\<rparr>)))))"

text \<open>A hint other than \<open>overflow\<close> carries a reason, which is read and checked before the hint's name is.\<close>

definition overflow_hint_value :: "overflow_hint parser" where
  "overflow_hint_value =
     ebind (expect_kind LBracket) (\<lambda>_. ebind parse_signed_number (\<lambda>mn. ebind (expect_kind Comma) (\<lambda>_.
     ebind parse_signed_number (\<lambda>mx. ebind (expect_kind RBracket) (\<lambda>_. ret \<lparr>o_min = mn, o_max = mx\<rparr>)))))"

definition hint_line :: "hints \<Rightarrow> hints parser" where
  "hint_line st =
     ebind expect_ident_any (\<lambda>key. ebind (expect_kind Colon) (\<lambda>_.
     ebind
       (if key = ''overflow'' then ebind overflow_hint_value (\<lambda>h. ret (st\<lparr>h_overflow := Some h\<rparr>))
        else ebind (or_refuse expect_string (Message ''hint {} requires a string justification'' [MStr key])) (\<lambda>reason.
             ebind (reject_if (trim reason = []) (Message ''hint {} justification must not be empty'' [MStr key])) (\<lambda>_.
             if key = ''vectorizable'' then ret (st\<lparr>h_vectorizable := Some reason\<rparr>)
             else if key = ''parallel'' then ret (st\<lparr>h_parallel := Some reason\<rparr>)
             else if key = ''cache_result'' then ret (st\<lparr>h_cache_result := Some reason\<rparr>)
             else msg ''unknown hint {} (allowed: vectorizable, parallel, cache_result, overflow)'' [MStr key]))) line_end))"

definition parse_hints_block :: "nat \<Rightarrow> hints parser" where
  "parse_hints_block n =
     ebind (open_block ''hints'') (\<lambda>_.
     ebind (ploop n in_block hint_line \<lparr>h_vectorizable = None, h_parallel = None, h_cache_result = None, h_overflow = None\<rparr>) (\<lambda>st.
     ebind (expect_kind Dedent) (\<lambda>_. ret st)))"

record rule_parts =
  rp_intention :: "string option"
  rp_source :: "source_ref option"
  rp_input :: "(string \<times> vtype) option"
  rp_context :: "(string \<times> vtype) option"
  rp_output :: "(string \<times> vtype) option"
  rp_output_text_max :: "nat option"
  rp_logic :: "logic_stmt option"
  rp_proofs :: "proofs option"
  rp_hints :: "hints option"
  rp_layer :: "layer option"

definition rule_parts_new :: rule_parts where
  "rule_parts_new = \<lparr>rp_intention = None, rp_source = None, rp_input = None, rp_context = None, rp_output = None,
     rp_output_text_max = None, rp_logic = None, rp_proofs = None, rp_hints = None, rp_layer = None\<rparr>"

definition layer_named :: "string \<Rightarrow> layer option" where
  "layer_named x =
     (if x = ''domain'' then Some Domain else if x = ''application'' then Some Application
      else if x = ''interface'' then Some Interface else None)"

definition rule_attribute :: "rule_parts \<Rightarrow> string \<Rightarrow> rule_parts parser" where
  "rule_attribute st a =
     (if a = ''layer'' then
        keyed (ebind expect_ident_any (\<lambda>x.
          ebind (required (layer_named x) (Message ''unknown layer {} (allowed: domain, application, interface)'' [MStr x])) (\<lambda>l.
          line_end (st\<lparr>rp_layer := Some l\<rparr>))))
      else unknown_attribute ''rule'' a)"

definition output_bound :: "rule_parts \<Rightarrow> vtype \<Rightarrow> rule_parts parser" where
  "output_bound st ty =
     pif (check_kind LBracket)
       (ebind (reject_if (ty \<noteq> TText) (Message ''bounded output requires text [..N]'' [])) (\<lambda>_.
        ebind tok_advance (\<lambda>_. ebind (expect_kind Dot) (\<lambda>_. ebind (expect_kind Dot) (\<lambda>_.
        ebind parse_signed_number (\<lambda>mx. ebind (expect_kind RBracket) (\<lambda>_.
        ebind (reject_if (\<not> (0 \<le> mx \<and> mx \<le> 1048576)) (Message ''text output bound must be between 0 and 1048576 bytes'' [])) (\<lambda>_.
        ret (st\<lparr>rp_output_text_max := Some (as_u32 mx)\<rparr>)))))))))
       (ret st)"

definition output_block :: "nat \<Rightarrow> rule_parts \<Rightarrow> rule_parts parser" where
  "output_block n st =
     ebind (reject_if (rp_output st \<noteq> None) (Message ''duplicate output block'' [])) (\<lambda>_.
     ebind (open_block ''output'') (\<lambda>_. ebind expect_ident_any (\<lambda>name. ebind (expect_kind Colon) (\<lambda>_.
     ebind (parse_type n) (\<lambda>ty. ebind (output_bound st ty) (\<lambda>st'.
     ebind (expect_kind Newline) (\<lambda>_. ebind (expect_kind Dedent) (\<lambda>_. ret (st'\<lparr>rp_output := Some (name, ty)\<rparr>)))))))))"

definition rule_line :: "nat \<Rightarrow> rule_parts \<Rightarrow> rule_parts parser" where
  "rule_line n st = pcase (\<lambda>o'. case peek_attribute_name o' of
     Some a \<Rightarrow> attributes n (\<lambda>s. st\<lparr>rp_intention := Some s\<rparr>) (\<lambda>s. st\<lparr>rp_source := Some s\<rparr>) (rule_attribute st) a
   | None \<Rightarrow>
       if check_ident ''context'' o' then ebind (parse_binding_block n ''context'') (\<lambda>b. ret (st\<lparr>rp_context := Some b\<rparr>))
       else if check_ident ''input'' o' then ebind (parse_binding_block n ''input'') (\<lambda>b. ret (st\<lparr>rp_input := Some b\<rparr>))
       else if check_ident ''output'' o' then output_block n st
       else if check_ident ''logic'' o' then ebind (parse_logic_block n) (\<lambda>l. ret (st\<lparr>rp_logic := Some l\<rparr>))
       else if check_ident ''proofs'' o' then
         ebind (reject_if (rp_proofs st \<noteq> None) (Message ''duplicate proofs block'' [])) (\<lambda>_.
         ebind (parse_proofs_block n) (\<lambda>p. ret (st\<lparr>rp_proofs := Some p\<rparr>)))
       else if check_ident ''hints'' o' then ebind (parse_hints_block n) (\<lambda>h. ret (st\<lparr>rp_hints := Some h\<rparr>))
       else msg ''expected attribute or section in rule body'' [])"

definition parse_rule :: "nat \<Rightarrow> rule parser" where
  "parse_rule n =
     ebind (open_item ''rule'') (\<lambda>name. ebind (ploop n in_block (rule_line n) rule_parts_new) (\<lambda>st.
     ebind (expect_kind Dedent) (\<lambda>_.
     ebind (required (rp_intention st) (Message ''rule {} missing @intention'' [MStr name])) (\<lambda>intention.
     ebind (required (rp_source st) (Message ''rule {} missing @source'' [MStr name])) (\<lambda>source.
     ebind (required (rp_input st) (Message ''rule {} missing input block'' [MStr name])) (\<lambda>(input_name, input_ty).
     ebind (required (rp_output st) (Message ''rule {} missing output block'' [MStr name])) (\<lambda>(output_name, output_ty).
     ebind (required (rp_logic st) (Message ''rule {} missing logic block'' [MStr name])) (\<lambda>logic.
     ebind (required (rp_proofs st) (Message ''rule {} missing proofs block'' [MStr name])) (\<lambda>prf.
     ret \<lparr>r_name = name, r_intention = intention, r_source = source, r_input_name = input_name, r_input_ty = input_ty,
       r_output_name = output_name, r_output_ty = output_ty, r_output_text_max = rp_output_text_max st,
       r_logic = logic, r_proofs = prf, r_hints = rp_hints st, r_layer = rp_layer st,
       r_context_name = map_option fst (rp_context st), r_context_ty = map_option snd (rp_context st)\<rparr>)))))))))"

end
