(* ===== verification/Parser_Services.thy ===== *)
theory Parser_Services
  imports Parser_Items
begin

text \<open>
  Reactions, services, resources, connections, entropy sources and executions of \<open>src/src/parser.rs\<close>,
  \<open>parser/execution.rs\<close> and \<open>parser/workload.rs\<close>, and the program as a whole. The local variables of each
  function of the source are one record again.
\<close>

section \<open>Reactions\<close>

definition append_file_to :: "nat \<Rightarrow> string \<Rightarrow> (string \<times> expr) parser" where
  "append_file_to n remark =
     ebind (or_refuse expect_string (Message remark [])) (\<lambda>path. ebind (parse_expr n) (\<lambda>content. ret (path, content)))"

definition print_args :: "nat \<Rightarrow> expr list parser" where
  "print_args n =
     ploop n (\<lambda>o'. \<not> check_kind Newline o' \<and> o' \<noteq> Some Eof) (\<lambda>args. ebind (parse_expr n) (\<lambda>e. ret (args @ [e]))) []"

definition effect_line :: "nat \<Rightarrow> effect list \<Rightarrow> effect list parser" where
  "effect_line n effs =
     ebind expect_ident_any (\<lambda>kind_name.
     ebind
       (if kind_name = ''print'' then ebind (print_args n) (\<lambda>args. ret (Print args))
        else if kind_name = ''append_file'' then
          ebind (append_file_to n ''append_file requires a string literal path'') (\<lambda>(path, content). ret (AppendFile path content))
        else msg ''unknown effect {} (allowed: print, append_file)'' [MStr kind_name]) (\<lambda>eff.
     line_end (effs @ [eff])))"

record reaction_parts =
  xr_intention :: "string option"
  xr_source :: "source_ref option"
  xr_trigger :: "string option"
  xr_effects :: "effect list"

definition reaction_line :: "nat \<Rightarrow> reaction_parts \<Rightarrow> reaction_parts parser" where
  "reaction_line n st = pcase (\<lambda>o'. case peek_attribute_name o' of
     Some a \<Rightarrow> attributes n (\<lambda>s. st\<lparr>xr_intention := Some s\<rparr>) (\<lambda>s. st\<lparr>xr_source := Some s\<rparr>) (unknown_attribute ''reaction'') a
   | None \<Rightarrow>
       if check_ident ''trigger'' o' then keyed_line (ebind expect_ident_any (\<lambda>x. ret (st\<lparr>xr_trigger := Some x\<rparr>)))
       else if check_ident ''effects'' o' then
         ebind tok_advance (\<lambda>_. ebind open_lines (\<lambda>_.
         ebind (ploop n in_block (effect_line n) (xr_effects st)) (\<lambda>effs.
         ebind (expect_kind Dedent) (\<lambda>_. ret (st\<lparr>xr_effects := effs\<rparr>)))))
       else msg ''expected attribute, trigger:, or effects: in reaction'' [])"

definition parse_reaction :: "nat \<Rightarrow> reaction parser" where
  "parse_reaction n =
     ebind (open_item ''reaction'') (\<lambda>name.
     ebind (ploop n in_block (reaction_line n) \<lparr>xr_intention = None, xr_source = None, xr_trigger = None, xr_effects = []\<rparr>) (\<lambda>st.
     ebind (expect_kind Dedent) (\<lambda>_.
     ebind (required (xr_intention st) (Message ''reaction missing @intention'' [])) (\<lambda>intention.
     ebind (required (xr_source st) (Message ''reaction missing @source'' [])) (\<lambda>source.
     ebind (required (xr_trigger st) (Message ''reaction missing trigger'' [])) (\<lambda>trigger.
     ret \<lparr>rx_name = name, rx_intention = intention, rx_source = source, rx_trigger = trigger, rx_effects = xr_effects st\<rparr>))))))"

section \<open>Services\<close>

record service_parts =
  sp_intention :: "string option"
  sp_source :: "source_ref option"
  sp_protocol :: "protocol option"
  sp_port :: "nat option"
  sp_max_request :: "nat option"
  sp_handler :: "string option"
  sp_logs :: "log_block list"
  sp_concurrency :: concurrency_mode
  sp_state_fields :: "state_field list"
  sp_after_sets :: "state_set list"
  sp_max_steps :: "nat option"
  sp_read_timeout :: "nat option"
  sp_request_timeout :: "nat option"
  sp_response_timeout :: "nat option"
  sp_max_connections :: "nat option"
  sp_workers :: "nat option"
  sp_shutdown_timeout :: "nat option"
  sp_native_stack :: "nat option"
  sp_saw_concurrency :: bool

definition service_parts_new :: service_parts where
  "service_parts_new = \<lparr>sp_intention = None, sp_source = None, sp_protocol = None, sp_port = None, sp_max_request = None,
     sp_handler = None, sp_logs = [], sp_concurrency = Sequential, sp_state_fields = [], sp_after_sets = [], sp_max_steps = None,
     sp_read_timeout = None, sp_request_timeout = None, sp_response_timeout = None, sp_max_connections = None, sp_workers = None,
     sp_shutdown_timeout = None, sp_native_stack = None, sp_saw_concurrency = False\<rparr>"

text \<open>A positive number that fits \<open>u32\<close>; \<open>what\<close> opens both messages.\<close>

definition positive_u32 :: "string \<Rightarrow> nat parser" where
  "positive_u32 what =
     ebind expect_number (\<lambda>m.
     ebind (reject_if (m \<le> 0) (Message (what @ '' must be positive, got {}'') [MInt m])) (\<lambda>_.
     ebind (reject_if (4294967295 < m) (Message (what @ '' {} exceeds u32 range'') [MInt m])) (\<lambda>_. ret (as_u32 m))))"

definition port_number :: "string \<Rightarrow> nat parser" where
  "port_number m =
     ebind expect_number (\<lambda>p. ebind (reject_if (\<not> (1 \<le> p \<and> p \<le> 65535)) (Message m [MInt p])) (\<lambda>_. ret (as_u16 p)))"

definition protocol_named :: "string \<Rightarrow> protocol option" where
  "protocol_named x = (if x = ''raw_tcp'' then Some RawTcp else if x = ''http_1_0'' then Some Http10 else None)"

definition listen_line :: "service_parts \<Rightarrow> service_parts parser" where
  "listen_line st =
     ebind expect_ident_any (\<lambda>key. ebind (expect_kind Colon) (\<lambda>_.
     ebind
       (if key = ''protocol'' then
          ebind expect_ident_any (\<lambda>x.
          ebind (required (protocol_named x) (Message ''unknown protocol {} (allowed: raw_tcp, http_1_0)'' [MStr x])) (\<lambda>pr.
          ret (st\<lparr>sp_protocol := Some pr\<rparr>)))
        else if key = ''port'' then
          ebind (port_number ''port {} out of range [1, 65535]'') (\<lambda>p. ret (st\<lparr>sp_port := Some p\<rparr>))
        else if key = ''max_request'' then
          ebind (positive_u32 ''max_request'') (\<lambda>m. ret (st\<lparr>sp_max_request := Some m\<rparr>))
        else msg ''unknown key {} in listen block (allowed: protocol, port, max_request)'' [MStr key]) line_end))"

definition policy_named :: "string \<Rightarrow> error_policy option" where
  "policy_named x = (if x = ''drop'' then Some Drop else if x = ''abort'' then Some Abort else None)"

definition log_policy :: "error_policy parser" where
  "log_policy =
     pif (check_ident ''on_error'')
       (keyed (ebind expect_ident_any (\<lambda>x.
        ebind (required (policy_named x) (Message ''unknown on_error policy {} (allowed: drop, abort)'' [MStr x])) line_end)))
       (ret Drop)"

definition log_lines :: "nat \<Rightarrow> log_block parser" where
  "log_lines n =
     ebind tok_advance (\<lambda>_. ebind open_lines (\<lambda>_. ebind expect_ident_any (\<lambda>kind_name.
     ebind (reject_if (kind_name \<noteq> ''append_file'')
       (Message ''Phase 8 slice 8a: only append_file is accepted in service log blocks; got {}'' [MStr kind_name])) (\<lambda>_.
     ebind (append_file_to n ''append_file requires a string literal path'') (\<lambda>(path, content).
     ebind (expect_kind Newline) (\<lambda>_. ebind log_policy (\<lambda>on_error. ebind (expect_kind Dedent) (\<lambda>_.
     ret \<lparr>lb_effect = AppendFile path content, lb_on_error = on_error\<rparr>))))))))"

definition concurrency_named :: "string \<Rightarrow> concurrency_mode option" where
  "concurrency_named x =
     (if x = ''sequential'' then Some Sequential else if x = ''forked'' then Some Forked
      else if x = ''pooled'' then Some Pooled else None)"

definition concurrency_value :: "service_parts \<Rightarrow> service_parts parser" where
  "concurrency_value st =
     ebind expect_ident_any (\<lambda>x.
     ebind (reject_if (sp_saw_concurrency st \<and> (sp_concurrency st = Pooled \<or> x = ''pooled''))
       (Message ''duplicate service attribute concurrency with pooled workers'' [])) (\<lambda>_.
     ebind (required (concurrency_named x) (Message ''unknown concurrency mode {} (allowed: sequential, forked, pooled)'' [MStr x])) (\<lambda>c.
     ret (st\<lparr>sp_saw_concurrency := True, sp_concurrency := c\<rparr>))))"

text \<open>A line of the \<open>state:\<close> block: \<open>n : number = -1\<close> or \<open>s : text [..64] = \"\"\<close>.\<close>

definition state_bound :: "int option parser" where
  "state_bound =
     pif (check_kind LBracket)
       (ebind tok_advance (\<lambda>_. ebind (expect_kind Dot) (\<lambda>_. ebind (expect_kind Dot) (\<lambda>_.
        ebind parse_signed_number (\<lambda>m. ebind (expect_kind RBracket) (\<lambda>_. ret (Some m)))))))
       (ret None)"

definition state_init :: "string \<Rightarrow> vtype \<Rightarrow> int option \<Rightarrow> state_field parser" where
  "state_init fname ty max_bytes =
     (case ty of
        TNumber \<Rightarrow>
          ebind (reject_if (max_bytes \<noteq> None) (Message ''state field {}: the [..N] bound is a byte-length bound'' [MStr fname])) (\<lambda>_.
          ebind (expect_kind Equal) (\<lambda>_. ebind parse_signed_number (\<lambda>v.
          ret \<lparr>sf_name = fname, sf_ty = TNumber, sf_max_bytes = None, sf_init = InitNumber v\<rparr>)))
      | TText \<Rightarrow>
          ebind (required max_bytes (Message ''state field {}: a text state field must declare a maximum byte length'' [MStr fname])) (\<lambda>m.
          ebind (expect_kind Equal) (\<lambda>_.
          pif (\<lambda>o'. \<not> is_string_lit o') (msg ''state field {}: the initial value must be a text literal'' [MStr fname])
            (ebind expect_string (\<lambda>s.
             ret \<lparr>sf_name = fname, sf_ty = TText, sf_max_bytes = Some m, sf_init = InitText s\<rparr>))))
      | TBytes \<Rightarrow> msg ''state field {}: bytes state is deferred'' [MStr fname]
      | _ \<Rightarrow> msg ''state field {}: only number and text are supported; got {}'' [MStr fname, MType ty])"

definition state_line :: "nat \<Rightarrow> state_field list \<Rightarrow> state_field list parser" where
  "state_line n fs =
     ebind expect_ident_any (\<lambda>fname. ebind (expect_kind Colon) (\<lambda>_. ebind (parse_type n) (\<lambda>ty.
     ebind state_bound (\<lambda>mb. ebind (state_init fname ty mb) (\<lambda>f. line_end (fs @ [f]))))))"

definition after_line :: "nat \<Rightarrow> state_set list \<Rightarrow> state_set list parser" where
  "after_line n sets =
     pif (\<lambda>o'. \<not> check_ident ''set'' o') (msg ''expected set <field> = <expr> in after block'' [])
       (ebind tok_advance (\<lambda>_. ebind expect_ident_any (\<lambda>f. ebind (expect_kind Equal) (\<lambda>_. ebind (parse_expr n) (\<lambda>v.
        line_end (sets @ [\<lparr>ss_field_name = f, ss_value = v\<rparr>]))))))"

text \<open>The lines of a block inside the service, and a number that may be given once.\<close>

definition block_lines :: "nat \<Rightarrow> ('s \<Rightarrow> 's parser) \<Rightarrow> 's \<Rightarrow> 's parser" where
  "block_lines n line st =
     ebind tok_advance (\<lambda>_. ebind open_lines (\<lambda>_. ebind (ploop n in_block line st) (\<lambda>st'.
     ebind (expect_kind Dedent) (\<lambda>_. ret st'))))"

definition once_number :: "int \<Rightarrow> int \<Rightarrow> (int \<Rightarrow> parse_kind) \<Rightarrow> string \<Rightarrow> nat option \<Rightarrow> (nat \<Rightarrow> 's) \<Rightarrow> 's parser" where
  "once_number lo hi k key slot set_slot =
     keyed_line (ebind (number_in lo hi k) (\<lambda>m.
       ebind (reject_if (slot \<noteq> None) (Message ''duplicate service attribute {}'' [MStr key])) (\<lambda>_. ret (set_slot m))))"

definition service_numbers :: "service_parts \<Rightarrow> string \<Rightarrow> service_parts parser" where
  "service_numbers st key =
     (if key = ''max_steps'' then
        keyed_line (ebind (number_in 1 65535 (\<lambda>m. Message ''max_steps {} out of range [1, 65535]'' [MInt m]))
          (\<lambda>m. ret (st\<lparr>sp_max_steps := Some m\<rparr>)))
      else if key = ''read_timeout'' then
        keyed_line (ebind (number_in 1 3600 (\<lambda>m. Message ''read_timeout {} out of range [1, 3600] seconds'' [MInt m]))
          (\<lambda>m. ret (st\<lparr>sp_read_timeout := Some m\<rparr>)))
      else if key = ''request_timeout'' then
        once_number 1 3600 (\<lambda>m. Message ''{} {} out of range [1, 3600] seconds'' [MStr key, MInt m]) key
          (sp_request_timeout st) (\<lambda>m. st\<lparr>sp_request_timeout := Some m\<rparr>)
      else if key = ''response_timeout'' then
        once_number 1 3600 (\<lambda>m. Message ''{} {} out of range [1, 3600] seconds'' [MStr key, MInt m]) key
          (sp_response_timeout st) (\<lambda>m. st\<lparr>sp_response_timeout := Some m\<rparr>)
      else if key = ''native_stack'' then
        once_number 1 2097152 (\<lambda>_. Message ''service native_stack must be in [1, 2097152] bytes'' []) key
          (sp_native_stack st) (\<lambda>m. st\<lparr>sp_native_stack := Some m\<rparr>)
      else if key = ''shutdown_timeout'' then
        once_number 1 3600 (\<lambda>_. Message ''shutdown_timeout out of range [1, 3600] seconds'' []) key
          (sp_shutdown_timeout st) (\<lambda>m. st\<lparr>sp_shutdown_timeout := Some m\<rparr>)
      else if key = ''workers'' then
        once_number 1 64 (\<lambda>_. Message ''workers out of range [1, 64]'' []) key (sp_workers st) (\<lambda>m. st\<lparr>sp_workers := Some m\<rparr>)
      else once_number 1 65535 (\<lambda>_. Message ''max_connections out of range [1, 65535]'' []) key
             (sp_max_connections st) (\<lambda>m. st\<lparr>sp_max_connections := Some m\<rparr>))"

definition service_number_keys :: "string list" where
  "service_number_keys = [''max_steps'', ''read_timeout'', ''request_timeout'', ''response_timeout'', ''native_stack'',
     ''shutdown_timeout'', ''workers'', ''max_connections'']"

definition service_line :: "nat \<Rightarrow> string \<Rightarrow> service_parts \<Rightarrow> service_parts parser" where
  "service_line n name st = pcase (\<lambda>o'. case peek_attribute_name o' of
     Some a \<Rightarrow> attributes n (\<lambda>s. st\<lparr>sp_intention := Some s\<rparr>) (\<lambda>s. st\<lparr>sp_source := Some s\<rparr>) (unknown_attribute ''service'') a
   | None \<Rightarrow>
       if check_ident ''listen'' o' then block_lines n listen_line st
       else if check_ident ''handler'' o' then keyed_line (ebind expect_ident_any (\<lambda>x. ret (st\<lparr>sp_handler := Some x\<rparr>)))
       else if check_ident ''log'' o' then ebind (log_lines n) (\<lambda>l. ret (st\<lparr>sp_logs := sp_logs st @ [l]\<rparr>))
       else if check_ident ''concurrency'' o' then keyed_line (concurrency_value st)
       else if check_ident ''state'' o' then
         ebind (block_lines n (state_line n) (sp_state_fields st)) (\<lambda>fs. ret (st\<lparr>sp_state_fields := fs\<rparr>))
       else if check_ident ''after'' o' then
         ebind (block_lines n (after_line n) (sp_after_sets st)) (\<lambda>sets. ret (st\<lparr>sp_after_sets := sets\<rparr>))
       else case find (\<lambda>k. check_ident k o') service_number_keys of
         Some key \<Rightarrow> service_numbers st key
       | None \<Rightarrow>
           if check_ident ''frame'' o' then msg ''service {}: declared framing is slice multistep-3'' [MStr name]
           else msg ''expected attribute or block in service'' [])"

definition parse_service :: "nat \<Rightarrow> service parser" where
  "parse_service n =
     ebind (open_item ''service'') (\<lambda>name. ebind (ploop n in_block (service_line n name) service_parts_new) (\<lambda>st.
     ebind (expect_kind Dedent) (\<lambda>_.
     ebind (reject_if (sp_after_sets st \<noteq> [] \<and> sp_state_fields st = [])
       (Message ''after: block requires a state: block declaring the fields it mutates'' [])) (\<lambda>_.
     ebind (required (sp_intention st) (Message ''service missing @intention'' [])) (\<lambda>intention.
     ebind (required (sp_source st) (Message ''service missing @source'' [])) (\<lambda>source.
     ebind (required (sp_protocol st) (Message ''service missing listen.protocol'' [])) (\<lambda>prot.
     ebind (required (sp_port st) (Message ''service missing listen.port'' [])) (\<lambda>port.
     ebind (required (sp_max_request st) (Message ''service missing listen.max_request'' [])) (\<lambda>max_request.
     ebind (required (sp_handler st) (Message ''service missing handler'' [])) (\<lambda>handler.
     ret \<lparr>s_name = name, s_intention = intention, s_source = source, s_protocol = prot, s_port = port, s_max_request = max_request,
       s_handler = handler, s_logs = sp_logs st, s_concurrency = sp_concurrency st, s_state_fields = sp_state_fields st,
       s_after_sets = sp_after_sets st, s_max_steps = sp_max_steps st, s_read_timeout = sp_read_timeout st,
       s_request_timeout = sp_request_timeout st, s_response_timeout = sp_response_timeout st,
       s_max_connections = sp_max_connections st, s_workers = sp_workers st, s_shutdown_timeout = sp_shutdown_timeout st,
       s_native_stack = sp_native_stack st\<rparr>))))))))))"

end
