(* ===== verification/Parser_Program.thy ===== *)
theory Parser_Program
  imports Parser_Services
begin

text \<open>
  Resources, connections, entropy sources and executions of \<open>src/src/parser.rs\<close>, \<open>parser/execution.rs\<close> and
  \<open>parser/workload.rs\<close>, with \<open>shape_error\<close> of \<open>execution/workload.rs\<close>, and the program as a whole.
\<close>

section \<open>Resources, entropy sources and connections\<close>

record resource_parts =
  op_intention :: "string option"
  op_source :: "source_ref option"
  op_path :: "string option"
  op_max_bytes :: "nat option"
  op_on_read_error :: error_policy
  op_cache :: bool

text \<open>The three policies of which \<open>abort\<close> alone is accepted.\<close>

definition abort_policy :: "string \<Rightarrow> string \<Rightarrow> error_policy parser" where
  "abort_policy what key =
     ebind expect_ident_any (\<lambda>x.
       if x = ''abort'' then ret Abort
       else if x = ''drop'' then msg (what @ '' '' @ key @ '': drop is not accepted'') []
       else msg (''unknown '' @ key @ '' policy {} (allowed: abort)'') [MStr x])"

definition cache_value :: "bool parser" where
  "cache_value =
     ebind expect_ident_any (\<lambda>x.
       if x = ''true'' then ret True else if x = ''false'' then ret False
       else msg ''cache must be true or false, got {}'' [MStr x])"

definition resource_line :: "nat \<Rightarrow> resource_parts \<Rightarrow> resource_parts parser" where
  "resource_line n st = pcase (\<lambda>o'. case peek_attribute_name o' of
     Some a \<Rightarrow> attributes n (\<lambda>s. st\<lparr>op_intention := Some s\<rparr>) (\<lambda>s. st\<lparr>op_source := Some s\<rparr>) (unknown_attribute ''resource'') a
   | None \<Rightarrow>
       if check_ident ''path'' o' then
         keyed_line (ebind (or_refuse expect_string (Message ''resource path must be a string literal'' [])) (\<lambda>s. ret (st\<lparr>op_path := Some s\<rparr>)))
       else if check_ident ''max'' o' then
         keyed_line (ebind (positive_u32 ''resource max'') (\<lambda>m. ret (st\<lparr>op_max_bytes := Some m\<rparr>)))
       else if check_ident ''on_read_error'' o' then
         keyed_line (ebind (abort_policy ''resource'' ''on_read_error'') (\<lambda>p. ret (st\<lparr>op_on_read_error := p\<rparr>)))
       else if check_ident ''cache'' o' then keyed_line (ebind cache_value (\<lambda>c. ret (st\<lparr>op_cache := c\<rparr>)))
       else msg ''expected attribute, path:, max:, on_read_error:, or cache: in resource'' [])"

definition parse_resource :: "nat \<Rightarrow> resource parser" where
  "parse_resource n =
     ebind (open_item ''resource'') (\<lambda>name.
     ebind (ploop n in_block (resource_line n) \<lparr>op_intention = None, op_source = None, op_path = None, op_max_bytes = None,
       op_on_read_error = Abort, op_cache = False\<rparr>) (\<lambda>st.
     ebind (expect_kind Dedent) (\<lambda>_.
     ebind (required (op_intention st) (Message ''resource missing @intention'' [])) (\<lambda>intention.
     ebind (required (op_source st) (Message ''resource missing @source'' [])) (\<lambda>source.
     ebind (required (op_path st) (Message ''resource missing path:'' [])) (\<lambda>path.
     ebind (required (op_max_bytes st) (Message ''resource missing max:'' [])) (\<lambda>mx.
     ret \<lparr>rs_name = name, rs_intention = intention, rs_source = source, rs_path = path, rs_max_bytes = mx,
       rs_on_read_error = op_on_read_error st, rs_cache = op_cache st\<rparr>)))))))"

record entropy_parts =
  np_intention :: "string option"
  np_source :: "source_ref option"
  np_bytes :: "nat option"
  np_on_draw_error :: error_policy

definition entropy_bytes_range_message :: "string \<Rightarrow> int \<Rightarrow> parse_kind" where
  "entropy_bytes_range_message name got =
     Message ''entropy {}: bytes must be a literal in 1..=256 (got {})'' [MStr name, MInt got]"

definition draw_policy :: "string \<Rightarrow> error_policy parser" where
  "draw_policy name =
     ebind expect_ident_any (\<lambda>x.
       if x = ''abort'' then ret Abort
       else if x = ''drop'' then msg ''entropy {}: on_draw_error drop is not accepted'' [MStr name]
       else msg ''unknown on_draw_error policy {} (allowed: abort)'' [MStr x])"

definition entropy_line :: "nat \<Rightarrow> string \<Rightarrow> entropy_parts \<Rightarrow> entropy_parts parser" where
  "entropy_line n name st = pcase (\<lambda>o'. case peek_attribute_name o' of
     Some a \<Rightarrow> attributes n (\<lambda>s. st\<lparr>np_intention := Some s\<rparr>) (\<lambda>s. st\<lparr>np_source := Some s\<rparr>) (unknown_attribute ''entropy'') a
   | None \<Rightarrow>
       if check_ident ''bytes'' o' then
         keyed_line (ebind (number_in 1 256 (entropy_bytes_range_message name)) (\<lambda>m. ret (st\<lparr>np_bytes := Some m\<rparr>)))
       else if check_ident ''on_draw_error'' o' then keyed_line (ebind (draw_policy name) (\<lambda>p. ret (st\<lparr>np_on_draw_error := p\<rparr>)))
       else if check_ident ''cache'' o' then msg ''entropy {}: cache is not a field of entropy'' [MStr name]
       else msg ''expected attribute, bytes:, or on_draw_error: in entropy'' [])"

definition parse_entropy :: "nat \<Rightarrow> entropy parser" where
  "parse_entropy n =
     ebind (open_item ''entropy'') (\<lambda>name.
     ebind (ploop n in_block (entropy_line n name) \<lparr>np_intention = None, np_source = None, np_bytes = None, np_on_draw_error = Abort\<rparr>) (\<lambda>st.
     ebind (expect_kind Dedent) (\<lambda>_.
     ebind (required (np_bytes st) (entropy_bytes_range_message name 0)) (\<lambda>b.
     ebind (required (np_intention st) (Message ''entropy missing @intention'' [])) (\<lambda>intention.
     ebind (required (np_source st) (Message ''entropy missing @source'' [])) (\<lambda>source.
     ret \<lparr>e_name = name, e_intention = intention, e_source = source, e_bytes = b, e_on_draw_error = np_on_draw_error st,
       e_binding_key = ''__entropy_'' @ name\<rparr>))))))"

record connection_parts =
  lp_intention :: "string option"
  lp_source :: "source_ref option"
  lp_host :: "string option"
  lp_port :: "nat option"
  lp_max_response :: "nat option"
  lp_on_connect_error :: error_policy

text \<open>\<open>str::split('.')\<close>, and \<open>str::parse::<u32>()\<close>: an optional plus sign, then digits only, within range.\<close>

fun split_dots :: "string \<Rightarrow> string list" where
  "split_dots [] = [[]]"
| "split_dots (c # cs) =
     (if c = CHR ''.'' then [] # split_dots cs
      else case split_dots cs of [] \<Rightarrow> [[c]] | w # ws \<Rightarrow> (c # w) # ws)"

definition parse_u32 :: "string \<Rightarrow> nat option" where
  "parse_u32 s =
     (let ds = (case s of c # cs \<Rightarrow> if c = CHR ''+'' then cs else s | [] \<Rightarrow> []) in
      if ds = [] \<or> \<not> list_all is_ascii_digit ds \<or> 4294967295 < digits_val ds then None else Some (digits_val ds))"

fun octet_error :: "string \<Rightarrow> string list \<Rightarrow> parse_kind option" where
  "octet_error h [] = None"
| "octet_error h (w # ws) =
     (if w = [] then Some (Message ''connection host {} has an empty octet'' [MStr h])
      else case parse_u32 w of
        None \<Rightarrow> Some (Message ''connection host {} octet {} is not a number'' [MStr h, MStr w])
      | Some v \<Rightarrow>
          if 255 < v then Some (Message ''connection host {} octet {} exceeds 255'' [MStr h, MStr w]) else octet_error h ws)"

definition host_error :: "string \<Rightarrow> parse_kind option" where
  "host_error h =
     (if length (split_dots h) \<noteq> 4 then Some (Message ''connection host {} is not an IPv4 dotted quad'' [MStr h])
      else octet_error h (split_dots h))"

definition reject_some :: "parse_kind option \<Rightarrow> unit parser" where
  "reject_some k = (case k of Some e \<Rightarrow> parse_err e | None \<Rightarrow> ret ())"

definition connection_line :: "nat \<Rightarrow> connection_parts \<Rightarrow> connection_parts parser" where
  "connection_line n st = pcase (\<lambda>o'. case peek_attribute_name o' of
     Some a \<Rightarrow> attributes n (\<lambda>s. st\<lparr>lp_intention := Some s\<rparr>) (\<lambda>s. st\<lparr>lp_source := Some s\<rparr>) (unknown_attribute ''connection'') a
   | None \<Rightarrow>
       if check_ident ''host'' o' then
         keyed_line (ebind (or_refuse expect_string (Message ''connection host must be a string literal containing an IPv4 dotted quad'' [])) (\<lambda>h.
           ebind (reject_some (host_error h)) (\<lambda>_. ret (st\<lparr>lp_host := Some h\<rparr>))))
       else if check_ident ''port'' o' then
         keyed_line (ebind (port_number ''connection port {} out of range (must be 1..=65535)'') (\<lambda>p. ret (st\<lparr>lp_port := Some p\<rparr>)))
       else if check_ident ''max_response'' o' then
         keyed_line (ebind (positive_u32 ''connection max_response'') (\<lambda>m. ret (st\<lparr>lp_max_response := Some m\<rparr>)))
       else if check_ident ''on_connect_error'' o' then
         keyed_line (ebind (abort_policy ''connection'' ''on_connect_error'') (\<lambda>p. ret (st\<lparr>lp_on_connect_error := p\<rparr>)))
       else msg ''expected attribute, host:, port:, max_response:, or on_connect_error: in connection'' [])"

definition parse_connection :: "nat \<Rightarrow> connection parser" where
  "parse_connection n =
     ebind (open_item ''connection'') (\<lambda>name.
     ebind (ploop n in_block (connection_line n) \<lparr>lp_intention = None, lp_source = None, lp_host = None, lp_port = None,
       lp_max_response = None, lp_on_connect_error = Abort\<rparr>) (\<lambda>st.
     ebind (expect_kind Dedent) (\<lambda>_.
     ebind (required (lp_intention st) (Message ''connection missing @intention'' [])) (\<lambda>intention.
     ebind (required (lp_source st) (Message ''connection missing @source'' [])) (\<lambda>source.
     ebind (required (lp_host st) (Message ''connection missing host:'' [])) (\<lambda>host.
     ebind (required (lp_port st) (Message ''connection missing port:'' [])) (\<lambda>port.
     ebind (required (lp_max_response st) (Message ''connection missing max_response:'' [])) (\<lambda>mx.
     ret \<lparr>cn_name = name, cn_intention = intention, cn_source = source, cn_host = host, cn_port = port, cn_max_response = mx,
       cn_on_connect_error = lp_on_connect_error st\<rparr>))))))))"

section \<open>Workloads\<close>

record case_parts =
  kp_seen :: "string list"
  kp_weight :: "nat option"
  kp_records :: "nat option"
  kp_target :: "nat option"

definition case_maximum :: "string \<Rightarrow> int option" where
  "case_maximum key =
     (if key = ''weight'' \<or> key = ''records'' then Some 1000000
      else if key = ''target_us'' then Some 1000000000 else None)"

definition case_set :: "string \<Rightarrow> nat \<Rightarrow> case_parts \<Rightarrow> case_parts" where
  "case_set key m st =
     (if key = ''weight'' then st\<lparr>kp_weight := Some m\<rparr>
      else if key = ''records'' then st\<lparr>kp_records := Some m\<rparr> else st\<lparr>kp_target := Some m\<rparr>)"

definition case_line :: "string \<Rightarrow> case_parts \<Rightarrow> case_parts parser" where
  "case_line name st =
     ebind expect_ident_any (\<lambda>key.
     ebind (reject_if (key \<in> set (kp_seen st)) (Message ''workload case {}: duplicate {}'' [MStr name, MStr key])) (\<lambda>_.
     ebind (required (case_maximum key) (Message ''workload case {}: unknown field {}'' [MStr name, MStr key])) (\<lambda>maximum.
     ebind (expect_kind Colon) (\<lambda>_.
     let k = Message ''workload case {}: {} must be an integer in [1, {}]'' [MStr name, MStr key, MInt maximum] in
     ebind (or_refuse expect_number k) (\<lambda>m.
     ebind (reject_if (\<not> (1 \<le> m \<and> m \<le> maximum)) k) (\<lambda>_.
     line_end (case_set key (as_u32 m) (st\<lparr>kp_seen := key # kp_seen st\<rparr>))))))))"

definition parse_workload_case :: "nat \<Rightarrow> workload_case parser" where
  "parse_workload_case n =
     ebind expect_ident_any (\<lambda>name. ebind open_lines (\<lambda>_.
     ebind (ploop n in_block (case_line name) \<lparr>kp_seen = [], kp_weight = None, kp_records = None, kp_target = None\<rparr>) (\<lambda>st.
     ebind (expect_kind Dedent) (\<lambda>_.
     ebind (required (kp_weight st) (Message ''workload case {}: missing weight'' [MStr name])) (\<lambda>weight.
     ebind (required (kp_records st) (Message ''workload case {}: missing records'' [MStr name])) (\<lambda>recs.
     ret \<lparr>wc_name = name, wc_weight = weight, wc_records = recs, wc_target_us = kp_target st\<rparr>))))))"

text \<open>\<open>shape_error\<close>: the declarations of a workload, checked again for programs built without the parser.\<close>

definition is_identifier :: "string \<Rightarrow> bool" where
  "is_identifier s \<longleftrightarrow>
     (case s of [] \<Rightarrow> False | c # _ \<Rightarrow> is_ascii_alphabetic c \<or> c = CHR ''_'') \<and>
     list_all (\<lambda>c. is_ascii_alphanumeric c \<or> c = CHR ''_'') s"

definition case_range_error :: "workload_case \<Rightarrow> parse_kind option" where
  "case_range_error c =
     map_option (\<lambda>(key, _, maximum). Message ''workload case {}: {} must be in [1, {}]'' [MStr (wc_name c), MStr key, MInt (int maximum)])
       (find (\<lambda>(key, v, maximum). \<not> (1 \<le> v \<and> v \<le> maximum))
         [(''weight'', wc_weight c, 1000000), (''records'', wc_records c, 1000000),
          (''target_us'', case wc_target_us c of None \<Rightarrow> 1 | Some t \<Rightarrow> t, 1000000000)])"

fun cases_error :: "string list \<Rightarrow> workload_case list \<Rightarrow> parse_kind option" where
  "cases_error seen [] = None"
| "cases_error seen (c # cs) =
     (if \<not> is_identifier (wc_name c) then Some (Message ''workload case name must be an identifier'' [])
      else if wc_name c \<in> set seen then Some (Message ''workload: duplicate case {}'' [MStr (wc_name c)])
      else case case_range_error c of Some k \<Rightarrow> Some k | None \<Rightarrow> cases_error (wc_name c # seen) cs)"

definition shape_error :: "workload \<Rightarrow> parse_kind option" where
  "shape_error w =
     (if \<not> (1 \<le> length (w_cases w) \<and> length (w_cases w) \<le> 16) then Some (Message ''workload requires 1..=16 cases'' [])
      else cases_error [] (w_cases w))"

record workload_parts =
  wp_objective :: "workload_objective option"
  wp_cases :: "workload_case list"

definition objective_named :: "string \<Rightarrow> workload_objective option" where
  "objective_named x = (if x = ''elapsed'' then Some Elapsed else if x = ''cpu'' then Some Cpu else None)"

definition workload_line :: "nat \<Rightarrow> workload_parts \<Rightarrow> workload_parts parser" where
  "workload_line n st =
     ebind expect_ident_any (\<lambda>key.
       if key = ''objective'' then
         ebind (reject_if (wp_objective st \<noteq> None) (Message ''workload: duplicate objective'' [])) (\<lambda>_.
         ebind (expect_kind Colon) (\<lambda>_. ebind expect_ident_any (\<lambda>x.
         ebind (required (objective_named x) (Message ''workload objective must be elapsed or cpu'' [])) (\<lambda>obj.
         line_end (st\<lparr>wp_objective := Some obj\<rparr>)))))
       else if key = ''case'' then ebind (parse_workload_case n) (\<lambda>c. ret (st\<lparr>wp_cases := wp_cases st @ [c]\<rparr>))
       else msg ''workload: unknown field {}'' [MStr key])"

definition parse_workload :: "nat \<Rightarrow> workload parser" where
  "parse_workload n =
     ebind (expect_kind Newline) (\<lambda>_. ebind (expect_kind Indent) (\<lambda>_.
     ebind (ploop n in_block (workload_line n) \<lparr>wp_objective = None, wp_cases = []\<rparr>) (\<lambda>st.
     ebind (expect_kind Dedent) (\<lambda>_.
     ebind (required (wp_objective st) (Message ''workload: missing objective'' [])) (\<lambda>obj.
     let w = \<lparr>w_objective = obj, w_cases = wp_cases st\<rparr> in
     ebind (reject_some (shape_error w)) (\<lambda>_. ret w))))))"

section \<open>Executions\<close>

record execution_parts =
  ep_seen :: "string list"
  ep_intention :: "string option"
  ep_source :: "source_ref option"
  ep_input :: "string option"
  ep_phases :: "string list option"
  ep_limit :: "nat option"
  ep_mode :: "string option"
  ep_max_in_flight :: "nat option"
  ep_native_memory :: "nat option"
  ep_result_batch :: "nat option"
  ep_workload :: "workload option"

definition execution_parts_new :: execution_parts where
  "execution_parts_new = \<lparr>ep_seen = [], ep_intention = None, ep_source = None, ep_input = None, ep_phases = None, ep_limit = None,
     ep_mode = None, ep_max_in_flight = None, ep_native_memory = None, ep_result_batch = None, ep_workload = None\<rparr>"

definition execution_key :: "string parser" where
  "execution_key = pcase (\<lambda>o'. case peek_attribute_name o' of
     Some a \<Rightarrow> ebind tok_advance (\<lambda>_. ret (''@'' @ a)) | None \<Rightarrow> expect_ident_any)"

definition name_step :: "string list \<Rightarrow> (string list \<times> bool) parser" where
  "name_step names =
     ebind expect_ident_any (\<lambda>x.
     pif (check_kind Comma) (ebind tok_advance (\<lambda>_. ret (names @ [x], True))) (ret (names @ [x], False)))"

definition phase_names :: "nat \<Rightarrow> string list parser" where
  "phase_names n =
     ebind (expect_kind LBracket) (\<lambda>_.
     ebind (pif (check_kind RBracket) (ret []) (prepeat n name_step [])) (\<lambda>names.
     ebind (expect_kind RBracket) (\<lambda>_. ret names)))"

definition result_batch_number :: "nat parser" where
  "result_batch_number =
     ebind (or_refuse expect_number (Message ''execution result_batch must be an integer in [1, 1024]'' [])) (\<lambda>m.
     ebind (reject_if (\<not> (1 \<le> m \<and> m \<le> 1024)) (Message ''execution result_batch must be in [1, 1024]'' [])) (\<lambda>_. ret (as_u32 m)))"

definition execution_value :: "nat \<Rightarrow> string \<Rightarrow> string \<Rightarrow> execution_parts \<Rightarrow> execution_parts parser" where
  "execution_value n name key st =
     (if key = ''@intention'' then ebind expect_string (\<lambda>s. ret (st\<lparr>ep_intention := Some s\<rparr>))
      else if key = ''@source'' then ebind (parse_source_ref n) (\<lambda>s. ret (st\<lparr>ep_source := Some s\<rparr>))
      else if key = ''input'' then ebind expect_ident_any (\<lambda>x. ret (st\<lparr>ep_input := Some x\<rparr>))
      else if key = ''mode'' then
        ebind expect_ident_any (\<lambda>x.
        ebind (reject_if (x \<noteq> ''sequential'' \<and> x \<noteq> ''concurrent'' \<and> x \<noteq> ''pipeline'')
          (Message ''execution mode must be sequential, concurrent or pipeline'' [])) (\<lambda>_. ret (st\<lparr>ep_mode := Some x\<rparr>)))
      else if key = ''on_failure'' then
        ebind expect_ident_any (\<lambda>x.
        ebind (reject_if (x \<noteq> ''stop'') (Message ''execution supports only on_failure: stop'' [])) (\<lambda>_. ret st))
      else if key = ''phases'' then ebind (phase_names n) (\<lambda>xs. ret (st\<lparr>ep_phases := Some xs\<rparr>))
      else if key = ''native_stack'' then
        ebind (number_in 1 2097152 (\<lambda>_. Message ''execution native_stack must be in [1, 2097152] bytes'' [])) (\<lambda>m. ret (st\<lparr>ep_limit := Some m\<rparr>))
      else if key = ''native_memory'' then
        ebind (number_in 1 268435456 (\<lambda>_. Message ''execution native_memory must be in [1, 268435456] bytes'' []))
          (\<lambda>m. ret (st\<lparr>ep_native_memory := Some m\<rparr>))
      else if key = ''max_in_flight'' then
        ebind (number_in 1 64 (\<lambda>_. Message ''execution max_in_flight must be in [1, 64]'' [])) (\<lambda>m. ret (st\<lparr>ep_max_in_flight := Some m\<rparr>))
      else if key = ''result_batch'' then ebind result_batch_number (\<lambda>m. ret (st\<lparr>ep_result_batch := Some m\<rparr>))
      else msg ''execution {}: unknown field {}'' [MStr name, MStr key])"

definition execution_line :: "nat \<Rightarrow> string \<Rightarrow> execution_parts \<Rightarrow> execution_parts parser" where
  "execution_line n name st =
     ebind execution_key (\<lambda>key.
     ebind (reject_if (key \<in> set (ep_seen st)) (Message ''execution {}: duplicate {}'' [MStr name, MStr key])) (\<lambda>_.
     let st' = st\<lparr>ep_seen := key # ep_seen st\<rparr> in
     ebind (expect_kind Colon) (\<lambda>_.
       if key = ''workload'' then ebind (parse_workload n) (\<lambda>w. ret (st'\<lparr>ep_workload := Some w\<rparr>))
       else ebind (execution_value n name key st') line_end)))"

definition execution_required :: "string list" where
  "execution_required = [''@intention'', ''@source'', ''input'', ''mode'', ''phases'', ''on_failure'']"

text \<open>The mode, with what each mode accepts; \<open>unwrap\<close> on a missing value is a panic.\<close>

definition concurrent_mode :: "execution_parts \<Rightarrow> execution_mode parser" where
  "concurrent_mode st =
     ebind (reject_if (ep_limit st \<noteq> None) (Message ''concurrent execution refuses native_stack'' [])) (\<lambda>_.
     ebind (required (ep_max_in_flight st) (Message ''concurrent execution requires max_in_flight'' [])) (\<lambda>m.
     ret (ExecConcurrent m (ep_native_memory st) (case ep_result_batch st of None \<Rightarrow> 1 | Some b \<Rightarrow> b))))"

definition stack_mode :: "execution_parts \<Rightarrow> string \<Rightarrow> execution_mode parser" where
  "stack_mode st kind =
     ebind (reject_if (ep_result_batch st \<noteq> None) (Message ''{} execution does not accept result_batch'' [MStr kind])) (\<lambda>_.
     ebind (reject_if (ep_native_memory st \<noteq> None) (Message ''{} execution does not accept native_memory'' [MStr kind])) (\<lambda>_.
     ebind (reject_if (ep_max_in_flight st \<noteq> None) (Message ''{} execution does not accept max_in_flight'' [MStr kind])) (\<lambda>_.
     ebind (required (ep_limit st) (Message ''{} execution requires native_stack'' [MStr kind])) (\<lambda>m.
       if kind = ''pipeline'' then
         ebind (reject_if (ep_workload st \<noteq> None) (Message ''pipeline execution does not accept workload in this slice'' [])) (\<lambda>_.
         ret (ExecPipeline m))
       else ret (ExecSequential m)))))"

definition execution_mode_of :: "execution_parts \<Rightarrow> execution_mode parser" where
  "execution_mode_of st =
     (if ep_mode st = Some ''concurrent'' then concurrent_mode st
      else ebind (required (ep_mode st) ParserPanic) (stack_mode st))"

definition execution_of :: "string \<Rightarrow> execution_parts \<Rightarrow> execution parser" where
  "execution_of name st =
     ebind (reject_some (map_option (\<lambda>key. Message ''execution {}: missing {}'' [MStr name, MStr key])
       (find (\<lambda>key. key \<notin> set (ep_seen st)) execution_required))) (\<lambda>_.
     ebind (execution_mode_of st) (\<lambda>mode.
     ebind (required (ep_intention st) ParserPanic) (\<lambda>intention.
     ebind (required (ep_source st) ParserPanic) (\<lambda>source.
     ebind (required (ep_input st) ParserPanic) (\<lambda>input.
     ebind (required (ep_phases st) ParserPanic) (\<lambda>phases.
     ret \<lparr>x_name = name, x_intention = intention, x_source = source, x_input = input, x_phases = phases, x_mode = mode,
       x_workload = ep_workload st\<rparr>))))))"

definition parse_execution :: "nat \<Rightarrow> execution parser" where
  "parse_execution n =
     ebind (open_item ''execution'') (\<lambda>name.
     ebind (ploop n in_block (execution_line n name) execution_parts_new) (\<lambda>st.
     ebind (expect_kind Dedent) (\<lambda>_. execution_of name st)))"

section \<open>Programs\<close>

definition use_line :: "string list \<Rightarrow> string list parser" where
  "use_line uses = ebind tok_advance (\<lambda>_. ebind expect_string (\<lambda>path. line_end (uses @ [path])))"

definition program_item :: "nat \<Rightarrow> token_kind option \<Rightarrow> item parser" where
  "program_item n o' =
     (if check_ident ''concept_group'' o' then ebind (parse_concept_group n) (\<lambda>x. ret (IConceptGroup x))
      else if check_ident ''concept'' o' then ebind (parse_concept n) (\<lambda>x. ret (IConcept x))
      else if check_ident ''rule'' o' then ebind (parse_rule n) (\<lambda>x. ret (IRule x))
      else if check_ident ''reaction'' o' then ebind (parse_reaction n) (\<lambda>x. ret (IReaction x))
      else if check_ident ''service'' o' then ebind (parse_service n) (\<lambda>x. ret (IService x))
      else if check_ident ''execution'' o' then ebind (parse_execution n) (\<lambda>x. ret (IExecution x))
      else if check_ident ''resource'' o' then ebind (parse_resource n) (\<lambda>x. ret (IResource x))
      else if check_ident ''connection'' o' then ebind (parse_connection n) (\<lambda>x. ret (IConnection x))
      else if check_ident ''entropy'' o' then ebind (parse_entropy n) (\<lambda>x. ret (IEntropy x))
      else msg ''expected concept, concept_group, rule, reaction, service, execution, resource, connection, or entropy at top level'' [])"

definition parse_program_fuel :: "nat \<Rightarrow> program parser" where
  "parse_program_fuel n =
     ebind parse_version_directive (\<lambda>version.
     ebind (ploop n (check_ident ''use'') use_line []) (\<lambda>uses.
     ebind (ploop n (\<lambda>o'. o' \<noteq> Some Eof) (\<lambda>items. ebind (pcase (program_item n)) (\<lambda>it. ret (items @ [it]))) []) (\<lambda>items.
     ret \<lparr>p_version = version, p_uses = uses, p_items = items\<rparr>)))"

text \<open>\<open>Parser::new(tokens).parse_program()\<close>: what is left of the tokens is dropped.\<close>

definition parse_program :: "token list \<Rightarrow> parse_error + program" where
  "parse_program ts =
     (case parse_program_fuel (Suc (length ts)) ts of Inl e \<Rightarrow> Inl e | Inr (p, _) \<Rightarrow> Inr p)"

end
