(* ===== verification/Parser_Tracks.thy ===== *)
theory Parser_Tracks
  imports Parser_Program
begin

text \<open>
  One relation carries the safety of the parser: \<open>tracks g s k p q\<close> says that on any two token lists of the same kinds, with at most
  \<open>k\<close> tokens and the end marker last, whose first token satisfies \<open>g\<close>, \<open>p\<close> and \<open>q\<close> either stop after the same
  number of tokens, at least \<open>s\<close>, with the same value, or refuse at the same token for the same reason, never with a panic
  or an endless loop. It is preserved by the combinators, so it holds of every parsing function by
  going through its definition once. With \<open>p = q\<close> it gives totality and the independence of positions, with two amounts of fuel
  that fuel does not matter.
\<close>

section \<open>Token lists that the lexer can return\<close>

abbreviation kinds_of :: "token list \<Rightarrow> token_kind list" where
  "kinds_of \<equiv> map tk_kind"

definition ready :: "token list \<Rightarrow> bool" where
  "ready ts \<longleftrightarrow> ts \<noteq> [] \<and> tk_kind (last ts) = Eof \<and> (\<forall>t \<in> set ts. \<forall>n. tk_kind t = Number n \<longrightarrow> 0 \<le> n)"

lemma ready_drop: "ready ts \<Longrightarrow> j < length ts \<Longrightarrow> ready (drop j ts)"
  by (auto simp: ready_def dest: in_set_dropD)

lemma ready_step: "ready ts \<Longrightarrow> peek_kind ts \<noteq> Some Eof \<Longrightarrow> cursor_step ts = drop 1 ts \<and> 1 < length ts"
  by (cases ts rule: cursor_step.cases) (auto simp: ready_def peek_kind_def)

lemma peek_kind_map: "kinds_of ts = kinds_of us \<Longrightarrow> peek_kind us = peek_kind ts"
  by (cases ts; cases us) (auto simp: peek_kind_def)

lemma peek_kind_nth: "ts \<noteq> [] \<Longrightarrow> peek_kind ts = Some (tk_kind (ts ! 0))"
  by (cases ts) (auto simp: peek_kind_def)

section \<open>The relation\<close>

definition outcome :: "nat \<Rightarrow> token list \<Rightarrow> token list \<Rightarrow> parse_error + 'a \<times> token list \<Rightarrow> parse_error + 'a \<times> token list \<Rightarrow> bool" where
  "outcome s ts us r r' \<longleftrightarrow>
     (\<exists>j a. s \<le> j \<and> j < length ts \<and> r = Inr (a, drop j ts) \<and> r' = Inr (a, drop j us)) \<or>
     (\<exists>j k. j < length ts \<and> k \<notin> {Diverges, ParserPanic} \<and> r = Inl (error_at k (ts ! j)) \<and> r' = Inl (error_at k (us ! j)))"

lemma outcome_ok: "s \<le> j \<Longrightarrow> j < length ts \<Longrightarrow> outcome s ts us (Inr (a, drop j ts)) (Inr (a, drop j us))"
  unfolding outcome_def by blast

lemma outcome_err: "j < length ts \<Longrightarrow> k \<notin> {Diverges, ParserPanic} \<Longrightarrow> outcome s ts us (Inl (error_at k (ts ! j))) (Inl (error_at k (us ! j)))"
  unfolding outcome_def by blast

lemma outcomeE:
  assumes "outcome s ts us r r'"
  obtains (ok) j a where "s \<le> j" "j < length ts" "r = Inr (a, drop j ts)" "r' = Inr (a, drop j us)"
  | (err) j k where "j < length ts" "k \<notin> {Diverges, ParserPanic}" "r = Inl (error_at k (ts ! j))" "r' = Inl (error_at k (us ! j))"
  using assms unfolding outcome_def by blast

lemma outcome_0: "outcome s ts us r r' \<Longrightarrow> outcome 0 ts us r r'"
  unfolding outcome_def by blast

lemma outcome_stop: "ts \<noteq> [] \<Longrightarrow> outcome 0 ts us (Inr (a, ts)) (Inr (a, us))"
  using outcome_ok [of 0 0 ts us a] by simp

definition tracks :: "(token_kind option \<Rightarrow> bool) \<Rightarrow> nat \<Rightarrow> nat \<Rightarrow> 'a parser \<Rightarrow> 'a parser \<Rightarrow> bool" where
  "tracks g s k p q \<longleftrightarrow>
     (\<forall>ts us. kinds_of ts = kinds_of us \<longrightarrow> ready ts \<longrightarrow> length ts \<le> k \<longrightarrow> g (peek_kind ts) \<longrightarrow> outcome s ts us (p ts) (q us))"

text \<open>The values that a parsing function can return.\<close>

definition results :: "'a parser \<Rightarrow> 'a set" where
  "results p = {a. \<exists>ts ts'. p ts = Inr (a, ts')}"

named_theorems trk \<open>tracking rules of the combinators\<close>
named_theorems trk_eat \<open>tracking rules of the functions that read at least one token\<close>

lemma tracksI:
  "(\<And>ts us. kinds_of ts = kinds_of us \<Longrightarrow> ready ts \<Longrightarrow> length ts \<le> k \<Longrightarrow> g (peek_kind ts) \<Longrightarrow> outcome s ts us (p ts) (q us))
   \<Longrightarrow> tracks g s k p q"
  by (simp add: tracks_def)

lemma tracksD:
  "tracks g s k p q \<Longrightarrow> kinds_of ts = kinds_of us \<Longrightarrow> ready ts \<Longrightarrow> length ts \<le> k \<Longrightarrow> g (peek_kind ts) \<Longrightarrow> outcome s ts us (p ts) (q us)"
  by (simp add: tracks_def)

lemma tracks_weaken:
  assumes "tracks g s k p q" "s' \<le> s" "k' \<le> k" "\<And>o'. g' o' \<Longrightarrow> g o'"
  shows "tracks g' s' k' p q"
  using assms unfolding tracks_def outcome_def by (meson le_trans)

lemma tracks_ret [trk]: "tracks g 0 k (ret a) (ret a)"
  by (rule tracksI) (auto simp: outcome_def ret_def ready_def)

lemma tracks_refuse [trk]:
  assumes "\<And>x. f x \<notin> {Diverges, ParserPanic}"
  shows "tracks g s k (refuse f) (refuse f)"
proof (rule tracksI)
  fix ts us assume *: "kinds_of ts = kinds_of us" "ready ts"
  then obtain t ts' u us' where "ts = t # ts'" "us = u # us'" "tk_kind u = tk_kind t" by (cases ts; cases us) (auto simp: ready_def)
  then show "outcome s ts us (refuse f ts) (refuse f us)"
    using assms [of "tk_kind t"] outcome_err [of 0 ts "f (tk_kind t)" s us] by (simp add: refuse_def)
qed

lemma tracks_err [trk]: "k' \<notin> {Diverges, ParserPanic} \<Longrightarrow> tracks g s k (parse_err k') (parse_err k')"
  unfolding parse_err_def by (rule tracks_refuse)

lemma tracks_advance [trk_eat]:
  assumes "\<not> g (Some Eof)"
  shows "tracks g 1 k tok_advance tok_advance"
proof (rule tracksI)
  fix ts us assume *: "kinds_of ts = kinds_of us" "ready ts" "g (peek_kind ts)"
  then have "peek_kind ts \<noteq> Some Eof" using assms by auto
  from ready_step [OF *(2) this] have "cursor_step ts = drop 1 ts" "1 < length ts" by auto
  moreover have "cursor_step us = drop 1 us"
    using \<open>1 < length ts\<close> *(1) by (cases us rule: cursor_step.cases) (auto dest: map_eq_imp_length_eq)
  ultimately show "outcome 1 ts us (tok_advance ts) (tok_advance us)"
    by (auto simp: tok_advance_def outcome_def intro!: exI [of _ 1])
qed

text \<open>A step that stays on the end marker reads nothing.\<close>

lemma tracks_advance_any [trk]: "tracks g 0 k tok_advance tok_advance"
proof (rule tracksI)
  fix ts us assume *: "kinds_of ts = kinds_of us" "ready ts"
  have "length us = length ts" using *(1) by (metis length_map)
  show "outcome 0 ts us (tok_advance ts) (tok_advance us)"
  proof (cases "length ts = 1")
    case True
    then have "cursor_step ts = drop 0 ts \<and> cursor_step us = drop 0 us"
      using \<open>length us = length ts\<close> by (cases ts rule: cursor_step.cases; cases us rule: cursor_step.cases) auto
    with True show ?thesis by (auto simp: tok_advance_def outcome_def intro!: exI [of _ 0])
  next
    case False
    then have "cursor_step ts = drop 1 ts \<and> cursor_step us = drop 1 us \<and> 1 < length ts"
      using *(2) \<open>length us = length ts\<close>
      by (cases ts rule: cursor_step.cases; cases us rule: cursor_step.cases) (auto simp: ready_def)
    then show ?thesis by (auto simp: tok_advance_def outcome_def intro!: exI [of _ 1])
  qed
qed

lemma tracks_pcase:
  assumes "\<And>o'. g o' \<Longrightarrow> tracks (\<lambda>x. x = o') s k (f o') (f' o')"
  shows "tracks g s k (pcase f) (pcase f')"
proof (rule tracksI)
  fix ts us assume *: "kinds_of ts = kinds_of us" "ready ts" "length ts \<le> k" "g (peek_kind ts)"
  from tracksD [OF assms [OF *(4)] *(1-3)] peek_kind_map [OF *(1)]
  show "outcome s ts us (pcase f ts) (pcase f' us)" by (simp add: pcase_def)
qed

lemma tracks_pif [trk]:
  assumes "tracks (\<lambda>o'. g o' \<and> c o') s k p p'" "tracks (\<lambda>o'. g o' \<and> \<not> c o') s k q q'"
  shows "tracks g s k (pif c p q) (pif c p' q')"
  unfolding pif_def
proof (rule tracks_pcase)
  fix o' assume "g o'"
  with assms show "tracks (\<lambda>x. x = o') s k (if c o' then p else q) (if c o' then p' else q')"
    by (auto intro: tracks_weaken)
qed

lemma outcome_bind:
  assumes "outcome s ts us (p ts) (p' us)" "kinds_of ts = kinds_of us"
    and "\<And>a j. s \<le> j \<Longrightarrow> j < length ts \<Longrightarrow> p ts = Inr (a, drop j ts) \<Longrightarrow> outcome t (drop j ts) (drop j us) (f a (drop j ts)) (f' a (drop j us))"
  shows "outcome (s + t) ts us (ebind p f ts) (ebind p' f' us)"
  using assms(1)
proof (cases rule: outcomeE)
  case (err j k)
  with outcome_err [OF err(1,2)] show ?thesis by (simp add: ebind_def)
next
  case (ok j a)
  have len: "length us = length ts" using assms(2) by (metis length_map)
  from assms(3) [OF ok(1-3)] show ?thesis
  proof (cases rule: outcomeE)
    case (ok i b)
    then show ?thesis
      using outcome_ok [of "s + t" "i + j" ts us b] \<open>s \<le> j\<close> \<open>p ts = _\<close> \<open>p' us = _\<close> by (simp add: ebind_def)
  next
    case (err i k)
    then show ?thesis
      using outcome_err [of "j + i" ts k "s + t" us] \<open>j < length ts\<close> \<open>p ts = _\<close> \<open>p' us = _\<close> len by (simp add: ebind_def less_diff_conv add.commute)
  qed
qed

lemma tracks_bind:
  assumes "tracks g s k p p'" "\<And>a. a \<in> results p \<Longrightarrow> tracks (\<lambda>_. True) t (k - s) (f a) (f' a)"
  shows "tracks g (s + t) k (ebind p f) (ebind p' f')"
proof (rule tracksI)
  fix ts us assume *: "kinds_of ts = kinds_of us" "ready ts" "length ts \<le> k" "g (peek_kind ts)"
  show "outcome (s + t) ts us (ebind p f ts) (ebind p' f' us)"
  proof (rule outcome_bind [of s ts us p p', OF tracksD [OF assms(1) *] *(1)])
    fix a j assume j: "s \<le> j" "j < length ts" "p ts = Inr (a, drop j ts)"
    then have a: "a \<in> results p" by (auto simp: results_def)
    show "outcome t (drop j ts) (drop j us) (f a (drop j ts)) (f' a (drop j us))"
      by (rule tracksD [OF assms(2) [OF a]]) (use j * ready_drop in \<open>auto simp flip: drop_map\<close>)
  qed
qed

text \<open>The two forms used: something was read before, so nothing more has to be; or the first function reads a token.\<close>

lemma tracks_bind_any [trk]:
  assumes "tracks g 0 k p p'" "\<And>a. a \<in> results p \<Longrightarrow> tracks (\<lambda>_. True) 0 k (f a) (f' a)"
  shows "tracks g 0 k (ebind p f) (ebind p' f')"
  using tracks_bind [of g 0 k p p' 0 f f'] assms by simp

lemma tracks_bind_eat:
  assumes "tracks g 1 (Suc k) p p'" "\<And>a. a \<in> results p \<Longrightarrow> tracks (\<lambda>_. True) 0 k (f a) (f' a)"
  shows "tracks g 1 (Suc k) (ebind p f) (ebind p' f')"
  using tracks_bind [of g 1 "Suc k" p p' 0 f f'] assms by simp

lemma tracks_or_refuse [trk]:
  assumes "tracks g s k p p'" "e \<notin> {Diverges, ParserPanic}"
  shows "tracks g s k (or_refuse p e) (or_refuse p' e)"
proof (rule tracksI)
  fix ts us assume *: "kinds_of ts = kinds_of us" "ready ts" "length ts \<le> k" "g (peek_kind ts)"
  have e: "outcome s ts us (parse_err e ts) (parse_err e us)"
    using tracksD [where g = g and k = k, OF tracks_err *] assms(2) by blast
  from tracksD [OF assms(1) *] show "outcome s ts us (or_refuse p e ts) (or_refuse p' e us)"
    by (cases rule: outcomeE) (use e in \<open>auto simp: or_refuse_def intro: outcome_ok\<close>)
qed

lemma tracks_rewind [trk]:
  assumes "tracks (\<lambda>_. True) 0 k p p'" "tracks (\<lambda>_. True) 0 k q q'" "\<And>a o'. rel_option (tracks (\<lambda>_. True) 0 k) (f a o') (f' a o')"
  shows "tracks g 0 k (rewind p f q) (rewind p' f' q')"
proof (rule tracksI)
  fix ts us assume *: "kinds_of ts = kinds_of us" "ready ts" "length ts \<le> k"
  note o = tracksD [OF assms(1) * TrueI]
  show "outcome 0 ts us (rewind p f q ts) (rewind p' f' q' us)"
  proof (cases "p ts")
    case (Inl e)
    from o show ?thesis by (cases rule: outcomeE) (use Inl in \<open>auto simp: rewind_def intro: outcome_err\<close>)
  next
    case (Inr r)
    then obtain j a where j: "j < length ts" "p ts = Inr (a, drop j ts)" "p' us = Inr (a, drop j us)"
      using o by (auto elim!: outcomeE)
    have pk: "peek_kind (drop j us) = peek_kind (drop j ts)" using *(1) by (intro peek_kind_map) (simp flip: drop_map)
    show ?thesis
    proof (cases "f a (peek_kind (drop j ts))")
      case None
      with assms(3) [of a "peek_kind (drop j ts)"] j pk tracksD [OF assms(2) * TrueI] show ?thesis
        by (simp add: rewind_def)
    next
      case (Some x)
      with assms(3) [of a "peek_kind (drop j ts)"] obtain x' where x': "f' a (peek_kind (drop j ts)) = Some x'"
        "tracks (\<lambda>_. True) 0 k x x'" by (auto simp: option_rel_Some1)
      have "outcome (0 + 0) ts us (ebind p (\<lambda>_. x) ts) (ebind p' (\<lambda>_. x') us)"
      proof (rule outcome_bind [of 0 ts us p p', OF o *(1)])
        fix a j assume "j < length ts"
        then show "outcome 0 (drop j ts) (drop j us) (x (drop j ts)) (x' (drop j us))"
          by (intro tracksD [OF x'(2)]) (use * ready_drop in \<open>auto simp flip: drop_map\<close>)
      qed
      with Some x' j pk show ?thesis by (simp add: rewind_def ebind_def)
    qed
  qed
qed

section \<open>Loops\<close>

lemma outcome_pwhile:
  assumes f: "\<And>s. I s \<Longrightarrow> tracks c 1 k (f s) (f' s)"
    and inv: "\<And>s s' b. I s \<Longrightarrow> (s', b) \<in> results (f s) \<Longrightarrow> I s'"
  shows "I s \<Longrightarrow> kinds_of ts = kinds_of us \<Longrightarrow> ready ts \<Longrightarrow> length ts \<le> k \<Longrightarrow> length ts < n \<Longrightarrow> length ts < n' \<Longrightarrow>
    outcome 0 ts us (pwhile n c f s ts) (pwhile n' c f' s us)"
proof (induction n arbitrary: n' s ts us)
  case (Suc m)
  then obtain m' where n': "n' = Suc m'" by (cases n') auto
  show ?case
  proof (cases "c (peek_kind ts)")
    case False
    with n' Suc.prems peek_kind_map [of ts us] show ?thesis by (auto simp: pif_def pcase_def ret_def outcome_def ready_def)
  next
    case True
    have "outcome (1 + 0) ts us (ebind (f s) (\<lambda>(s', again). if again then pwhile m c f s' else ret s') ts)
      (ebind (f' s) (\<lambda>(s', again). if again then pwhile m' c f' s' else ret s') us)"
    proof (rule outcome_bind [of 1 ts us "f s" "f' s", OF tracksD [OF f [OF Suc.prems(1)] Suc.prems(2-4) True] Suc.prems(2)], clarify)
      fix s' again j assume j: "1 \<le> j" "j < length ts" "f s ts = Inr ((s', again), drop j ts)"
      have "I s'" by (rule inv [OF Suc.prems(1), of s' again]) (use j(3) in \<open>auto simp: results_def\<close>)
      then have "outcome 0 (drop j ts) (drop j us) (pwhile m c f s' (drop j ts)) (pwhile m' c f' s' (drop j us))"
        by (rule Suc.IH) (use Suc.prems n' j ready_drop in \<open>auto simp flip: drop_map\<close>)
      moreover have "outcome 0 (drop j ts) (drop j us) (ret s' (drop j ts)) (ret s' (drop j us))"
        using outcome_stop [of "drop j ts"] j(2) by (simp add: ret_def)
      ultimately show "outcome 0 (drop j ts) (drop j us) ((if again then pwhile m c f s' else ret s') (drop j ts))
        ((if again then pwhile m' c f' s' else ret s') (drop j us))" by simp
    qed
    with True n' peek_kind_map [OF Suc.prems(2)] show ?thesis
      by (auto simp: pif_def pcase_def intro: outcome_0)
  qed
qed simp

lemma tracks_pwhile_inv:
  assumes "\<And>s. I s \<Longrightarrow> tracks c 1 k (f s) (f' s)" "\<And>s s' b. I s \<Longrightarrow> (s', b) \<in> results (f s) \<Longrightarrow> I s'" "I s" "k < n" "k < n'"
  shows "tracks g 0 k (pwhile n c f s) (pwhile n' c f' s)"
proof (rule tracksI)
  fix ts us assume "kinds_of ts = kinds_of us" "ready ts" "length ts \<le> k"
  with assms(3-5) show "outcome 0 ts us (pwhile n c f s ts) (pwhile n' c f' s us)"
    by (intro outcome_pwhile [of I c k f f', OF assms(1,2)]) simp_all
qed

lemma tracks_pwhile [trk]:
  assumes "k < n" "k < n'" "\<And>s. tracks c 1 k (f s) (f' s)"
  shows "tracks g 0 k (pwhile n c f s) (pwhile n' c f' s)"
  using assms by (intro tracks_pwhile_inv [where I = "\<lambda>_. True"]) auto

lemma results_ret: "results (ret a) = {a}"
  by (auto simp: results_def ret_def)

lemma results_bindE:
  assumes "b \<in> results (ebind p f)"
  obtains a where "a \<in> results p" "b \<in> results (f a)"
  using assms by (auto simp: results_def ebind_eq_Inr)

lemma results_pcase: "results (pcase f) \<subseteq> (\<Union>o'. results (f o'))"
  by (auto simp: results_def pcase_def)

lemma results_pif: "results (pif c p q) \<subseteq> results p \<union> results q"
  by (auto simp: results_def pif_def pcase_def)

lemma results_err [simp]: "results (parse_err k) = {}" "results (refuse f) = {}"
  by (auto simp: results_def parse_err_def refuse_def split: list.splits)

lemma results_pwhile:
  assumes "\<And>s s' b. I s \<Longrightarrow> (s', b) \<in> results (f s) \<Longrightarrow> I s'"
  shows "I s \<Longrightarrow> a \<in> results (pwhile n c f s) \<Longrightarrow> I a"
proof (induction n arbitrary: s)
  case (Suc n)
  then consider "a \<in> results (ebind (f s) (\<lambda>(s', again). if again then pwhile n c f s' else ret s'))" | "a = s"
    using results_pif by (fastforce simp: results_ret)
  then show ?case
  proof cases
    case 1
    then obtain s' b where "(s', b) \<in> results (f s)" "a \<in> results (if b then pwhile n c f s' else ret s')"
      by (auto elim!: results_bindE)
    with assms [OF Suc.prems(1)] Suc.IH [of s'] show ?thesis by (auto simp: results_ret split: if_splits)
  qed (use Suc in simp)
qed simp

lemma results_ploop:
  assumes "\<And>s s'. I s \<Longrightarrow> s' \<in> results (f s) \<Longrightarrow> I s'" "I s" "a \<in> results (ploop n c f s)"
  shows "I a"
proof (rule results_pwhile [where I = I, OF _ assms(2) assms(3) [unfolded ploop_def]])
  fix s s' b assume "I s" "(s', b) \<in> results (ebind (f s) (\<lambda>s'. ret (s', True)))"
  then show "I s'" by (auto elim!: results_bindE simp: results_ret intro: assms(1))
qed

lemma tracks_eat_then:
  assumes "tracks g 1 k p p'" "\<And>a. tracks (\<lambda>_. True) 0 k (f a) (f' a)"
  shows "tracks g 1 k (ebind p f) (ebind p' f')"
  using tracks_bind [of g 1 k p p' 0 f f'] assms tracks_weaken [of "\<lambda>_. True" 0 k _ _ 0 "k - 1" "\<lambda>_. True"] by fastforce

lemma tracks_ploop_inv:
  assumes "\<And>s. I s \<Longrightarrow> tracks c 1 k (f s) (f' s)" "\<And>s s'. I s \<Longrightarrow> s' \<in> results (f s) \<Longrightarrow> I s'" "I s" "k < n" "k < n'"
  shows "tracks g 0 k (ploop n c f s) (ploop n' c f' s)"
  unfolding ploop_def
proof (rule tracks_pwhile_inv [where I = I])
  show "tracks c 1 k (ebind (f s) (\<lambda>s'. ret (s', True))) (ebind (f' s) (\<lambda>s'. ret (s', True)))" if "I s" for s
    using assms(1) [OF that] by (rule tracks_eat_then) (rule tracks_ret)
qed (use assms in \<open>auto elim!: results_bindE simp: results_ret\<close>)

lemma tracks_ploop [trk]:
  assumes "k < n" "k < n'" "\<And>s. tracks c 1 k (f s) (f' s)"
  shows "tracks g 0 k (ploop n c f s) (ploop n' c f' s)"
  using assms by (intro tracks_ploop_inv [where I = "\<lambda>_. True"]) auto

lemma tracks_prepeat [trk]:
  assumes "k < n" "k < n'" "\<And>s. tracks (\<lambda>_. True) 1 k (f s) (f' s)"
  shows "tracks g 0 k (prepeat n f s) (prepeat n' f' s)"
  unfolding prepeat_def by (intro tracks_pwhile assms)

text \<open>The two scans of a conditional: they never pass the end marker.\<close>

lemma ready_tl: "ready (t # u # ts) \<Longrightarrow> ready (u # ts)"
  by (auto simp: ready_def)

lemma outcome_Cons: "outcome 0 ts us r r' \<Longrightarrow> outcome 0 (t # ts) (u # us) r r'"
  unfolding outcome_def by (metis drop_Suc_Cons le0 length_Cons nth_Cons_Suc Suc_less_eq)

lemma tracks_skip [trk]: "tracks g 0 k (skip_if_separators d) (skip_if_separators d)"
proof (rule tracksI)
  fix ts us assume "kinds_of ts = kinds_of us" "ready ts"
  then show "outcome 0 ts us (skip_if_separators d ts) (skip_if_separators d us)"
  proof (induction d ts arbitrary: us rule: skip_if_separators.induct)
    case (2 d t)
    then obtain u where "us = [u]" "tk_kind u = tk_kind t" by (cases us) auto
    with 2 show ?case by (auto simp: ready_def intro: outcome_stop)
  next
    case (3 d t u ts)
    then obtain t' u' ts' where us: "us = t' # u' # ts'" "tk_kind t' = tk_kind t" "kinds_of (u # ts) = kinds_of (u' # ts')"
      by (cases us; cases "tl us") auto
    note IH = 3(1,3) [OF _ us(3) ready_tl [OF 3(5)], THEN outcome_Cons, of t t']
      3(2) [OF _ _ us(3) ready_tl [OF 3(5)], THEN outcome_Cons, of t t']
    show ?case unfolding us(1) skip_if_separators.simps us(2)
      by (split token_kind.split, intro conjI impI; (rule outcome_stop)?) (use IH in \<open>auto intro: outcome_stop\<close>)
  qed (simp add: ready_def)
qed

lemma tracks_close [trk]: "tracks g 0 k (close_if_blocks d) (close_if_blocks d)"
proof (rule tracksI)
  fix ts us assume "kinds_of ts = kinds_of us" "ready ts"
  then show "outcome 0 ts us (close_if_blocks d ts) (close_if_blocks d us)"
  proof (induction d ts arbitrary: us rule: close_if_blocks.induct)
    case (2 d t)
    then obtain u where "us = [u]" "tk_kind u = tk_kind t" by (cases us) auto
    with 2 show ?case by (auto simp: ready_def intro: outcome_stop)
  next
    case (3 d t u ts)
    then obtain t' u' ts' where us: "us = t' # u' # ts'" "tk_kind t' = tk_kind t" "kinds_of (u # ts) = kinds_of (u' # ts')"
      by (cases us; cases "tl us") auto
    note IH = 3(1,2) [OF _ _ us(3) ready_tl [OF 3(4)], THEN outcome_Cons, of t t']
    show ?case
    proof (cases "d = 0")
      case False
      then show ?thesis unfolding us(1) close_if_blocks.simps us(2)
        by (simp only: if_False, split token_kind.split, intro conjI impI; (rule outcome_stop)?) (use IH in \<open>auto intro: outcome_stop\<close>)
    qed (auto simp: us(1) intro: outcome_stop)
  qed (auto simp: ready_def intro: outcome_stop)
qed

end
