(* ===== verification/Parser_Gives.thy ===== *)
theory Parser_Gives
  imports Parser_Tracks Call_Graph
begin

text \<open>
  What the parser returns. \<open>gives g p Q\<close>: on tokens whose numbers are those of the lexer, the first of which satisfies \<open>g\<close>, every
  value that \<open>p\<close> returns satisfies \<open>Q\<close>. Its rules follow the combinators; the guard carries the choices of the \<open>else if\<close>
  chains. With it every expression that is parsed has 64-bit literals and calls no built-in primitive by name.
\<close>

section \<open>Partial correctness of parsing functions\<close>

definition numbers_ok :: "token list \<Rightarrow> bool" where
  "numbers_ok ts \<longleftrightarrow> (\<forall>t \<in> set ts. \<forall>n. tk_kind t = Number n \<longrightarrow> 0 \<le> n \<and> n \<le> i64_MAX)"

definition gives :: "(token_kind option \<Rightarrow> bool) \<Rightarrow> 'a parser \<Rightarrow> ('a \<Rightarrow> bool) \<Rightarrow> bool" where
  "gives g p Q \<longleftrightarrow> (\<forall>ts a ts'. numbers_ok ts \<longrightarrow> g (peek_kind ts) \<longrightarrow> p ts = Inr (a, ts') \<longrightarrow> Q a \<and> numbers_ok ts')"

named_theorems gv \<open>rules of the combinators for what a parsing function returns\<close>

abbreviation whatever :: "'a \<Rightarrow> bool" where
  "whatever \<equiv> \<lambda>_. True"

lemma givesI: "(\<And>ts a ts'. numbers_ok ts \<Longrightarrow> g (peek_kind ts) \<Longrightarrow> p ts = Inr (a, ts') \<Longrightarrow> Q a \<and> numbers_ok ts') \<Longrightarrow> gives g p Q"
  unfolding gives_def by blast

lemma givesD: "gives g p Q \<Longrightarrow> numbers_ok ts \<Longrightarrow> g (peek_kind ts) \<Longrightarrow> p ts = Inr (a, ts') \<Longrightarrow> Q a \<and> numbers_ok ts'"
  unfolding gives_def by blast

lemma gives_mono: "gives g' p P \<Longrightarrow> (\<And>o'. g o' \<Longrightarrow> g' o') \<Longrightarrow> (\<And>a. P a \<Longrightarrow> Q a) \<Longrightarrow> gives g p Q"
  unfolding gives_def by blast

lemma gives_ret [gv]: "Q a \<Longrightarrow> gives g (ret a) Q"
  by (simp add: gives_def ret_def)

lemma gives_refuse [gv]: "gives g (refuse f) Q"
  by (auto simp: gives_def refuse_def split: list.splits)

lemma gives_err [gv]: "gives g (parse_err k) Q"
  unfolding parse_err_def by (rule gives_refuse)

lemma gives_bind [gv]:
  assumes "gives g p P" "\<And>a. P a \<Longrightarrow> gives whatever (f a) Q"
  shows "gives g (ebind p f) Q"
proof (rule givesI)
  fix ts a ts' assume *: "numbers_ok ts" "g (peek_kind ts)" "ebind p f ts = Inr (a, ts')"
  then obtain b us where b: "p ts = Inr (b, us)" "f b us = Inr (a, ts')" by (auto simp: ebind_eq_Inr)
  from givesD [OF assms(1) *(1,2) b(1)] have "P b" "numbers_ok us" by auto
  from givesD [OF assms(2) [OF this(1)] this(2) _ b(2)] show "Q a \<and> numbers_ok ts'" by simp
qed

lemma gives_pcase [gv]: "(\<And>o'. g o' \<Longrightarrow> gives (\<lambda>x. x = o') (f o') Q) \<Longrightarrow> gives g (pcase f) Q"
  unfolding gives_def pcase_def by blast

lemma gives_pif [gv]: "gives (\<lambda>o'. g o' \<and> c o') p Q \<Longrightarrow> gives (\<lambda>o'. g o' \<and> \<not> c o') q Q \<Longrightarrow> gives g (pif c p q) Q"
  unfolding gives_def pif_def pcase_def by (metis (full_types))

lemma gives_if [gv]: "(b \<Longrightarrow> gives g p Q) \<Longrightarrow> (\<not> b \<Longrightarrow> gives g q Q) \<Longrightarrow> gives g (if b then p else q) Q"
  by simp

lemma gives_option [gv]: "(v = None \<Longrightarrow> gives g p Q) \<Longrightarrow> (\<And>a. v = Some a \<Longrightarrow> gives g (f a) Q) \<Longrightarrow> gives g (case v of None \<Rightarrow> p | Some a \<Rightarrow> f a) Q"
  by (cases v) simp_all

lemma gives_prod [gv]: "(\<And>a b. v = (a, b) \<Longrightarrow> gives g (f a b) Q) \<Longrightarrow> gives g (case v of (a, b) \<Rightarrow> f a b) Q"
  by (cases v) simp

lemma gives_let [gv]: "gives g (f a) Q \<Longrightarrow> gives g (let x = a in f x) Q"
  by simp

lemma numbers_ok_cursor: "numbers_ok ts \<Longrightarrow> numbers_ok (cursor_step ts)"
  by (cases ts rule: cursor_step.cases) (auto simp: numbers_ok_def)

lemma gives_advance [gv]: "gives g tok_advance whatever"
  by (auto simp: gives_def tok_advance_def numbers_ok_cursor)

lemma gives_expect [gv]:
  "gives g (expect_kind k) whatever" "gives g (expect_ident w) whatever" "gives g (expect_attribute w) whatever"
  unfolding expect_kind_def expect_ident_def expect_attribute_def by (rule gv)+

lemma read_cursor:
  "expect_ident_any ts = Inr (x, ts') \<Longrightarrow> ts' = cursor_step ts"
  "expect_string ts = Inr (s, ts') \<Longrightarrow> ts' = cursor_step ts"
  "expect_number ts = Inr (m, ts') \<Longrightarrow> ts' = cursor_step ts \<and> (\<exists>t us. ts = t # us \<and> tk_kind t = Number m)"
  by (cases ts; auto simp: expect_ident_any_def expect_string_def expect_number_def pcase_def peek_kind_def refuse_def ebind_def
      tok_advance_def ret_def split: token_kind.splits)+

lemma gives_token [gv]: "gives g expect_ident_any whatever" "gives g expect_string whatever"
  by (auto simp: gives_def numbers_ok_cursor dest!: read_cursor)

lemma gives_number [gv]: "gives g expect_number (\<lambda>n. 0 \<le> n \<and> n \<le> i64_MAX)"
  by (rule givesI) (auto dest!: read_cursor(3) simp: numbers_ok_cursor, auto simp: numbers_ok_def)

lemma gives_required [gv]: "gives g (required v k) (\<lambda>a. v = Some a)"
  by (cases v) (simp_all add: required_def gives_ret gives_err)

lemma gives_reject_if [gv]: "gives g (reject_if b k) (\<lambda>_. \<not> b)"
  unfolding reject_if_def by (intro gv)

lemma gives_any_guard: "gives whatever p Q \<Longrightarrow> gives g p Q"
  by (rule gives_mono) auto

lemma gives_or_refuse [gv]: "gives g p Q \<Longrightarrow> gives g (or_refuse p k) Q"
  by (auto simp: gives_def or_refuse_def parse_err_def refuse_def split: sum.splits list.splits)

lemma gives_pwhile:
  assumes "\<And>s. I s \<Longrightarrow> gives c (f s) (\<lambda>(s', _). I s')" "I s"
  shows "gives g (pwhile n c f s) I"
  using assms(2)
proof (induction n arbitrary: s g)
  case (Suc n)
  have "gives whatever (if again then pwhile n c f s' else ret s') I" if "I s'" for s' again
    using Suc.IH [OF that] that by (auto intro: gives_ret)
  then show ?case unfolding pwhile.simps
    by (intro gives_pif gives_bind [OF gives_mono [OF assms(1) [OF Suc.prems]]] gives_ret Suc.prems) auto
qed (simp add: gives_err)

lemma gives_ploop:
  assumes "\<And>s. I s \<Longrightarrow> gives c (f s) I" "I s"
  shows "gives g (ploop n c f s) I"
  unfolding ploop_def by (rule gives_pwhile [where I = I]) (rule gv assms | assumption | simp)+

lemma gives_prepeat:
  assumes "\<And>s. I s \<Longrightarrow> gives whatever (f s) (\<lambda>(s', _). I s')" "I s"
  shows "gives g (prepeat n f s) I"
  unfolding prepeat_def by (rule gives_pwhile [where I = I]) (use assms in simp_all)

lemma skip_numbers: "skip_if_separators d ts = Inr (e, us) \<Longrightarrow> set us \<subseteq> set ts"
  by (induction d ts rule: skip_if_separators.induct) (auto split: token_kind.splits if_splits simp: parse_err_def refuse_def)

lemma close_numbers: "close_if_blocks d ts = Inr (e, us) \<Longrightarrow> set us \<subseteq> set ts"
  by (induction d ts rule: close_if_blocks.induct) (auto split: token_kind.splits if_splits simp: parse_err_def refuse_def)

lemma gives_skip [gv]: "gives g (skip_if_separators d) whatever" "gives g (close_if_blocks d) whatever"
  by (auto simp: gives_def numbers_ok_def dest!: skip_numbers close_numbers)

end
