(* ===== verification/Parser_Print.thy ===== *)
theory Parser_Print
  imports Parser_Tracks
begin

text \<open>
  The inverse of the expression parser: \<open>show_expr\<close> writes an expression as token kinds, with parentheses where the
  precedence asks for them and nowhere else, and \<open>printable\<close> says which expressions have a spelling. The grammar comment of
  \<open>src/src/parser.rs\<close> is the reference for both.
\<close>

section \<open>Writing expressions\<close>

definition op_token :: "binop \<Rightarrow> token_kind" where
  "op_token op =
     (case op of
        OpAdd \<Rightarrow> Plus | OpSub \<Rightarrow> Minus | OpMul \<Rightarrow> Star | OpDiv \<Rightarrow> Slash | OpMod \<Rightarrow> Percent
      | OpEq \<Rightarrow> EqualEqual | OpNotEq \<Rightarrow> NotEqual | OpGt \<Rightarrow> Gt | OpLt \<Rightarrow> Lt | OpGtEq \<Rightarrow> GtEq | OpLtEq \<Rightarrow> LtEq
      | OpAnd \<Rightarrow> Ident ''and'' | OpOr \<Rightarrow> Ident ''or'')"

definition op_level :: "binop \<Rightarrow> nat" where
  "op_level op =
     (case op of
        OpOr \<Rightarrow> 1 | OpAnd \<Rightarrow> 2 | OpAdd \<Rightarrow> 4 | OpSub \<Rightarrow> 4 | OpMul \<Rightarrow> 5 | OpDiv \<Rightarrow> 5 | OpMod \<Rightarrow> 5 | _ \<Rightarrow> 3)"

text \<open>The level of the grammar that an expression belongs to; a conditional extends as far as it can, so it is at the outermost.\<close>

definition expr_level :: "expr \<Rightarrow> nat" where
  "expr_level e = (case e of EBinary op _ _ \<Rightarrow> op_level op | EIf _ _ _ \<Rightarrow> 0 | ENot _ \<Rightarrow> 6 | ENeg _ \<Rightarrow> 6 | _ \<Rightarrow> 7)"

definition paren :: "bool \<Rightarrow> token_kind list \<Rightarrow> token_kind list" where
  "paren b ks = (if b then LParen # ks @ [RParen] else ks)"

text \<open>The level of the left operand: a comparison does not chain.\<close>

definition left_level :: "binop \<Rightarrow> nat" where
  "left_level op = (if op_level op = 3 then 4 else op_level op)"

fun commas :: "token_kind list list \<Rightarrow> token_kind list" where
  "commas [] = []"
| "commas [x] = x"
| "commas (x # y # ys) = x @ Comma # commas (y # ys)"

definition show_call :: "string \<Rightarrow> token_kind list list \<Rightarrow> token_kind list" where
  "show_call name args = Ident name # LParen # commas args @ [RParen]"

definition show_lambda :: "string \<Rightarrow> token_kind list \<Rightarrow> token_kind list" where
  "show_lambda v body = Ident v # FatArrow # body"

definition show_braces :: "token_kind list list \<Rightarrow> token_kind list" where
  "show_braces fs = LBrace # commas fs @ [RBrace]"

definition show_binder :: "string option \<Rightarrow> token_kind list" where
  "show_binder b = [Ident (case b of None \<Rightarrow> ''_'' | Some x \<Rightarrow> x)]"

definition show_binders :: "string option list \<Rightarrow> token_kind list" where
  "show_binders bs = (if bs = [] then [] else LParen # commas (map show_binder bs) @ [RParen])"

fun show_expr :: "expr \<Rightarrow> token_kind list" where
  "show_expr (ENumber n) = [Number n]"
| "show_expr (EText s) = [StringLit s]"
| "show_expr (EBytes b) = [BytesLit b]"
| "show_expr (EIdent x) = [Ident x]"
| "show_expr (EField e f) = show_expr e @ [Dot, Ident f]"
| "show_expr (EBinary op l r) =
     paren (expr_level l < left_level op) (show_expr l) @ op_token op # paren (expr_level r \<le> op_level op) (show_expr r)"
| "show_expr (ECall f args) = show_call f (map show_expr args)"
| "show_expr (EIf c t e) = Ident ''if'' # show_expr c @ Ident ''then'' # show_expr t @ Ident ''else'' # show_expr e"
| "show_expr (ENot e) = Ident ''not'' # paren (expr_level e < 6) (show_expr e)"
| "show_expr (ENeg e) = Minus # paren (expr_level e < 6) (show_expr e)"
| "show_expr (EQuantifier q c v p) = show_call (case q of QAll \<Rightarrow> ''all'' | QAny \<Rightarrow> ''any'') [show_expr c, show_lambda v (show_expr p)]"
| "show_expr (EFold c i a v b) = show_call ''fold'' [show_expr c, show_expr i, [Ident a], show_lambda v (show_expr b)]"
| "show_expr (EMap c v b) = show_call ''map'' [show_expr c, show_lambda v (show_expr b)]"
| "show_expr (EFilter c v b) = show_call ''filter'' [show_expr c, show_lambda v (show_expr b)]"
| "show_expr (EOk e) = show_call ''Ok'' [show_expr e]"
| "show_expr (EErr e) = show_call ''Err'' [show_expr e]"
| "show_expr (EMatchResult t ov ob ev eb) =
     show_call ''match_result'' [show_expr t, show_lambda ov (show_expr ob), show_lambda ev (show_expr eb)]"
| "show_expr (ERecord n fs) = Ident n # show_braces (map (\<lambda>(f, e). Ident f # Colon # show_expr e) fs)"
| "show_expr (EConcat args) = show_call ''concat'' (map show_expr args)"
| "show_expr (ERead r) = show_call ''read'' [[Ident r]]"
| "show_expr (EFetch c e) = show_call ''fetch'' [[Ident c], show_expr e]"
| "show_expr (ERandom r) = show_call ''random'' [[Ident r]]"
| "show_expr (EJsonEscape e) = show_call ''json_escape'' [show_expr e]"
| "show_expr (EParseInt e) = show_call ''parse_int'' [show_expr e]"
| "show_expr ENowUnix = show_call ''now_unix'' []"
| "show_expr (EStartsWith a b) = show_call ''starts_with'' [show_expr a, show_expr b]"
| "show_expr (ELength e) = show_call ''length'' [show_expr e]"
| "show_expr (EContains a b) = show_call ''contains'' [show_expr a, show_expr b]"
| "show_expr (EAbs e) = show_call ''abs'' [show_expr e]"
| "show_expr (ELe32 e) = show_call ''le32'' [show_expr e]"
| "show_expr (ELe64 e) = show_call ''le64'' [show_expr e]"
| "show_expr (EEndsWith a b) = show_call ''ends_with'' [show_expr a, show_expr b]"
| "show_expr (EMin a b) = show_call ''min'' [show_expr a, show_expr b]"
| "show_expr (EMax a b) = show_call ''max'' [show_expr a, show_expr b]"
| "show_expr (EArenaScope e) = show_call ''arena_scope'' [show_expr e]"
| "show_expr (EAbortIf e) = show_call ''abort_if'' [show_expr e]"
| "show_expr (EBitAnd a b) = show_call ''band'' [show_expr a, show_expr b]"
| "show_expr (EBitOr a b) = show_call ''bor'' [show_expr a, show_expr b]"
| "show_expr (EBitXor a b) = show_call ''bxor'' [show_expr a, show_expr b]"
| "show_expr (EBitNot e) = show_call ''bnot'' [show_expr e]"
| "show_expr (EShl a b) = show_call ''shl'' [show_expr a, show_expr b]"
| "show_expr (EShr a b) = show_call ''shr'' [show_expr a, show_expr b]"
| "show_expr (ESubstring a b c) = show_call ''substring'' [show_expr a, show_expr b, show_expr c]"
| "show_expr (EByteAt a b) = show_call ''byte_at'' [show_expr a, show_expr b]"
| "show_expr (ETryByteAt a b) = show_call ''try_byte_at'' [show_expr a, show_expr b]"
| "show_expr (EFoldBytes c i a v x b) =
     show_call ''fold_bytes'' [show_expr c, show_expr i, [Ident a], [Ident v], show_lambda x (show_expr b)]"
| "show_expr (EVariantConstruct c v fs) =
     Ident c # DoubleColon # Ident v # (if fs = [] then [] else show_braces (map (\<lambda>(f, e). Ident f # Colon # show_expr e) fs))"
| "show_expr (EMatchVariant s arms) =
     Ident ''match'' # show_expr s @ [Colon, Newline, Indent] @
       concat (map (\<lambda>a. Ident (arm_variant a) # show_binders (arm_binders a) @ FatArrow # show_expr (arm_body a) @ [Newline]) arms) @ [Dedent]"

text \<open>The names with a meaning of their own at a call, as \<open>PRIMITIVE_CALL_NAMES\<close> lists them, and the words that open an expression.\<close>

definition primitive_call_names :: "string list" where
  "primitive_call_names = [''Err'', ''Ok'', ''abort_if'', ''abs'', ''all'', ''any'', ''arena_scope'', ''band'', ''bnot'', ''bor'',
     ''bxor'', ''byte_at'', ''try_byte_at'', ''concat'', ''contains'', ''count'', ''ends_with'', ''fetch'', ''filter'', ''fold'',
     ''fold_bytes'', ''json_escape'', ''le32'', ''le64'', ''length'', ''map'', ''match_result'', ''max'', ''min'', ''now_unix'',
     ''parse_int'', ''random'', ''read'', ''shl'', ''shr'', ''starts_with'', ''substring'', ''sum'']"

definition opening_word :: "string \<Rightarrow> bool" where
  "opening_word x \<longleftrightarrow> x = ''if'' \<or> x = ''match'' \<or> x = ''not''"

definition is_chain :: "expr \<Rightarrow> bool" where
  "is_chain e \<longleftrightarrow> (case e of EIdent _ \<Rightarrow> True | EField _ _ \<Rightarrow> True | _ \<Rightarrow> False)"

fun printable :: "expr \<Rightarrow> bool" where
  "printable (ENumber n) = (0 \<le> n \<and> n \<le> i64_MAX)"
| "printable (EText s) = True"
| "printable (EBytes b) = True"
| "printable (EIdent x) = (\<not> opening_word x)"
| "printable (EField e f) = (is_chain e \<and> printable e)"
| "printable (EBinary op l r) = (printable l \<and> printable r)"
| "printable (ECall f args) = (\<not> opening_word f \<and> f \<notin> set primitive_call_names \<and> list_all printable args)"
| "printable (EIf c t e) = (printable c \<and> printable t \<and> printable e)"
| "printable (ENot e) = printable e"
| "printable (ENeg e) = printable e"
| "printable (EQuantifier q c v p) = (printable c \<and> printable p)"
| "printable (EFold c i a v b) = (printable c \<and> printable i \<and> printable b)"
| "printable (EMap c v b) = (printable c \<and> printable b)"
| "printable (EFilter c v b) = (printable c \<and> printable b)"
| "printable (EOk e) = printable e"
| "printable (EErr e) = printable e"
| "printable (EMatchResult t ov ob ev eb) = (printable t \<and> printable ob \<and> printable eb)"
| "printable (ERecord n fs) = (\<not> opening_word n \<and> list_all (\<lambda>(f, e). printable e) fs)"
| "printable (EConcat args) = (args \<noteq> [] \<and> list_all printable args)"
| "printable (ERead r) = True"
| "printable (EFetch c e) = printable e"
| "printable (ERandom r) = True"
| "printable (EJsonEscape e) = printable e"
| "printable (EParseInt e) = printable e"
| "printable ENowUnix = True"
| "printable (EStartsWith a b) = (printable a \<and> printable b)"
| "printable (ELength e) = printable e"
| "printable (EContains a b) = (printable a \<and> printable b)"
| "printable (EAbs e) = printable e"
| "printable (ELe32 e) = printable e"
| "printable (ELe64 e) = printable e"
| "printable (EEndsWith a b) = (printable a \<and> printable b)"
| "printable (EMin a b) = (printable a \<and> printable b)"
| "printable (EMax a b) = (printable a \<and> printable b)"
| "printable (EArenaScope e) = printable e"
| "printable (EAbortIf e) = printable e"
| "printable (EBitAnd a b) = (printable a \<and> printable b)"
| "printable (EBitOr a b) = (printable a \<and> printable b)"
| "printable (EBitXor a b) = (printable a \<and> printable b)"
| "printable (EBitNot e) = printable e"
| "printable (EShl a b) = (printable a \<and> printable b)"
| "printable (EShr a b) = (printable a \<and> printable b)"
| "printable (ESubstring a b c) = (printable a \<and> printable b \<and> printable c)"
| "printable (EByteAt a b) = (printable a \<and> printable b)"
| "printable (ETryByteAt a b) = (printable a \<and> printable b)"
| "printable (EFoldBytes c i a v x b) = (printable c \<and> printable i \<and> printable b)"
| "printable (EVariantConstruct c v fs) = (\<not> opening_word c \<and> list_all (\<lambda>(f, e). printable e) fs)"
| "printable (EMatchVariant s arms) =
     (printable s \<and> list_all (\<lambda>a. Some ''_'' \<notin> set (arm_binders a) \<and> printable (arm_body a)) arms)"

end
