(* ===== verification/Rule_Facts.thy ===== *)
theory Rule_Facts
  imports Call_Graph
begin

text \<open>
  What \<open>src/src/verifier.rs\<close> collects from the logic of a rule: the paths it reads and the rules it calls (the facts of the
  purity proof), its call sites, and the names its lambdas and arms bind. A \<open>HashSet\<close> is a set; the accumulators that the walks
  fill are their results.
\<close>

type_synonym read_path = "string list"

type_synonym facts = "read_path set \<times> read_path set"

section \<open>Paths\<close>

fun expr_to_path :: "expr \<Rightarrow> read_path option" where
  "expr_to_path (EIdent name) = Some [name]"
| "expr_to_path (EField base fld) =
     (case expr_to_path base of None \<Rightarrow> None | Some segs \<Rightarrow> Some (segs @ [fld]))"
| "expr_to_path _ = None"

section \<open>Reads and calls of an expression\<close>

text \<open>The facts of an expression itself, without those of its parts.\<close>

definition own_facts :: "expr \<Rightarrow> facts" where
  "own_facts e = (case e of
     EIdent _ \<Rightarrow> ((case expr_to_path e of Some p \<Rightarrow> {p} | None \<Rightarrow> {}), {})
   | EField _ _ \<Rightarrow> ((case expr_to_path e of Some p \<Rightarrow> {p} | None \<Rightarrow> {}), {})
   | ECall name _ \<Rightarrow> ({}, {[name]})
   | ERead name \<Rightarrow> ({[name]}, {})
   | ERandom name \<Rightarrow> ({[name]}, {})
   | EFetch name _ \<Rightarrow> ({[name]}, {})
   | ENowUnix \<Rightarrow> ({[''now'']}, {})
   | _ \<Rightarrow> ({}, {}))"

text \<open>The parts that are walked, each with the names that its form binds in it. A path is not walked further.\<close>

definition binder_names :: "'e match_arm \<Rightarrow> string list" where
  "binder_names a = concat (map (\<lambda>b. case b of Some n \<Rightarrow> [n] | None \<Rightarrow> []) (arm_binders a))"

definition scoped_children :: "expr \<Rightarrow> (string list \<times> expr) list" where
  "scoped_children e = (case e of
     EField _ _ \<Rightarrow> []
   | EFold coll init acc item body \<Rightarrow> [([], coll), ([], init), ([acc, item], body)]
   | EQuantifier _ coll x body \<Rightarrow> [([], coll), ([x], body)]
   | EMap coll x body \<Rightarrow> [([], coll), ([x], body)]
   | EFilter coll x body \<Rightarrow> [([], coll), ([x], body)]
   | EMatchResult t okv okb errv errb \<Rightarrow> [([], t), ([okv], okb), ([errv], errb)]
   | EFoldBytes t init acc byt idx body \<Rightarrow> [([], t), ([], init), ([acc, byt, idx], body)]
   | EMatchVariant s arms \<Rightarrow> ([], s) # map (\<lambda>a. (binder_names a, arm_body a)) arms
   | _ \<Rightarrow> map (Pair []) (expr_children e))"

lemma size_scoped [termination_simp]: "(bound, c) \<in> set (scoped_children e) \<Longrightarrow> size c < size e"
  by (rule size_child) (cases e; auto simp: scoped_children_def expr_children_def)

definition outside :: "string list \<Rightarrow> read_path set \<Rightarrow> read_path set" where
  "outside bound ps = Set.filter (\<lambda>p. case p of [] \<Rightarrow> True | base # _ \<Rightarrow> base \<notin> set bound) ps"

function collect_expr_facts :: "expr \<Rightarrow> facts" where
  "collect_expr_facts e =
     (let parts = map (\<lambda>(bound, c). case collect_expr_facts c of (rs, cs) \<Rightarrow> (outside bound rs, cs)) (scoped_children e) in
      (\<Union> (set (fst (own_facts e) # map fst parts)), \<Union> (set (snd (own_facts e) # map snd parts))))"
  by pat_completeness auto
termination by (relation "measure size") (auto simp: size_scoped)

declare collect_expr_facts.simps [simp del]

section \<open>Facts of a rule's logic\<close>

record logic_facts =
  lf_reads :: "read_path set"
  lf_calls :: "read_path set"
  lf_local_reads :: "read_path set"

definition collect_logic_facts :: "logic_stmt \<Rightarrow> logic_facts" where
  "collect_logic_facts l =
     (let binding_names = map fst (l_bindings l);
          parts = map (\<lambda>(_, e). collect_expr_facts e) (l_bindings l) @ [collect_expr_facts (l_value l)];
          rs = \<Union> (set (map fst parts)); cs = \<Union> (set (map snd parts));
          local = Set.filter (\<lambda>p. case p of [] \<Rightarrow> False | base # _ \<Rightarrow> base \<in> set binding_names) rs in
      \<lparr>lf_reads = rs - local, lf_calls = cs, lf_local_reads = local\<rparr>)"

section \<open>Call sites\<close>

function collect_call_sites :: "expr \<Rightarrow> (string \<times> nat) list" where
  "collect_call_sites e =
     (case e of ECall name args \<Rightarrow> [(name, length args)] | _ \<Rightarrow> []) @ concat (map collect_call_sites (expr_children e))"
  by pat_completeness auto
termination by (relation "measure size") (auto simp: size_child)

declare collect_call_sites.simps [simp del]

section \<open>Names that lambdas and arms bind\<close>

definition own_binders :: "expr \<Rightarrow> string list" where
  "own_binders e = (case e of
     EQuantifier _ _ x _ \<Rightarrow> [x] | EMap _ x _ \<Rightarrow> [x] | EFilter _ x _ \<Rightarrow> [x] | EFold _ _ acc item _ \<Rightarrow> [acc, item]
   | EMatchResult _ okv _ errv _ \<Rightarrow> [okv, errv] | EFoldBytes _ _ acc byt idx _ \<Rightarrow> [acc, byt, idx]
   | EMatchVariant _ arms \<Rightarrow> concat (map binder_names arms) | _ \<Rightarrow> [])"

text \<open>The parts of a form; a field access is a leaf.\<close>

definition walked :: "expr \<Rightarrow> expr list" where
  "walked e = (case e of EField _ _ \<Rightarrow> [] | _ \<Rightarrow> expr_children e)"

lemma size_walked [termination_simp]: "c \<in> set (walked e) \<Longrightarrow> size c < size e"
  by (rule size_child) (cases e; simp add: walked_def)

function collect_lambda_bound_names :: "expr \<Rightarrow> string set" where
  "collect_lambda_bound_names e = set (own_binders e) \<union> \<Union> (set (map collect_lambda_bound_names (walked e)))"
  by pat_completeness auto
termination by (relation "measure size") (auto simp: size_walked)

declare collect_lambda_bound_names.simps [simp del]

section \<open>Fields of names\<close>

text \<open>The parser puts \<open>.f\<close> after names and paths only.\<close>

function fields_of_paths :: "expr \<Rightarrow> bool" where
  "fields_of_paths e \<longleftrightarrow>
     (case e of EField b _ \<Rightarrow> expr_to_path b \<noteq> None | _ \<Rightarrow> True) \<and> list_all fields_of_paths (expr_children e)"
  by pat_completeness auto
termination by (relation "measure size") (auto simp: size_child)

declare fields_of_paths.simps [simp del]

end
