(* ===== verification/Parser_Sound_Expr.thy ===== *)
theory Parser_Sound_Expr
  imports Parser_Gives Parser_Print Rule_Facts
begin

text \<open>
  What every parsed expression satisfies: its literals are 64-bit numbers, its calls are calls of rules, never of a
  built-in primitive, and its fields are fields of paths, however the tokens are arranged.
\<close>

section \<open>Well-formed expressions\<close>

definition parsed_expr :: "expr \<Rightarrow> bool" where
  "parsed_expr e \<longleftrightarrow> lits_i64 e \<and> set (calls e) \<inter> set primitive_call_names = {} \<and> fields_of_paths e"

lemma parsed_iff:
  "parsed_expr e \<longleftrightarrow>
     (case e of ENumber n \<Rightarrow> in_i64 n | ECall f _ \<Rightarrow> f \<notin> set primitive_call_names | EField b _ \<Rightarrow> expr_to_path b \<noteq> None | _ \<Rightarrow> True)
     \<and> list_all parsed_expr (expr_children e)"
  unfolding parsed_expr_def
  by (subst lits_i64.simps, subst calls.simps, subst fields_of_paths.simps) (auto simp: list_all_iff split: expr.split)

lemma parsed_simps:
  "parsed_expr (ENumber n) \<longleftrightarrow> in_i64 n" "parsed_expr (EText s)" "parsed_expr (EBytes s)" "parsed_expr (EIdent x)" "parsed_expr (ERead x)"
  "parsed_expr (ERandom x)" "parsed_expr ENowUnix"
  "parsed_expr (EField a x) \<longleftrightarrow> expr_to_path a \<noteq> None \<and> parsed_expr a" "parsed_expr (ENot a) \<longleftrightarrow> parsed_expr a" "parsed_expr (ENeg a) \<longleftrightarrow> parsed_expr a"
  "parsed_expr (EOk a) \<longleftrightarrow> parsed_expr a" "parsed_expr (EErr a) \<longleftrightarrow> parsed_expr a" "parsed_expr (EJsonEscape a) \<longleftrightarrow> parsed_expr a"
  "parsed_expr (EParseInt a) \<longleftrightarrow> parsed_expr a" "parsed_expr (ELength a) \<longleftrightarrow> parsed_expr a" "parsed_expr (EAbs a) \<longleftrightarrow> parsed_expr a"
  "parsed_expr (ELe32 a) \<longleftrightarrow> parsed_expr a" "parsed_expr (ELe64 a) \<longleftrightarrow> parsed_expr a" "parsed_expr (EArenaScope a) \<longleftrightarrow> parsed_expr a"
  "parsed_expr (EAbortIf a) \<longleftrightarrow> parsed_expr a" "parsed_expr (EBitNot a) \<longleftrightarrow> parsed_expr a" "parsed_expr (EFetch x a) \<longleftrightarrow> parsed_expr a"
  "parsed_expr (EBinary op a b) \<longleftrightarrow> parsed_expr a \<and> parsed_expr b" "parsed_expr (EStartsWith a b) \<longleftrightarrow> parsed_expr a \<and> parsed_expr b"
  "parsed_expr (EEndsWith a b) \<longleftrightarrow> parsed_expr a \<and> parsed_expr b" "parsed_expr (EContains a b) \<longleftrightarrow> parsed_expr a \<and> parsed_expr b"
  "parsed_expr (EMin a b) \<longleftrightarrow> parsed_expr a \<and> parsed_expr b" "parsed_expr (EMax a b) \<longleftrightarrow> parsed_expr a \<and> parsed_expr b"
  "parsed_expr (EBitAnd a b) \<longleftrightarrow> parsed_expr a \<and> parsed_expr b" "parsed_expr (EBitOr a b) \<longleftrightarrow> parsed_expr a \<and> parsed_expr b"
  "parsed_expr (EBitXor a b) \<longleftrightarrow> parsed_expr a \<and> parsed_expr b" "parsed_expr (EShl a b) \<longleftrightarrow> parsed_expr a \<and> parsed_expr b"
  "parsed_expr (EShr a b) \<longleftrightarrow> parsed_expr a \<and> parsed_expr b" "parsed_expr (EByteAt a b) \<longleftrightarrow> parsed_expr a \<and> parsed_expr b"
  "parsed_expr (ETryByteAt a b) \<longleftrightarrow> parsed_expr a \<and> parsed_expr b" "parsed_expr (EQuantifier q a x b) \<longleftrightarrow> parsed_expr a \<and> parsed_expr b"
  "parsed_expr (EMap a x b) \<longleftrightarrow> parsed_expr a \<and> parsed_expr b" "parsed_expr (EFilter a x b) \<longleftrightarrow> parsed_expr a \<and> parsed_expr b"
  "parsed_expr (EIf a b c) \<longleftrightarrow> parsed_expr a \<and> parsed_expr b \<and> parsed_expr c"
  "parsed_expr (ESubstring a b c) \<longleftrightarrow> parsed_expr a \<and> parsed_expr b \<and> parsed_expr c"
  "parsed_expr (EFold a b x y c) \<longleftrightarrow> parsed_expr a \<and> parsed_expr b \<and> parsed_expr c"
  "parsed_expr (EFoldBytes a b x y z c) \<longleftrightarrow> parsed_expr a \<and> parsed_expr b \<and> parsed_expr c"
  "parsed_expr (EMatchResult a x b y c) \<longleftrightarrow> parsed_expr a \<and> parsed_expr b \<and> parsed_expr c"
  "parsed_expr (ECall f args) \<longleftrightarrow> f \<notin> set primitive_call_names \<and> list_all parsed_expr args"
  "parsed_expr (EConcat args) \<longleftrightarrow> list_all parsed_expr args"
  "parsed_expr (ERecord x fs) \<longleftrightarrow> list_all (\<lambda>(_, e). parsed_expr e) fs"
  "parsed_expr (EVariantConstruct x y fs) \<longleftrightarrow> list_all (\<lambda>(_, e). parsed_expr e) fs"
  "parsed_expr (EMatchVariant a arms) \<longleftrightarrow> parsed_expr a \<and> list_all (\<lambda>m. parsed_expr (arm_body m)) arms"
  by (subst parsed_iff; simp add: expr_children_def list_all_iff split_def)+

abbreviation gives_parsed :: "expr parser \<Rightarrow> bool" where
  "gives_parsed p \<equiv> gives whatever p parsed_expr"

section \<open>Calls and other forms\<close>

text \<open>Every form below is parsed by a given parser of expressions \<open>pe\<close>.\<close>

lemma gives_more_args:
  assumes "gives_parsed pe"
  shows "list_all parsed_expr args \<Longrightarrow> gives g (more_args n pe args) (list_all parsed_expr)"
  unfolding more_args_def by (rule gives_ploop) (rule gv gives_any_guard [OF assms] | (simp; fail))+

lemma gives_call_args:
  assumes "gives_parsed pe"
  shows "gives g (call_args n pe) (list_all parsed_expr)"
  unfolding call_args_def
  by (rule gives_bind [where P = "list_all parsed_expr"]) (rule gv gives_any_guard [OF assms] gives_more_args [OF assms] | (simp; fail))+

lemma gives_brace_fields:
  assumes "gives_parsed pe"
  shows "gives g (brace_fields n pe) (list_all (\<lambda>(_, e). parsed_expr e))"
proof -
  have "gives g (prepeat n (field_step pe) []) (list_all (\<lambda>(_, e). parsed_expr e))" for g
    unfolding field_step_def by (rule gives_prepeat) (rule gv gives_any_guard [OF assms] | (simp; fail))+
  then have r: "gives g (pif (check_kind RBrace) (ret []) (prepeat n (field_step pe) [])) (list_all (\<lambda>(_, e). parsed_expr e))" for g
    by (intro gives_pif gives_ret) simp_all
  show ?thesis unfolding brace_fields_def by (rule r gv | (simp; fail))+
qed

lemma gives_unary_call:
  assumes "gives_parsed pe" "\<And>a. parsed_expr a \<Longrightarrow> parsed_expr (mk a)"
  shows "gives g (unary_call pe m mk) parsed_expr"
  unfolding unary_call_def by (rule gv gives_any_guard [OF assms(1)] assms(2) | (simp; fail))+

lemma gives_binary_call:
  assumes "gives_parsed pe" "\<And>a b. parsed_expr a \<Longrightarrow> parsed_expr b \<Longrightarrow> parsed_expr (mk a b)"
  shows "gives g (binary_call pe m mk) parsed_expr"
  unfolding binary_call_def by (rule gv gives_any_guard [OF assms(1)] assms(2) | (simp; fail))+

lemma gives_lambda_call:
  assumes "gives_parsed pe" "\<And>a x b. parsed_expr a \<Longrightarrow> parsed_expr b \<Longrightarrow> parsed_expr (mk a x b)"
  shows "gives g (lambda_call pe mk) parsed_expr"
  unfolding lambda_call_def by (rule gv gives_any_guard [OF assms(1)] assms(2) | (simp; fail))+

lemma gives_wrap_call:
  assumes "gives_parsed pe" "\<And>a. parsed_expr a \<Longrightarrow> parsed_expr (mk a)"
  shows "gives g (wrap_call pe mk) parsed_expr"
  unfolding wrap_call_def by (rule gv gives_any_guard [OF assms(1)] assms(2) | (simp; fail))+

lemma gives_wide_calls:
  assumes "gives_parsed pe"
  shows "gives g (substring_call pe) parsed_expr" "gives g (fold_call pe) parsed_expr" "gives g (fold_bytes_call pe) parsed_expr"
    "gives g (match_result_call pe) parsed_expr" "gives g (concat_call n pe) parsed_expr" "gives g (fetch_call pe) parsed_expr"
    "gives g now_unix_call parsed_expr" "(\<And>x. parsed_expr (mk x)) \<Longrightarrow> gives g (name_call mk) parsed_expr"
  unfolding substring_call_def fold_call_def fold_bytes_call_def match_result_call_def concat_call_def fetch_call_def now_unix_call_def
    name_call_def Let_def
  by (rule gv gives_any_guard [OF assms] gives_call_args [OF assms] | (simp add: parsed_simps; fail))+

lemma parsed_reduce: "parsed_expr body \<Longrightarrow> parsed_expr (reduce_body name body)" "parsed_expr (reduce_initial name)"
  by (simp_all add: reduce_body_def reduce_initial_def parsed_simps in_i64_def)

lemma gives_reduce_call:
  assumes "gives_parsed pe"
  shows "gives g (reduce_call pe name) parsed_expr"
proof -
  have f: "gives g (reduce_fold pe name c) parsed_expr" if "parsed_expr c" for c g
    unfolding reduce_fold_def by (rule gv gives_any_guard [OF assms] | (simp add: parsed_simps parsed_reduce that; fail))+
  have p: "gives g p parsed_expr" if "reduce_pair name c s o' = Some p" "parsed_expr c" "parsed_expr s" for c s o' p g
    using that by (auto simp: reduce_pair_def parsed_simps split: if_splits intro!: gv)
  have r: "gives g (rewind pe (reduce_pair name c) (reduce_fold pe name c)) parsed_expr" if c: "parsed_expr c" for c g
  proof (rule givesI)
    fix ts e ts' assume *: "numbers_ok ts" "g (peek_kind ts)" "rewind pe (reduce_pair name c) (reduce_fold pe name c) ts = Inr (e, ts')"
    then obtain s us where s: "pe ts = Inr (s, us)" by (cases "pe ts") (auto simp: rewind_def)
    from givesD [OF assms *(1) _ s] have s': "parsed_expr s" "numbers_ok us" by auto
    show "parsed_expr e \<and> numbers_ok ts'"
    proof (cases "reduce_pair name c s (peek_kind us)")
      case None
      with * s have "reduce_fold pe name c ts = Inr (e, ts')" by (simp add: rewind_def)
      from givesD [OF f [OF c, of g] *(1) *(2) this] show ?thesis .
    next
      case (Some p')
      with * s have "p' us = Inr (e, ts')" by (simp add: rewind_def)
      from givesD [OF p [OF Some c s'(1)] s'(2) _ this, of whatever] show ?thesis by simp
    qed
  qed
  show ?thesis unfolding reduce_call_def by (rule gv gives_any_guard [OF assms] r | (simp; fail))+
qed

lemma gives_generic_call:
  assumes "gives_parsed pe" "\<And>o'. g o' \<Longrightarrow> name \<notin> set primitive_call_names"
  shows "gives g (generic_call n pe name) parsed_expr"
proof (cases "name \<in> set primitive_call_names")
  case True
  then show ?thesis using assms(2) by (auto intro: givesI)
next
  case False
  show ?thesis unfolding generic_call_def by (rule gv gives_call_args [OF assms(1)] | (simp add: parsed_simps False; fail))+
qed

lemma gives_field_chain: "gives g (field_chain n name) parsed_expr"
proof -
  have "gives g (field_chain n name) (\<lambda>e. parsed_expr e \<and> expr_to_path e \<noteq> None)"
    unfolding field_chain_def by (rule gives_ploop) (rule gv | (auto simp: parsed_simps; fail))+
  then show ?thesis by (rule gives_mono) simp_all
qed

lemma gives_variant_form:
  assumes "gives_parsed pe"
  shows "gives g (variant_form n pe name) parsed_expr"
proof -
  have r: "gives g (pif (check_kind LBrace) (brace_fields n pe) (ret [])) (list_all (\<lambda>(_, e). parsed_expr e))" for g
    by (intro gives_pif gives_brace_fields assms gives_ret) simp
  show ?thesis unfolding variant_form_def by (rule r gv | (simp add: parsed_simps; fail))+
qed

text \<open>The whole chain of an identifier: only a name that no primitive has reaches the call of a rule.\<close>

lemma gives_lparen:
  assumes "c (Some LParen) \<Longrightarrow> gives (\<lambda>o'. o' = Some LParen) p Q" "\<not> c (Some LParen) \<Longrightarrow> gives (\<lambda>o'. o' = Some LParen) q Q"
  shows "gives (\<lambda>o'. o' = Some LParen) (pif c p q) Q"
  using assms by (cases "c (Some LParen)") (simp_all add: gives_def pif_def pcase_def)

lemma gives_called:
  assumes "gives_parsed pe"
  shows "gives (\<lambda>o'. o' = Some LParen) (named_form n pe name) parsed_expr"
  unfolding named_form_def text_forms_def bitwise_forms_def
  by (intro gives_lparen gives_variant_form gives_reduce_call gives_wide_calls [OF assms] gives_lambda_call gives_wrap_call gives_unary_call
      gives_binary_call gives_field_chain gives_generic_call gives_bind [OF gives_brace_fields] gives_ret assms;
      (simp add: parsed_simps bitwise_op_def; fail)?) (simp add: at_call_def primitive_call_names_def)

lemma gives_not_called:
  assumes "gives_parsed pe"
  shows "gives (\<lambda>o'. o' \<noteq> Some LParen) (named_form n pe name) parsed_expr"
proof -
  have s: "gives g (pif c p q) Q" if "gives g q Q" "\<And>o'. g o' \<Longrightarrow> \<not> c o'" for g c and p q :: "expr parser" and Q
    using that by (auto simp: gives_def pif_def pcase_def)
  show ?thesis
    unfolding named_form_def text_forms_def bitwise_forms_def
    by (rule gives_pif [where c = "check_kind DoubleColon"] gives_variant_form gives_pif [where c = "check_kind LBrace"]
        gives_bind [OF gives_brace_fields] gives_ret gives_field_chain s assms | (simp add: parsed_simps at_call_def check_kind_def; fail))+
qed

lemma gives_named_form:
  assumes "gives_parsed pe"
  shows "gives g (named_form n pe name) parsed_expr"
  using gives_called [OF assms, of n name] gives_not_called [OF assms, of n name] unfolding gives_def by metis

lemma gives_if_form:
  assumes "gives_parsed pe"
  shows "gives g (if_form pe) parsed_expr"
  unfolding if_form_def by (rule gv gives_any_guard [OF assms] | (simp add: parsed_simps; fail))+

lemma gives_match_form:
  assumes "gives_parsed pe"
  shows "gives g (match_form n pe) parsed_expr"
proof -
  have "gives g (prepeat n binder_step []) whatever" for g
    unfolding binder_step_def by (rule gives_prepeat) (rule gv | (simp; fail))+
  then have r: "gives g (pif (check_kind RParen) (ret []) (prepeat n binder_step [])) whatever" for g
    by (intro gives_pif gives_ret) simp_all
  have "gives g (parse_binders n) whatever" for g
    unfolding parse_binders_def by (rule r gv | (simp; fail))+
  then have b: "gives g (pif (check_kind LParen) (parse_binders n) (ret [])) whatever" for g
    by (intro gives_pif gives_ret) simp_all
  have l: "gives g (ploop n in_block (arm_step n pe) []) (list_all (\<lambda>m. parsed_expr (arm_body m)))" for g
    unfolding arm_step_def by (rule gives_ploop) (rule b gv gives_any_guard [OF assms] | (simp; fail))+
  show ?thesis unfolding match_form_def by (rule gv gives_any_guard [OF assms] l | (simp add: parsed_simps; fail))+
qed

section \<open>The layers\<close>

lemma gives_literal_form:
  assumes "gives_parsed pe"
  shows "gives g (literal_form n pe o') parsed_expr"
proof (cases o')
  case (Some k)
  then show ?thesis
    by (cases k; simp add: literal_form_def gives_err)
      (rule gv gives_named_form assms | (simp add: parsed_simps in_i64_def; fail))+
qed (simp add: literal_form_def gives_err)

lemma gives_primary:
  assumes "gives_parsed pe"
  shows "gives g (parse_primary n pe) parsed_expr"
  unfolding parse_primary_def
  by (rule gives_pif gives_if_form gives_match_form gives_pcase gives_literal_form gives_bind gives_advance
      gives_any_guard [OF assms] gives_expect gives_ret assms | assumption)+

lemma gives_unary: "(\<And>g. gives g prim parsed_expr) \<Longrightarrow> gives g (parse_unary u prim) parsed_expr"
proof (induction u arbitrary: g)
  case (Suc u)
  show ?case unfolding parse_unary.simps by (rule gv Suc | (simp add: parsed_simps; fail))+
qed (simp add: parse_unary.simps gives_err)

lemma gives_left_layer:
  assumes "\<And>g. gives g sub parsed_expr"
  shows "gives g (left_layer op_of n sub) parsed_expr"
  unfolding left_layer_def
  by (rule gives_bind assms gives_ploop gives_pcase gives_advance gives_ret | (simp add: parsed_simps; fail))+

lemma gives_or_expr:
  assumes "gives_parsed pe"
  shows "gives g (parse_or_expr n pe) parsed_expr"
proof -
  have m: "gives g (parse_mul_expr n pe) parsed_expr" for g
    unfolding parse_mul_expr_def by (intro gives_left_layer gives_unary gives_primary assms)
  have a: "gives g (parse_add_expr n pe) parsed_expr" for g
    unfolding parse_add_expr_def by (intro gives_left_layer m)
  have c: "gives g (parse_cmp_expr n pe) parsed_expr" for g
    unfolding parse_cmp_expr_def
    by (rule gives_bind a gives_pcase gives_option gives_advance gives_ret | (simp add: parsed_simps; fail))+
  show ?thesis unfolding parse_or_expr_def parse_and_expr_def by (intro gives_left_layer c)
qed

lemma gives_expr [gv]: "gives g (parse_expr n) parsed_expr"
  by (induction n arbitrary: g) (simp_all add: parse_expr.simps gives_err gives_or_expr)

end
