(* ===== verification/Parser_Sound_Items.thy ===== *)
theory Parser_Sound_Items
  imports Parser_Sound_Expr Numeric_Soundness
begin

text \<open>
  What every parsed declaration satisfies: the ranges of its numbers, the shape of its blocks and its well-formed expressions. Each
  block is a loop whose local variables keep an invariant.
\<close>

section \<open>Well-formed declarations\<close>

definition opt_in :: "nat \<Rightarrow> nat \<Rightarrow> nat option \<Rightarrow> bool" where
  "opt_in lo hi v \<longleftrightarrow> (case v of None \<Rightarrow> True | Some n \<Rightarrow> lo \<le> n \<and> n \<le> hi)"

definition range_wf :: "(int \<times> int) option \<Rightarrow> bool" where
  "range_wf v \<longleftrightarrow> (case v of None \<Rightarrow> True | Some (lo, hi) \<Rightarrow> in_i64 lo \<and> in_i64 hi)"

definition variant_wf :: "variant \<Rightarrow> bool" where
  "variant_wf v \<longleftrightarrow> distinct (map f_name (va_fields v)) \<and> list_all (\<lambda>f. f_range f = None) (va_fields v)"

definition concept_wf :: "concept \<Rightarrow> bool" where
  "concept_wf c \<longleftrightarrow> list_all (\<lambda>f. range_wf (f_range f)) (c_fields c) \<and> (c_fields c = [] \<or> c_variants c = [])
     \<and> distinct (map va_name (c_variants c)) \<and> list_all variant_wf (c_variants c)"

definition logic_wf :: "logic_stmt \<Rightarrow> bool" where
  "logic_wf l \<longleftrightarrow> list_all (\<lambda>(_, e). parsed_expr e) (l_bindings l) \<and> parsed_expr (l_value l)"

definition rule_wf :: "rule \<Rightarrow> bool" where
  "rule_wf r \<longleftrightarrow> logic_wf (r_logic r) \<and> rule_i64 r \<and> text_max_typed r \<and> opt_in 0 1048576 (r_output_text_max r)
     \<and> opt_in 1 2097152 (pr_native_stack (r_proofs r))"

definition effect_wf :: "effect \<Rightarrow> bool" where
  "effect_wf e \<longleftrightarrow> (case e of Print args \<Rightarrow> list_all parsed_expr args | AppendFile _ c \<Rightarrow> parsed_expr c)"

definition state_field_wf :: "state_field \<Rightarrow> bool" where
  "state_field_wf f \<longleftrightarrow>
     (case sf_init f of
        InitNumber v \<Rightarrow> sf_ty f = TNumber \<and> sf_max_bytes f = None \<and> in_i64 v
      | InitText _ \<Rightarrow> sf_ty f = TText \<and> (\<exists>m. sf_max_bytes f = Some m \<and> in_i64 m))"

definition service_wf :: "service \<Rightarrow> bool" where
  "service_wf s \<longleftrightarrow> 1 \<le> s_port s \<and> s_port s \<le> 65535 \<and> 1 \<le> s_max_request s \<and> s_max_request s \<le> 4294967295
     \<and> opt_in 1 65535 (s_max_steps s) \<and> opt_in 1 3600 (s_read_timeout s) \<and> opt_in 1 3600 (s_request_timeout s)
     \<and> opt_in 1 3600 (s_response_timeout s) \<and> opt_in 1 65535 (s_max_connections s) \<and> opt_in 1 64 (s_workers s)
     \<and> opt_in 1 3600 (s_shutdown_timeout s) \<and> opt_in 1 2097152 (s_native_stack s)
     \<and> list_all (\<lambda>l. effect_wf (lb_effect l)) (s_logs s) \<and> list_all state_field_wf (s_state_fields s)
     \<and> list_all (\<lambda>a. parsed_expr (ss_value a)) (s_after_sets s) \<and> (s_after_sets s \<noteq> [] \<longrightarrow> s_state_fields s \<noteq> [])"

definition resource_wf :: "resource \<Rightarrow> bool" where
  "resource_wf r \<longleftrightarrow> 1 \<le> rs_max_bytes r \<and> rs_max_bytes r \<le> 4294967295 \<and> rs_on_read_error r = Abort"

definition entropy_wf :: "entropy \<Rightarrow> bool" where
  "entropy_wf e \<longleftrightarrow> 1 \<le> e_bytes e \<and> e_bytes e \<le> 256 \<and> e_on_draw_error e = Abort \<and> e_binding_key e = ''__entropy_'' @ e_name e"

definition connection_wf :: "connection \<Rightarrow> bool" where
  "connection_wf c \<longleftrightarrow> host_error (cn_host c) = None \<and> 1 \<le> cn_port c \<and> cn_port c \<le> 65535
     \<and> 1 \<le> cn_max_response c \<and> cn_max_response c \<le> 4294967295 \<and> cn_on_connect_error c = Abort"

definition execution_wf :: "execution \<Rightarrow> bool" where
  "execution_wf x \<longleftrightarrow>
     (case x_mode x of
        ExecSequential m \<Rightarrow> 1 \<le> m \<and> m \<le> 2097152
      | ExecPipeline m \<Rightarrow> 1 \<le> m \<and> m \<le> 2097152 \<and> x_workload x = None
      | ExecConcurrent m mem b \<Rightarrow> 1 \<le> m \<and> m \<le> 64 \<and> opt_in 1 268435456 mem \<and> 1 \<le> b \<and> b \<le> 1024)
     \<and> (case x_workload x of None \<Rightarrow> True | Some w \<Rightarrow> shape_error w = None)"

definition item_wf :: "item \<Rightarrow> bool" where
  "item_wf it \<longleftrightarrow>
     (case it of
        IConcept c \<Rightarrow> concept_wf c | IRule r \<Rightarrow> rule_wf r | IReaction x \<Rightarrow> list_all effect_wf (rx_effects x)
      | IService s \<Rightarrow> service_wf s | IExecution x \<Rightarrow> execution_wf x | IResource r \<Rightarrow> resource_wf r
      | IConnection c \<Rightarrow> connection_wf c | IEntropy e \<Rightarrow> entropy_wf e
      | IConceptGroup g \<Rightarrow> g_concepts g \<noteq> [] \<and> list_all concept_wf (g_concepts g))"

section \<open>Pieces of lines\<close>

lemma gives_line_end [gv]: "Q a \<Longrightarrow> gives g (line_end a) Q"
  unfolding line_end_def by (rule gv | assumption)+

lemma gives_ended: "gives g p Q \<Longrightarrow> gives g (ebind p line_end) Q"
  by (rule gives_bind [OF _ gives_line_end])

lemma gives_keyed [gv]: "gives whatever p Q \<Longrightarrow> gives g (keyed p) Q"
  unfolding keyed_def by (rule gv | assumption)+

lemma gives_keyed_line [gv]: "gives whatever p Q \<Longrightarrow> gives g (keyed_line p) Q"
  unfolding keyed_line_def by (rule gives_keyed gives_ended | assumption)+

lemma gives_open [gv]: "gives g (open_item kw) whatever" "gives g open_lines whatever" "gives g (open_block kw) whatever"
  unfolding open_item_def open_block_def open_lines_def by (rule gv | simp)+

lemma gives_signed [gv]: "gives g parse_signed_number in_i64"
  unfolding parse_signed_number_def
  by (rule gv gives_mono [OF gives_number [of whatever]] | (simp add: in_i64_def; fail))+

lemma gives_weaken: "gives g p P \<Longrightarrow> gives g p whatever"
  by (erule gives_mono) auto

lemma gives_type [gv]: "gives g (parse_type n) whatever"
proof (induction n arbitrary: g)
  case (Suc n)
  show ?case unfolding parse_type.simps by (rule gv Suc | simp)+
qed (simp add: gives_err)

lemma gives_source_ref [gv]: "gives g (parse_source_ref n) whatever"
proof -
  have "gives g (dotted_name n) whatever" for g
    unfolding dotted_name_def by (rule gives_bind gives_token gives_ploop gv | simp)+
  then have r: "gives g (pif is_string_lit expect_string (dotted_name n)) whatever" for g
    by (intro gives_pif gives_token)
  show ?thesis unfolding parse_source_ref_def by (rule r gv | simp)+
qed

lemma gives_attributes [gv]:
  assumes "\<And>s. Q (si s)" "\<And>s. Q (ss s)" "gives g (other a) Q"
  shows "gives g (attributes n si ss other a) Q"
  unfolding attributes_def by (rule gv assms | (simp add: assms; fail))+

lemma gives_unknown [gv]: "gives g (unknown_attribute b a) Q"
  unfolding unknown_attribute_def by (rule gv)

lemma u32_small: "0 \<le> m \<Longrightarrow> m \<le> 4294967295 \<Longrightarrow> as_u32 m = nat m" "0 \<le> m \<Longrightarrow> m \<le> 65535 \<Longrightarrow> as_u16 m = nat m"
  by (simp_all add: as_u32_def as_u16_def)

lemma gives_number_in [gv]:
  assumes "0 \<le> lo" "hi \<le> 4294967295"
  shows "gives g (number_in lo hi k) (\<lambda>m. nat lo \<le> m \<and> m \<le> nat hi)"
  unfolding number_in_def by (rule gv | (use assms in \<open>simp add: u32_small nat_le_eq_zle; fail\<close>))+

lemma gives_numbers [gv]:
  "gives g (positive_u32 w) (\<lambda>m. 1 \<le> m \<and> m \<le> 4294967295)" "gives g (port_number w) (\<lambda>p. 1 \<le> p \<and> p \<le> 65535)"
  unfolding positive_u32_def port_number_def by (rule gv | (simp add: u32_small; linarith))+

section \<open>Concepts\<close>

lemma gives_range [gv]: "gives g (parse_range ty) range_wf"
  unfolding parse_range_def by (rule gv | (simp add: range_wf_def in_i64_def; fail))+

lemma gives_fields_block [gv]: "gives g (parse_fields_block n) (list_all (\<lambda>f. range_wf (f_range f)))"
  unfolding parse_fields_block_def field_line_def
  by (rule gives_ploop [where I = "list_all (\<lambda>f. range_wf (f_range f))"] gv | (simp; fail))+

lemma gives_payload: "gives g (variant_payload n v) (\<lambda>fs. distinct (map f_name fs) \<and> list_all (\<lambda>f. f_range f = None) fs)"
proof -
  let ?I = "\<lambda>fs. distinct (map f_name fs) \<and> list_all (\<lambda>f. f_range f = None) fs"
  have "gives g (pwhile n (\<lambda>o'. \<not> check_kind RParen o') (payload_step n v) []) ?I" for g
    unfolding payload_step_def Let_def by (rule gives_pwhile [where I = ?I]) (rule gv | (simp; fail))+
  then show ?thesis unfolding variant_payload_def by (intro gives_pif gives_bind [OF gives_advance] gives_bind [OF gives_expect(1)] gives_ret)
    (rule gives_bind gives_expect gives_ret | assumption | simp)+
qed

lemma gives_variants_block [gv]: "gives g (parse_variants_block n) (\<lambda>vs. distinct (map va_name vs) \<and> list_all variant_wf vs)"
proof -
  let ?I = "\<lambda>vs. distinct (map va_name vs) \<and> list_all variant_wf vs"
  have "gives g (ploop n in_block (variant_line n) []) ?I" for g
    unfolding variant_line_def by (rule gives_ploop [where I = ?I]) (rule gives_payload gv | (simp add: variant_wf_def; fail))+
  then have r: "gives g (ploop n in_block (variant_line n) []) ?I" for g .
  show ?thesis unfolding parse_variants_block_def by (rule r gv | (simp; fail))+
qed

lemma gives_concept [gv]: "gives g (parse_concept n) concept_wf"
proof -
  let ?I = "\<lambda>st. (\<forall>fs. cp_fields st = Some fs \<longrightarrow> list_all (\<lambda>f. range_wf (f_range f)) fs)
    \<and> (\<forall>vs. cp_variants st = Some vs \<longrightarrow> distinct (map va_name vs) \<and> list_all variant_wf vs)"
  have l: "gives g (ploop n in_block (concept_line n) \<lparr>cp_intention = None, cp_source = None, cp_fields = None, cp_variants = None\<rparr>) ?I" for g
    unfolding concept_line_def by (rule gives_ploop [where I = ?I]) (rule gv | (simp; fail))+
  have s: "gives g (concept_shape name st) (\<lambda>(fs, vs). list_all (\<lambda>f. range_wf (f_range f)) fs \<and> distinct (map va_name vs)
      \<and> list_all variant_wf vs \<and> (fs = [] \<or> vs = []))" if "?I st" for g name st
    using that unfolding concept_shape_def by (auto intro: gv split: option.split)
  show ?thesis unfolding parse_concept_def by (rule l s gv | assumption | (simp add: concept_wf_def; fail))+
qed

lemma gives_group [gv]: "gives g (parse_concept_group n) (\<lambda>x. g_concepts x \<noteq> [] \<and> list_all concept_wf (g_concepts x))"
proof -
  let ?I = "\<lambda>st. list_all concept_wf (gp_concepts st)"
  have l: "gives g (ploop n in_block (group_line n) \<lparr>gp_intention = None, gp_source = None, gp_concepts = []\<rparr>) ?I" for g
    unfolding group_line_def by (rule gives_ploop [where I = ?I]) (rule gv | (simp; fail))+
  have b: "gives g (group_bound name key) whatever" for g name key
    unfolding group_bound_def by (rule gv | simp)+
  show ?thesis unfolding parse_concept_group_def by (rule l b gv | (simp; fail))+
qed

section \<open>Rules\<close>

lemma gives_logic [gv]: "gives g (parse_logic_block n) logic_wf"
proof -
  let ?I = "list_all (\<lambda>(_, e). parsed_expr e)"
  have l: "gives g (ploop n (check_ident ''let'') (let_line n) []) ?I" for g
    unfolding let_line_def by (rule gives_ploop [where I = ?I]) (rule gv | (simp; fail))+
  have t: "gives g (pif (check_kind Newline) tok_advance (ret ())) whatever" for g
    by (intro gives_pif gives_advance gives_ret) simp
  show ?thesis unfolding parse_logic_block_def by (rule l t gv | (simp add: logic_wf_def; fail))+
qed

lemma gives_path [gv]: "gives g (parse_path n) whatever"
proof -
  have l: "gives g (ploop n c path_step s) whatever" for g c s
    unfolding path_step_def by (rule gives_ploop [where I = whatever]) (rule gv | simp)+
  show ?thesis unfolding parse_path_def by (rule l gv | simp)+
qed

lemma gives_path_list [gv]: "gives g (parse_path_list n) whatever"
proof -
  have l: "gives g (ploop n c (\<lambda>out. ebind tok_advance (\<lambda>_. ebind (parse_path n) (\<lambda>p. ret (out @ [p])))) s) whatever" for g c s
    by (rule gives_ploop [where I = whatever]) (rule gv | simp)+
  have p: "gives g (pif c (ret []) (ebind (parse_path n) (\<lambda>p. ploop n c' (\<lambda>out. ebind tok_advance (\<lambda>_. ebind (parse_path n) (\<lambda>p. ret (out @ [p])))) [p]))) whatever"
    for g c c' by (intro gives_pif gives_bind [OF gives_path] gives_ret l) simp
  show ?thesis unfolding parse_path_list_def by (rule p gv | simp)+
qed

lemma gives_purity [gv]: "gives g (parse_purity_block n) whatever"
proof -
  have l: "gives g (ploop n in_block (purity_line n) s) whatever" for g s
    unfolding purity_line_def by (rule gives_ploop [where I = whatever]) (rule gives_ended gv | simp)+
  show ?thesis unfolding parse_purity_block_def by (rule l gv | simp)+
qed

lemma gives_termination [gv]: "gives g (parse_termination_block n) whatever"
proof -
  have l: "gives g (ploop n in_block termination_line s) whatever" for g s
    unfolding termination_line_def by (rule gives_ploop [where I = whatever]) (rule gives_ended gv | simp)+
  show ?thesis unfolding parse_termination_block_def by (rule l gv | simp)+
qed

lemma gives_proofs [gv]: "gives g (parse_proofs_block n) (\<lambda>p. opt_in 1 2097152 (pr_native_stack p))"
proof -
  let ?I = "\<lambda>st. opt_in 1 2097152 (pp_native_stack st)"
  have l: "gives g (ploop n in_block (proofs_line n) \<lparr>pp_purity = None, pp_termination = None, pp_native_stack = None\<rparr>) ?I" for g
    unfolding proofs_line_def by (rule gives_ploop [where I = ?I]) (rule gv | (simp add: opt_in_def; fail))+
  show ?thesis unfolding parse_proofs_block_def by (rule l gv | (simp; fail))+
qed

lemma gives_hints [gv]: "gives g (parse_hints_block n) (\<lambda>h. \<forall>v. h_overflow h = Some v \<longrightarrow> in_i64 (o_min v) \<and> in_i64 (o_max v))"
proof -
  let ?I = "\<lambda>h. \<forall>v. h_overflow h = Some v \<longrightarrow> in_i64 (o_min v) \<and> in_i64 (o_max v)"
  have o: "gives g overflow_hint_value (\<lambda>v. in_i64 (o_min v) \<and> in_i64 (o_max v))" for g
    unfolding overflow_hint_value_def by (rule gv | (simp; fail))+
  have l: "gives g (ploop n in_block hint_line \<lparr>h_vectorizable = None, h_parallel = None, h_cache_result = None, h_overflow = None\<rparr>) ?I" for g
    unfolding hint_line_def by (rule gives_ploop [where I = ?I]) (rule gives_ended o gv | (simp; fail))+
  show ?thesis unfolding parse_hints_block_def by (rule l gv | (simp; fail))+
qed

text \<open>The local variables of a rule: a bound of the output is declared with a text output only, and an output block comes once.\<close>

definition rule_inv :: "rule_parts \<Rightarrow> bool" where
  "rule_inv st \<longleftrightarrow> (\<forall>l. rp_logic st = Some l \<longrightarrow> logic_wf l)
     \<and> (\<forall>h v. rp_hints st = Some h \<longrightarrow> h_overflow h = Some v \<longrightarrow> in_i64 (o_min v) \<and> in_i64 (o_max v))
     \<and> (\<forall>p. rp_proofs st = Some p \<longrightarrow> opt_in 1 2097152 (pr_native_stack p)) \<and> opt_in 0 1048576 (rp_output_text_max st)
     \<and> (rp_output_text_max st \<noteq> None \<longrightarrow> (\<exists>name. rp_output st = Some (name, TText)))"

lemma gives_rule_line: "rule_inv st \<Longrightarrow> gives g (rule_line n st) rule_inv"
proof -
  assume I: "rule_inv st"
  have b: "gives g (parse_binding_block n kw) whatever" for g kw
    unfolding parse_binding_block_def by (rule gv | simp)+
  have o: "gives g (output_bound st ty) (\<lambda>st'. \<forall>name. rule_inv (st'\<lparr>rp_output := Some (name, ty)\<rparr>))" if "rp_output st = None" for g ty
    unfolding output_bound_def
    by (rule gv | (use I that in \<open>auto simp: rule_inv_def opt_in_def u32_small\<close>; fail))+
  have ob: "gives g (output_block n st) rule_inv" for g
    unfolding output_block_def by (rule o gv | (simp del: not_None_eq; fail))+
  have a: "gives g (rule_attribute st x) rule_inv" for g x
    unfolding rule_attribute_def by (rule gv | (use I in \<open>simp add: rule_inv_def; fail\<close>))+
  show ?thesis
    unfolding rule_line_def
    by (rule b ob a gv | (use I in \<open>auto simp: rule_inv_def\<close>; fail))+
qed

lemma parsed_lits: "parsed_expr e \<Longrightarrow> lits_i64 e"
  by (simp add: parsed_expr_def)

lemma gives_rule [gv]: "gives g (parse_rule n) rule_wf"
proof -
  have l: "gives g (ploop n in_block (rule_line n) rule_parts_new) rule_inv" for g
    by (rule gives_ploop [where I = rule_inv]) (simp_all add: gives_rule_line, simp add: rule_inv_def rule_parts_new_def opt_in_def)
  show ?thesis unfolding parse_rule_def
    by (rule l gv | (auto simp: rule_wf_def rule_inv_def rule_i64_def text_max_typed_def logic_wf_def overflow_of_def list_all_iff
        dest!: parsed_lits split: option.split; fail))+
qed

section \<open>Reactions and services\<close>

lemma gives_append_file [gv]: "gives g (append_file_to n remark) (\<lambda>(_, c). parsed_expr c)"
  unfolding append_file_to_def by (rule gv | (simp; fail))+

lemma gives_effect_line: "list_all effect_wf effs \<Longrightarrow> gives g (effect_line n effs) (list_all effect_wf)"
proof -
  assume I: "list_all effect_wf effs"
  have "gives g (ploop n c (\<lambda>args. ebind (parse_expr n) (\<lambda>e. ret (args @ [e]))) []) (list_all parsed_expr)" for g c
    by (rule gives_ploop [where I = "list_all parsed_expr"]) (rule gv | (simp; fail))+
  then have p: "gives g (print_args n) (list_all parsed_expr)" for g unfolding print_args_def .
  have "gives g (if kind_name = ''print'' then ebind (print_args n) (\<lambda>args. ret (Print args))
      else if kind_name = ''append_file'' then ebind (append_file_to n r) (\<lambda>(path, content). ret (AppendFile path content))
      else msg m vs) effect_wf" for g kind_name r m vs
    by (rule p gv | (simp add: effect_wf_def; fail))+
  note r = this
  show ?thesis unfolding effect_line_def by (rule r gv | (use I in \<open>simp; fail\<close>))+
qed

lemma gives_reaction [gv]: "gives g (parse_reaction n) (\<lambda>x. list_all effect_wf (rx_effects x))"
proof -
  let ?I = "\<lambda>st. list_all effect_wf (xr_effects st)"
  have e: "gives g (ploop n in_block (effect_line n) effs) (list_all effect_wf)" if "list_all effect_wf effs" for g effs
    by (rule gives_ploop [where I = "list_all effect_wf"]) (use that in \<open>simp_all add: gives_effect_line\<close>)
  have l: "gives g (ploop n in_block (reaction_line n) \<lparr>xr_intention = None, xr_source = None, xr_trigger = None, xr_effects = []\<rparr>) ?I" for g
    unfolding reaction_line_def by (rule gives_ploop [where I = ?I]) (rule e gv | (simp; fail))+
  show ?thesis unfolding parse_reaction_def by (rule l gv | (simp; fail))+
qed

definition service_inv :: "service_parts \<Rightarrow> bool" where
  "service_inv st \<longleftrightarrow> opt_in 1 65535 (sp_port st) \<and> opt_in 1 4294967295 (sp_max_request st) \<and> opt_in 1 65535 (sp_max_steps st)
     \<and> opt_in 1 3600 (sp_read_timeout st) \<and> opt_in 1 3600 (sp_request_timeout st) \<and> opt_in 1 3600 (sp_response_timeout st)
     \<and> opt_in 1 65535 (sp_max_connections st) \<and> opt_in 1 64 (sp_workers st) \<and> opt_in 1 3600 (sp_shutdown_timeout st)
     \<and> opt_in 1 2097152 (sp_native_stack st) \<and> list_all (\<lambda>l. effect_wf (lb_effect l)) (sp_logs st)
     \<and> list_all state_field_wf (sp_state_fields st) \<and> list_all (\<lambda>a. parsed_expr (ss_value a)) (sp_after_sets st)"

lemma gives_listen_line: "service_inv st \<Longrightarrow> gives g (listen_line st) service_inv"
  unfolding listen_line_def by (rule gives_ended gv | (auto simp: service_inv_def opt_in_def; fail))+

lemma gives_log_lines: "gives g (log_lines n) (\<lambda>l. effect_wf (lb_effect l))"
proof -
  have p: "gives g log_policy whatever" for g
    unfolding log_policy_def by (rule gv | simp)+
  show ?thesis unfolding log_lines_def by (rule p gv | (simp add: effect_wf_def; fail))+
qed

lemma gives_state_line: "list_all state_field_wf fs \<Longrightarrow> gives g (state_line n fs) (list_all state_field_wf)"
proof -
  assume I: "list_all state_field_wf fs"
  have b: "gives g state_bound (\<lambda>v. \<forall>m. v = Some m \<longrightarrow> in_i64 m)" for g
    unfolding state_bound_def by (rule gv | (simp; fail))+
  have i: "gives g (state_init fname ty mb) state_field_wf" if "\<forall>m. mb = Some m \<longrightarrow> in_i64 m" for g fname ty mb
  proof (cases ty)
    case TNumber
    then show ?thesis unfolding state_init_def by simp (rule gv | (simp add: state_field_wf_def; fail))+
  next
    case TText
    then show ?thesis unfolding state_init_def by simp (rule gv | (use that in \<open>simp add: state_field_wf_def; fail\<close>))+
  qed (simp_all add: state_init_def gives_err)
  show ?thesis unfolding state_line_def by (rule b i gv | assumption | (use I in \<open>simp; fail\<close>))+
qed

lemma gives_after_line:
  "list_all (\<lambda>a. parsed_expr (ss_value a)) sets \<Longrightarrow> gives g (after_line n sets) (list_all (\<lambda>a. parsed_expr (ss_value a)))"
  unfolding after_line_def by (rule gv | (simp; fail))+

lemma gives_block_lines:
  assumes "\<And>s. I s \<Longrightarrow> gives in_block (line s) I" "I st"
  shows "gives g (block_lines n line st) I"
proof -
  have l: "gives g (ploop n in_block line st) I" for g by (rule gives_ploop [where I = I]) (use assms in simp_all)
  show ?thesis unfolding block_lines_def by (rule l gv | assumption)+
qed

lemma gives_service_numbers: "service_inv st \<Longrightarrow> gives g (service_numbers st key) service_inv"
  unfolding service_numbers_def once_number_def by (rule gv | (simp add: service_inv_def opt_in_def; fail))+

lemma gives_service_line: "service_inv st \<Longrightarrow> gives g (service_line n name st) service_inv"
proof -
  assume I: "service_inv st"
  have c: "gives g (concurrency_value st) service_inv" for g
    unfolding concurrency_value_def by (rule gv | (use I in \<open>simp add: service_inv_def; fail\<close>))+
  have l: "gives g (block_lines n listen_line st) service_inv" for g
    by (rule gives_block_lines) (simp_all add: gives_listen_line I)
  have s: "gives g (block_lines n (state_line n) (sp_state_fields st)) (list_all state_field_wf)" for g
    by (rule gives_block_lines) (use I in \<open>simp_all add: gives_state_line service_inv_def\<close>)
  have a: "gives g (block_lines n (after_line n) (sp_after_sets st)) (list_all (\<lambda>a. parsed_expr (ss_value a)))" for g
    by (rule gives_block_lines) (use I in \<open>simp_all add: gives_after_line service_inv_def\<close>)
  show ?thesis
    unfolding service_line_def
    by (rule c l s a gives_log_lines gives_service_numbers gv | (use I in \<open>simp add: service_inv_def; fail\<close>))+
qed

lemma gives_service [gv]: "gives g (parse_service n) service_wf"
proof -
  have l: "gives g (ploop n in_block (service_line n name) service_parts_new) service_inv" for g name
    by (rule gives_ploop [where I = service_inv]) (simp_all add: gives_service_line, simp add: service_inv_def service_parts_new_def opt_in_def)
  show ?thesis unfolding parse_service_def
    by (rule l gv | (auto simp: service_wf_def service_inv_def opt_in_def; fail))+
qed

section \<open>Resources, connections and executions\<close>

lemma gives_abort: "gives g (abort_policy w key) (\<lambda>p. p = Abort)" "gives g (draw_policy w) (\<lambda>p. p = Abort)" "gives g cache_value whatever"
  unfolding abort_policy_def draw_policy_def cache_value_def by (rule gv | (simp; fail))+

lemma gives_resource [gv]: "gives g (parse_resource n) resource_wf"
proof -
  let ?I = "\<lambda>st. opt_in 1 4294967295 (op_max_bytes st) \<and> op_on_read_error st = Abort"
  have l: "gives g (ploop n in_block (resource_line n) \<lparr>op_intention = None, op_source = None, op_path = None, op_max_bytes = None,
       op_on_read_error = Abort, op_cache = False\<rparr>) ?I" for g
    unfolding resource_line_def by (rule gives_ploop [where I = ?I]) (rule gives_abort gv | (simp add: opt_in_def; fail))+
  show ?thesis unfolding parse_resource_def by (rule l gv | (auto simp: resource_wf_def opt_in_def; fail))+
qed

lemma gives_entropy [gv]: "gives g (parse_entropy n) entropy_wf"
proof -
  let ?I = "\<lambda>st. opt_in 1 256 (np_bytes st) \<and> np_on_draw_error st = Abort"
  have l: "gives g (ploop n in_block (entropy_line n name) \<lparr>np_intention = None, np_source = None, np_bytes = None, np_on_draw_error = Abort\<rparr>) ?I" for g name
    unfolding entropy_line_def by (rule gives_ploop [where I = ?I]) (rule gives_abort gv | (simp add: opt_in_def; fail))+
  show ?thesis unfolding parse_entropy_def by (rule l gv | (auto simp: entropy_wf_def opt_in_def; fail))+
qed

lemma gives_reject_some: "gives g (reject_some v) (\<lambda>_. v = None)"
  by (cases v) (simp_all add: reject_some_def gives_ret gives_err)

lemma gives_connection [gv]: "gives g (parse_connection n) connection_wf"
proof -
  let ?I = "\<lambda>st. opt_in 1 65535 (lp_port st) \<and> opt_in 1 4294967295 (lp_max_response st) \<and> lp_on_connect_error st = Abort
    \<and> (\<forall>h. lp_host st = Some h \<longrightarrow> host_error h = None)"
  have l: "gives g (ploop n in_block (connection_line n) \<lparr>lp_intention = None, lp_source = None, lp_host = None, lp_port = None,
       lp_max_response = None, lp_on_connect_error = Abort\<rparr>) ?I" for g
    unfolding connection_line_def by (rule gives_ploop [where I = ?I]) (rule gives_abort gives_reject_some gv | (simp add: opt_in_def; fail))+
  show ?thesis unfolding parse_connection_def by (rule l gv | (auto simp: connection_wf_def opt_in_def; fail))+
qed

lemma gives_workload [gv]: "gives g (parse_workload n) (\<lambda>w. shape_error w = None)"
proof -
  have k: "gives g (ploop n in_block (case_line name) s) whatever" for g name s
    unfolding case_line_def Let_def by (rule gives_ploop [where I = whatever]) (rule gv | (simp; fail))+
  have c: "gives g (parse_workload_case n) whatever" for g
    unfolding parse_workload_case_def by (rule k gv | (simp; fail))+
  have l: "gives g (ploop n in_block (workload_line n) s) whatever" for g s
    unfolding workload_line_def by (rule gives_ploop [where I = whatever]) (rule c gv | (simp; fail))+
  show ?thesis unfolding parse_workload_def Let_def by (rule l gives_reject_some gv | (simp; fail))+
qed

definition execution_inv :: "execution_parts \<Rightarrow> bool" where
  "execution_inv st \<longleftrightarrow> opt_in 1 2097152 (ep_limit st) \<and> opt_in 1 268435456 (ep_native_memory st) \<and> opt_in 1 64 (ep_max_in_flight st)
     \<and> opt_in 1 1024 (ep_result_batch st) \<and> (\<forall>w. ep_workload st = Some w \<longrightarrow> shape_error w = None)"

lemma gives_execution_line: "execution_inv st \<Longrightarrow> gives g (execution_line n name st) execution_inv"
proof -
  assume I: "execution_inv st"
  have k: "gives g execution_key whatever" for g
    unfolding execution_key_def by (rule gv | (simp; fail))+
  have p: "gives g (prepeat n name_step []) whatever" for g
    unfolding name_step_def by (rule gives_prepeat) (rule gv | (simp; fail))+
  have q: "gives g (pif c (ret []) (prepeat n name_step [])) whatever" for g c by (intro gives_pif gives_ret p) simp
  have ph: "gives g (phase_names n) whatever" for g unfolding phase_names_def by (rule q gv | (simp; fail))+
  have b: "gives g result_batch_number (\<lambda>m. 1 \<le> m \<and> m \<le> 1024)" for g
    unfolding result_batch_number_def by (rule gv | (simp add: u32_small; linarith))+
  have v: "gives g (execution_value n name key st') execution_inv" if "execution_inv st'" for g key st'
    unfolding execution_value_def by (rule ph b gv | (use that in \<open>simp add: execution_inv_def opt_in_def; fail\<close>))+
  show ?thesis
    unfolding execution_line_def Let_def
    by (rule k v gives_ended gv | (use I in \<open>simp add: execution_inv_def; fail\<close>))+
qed

lemma gives_execution [gv]: "gives g (parse_execution n) execution_wf"
proof -
  have l: "gives g (ploop n in_block (execution_line n name) execution_parts_new) execution_inv" for g name
    by (rule gives_ploop [where I = execution_inv]) (simp_all add: gives_execution_line, simp add: execution_inv_def execution_parts_new_def opt_in_def)
  let ?M = "\<lambda>st m. case m of ExecSequential m \<Rightarrow> 1 \<le> m \<and> m \<le> 2097152 | ExecPipeline m \<Rightarrow> 1 \<le> m \<and> m \<le> 2097152 \<and> ep_workload st = None
      | ExecConcurrent m mem b \<Rightarrow> 1 \<le> m \<and> m \<le> 64 \<and> opt_in 1 268435456 mem \<and> 1 \<le> b \<and> b \<le> 1024"
  have m: "gives g (execution_mode_of st) (?M st)" if "execution_inv st" for g st
    unfolding execution_mode_of_def concurrent_mode_def stack_mode_def
    by (rule gv | (use that in \<open>auto simp: execution_inv_def opt_in_def split: option.splits\<close>; fail))+
  show ?thesis unfolding parse_execution_def execution_of_def
    by (rule l m gives_reject_some gv | assumption |
        (auto simp: execution_wf_def execution_inv_def split: option.splits execution_mode.splits; fail))+
qed

section \<open>Programs\<close>

lemma gives_program: "gives g (parse_program_fuel n) (\<lambda>p. list_all item_wf (p_items p))"
proof -
  have v: "gives g parse_version_directive whatever" for g
    unfolding parse_version_directive_def by (rule gv | (simp; fail))+
  have u: "gives g (ploop n c use_line s) whatever" for g c s
    unfolding use_line_def by (rule gives_ploop [where I = whatever]) (rule gv | (simp; fail))+
  have i: "gives g (program_item n o') item_wf" for g o'
    unfolding program_item_def by (rule gv | (simp add: item_wf_def; fail))+
  have l: "gives g (ploop n c (\<lambda>items. ebind (pcase (program_item n)) (\<lambda>it. ret (items @ [it]))) []) (list_all item_wf)" for g c
    by (rule gives_ploop [where I = "list_all item_wf"]) (rule gives_bind gives_pcase i gives_ret | (simp; fail))+
  show ?thesis unfolding parse_program_fuel_def by (rule v u l gv | (simp; fail))+
qed

lemma parsed_program:
  assumes "numbers_ok ts" "parse_program ts = Inr p"
  shows "list_all item_wf (p_items p)"
  using givesD [OF gives_program [of whatever "Suc (length ts)"] assms(1)] assms(2) by (auto simp: parse_program_def split: sum.splits)

end
