(* ===== verification/Parser_Reads.thy ===== *)
theory Parser_Reads
  imports Parser_Print
begin

text \<open>
  The parser reads what \<open>show_expr\<close> writes. \<open>reads_to F p ks a\<close>: on tokens of kinds \<open>ks\<close>, followed by a token whose kind satisfies
  \<open>F\<close>, \<open>p\<close> returns \<open>a\<close> and stops before that token. Its rules follow the combinators; the follow sets grow with the level.
\<close>

section \<open>Reading given tokens\<close>

definition reads_to :: "(token_kind \<Rightarrow> bool) \<Rightarrow> 'a parser \<Rightarrow> token_kind list \<Rightarrow> 'a \<Rightarrow> bool" where
  "reads_to F p ks a \<longleftrightarrow> (\<forall>ts u r. kinds_of ts = ks \<longrightarrow> F (tk_kind u) \<longrightarrow> p (ts @ u # r) = Inr (a, u # r))"

definition heads :: "(token_kind \<Rightarrow> bool) \<Rightarrow> token_kind list \<Rightarrow> token_kind \<Rightarrow> bool" where
  "heads F ks k \<longleftrightarrow> (if ks = [] then F k else k = hd ks)"

abbreviation anything :: "token_kind \<Rightarrow> bool" where
  "anything \<equiv> \<lambda>_. True"

lemma readsD: "reads_to F p ks a \<Longrightarrow> kinds_of ts = ks \<Longrightarrow> F (tk_kind u) \<Longrightarrow> p (ts @ u # r) = Inr (a, u # r)"
  by (simp add: reads_to_def)

lemma reads_mono: "reads_to F p ks a \<Longrightarrow> (\<And>k. F' k \<Longrightarrow> F k) \<Longrightarrow> reads_to F' p ks a"
  by (simp add: reads_to_def)

lemma reads_ret [simp]: "reads_to F (ret a) [] a"
  by (simp add: reads_to_def ret_def)

lemma reads_bind:
  assumes p: "reads_to F' p ks a" and f: "reads_to F (f a) ks' b" and F': "\<And>k. heads F ks' k \<Longrightarrow> F' k"
  shows "reads_to F (ebind p f) (ks @ ks') b"
  unfolding reads_to_def
proof (intro allI impI)
  fix ts r :: "token list" and u :: token assume *: "kinds_of ts = ks @ ks'" "F (tk_kind u)"
  then obtain xs ys where ts: "ts = xs @ ys" "kinds_of xs = ks" "kinds_of ys = ks'" by (auto simp: map_eq_append_conv)
  have "p (xs @ (ys @ u # r)) = Inr (a, ys @ u # r)"
  proof (cases ys)
    case Nil
    with ts * F' have "F' (tk_kind u)" by (auto simp: heads_def)
    with readsD [OF p ts(2)] Nil show ?thesis by simp
  next
    case (Cons y ys')
    with ts F' have "F' (tk_kind y)" by (auto simp: heads_def)
    with readsD [OF p ts(2)] Cons show ?thesis by simp
  qed
  with readsD [OF f ts(3) *(2)] show "ebind p f (ts @ u # r) = Inr (b, u # r)" by (simp add: ebind_def ts(1))
qed

lemma reads_last: "reads_to F p ks a \<Longrightarrow> reads_to F (ebind p (\<lambda>x. ret (h x))) ks (h a)"
  using reads_bind [of F p ks a F "\<lambda>x. ret (h x)" "[]"] by (simp add: heads_def)

lemma reads_step: "reads_to anything p [k] a \<Longrightarrow> reads_to F (f a) ks b \<Longrightarrow> reads_to F (ebind p f) (k # ks) b"
  using reads_bind [of anything p "[k]" a F f ks b] by simp

lemma reads_pcase:
  assumes "\<And>k. heads F ks k \<Longrightarrow> reads_to F (f (Some k)) ks a"
  shows "reads_to F (pcase f) ks a"
  unfolding reads_to_def
proof (intro allI impI)
  fix ts r :: "token list" and u :: token assume *: "kinds_of ts = ks" "F (tk_kind u)"
  let ?k = "tk_kind (hd (ts @ [u]))"
  have "heads F ks ?k" using * by (cases ts) (auto simp: heads_def)
  moreover have "peek_kind (ts @ u # r) = Some ?k" by (cases ts) (simp_all add: peek_kind_def)
  ultimately show "pcase f (ts @ u # r) = Inr (a, u # r)" using readsD [OF assms *] by (simp add: pcase_def)
qed

lemma reads_pif [simp]: "reads_to F (pif c p q) (k # ks) a = (if c (Some k) then reads_to F p (k # ks) a else reads_to F q (k # ks) a)"
  by (simp add: reads_to_def pif_def pcase_def peek_kind_def map_eq_Cons_conv) (auto 0 4)

lemma reads_pif_else:
  assumes "\<And>k. heads F ks k \<Longrightarrow> \<not> c (Some k)" "reads_to F q ks a"
  shows "reads_to F (pif c p q) ks a"
  unfolding pif_def by (rule reads_pcase) (use assms in simp)

lemma reads_pif_then:
  assumes "\<And>k. heads F ks k \<Longrightarrow> c (Some k)" "reads_to F p ks a"
  shows "reads_to F (pif c p q) ks a"
  unfolding pif_def by (rule reads_pcase) (use assms in simp)

lemma reads_advance [simp]: "reads_to anything tok_advance [k] ()"
  by (auto simp: reads_to_def tok_advance_def map_eq_Cons_conv)

lemma reads_expect [simp]:
  "reads_to anything (expect_kind k) [k] ()"
  "reads_to anything (expect_ident w) [Ident w] ()"
  "reads_to anything expect_ident_any [Ident x] x"
  "reads_to anything expect_number [Number n] n"
  "reads_to anything expect_string [StringLit s] s"
  by (auto simp: reads_to_def expect_kind_def expect_ident_def expect_ident_any_def expect_number_def expect_string_def pif_def pcase_def
      check_kind_def check_ident_def peek_kind_def ebind_def tok_advance_def ret_def map_eq_Cons_conv)

text \<open>
  A loop over the pieces \<open>xs\<close>: each of them opens with a token that the condition accepts, and \<open>g\<close> is what a round does to the
  state. A loop with a break reads pieces with commas between them, and goes on after a comma.
\<close>

lemma reads_ploop:
  assumes "\<And>x s. x \<in> set xs \<Longrightarrow> reads_to F' (f s) (tk x) (g s x)" "\<And>x. x \<in> set xs \<Longrightarrow> tk x \<noteq> [] \<and> c (Some (hd (tk x))) \<and> F' (hd (tk x))"
    and "\<And>k. F k \<Longrightarrow> \<not> c (Some k) \<and> F' k" "length xs < n"
  shows "reads_to F (ploop n c f s) (concat (map tk xs)) (foldl g s xs)"
  using assms
proof (induction xs arbitrary: s n)
  case Nil
  then obtain m where "n = Suc m" by (cases n) auto
  with Nil show ?case by (auto intro!: reads_pif_else simp: heads_def ploop_def)
next
  case (Cons x xs)
  then obtain m where n: "n = Suc m" "length xs < m" by (cases n) auto
  have t: "tk x \<noteq> []" "c (Some (hd (tk x)))" "reads_to F' (f s) (tk x) (g s x)" using Cons.prems(1,2) by auto
  have rest: "reads_to F (ploop m c f (g s x)) (concat (map tk xs)) (foldl g (g s x) xs)"
    by (rule Cons.IH) (use Cons.prems n in auto)
  have h: "F' k" if "heads F (concat (map tk xs)) k" for k
    using that Cons.prems(2,3) by (cases xs) (auto simp: heads_def)
  have "reads_to F' (ebind (f s) (\<lambda>s'. ret (s', True))) (tk x) (g s x, True)"
    using reads_bind [OF t(3), of F' "\<lambda>s'. ret (s', True)" "[]"] by (simp add: heads_def)
  then have "reads_to F (ebind (ebind (f s) (\<lambda>s'. ret (s', True))) (\<lambda>(s', again). if again then ploop m c f s' else ret s'))
      (tk x @ concat (map tk xs)) (foldl g (g s x) xs)"
    by (rule reads_bind) (use rest h in simp_all)
  moreover obtain k ks where "tk x = k # ks" using t(1) by (cases "tk x") auto
  ultimately show ?case using t(2) by (simp add: n ploop_def cong: if_cong)
qed

lemma reads_prepeat:
  assumes "\<And>x s. x \<in> set xs \<Longrightarrow> reads_to G (f s) (tk x @ [Comma]) (g s x, True)" "\<And>x s. x \<in> set xs \<Longrightarrow> reads_to F (f s) (tk x) (g s x, False)"
    and "\<And>x. x \<in> set xs \<Longrightarrow> tk x \<noteq> [] \<and> G (hd (tk x))" "length xs \<le> n" "xs \<noteq> []"
  shows "reads_to F (prepeat n f s) (commas (map tk xs)) (foldl g s xs)"
  using assms
proof (induction xs arbitrary: s n)
  case (Cons x xs)
  then obtain m where n: "n = Suc m" by (cases n) auto
  show ?case
  proof (cases xs)
    case Nil
    have "reads_to F (ebind (f s) (\<lambda>(s', again). if again then prepeat m f s' else ret s')) (tk x @ []) (g s x)"
      by (rule reads_bind [where a = "(g s x, False)" and F' = F]) (use Cons.prems(2) in \<open>simp_all add: heads_def\<close>)
    then show ?thesis by (simp add: n Nil prepeat_def pif_def pcase_def cong: if_cong)
  next
    case (Cons y ys)
    have "reads_to F (prepeat m f (g s x)) (commas (map tk xs)) (foldl g (g s x) xs)"
      by (rule Cons.IH) (use Cons.prems n Cons in auto)
    moreover have "G k" if "heads F (commas (map tk xs)) k" for k
      using that Cons.prems(3) [of y] Cons by (cases ys) (auto simp: heads_def)
    ultimately have "reads_to F (ebind (f s) (\<lambda>(s', again). if again then prepeat m f s' else ret s'))
        ((tk x @ [Comma]) @ commas (map tk xs)) (foldl g (g s x) xs)"
      by (intro reads_bind [where a = "(g s x, True)" and F' = G]) (use Cons.prems(1) in simp_all)
    then show ?thesis by (simp add: n Cons prepeat_def pif_def pcase_def cong: if_cong)
  qed
qed simp

end
