(* ===== verification/Parser_Calls.thy ===== *)
theory Parser_Calls
  imports Parser_Reads
begin

text \<open>
  The forms of the grammar that are not operators: for each parsing function of \<open>Parser_Expr\<close> that reads the arguments of a call,
  fields, binders, arms or a conditional, the tokens that \<open>show_expr\<close> writes are read back, given that the
  expressions inside are.
\<close>

section \<open>First tokens and what may follow\<close>

definition starts :: "token_kind \<Rightarrow> bool" where
  "starts k \<longleftrightarrow> (case k of Number _ \<Rightarrow> True | StringLit _ \<Rightarrow> True | BytesLit _ \<Rightarrow> True | Ident _ \<Rightarrow> True
     | LParen \<Rightarrow> True | Minus \<Rightarrow> True | _ \<Rightarrow> False)"

definition follows :: "nat \<Rightarrow> token_kind \<Rightarrow> bool" where
  "follows l k \<longleftrightarrow> k \<notin> {LParen, LBrace, DoubleColon, Dot} \<and> (\<forall>op. op_token op = k \<longrightarrow> op_level op < l)"

lemma op_token_eq: "op_token op = k \<longleftrightarrow> (case op of
    OpAdd \<Rightarrow> k = Plus | OpSub \<Rightarrow> k = Minus | OpMul \<Rightarrow> k = Star | OpDiv \<Rightarrow> k = Slash | OpMod \<Rightarrow> k = Percent
  | OpEq \<Rightarrow> k = EqualEqual | OpNotEq \<Rightarrow> k = NotEqual | OpGt \<Rightarrow> k = Gt | OpLt \<Rightarrow> k = Lt | OpGtEq \<Rightarrow> k = GtEq | OpLtEq \<Rightarrow> k = LtEq
  | OpAnd \<Rightarrow> k = Ident ''and'' | OpOr \<Rightarrow> k = Ident ''or'')"
  by (auto simp: op_token_def split: binop.split)

lemma follows_simps [simp]:
  "follows l Comma" "follows l RParen" "follows l RBrace" "follows l Colon" "follows l Newline" "follows l Dedent" "follows l Eof"
  "follows l FatArrow" "follows l (Ident ''then'')" "follows l (Ident ''else'')"
  by (auto simp: follows_def op_token_eq split: binop.split_asm)

lemma starts_show: "printable e \<Longrightarrow> \<exists>k ks. show_expr e = k # ks \<and> starts k"
  by (induction e rule: show_expr.induct) (auto simp: starts_def paren_def show_call_def)

text \<open>An argument that the parser of expressions reads back.\<close>

definition arg :: "expr parser \<Rightarrow> expr \<Rightarrow> bool" where
  "arg pe e \<longleftrightarrow> reads_to (follows 0) pe (show_expr e) e \<and> (\<exists>k ks. show_expr e = k # ks \<and> starts k)"

lemma argE:
  assumes "arg pe e"
  obtains k ks where "show_expr e = k # ks" "starts k" "reads_to (follows 0) pe (k # ks) e"
  using assms unfolding arg_def by force

lemma starts_simps [simp]:
  "\<not> starts RParen" "\<not> starts Comma" "\<not> starts RBrace" "\<not> starts Newline" "\<not> starts Indent" "\<not> starts Dedent" "\<not> starts Eof" "starts (Ident w)"
  by (simp_all add: starts_def)

lemma heads_simps [simp]: "heads F (k # ks) k' \<longleftrightarrow> k' = k" "heads F [] k' \<longleftrightarrow> F k'"
  by (simp_all add: heads_def)

lemma heads_show: "arg pe e \<Longrightarrow> heads F (show_expr e @ ks) k \<Longrightarrow> starts k"
  by (auto elim!: argE)

lemma reads_arg:
  assumes "arg pe a" "reads_to F (f a) ks b" "\<And>k. heads F ks k \<Longrightarrow> follows 0 k"
  shows "reads_to F (ebind pe f) (show_expr a @ ks) b"
  using assms unfolding arg_def by (blast intro: reads_bind)

lemma reads_guard:
  assumes "arg pe a" "\<And>k. starts k \<Longrightarrow> \<not> c (Some k)" "reads_to F q (show_expr a @ ks) b"
  shows "reads_to F (pif c p q) (show_expr a @ ks) b"
  by (rule reads_pif_else) (use assms heads_show in blast)+

lemmas reads_piece = reads_step [OF reads_advance] reads_step [OF reads_expect(1)] reads_step [OF reads_expect(2)] reads_step [OF reads_expect(3)]

lemma check_kind_simps [simp]: "check_kind k (Some k') \<longleftrightarrow> k' = k" "check_ident w (Some k') \<longleftrightarrow> k' = Ident w"
  by (simp_all add: check_kind_def check_ident_def)

section \<open>Calls of fixed arity\<close>

lemma reads_unary_call:
  assumes "arg pe a"
  shows "reads_to anything (unary_call pe m mk) (LParen # show_expr a @ [RParen]) (mk a)"
  unfolding unary_call_def by (intro reads_piece reads_guard [OF assms] reads_arg assms) (auto intro: reads_piece)

lemma reads_binary_call:
  assumes "arg pe a" "arg pe b"
  shows "reads_to anything (binary_call pe m mk) (LParen # show_expr a @ Comma # show_expr b @ [RParen]) (mk a b)"
  unfolding binary_call_def
  by (intro reads_piece reads_guard reads_arg assms) (auto intro!: reads_piece reads_arg assms)

lemma reads_substring_call:
  assumes "arg pe a" "arg pe b" "arg pe c"
  shows "reads_to anything (substring_call pe) (LParen # show_expr a @ Comma # show_expr b @ Comma # show_expr c @ [RParen]) (ESubstring a b c)"
  unfolding substring_call_def Let_def
  by (intro reads_piece reads_guard reads_arg assms) (auto intro!: reads_piece reads_arg assms)

lemma reads_lambda_call:
  assumes "arg pe a" "arg pe b"
  shows "reads_to anything (lambda_call pe mk) (LParen # show_expr a @ Comma # Ident v # FatArrow # show_expr b @ [RParen]) (mk a v b)"
  unfolding lambda_call_def by (auto intro!: reads_piece reads_arg assms)

lemma reads_fold_call:
  assumes "arg pe c" "arg pe i" "arg pe b"
  shows "reads_to anything (fold_call pe)
    (LParen # show_expr c @ Comma # show_expr i @ Comma # Ident a # Comma # Ident v # FatArrow # show_expr b @ [RParen]) (EFold c i a v b)"
  unfolding fold_call_def by (auto intro!: reads_piece reads_arg assms)

lemma reads_fold_bytes_call:
  assumes "arg pe c" "arg pe i" "arg pe b"
  shows "reads_to anything (fold_bytes_call pe)
    (LParen # show_expr c @ Comma # show_expr i @ Comma # Ident a # Comma # Ident v # Comma # Ident x # FatArrow # show_expr b @ [RParen])
    (EFoldBytes c i a v x b)"
  unfolding fold_bytes_call_def by (auto intro!: reads_piece reads_arg assms)

lemma reads_match_result_call:
  assumes "arg pe t" "arg pe a" "arg pe b"
  shows "reads_to anything (match_result_call pe)
    (LParen # show_expr t @ Comma # Ident v # FatArrow # show_expr a @ Comma # Ident w # FatArrow # show_expr b @ [RParen])
    (EMatchResult t v a w b)"
  unfolding match_result_call_def by (auto intro!: reads_piece reads_arg assms)

lemma reads_wrap_call:
  assumes "arg pe a"
  shows "reads_to anything (wrap_call pe mk) (LParen # show_expr a @ [RParen]) (mk a)"
  unfolding wrap_call_def by (auto intro!: reads_piece reads_arg assms)

lemma reads_name_call: "reads_to anything (name_call mk) [LParen, Ident x, RParen] (mk x)"
  unfolding name_call_def by (auto intro!: reads_piece)

lemma reads_fetch_call: "arg pe a \<Longrightarrow> reads_to anything (fetch_call pe) (LParen # Ident x # Comma # show_expr a @ [RParen]) (EFetch x a)"
  unfolding fetch_call_def by (auto intro!: reads_piece reads_arg)

lemma reads_now_unix_call: "reads_to anything now_unix_call [LParen, RParen] ENowUnix"
  unfolding now_unix_call_def by (auto intro!: reads_piece)

text \<open>\<open>min\<close> and \<open>max\<close> of two numbers: what follows the second argument is not an arrow, so the parser does not go back.\<close>

lemma reads_rewind:
  assumes p: "reads_to (follows 0) p ks a" and f: "f a (Some RParen) = Some p'" "reads_to anything p' [RParen] b"
  shows "reads_to anything (rewind p f q) (ks @ [RParen]) b"
  unfolding reads_to_def
proof (intro allI impI)
  fix ts r :: "token list" and u :: token assume "kinds_of ts = ks @ [RParen]"
  then obtain xs y where ts: "ts = xs @ [y]" "kinds_of xs = ks" "tk_kind y = RParen" by (auto simp: map_eq_append_conv)
  have "p (xs @ y # u # r) = Inr (a, y # u # r)" by (rule readsD [OF p ts(2)]) (simp add: ts(3))
  moreover have "p' ([y] @ u # r) = Inr (b, u # r)" by (rule readsD [OF f(2)]) (simp_all add: ts(3))
  ultimately show "rewind p f q (ts @ u # r) = Inr (b, u # r)" by (simp add: rewind_def ts f(1) peek_kind_def)
qed

lemma reads_reduce_call:
  assumes "arg pe a" "arg pe b" "name = ''min'' \<or> name = ''max''"
  shows "reads_to anything (reduce_call pe name) (LParen # show_expr a @ Comma # show_expr b @ [RParen]) (if name = ''min'' then EMin a b else EMax a b)"
  unfolding reduce_call_def
  by (intro reads_piece reads_arg assms(1) reads_rewind [where a = b]; (simp add: reduce_pair_def assms(3))?)
    (use assms(2) in \<open>auto simp: arg_def intro!: reads_piece\<close>)

section \<open>Lists of arguments, fields, binders and arms\<close>

lemma commas_Cons: "commas (x # xs) = x @ concat (map (\<lambda>y. Comma # y) xs)"
  by (induction xs arbitrary: x) simp_all

lemma foldl_snoc [simp]: "foldl (\<lambda>s x. s @ [h x]) s xs = s @ map h xs"
  by (induction xs arbitrary: s) simp_all

lemma reads_until:
  assumes "reads_to (\<lambda>k. k = c) p ks a"
  shows "reads_to anything (ebind p (\<lambda>x. ebind (expect_kind c) (\<lambda>_. ret (h x)))) (ks @ [c]) (h a)"
  by (rule reads_bind [OF assms]) (auto intro: reads_piece)

lemma reads_call_args:
  assumes "\<And>a. a \<in> set args \<Longrightarrow> arg pe a" "length args < n"
  shows "reads_to anything (call_args n pe) (commas (map show_expr args) @ [RParen]) args"
  unfolding call_args_def
proof (rule reads_until)
  show "reads_to (\<lambda>k. k = RParen) (pif (check_kind RParen) (ret []) (ebind pe (\<lambda>e. more_args n pe [e]))) (commas (map show_expr args)) args"
  proof (cases args)
    case (Cons a as)
    have a: "arg pe a" using assms Cons by simp
    have "reads_to (\<lambda>k. k = RParen) (more_args n pe [a]) (concat (map (\<lambda>y. Comma # show_expr y) as)) (foldl (\<lambda>s x. s @ [x]) [a] as)"
      unfolding more_args_def
      by (rule reads_ploop [where F' = "follows 0"]) (use assms Cons in \<open>auto intro!: reads_piece reads_arg [where ks = "[]", simplified]\<close>)
    moreover have "follows 0 k" if "heads (\<lambda>k. k = RParen) (concat (map (\<lambda>y. Comma # show_expr y) as)) k" for k
      using that by (cases as) auto
    ultimately show ?thesis
      by (auto simp: Cons commas_Cons o_def intro!: reads_guard [OF a] reads_arg [OF a])
  qed (auto intro!: reads_pif_then)
qed

abbreviation show_field :: "string \<times> expr \<Rightarrow> token_kind list" where
  "show_field \<equiv> \<lambda>(f, e). Ident f # Colon # show_expr e"

lemma reads_brace_fields:
  assumes "\<And>f e. (f, e) \<in> set fs \<Longrightarrow> arg pe e" "length fs < n"
  shows "reads_to anything (brace_fields n pe) (show_braces (map show_field fs)) fs"
proof -
  have "reads_to (\<lambda>k. k = RBrace) (pif (check_kind RBrace) (ret []) (prepeat n (field_step pe) [])) (commas (map show_field fs)) fs"
  proof (cases fs)
    case (Cons x xs)
    have "reads_to (\<lambda>k. k = RBrace) (prepeat n (field_step pe) []) (commas (map show_field fs)) (foldl (\<lambda>s x. s @ [x]) [] fs)"
    proof (rule reads_prepeat [where G = "\<lambda>k. k \<noteq> RBrace"])
      fix x s assume "x \<in> set fs"
      then obtain f e where x: "x = (f, e)" "arg pe e" using assms(1) by (metis surj_pair)
      show "reads_to (\<lambda>k. k \<noteq> RBrace) (field_step pe s) (show_field x @ [Comma]) (s @ [x], True)"
        unfolding field_step_def x
        by (auto intro!: reads_piece reads_arg [OF x(2)] reads_pcase)
      show "reads_to (\<lambda>k. k = RBrace) (field_step pe s) (show_field x) (s @ [x], False)"
        unfolding field_step_def x
        by (auto intro!: reads_piece reads_arg [OF x(2), where ks = "[]", simplified] reads_pif_else)
    qed (use assms(2) Cons in auto)
    moreover have "\<not> check_kind RBrace (Some k)" if "heads (\<lambda>k. k = RBrace) (commas (map show_field fs)) k" for k
      using that by (cases xs) (auto simp: Cons split: prod.splits)
    ultimately show ?thesis by (intro reads_pif_else) simp_all
  qed (auto intro!: reads_pif_then)
  then show ?thesis unfolding brace_fields_def show_braces_def by (auto intro!: reads_piece reads_until)
qed

lemma reads_parse_binders:
  assumes "bs \<noteq> []" "Some ''_'' \<notin> set bs" "length bs < n"
  shows "reads_to anything (parse_binders n) (show_binders bs) bs"
proof -
  have "reads_to (\<lambda>k. k = RParen) (prepeat n binder_step []) (commas (map show_binder bs)) (foldl (\<lambda>s x. s @ [x]) [] bs)"
  proof (rule reads_prepeat [where G = anything])
    fix x s assume "x \<in> set bs"
    then have x: "binder_of (case x of None \<Rightarrow> ''_'' | Some y \<Rightarrow> y) = x" using assms(2) by (auto simp: binder_of_def split: option.split)
    show "reads_to anything (binder_step s) (show_binder x @ [Comma]) (s @ [x], True)"
      unfolding binder_step_def show_binder_def by (auto intro!: reads_piece simp: x)
    show "reads_to (\<lambda>k. k = RParen) (binder_step s) (show_binder x) (s @ [x], False)"
      unfolding binder_step_def show_binder_def by (auto intro!: reads_piece reads_pif_else simp: x)
  qed (use assms in \<open>auto simp: show_binder_def\<close>)
  moreover have "k \<noteq> RParen" if "heads (\<lambda>k. k = RParen) (commas (map show_binder bs)) k" for k
    using that assms(1) by (cases bs; cases "tl bs") (auto simp: show_binder_def)
  ultimately show ?thesis using assms(1)
    unfolding parse_binders_def show_binders_def by (auto intro!: reads_piece reads_until reads_pif_else)
qed

abbreviation show_arm :: "expr match_arm \<Rightarrow> token_kind list" where
  "show_arm \<equiv> \<lambda>a. Ident (arm_variant a) # show_binders (arm_binders a) @ FatArrow # show_expr (arm_body a) @ [Newline]"

lemma reads_arm_step:
  assumes "arg pe (arm_body a)" "Some ''_'' \<notin> set (arm_binders a)" "length (arm_binders a) < n"
  shows "reads_to anything (arm_step n pe arms) (show_arm a) (arms @ [a])"
proof -
  have b: "reads_to (\<lambda>k. k = FatArrow) (pif (check_kind LParen) (parse_binders n) (ret [])) (show_binders (arm_binders a)) (arm_binders a)"
  proof (cases "arm_binders a")
    case (Cons b bs)
    have "reads_to (\<lambda>k. k = FatArrow) (parse_binders n) (show_binders (b # bs)) (b # bs)"
      using reads_parse_binders [of "arm_binders a" n] assms(2,3) Cons by (auto elim: reads_mono)
    then show ?thesis unfolding Cons by (simp add: show_binders_def)
  qed (auto simp: show_binders_def intro!: reads_pif_else)
  show ?thesis
    unfolding arm_step_def by (auto intro!: reads_piece reads_bind [OF b] reads_arg [OF assms(1)])
qed

lemma reads_match_form:
  assumes "arg pe s" "\<And>a. a \<in> set arms \<Longrightarrow> arg pe (arm_body a) \<and> Some ''_'' \<notin> set (arm_binders a) \<and> length (arm_binders a) < n"
    and "length arms < n"
  shows "reads_to anything (match_form n pe)
    (Ident ''match'' # show_expr s @ [Colon, Newline, Indent] @ concat (map show_arm arms) @ [Dedent]) (EMatchVariant s arms)"
proof -
  have l: "reads_to (\<lambda>k. k = Dedent) (ploop n in_block (arm_step n pe) []) (concat (map show_arm arms)) (foldl (\<lambda>s x. s @ [x]) [] arms)"
    by (rule reads_ploop [where F' = anything]) (use assms(2,3) reads_arm_step in \<open>auto simp: in_block_def\<close>)
  show ?thesis
    unfolding match_form_def using l by (auto intro!: reads_piece reads_arg [OF assms(1)] reads_until)
qed

lemma reads_skip:
  assumes "reads_to F (f d) ks b" "\<And>k. heads F ks k \<Longrightarrow> starts k"
  shows "reads_to F (ebind (skip_if_separators d) f) ks b"
proof -
  have "skip_if_separators d (u # r) = Inr (d, u # r)" if "starts (tk_kind u)" for u :: token and r
    using that by (cases r) (auto simp: starts_def split: token_kind.splits)
  then have "reads_to starts (skip_if_separators d) [] d" by (auto simp: reads_to_def)
  from reads_bind [where f = f, OF this assms] show ?thesis by simp
qed

lemma reads_close: "reads_to F (ebind (close_if_blocks 0) (\<lambda>_. ret a)) [] a"
proof -
  have "close_if_blocks 0 (u # r) = Inr ((), u # r)" for u :: token and r by (cases r) auto
  then show ?thesis by (auto simp: reads_to_def ebind_def ret_def)
qed

lemma reads_if_form:
  assumes "arg pe c" "arg pe t" "arg pe e"
  shows "reads_to (follows 0) (if_form pe) (Ident ''if'' # show_expr c @ Ident ''then'' # show_expr t @ Ident ''else'' # show_expr e) (EIf c t e)"
proof -
  note h = assms [THEN heads_show]
  have e: "reads_to (follows 0) (ebind pe (\<lambda>e. ebind (close_if_blocks 0) (\<lambda>_. ret (EIf c t e)))) (show_expr e @ []) (EIf c t e)"
    by (rule reads_arg [OF assms(3)]) (simp_all add: reads_close)
  show ?thesis
    unfolding if_form_def using e
    by (auto intro!: reads_piece reads_skip reads_arg [OF assms(1)] reads_arg [OF assms(2)] dest: h h(3) [where ks = "[]", simplified])
qed

end
