(* ===== verification/Parser_Levels.thy ===== *)
theory Parser_Levels
  imports Parser_Calls
begin

text \<open>
  The levels of the expression grammar read what \<open>show_expr\<close> writes at that level: an expression climbs down from the primary forms
  through every layer, a left-associative chain is read operand by operand; then, form by form, an expression is read when
  its parts are.
\<close>

section \<open>From level to level\<close>

definition level :: "nat \<Rightarrow> expr parser \<Rightarrow> nat \<Rightarrow> expr parser" where
  "level n pe l =
     (if l \<le> 1 then parse_or_expr n pe else if l = 2 then parse_and_expr n pe else if l = 3 then parse_cmp_expr n pe
      else if l = 4 then parse_add_expr n pe else if l = 5 then parse_mul_expr n pe else if l = 6 then parse_unary n (parse_primary n pe)
      else parse_primary n pe)"

text \<open>The operator of a level, for the four that are loops.\<close>

definition level_op :: "nat \<Rightarrow> token_kind option \<Rightarrow> binop option" where
  "level_op l = (if l = 1 then word_op ''or'' OpOr else if l = 2 then word_op ''and'' OpAnd else if l = 4 then add_op else mul_op)"

lemma level_loop: "l \<in> {1, 2, 4, 5} \<Longrightarrow> level n pe l = left_layer (level_op l) n (level n pe (Suc l))"
  by (auto simp: level_def level_op_def parse_or_expr_def parse_and_expr_def parse_add_expr_def parse_mul_expr_def)

lemma op_of_iff:
  "mul_op (Some k) = Some op \<longleftrightarrow> op_level op = 5 \<and> op_token op = k"
  "add_op (Some k) = Some op \<longleftrightarrow> op_level op = 4 \<and> op_token op = k"
  "cmp_op (Some k) = Some op \<longleftrightarrow> op_level op = 3 \<and> op_token op = k"
  "word_op ''and'' OpAnd (Some k) = Some op \<longleftrightarrow> op_level op = 2 \<and> op_token op = k"
  "word_op ''or'' OpOr (Some k) = Some op \<longleftrightarrow> op_level op = 1 \<and> op_token op = k"
  by (cases op; cases k; simp add: mul_op_def add_op_def cmp_op_def word_op_def op_token_def op_level_def)+

lemma level_op_iff: "l \<in> {1, 2, 4, 5} \<Longrightarrow> level_op l (Some k) = Some op \<longleftrightarrow> op_level op = l \<and> op_token op = k"
  by (elim insertE emptyE) (simp_all add: level_op_def op_of_iff)

lemma follows_level:
  assumes "follows l k" "l \<in> {1, 2, 4, 5}"
  shows "level_op l (Some k) = None"
proof (cases "level_op l (Some k)")
  case (Some op)
  with level_op_iff [OF assms(2)] have "op_level op = l" "op_token op = k" by auto
  with assms(1) show ?thesis by (auto simp: follows_def)
qed simp

lemma follows_cmp:
  assumes "follows l k" "l \<le> 3"
  shows "cmp_op (Some k) = None"
proof (cases "cmp_op (Some k)")
  case (Some op)
  with op_of_iff(3) have "op_level op = 3" "op_token op = k" by auto
  with assms show ?thesis by (auto simp: follows_def)
qed simp

lemma follows_mono: "follows l k \<Longrightarrow> l \<le> l' \<Longrightarrow> follows l' k"
  by (force simp: follows_def)

definition prefixed :: "token_kind \<Rightarrow> bool" where
  "prefixed k \<longleftrightarrow> k = Minus \<or> k = Ident ''not''"

lemma reads_unary_primary: "reads_to F prim (k # ks) e \<Longrightarrow> \<not> prefixed k \<Longrightarrow> reads_to F (parse_unary (Suc u) prim) (k # ks) e"
  by (simp add: parse_unary.simps prefixed_def)

lemma reads_left_stop:
  assumes "reads_to F sub ks e" "\<And>k. F k \<Longrightarrow> op_of (Some k) = None" "0 < n"
  shows "reads_to F (left_layer op_of n sub) ks e"
proof -
  obtain m where n: "n = Suc m" using assms(3) by (cases n) auto
  have "reads_to F (ebind sub (ploop n (\<lambda>o'. op_of o' \<noteq> None) (\<lambda>left. pcase (\<lambda>o'.
       ebind tok_advance (\<lambda>_. ebind sub (\<lambda>right. ret (EBinary (the (op_of o')) left right))))))) (ks @ []) e"
    by (rule reads_bind [OF assms(1)]) (auto simp: ploop_def n assms(2) intro!: reads_pif_else)
  then show ?thesis by (simp add: left_layer_def)
qed

lemma level_down:
  assumes r: "reads_to F (level n pe (Suc l)) ks e" and F: "\<And>k. F k \<Longrightarrow> follows l k" and l: "1 \<le> l" "l \<le> 5" and n: "0 < n"
  shows "reads_to F (level n pe l) ks e"
proof (cases "l = 3")
  case True
  have "reads_to F (parse_add_expr n pe) ks e" using r by (simp add: level_def True)
  then have "reads_to F (ebind (parse_add_expr n pe) (\<lambda>left. pcase (\<lambda>o'. case cmp_op o' of
        Some op \<Rightarrow> ebind tok_advance (\<lambda>_. ebind (parse_add_expr n pe) (\<lambda>right. ret (EBinary op left right)))
      | None \<Rightarrow> ret left))) (ks @ []) e"
    by (rule reads_bind) (use F in \<open>auto simp: True follows_cmp [of 3] intro!: reads_pcase\<close>)
  then show ?thesis by (simp add: level_def True parse_cmp_expr_def)
next
  case False
  with l have l': "l \<in> {1, 2, 4, 5}" by auto
  show ?thesis unfolding level_loop [OF l'] by (rule reads_left_stop [OF r]) (use F l' n follows_level in auto)
qed

lemma level_le:
  assumes "reads_to F (level n pe l') ks e" "\<And>k. F k \<Longrightarrow> follows l k" "1 \<le> l" "l \<le> l'" "l' \<le> 6" "0 < n"
  shows "reads_to F (level n pe l) ks e"
  using assms(4)
proof (induction rule: inc_induct)
  case (step m)
  show ?case
    by (rule level_down [OF step.IH]) (use assms step in \<open>auto intro: follows_mono\<close>)
qed (use assms in simp)

section \<open>What an expression reads\<close>

text \<open>
  \<open>fits n e\<close>: with fuel \<open>n\<close>, the expression is read by the parsers of all levels down from its own, and by the whole
  grammar.
\<close>

definition fits :: "nat \<Rightarrow> expr \<Rightarrow> bool" where
  "fits n e \<longleftrightarrow>
     (let pe = parse_expr (n - 1) in
      (\<forall>u. 6 \<le> expr_level e \<longrightarrow> length (show_expr e) < u \<longrightarrow> reads_to (follows 6) (parse_unary u (parse_primary n pe)) (show_expr e) e) \<and>
      (\<forall>l. 1 \<le> l \<longrightarrow> l \<le> 6 \<longrightarrow> l \<le> expr_level e \<longrightarrow> reads_to (follows l) (level n pe l) (show_expr e) e) \<and>
      reads_to (follows 0) (parse_expr n) (show_expr e) e)"

lemma fitsD:
  assumes "fits n e"
  shows "6 \<le> expr_level e \<Longrightarrow> length (show_expr e) < u \<Longrightarrow> reads_to (follows 6) (parse_unary u (parse_primary n (parse_expr (n - 1)))) (show_expr e) e"
    and "1 \<le> l \<Longrightarrow> l \<le> 6 \<Longrightarrow> l \<le> expr_level e \<Longrightarrow> reads_to (follows l) (level n (parse_expr (n - 1)) l) (show_expr e) e"
    and "reads_to (follows 0) (parse_expr n) (show_expr e) e"
  using assms by (auto simp: fits_def Let_def)

lemma parse_expr_level: "0 < n \<Longrightarrow> parse_expr n = level n (parse_expr (n - 1)) 1"
  by (cases n) (simp_all add: parse_expr.simps level_def)

lemma reads_whole:
  assumes "reads_to (follows l) (level n (parse_expr (n - 1)) l) ks e" "l \<le> 6" "1 \<le> l" "0 < n"
  shows "reads_to (follows 0) (parse_expr n) ks e"
  unfolding parse_expr_level [OF assms(4)]
  by (rule level_le [OF reads_mono [OF assms(1)]]) (use assms in \<open>auto intro: follows_mono\<close>)

text \<open>An expression of level \<open>l\<close> below the prefix operators fits when its own level reads it.\<close>

lemma fits_level:
  assumes "reads_to (follows l) (level n (parse_expr (n - 1)) l) (show_expr e) e" "expr_level e = l" "1 \<le> l" "l \<le> 5" "0 < n"
  shows "fits n e"
  unfolding fits_def Let_def
  by (intro conjI allI impI reads_whole [OF assms(1)] level_le [OF reads_mono [OF assms(1)]])
    (use assms in \<open>auto intro: follows_mono\<close>)

lemma fits_unary:
  assumes "\<And>u. length (show_expr e) < u \<Longrightarrow> reads_to (follows 6) (parse_unary u (parse_primary n (parse_expr (n - 1)))) (show_expr e) e"
    and "6 \<le> expr_level e" "length (show_expr e) < n"
  shows "fits n e"
proof -
  have 6: "reads_to (follows 6) (level n (parse_expr (n - 1)) 6) (show_expr e) e" using assms(1) [OF assms(3)] by (simp add: level_def)
  show ?thesis
    unfolding fits_def Let_def
    by (intro conjI allI impI assms(1) reads_whole [OF 6] level_le [OF reads_mono [OF 6]])
      (use assms in \<open>auto intro: follows_mono\<close>)
qed

lemma fits_primary:
  assumes "reads_to (follows 6) (parse_primary n (parse_expr (n - 1))) (show_expr e) e" "expr_level e = 7" "length (show_expr e) < n"
    and "show_expr e = k # ks" "\<not> prefixed k"
  shows "fits n e"
proof (rule fits_unary)
  fix u assume "length (show_expr e) < u"
  then obtain v where "u = Suc v" by (cases u) auto
  with assms reads_unary_primary show "reads_to (follows 6) (parse_unary u (parse_primary n (parse_expr (n - 1)))) (show_expr e) e"
    by simp
qed (use assms in auto)

section \<open>Operands\<close>

lemma fits_arg: "fits m e \<Longrightarrow> printable e \<Longrightarrow> arg (parse_expr m) e"
  using starts_show by (simp add: arg_def fitsD(3))

lemma reads_paren_primary:
  assumes "arg pe e"
  shows "reads_to anything (parse_primary n pe) (LParen # show_expr e @ [RParen]) e"
  unfolding parse_primary_def by (auto intro!: reads_piece reads_arg [OF assms])

text \<open>An operand at level \<open>l\<close> or above; a looser one is in parentheses, and read with the fuel of the next nesting.\<close>

lemma reads_operand:
  assumes "\<And>m. length (show_expr e) < m \<Longrightarrow> fits m e" "printable e" "length (paren (expr_level e < l) (show_expr e)) < n" "1 \<le> l" "l \<le> 6"
  shows "reads_to (follows l) (level n (parse_expr (n - 1)) l) (paren (expr_level e < l) (show_expr e)) e"
proof (cases "expr_level e < l")
  case True
  then have "fits (n - 1) e" using assms(1,3) by (simp add: paren_def)
  from reads_paren_primary [OF fits_arg [OF this assms(2)], of n]
  have "reads_to anything (level n (parse_expr (n - 1)) 6) (LParen # show_expr e @ [RParen]) e"
    using assms(3) reads_unary_primary [of anything _ LParen _ e "n - 1"] by (simp add: level_def prefixed_def paren_def True)
  then have "reads_to (follows l) (level n (parse_expr (n - 1)) 6) (LParen # show_expr e @ [RParen]) e" by (rule reads_mono) simp
  then have "reads_to (follows l) (level n (parse_expr (n - 1)) l) (LParen # show_expr e @ [RParen]) e"
    by (rule level_le) (use assms in auto)
  then show ?thesis by (simp add: True paren_def)
next
  case False
  with assms have "fits n e" by (simp add: paren_def)
  from fitsD(2) [OF this assms(4,5)] False show ?thesis by (simp add: paren_def)
qed

lemma reads_prefix_operand:
  assumes "\<And>m. length (show_expr e) < m \<Longrightarrow> fits m e" "printable e"
    and "length (paren (expr_level e < 6) (show_expr e)) < n" "length (paren (expr_level e < 6) (show_expr e)) < u"
  shows "reads_to (follows 6) (parse_unary u (parse_primary n (parse_expr (n - 1)))) (paren (expr_level e < 6) (show_expr e)) e"
proof (cases "expr_level e < 6")
  case True
  then have "fits (n - 1) e" using assms(1,3) by (simp add: paren_def)
  from reads_paren_primary [OF fits_arg [OF this assms(2)], of n]
  have "reads_to anything (parse_unary u (parse_primary n (parse_expr (n - 1)))) (LParen # show_expr e @ [RParen]) e"
    using assms(4) reads_unary_primary [of anything _ LParen _ e "u - 1"] by (simp add: prefixed_def paren_def True)
  then show ?thesis by (auto simp: True paren_def elim: reads_mono)
next
  case False
  with assms have "fits n e" by (simp add: paren_def)
  from fitsD(1) [OF this, of u] False assms(4) show ?thesis by (simp add: paren_def)
qed

section \<open>Chains of operators\<close>

text \<open>
  \<open>enters n l ks e\<close>: on tokens of kinds \<open>ks\<close> the loop of level \<open>l\<close> arrives at its condition with \<open>e\<close> as the left operand, and has
  used at most as many rounds as there are tokens.
\<close>

definition chain_loop :: "nat \<Rightarrow> nat \<Rightarrow> nat \<Rightarrow> expr \<Rightarrow> expr parser" where
  "chain_loop n l m = ploop m (\<lambda>o'. level_op l o' \<noteq> None) (\<lambda>left. pcase (\<lambda>o'.
     ebind tok_advance (\<lambda>_. ebind (level n (parse_expr (n - 1)) (Suc l)) (\<lambda>right. ret (EBinary (the (level_op l o')) left right)))))"

definition enters :: "nat \<Rightarrow> nat \<Rightarrow> token_kind list \<Rightarrow> expr \<Rightarrow> bool" where
  "enters n l ks e \<longleftrightarrow>
     (\<forall>ts u r. kinds_of ts = ks \<longrightarrow> follows (Suc l) (tk_kind u) \<longrightarrow>
        (\<exists>m. n \<le> m + length ks \<and> level n (parse_expr (n - 1)) l (ts @ u # r) = chain_loop n l m e (u # r)))"

lemma level_chain: "l \<in> {1, 2, 4, 5} \<Longrightarrow> level n (parse_expr (n - 1)) l = ebind (level n (parse_expr (n - 1)) (Suc l)) (chain_loop n l n)"
  using level_loop [of l] by (simp add: left_layer_def chain_loop_def)

lemma chain_stop: "level_op l (Some (tk_kind u)) = None \<Longrightarrow> 0 < m \<Longrightarrow> chain_loop n l m e (u # r) = Inr (e, u # r)"
  by (cases m) (simp_all add: chain_loop_def ploop_def pif_def pcase_def peek_kind_def ret_def)

lemma entersI:
  assumes "reads_to (follows (Suc l)) (level n (parse_expr (n - 1)) (Suc l)) ks e" "l \<in> {1, 2, 4, 5}"
  shows "enters n l ks e"
  unfolding enters_def
proof (intro allI impI)
  fix ts r :: "token list" and u :: token assume "kinds_of ts = ks" "follows (Suc l) (tk_kind u)"
  from readsD [OF assms(1) this] have "level n (parse_expr (n - 1)) l (ts @ u # r) = chain_loop n l n e (u # r)"
    unfolding level_chain [OF assms(2)] by (simp add: ebind_def)
  then show "\<exists>m. n \<le> m + length ks \<and> level n (parse_expr (n - 1)) l (ts @ u # r) = chain_loop n l m e (u # r)"
    by (intro exI [of _ n]) simp
qed

lemma reads_enters:
  assumes "enters n l ks e" "length ks < n" "l \<in> {1, 2, 4, 5}"
  shows "reads_to (follows l) (level n (parse_expr (n - 1)) l) ks e"
  unfolding reads_to_def
proof (intro allI impI)
  fix ts r :: "token list" and u :: token assume *: "kinds_of ts = ks" "follows l (tk_kind u)"
  then have "follows (Suc l) (tk_kind u)" by (auto intro: follows_mono)
  with assms(1) * obtain m where m: "n \<le> m + length ks" "level n (parse_expr (n - 1)) l (ts @ u # r) = chain_loop n l m e (u # r)"
    unfolding enters_def by blast
  with assms(2) have "0 < m" by simp
  with m(2) show "level n (parse_expr (n - 1)) l (ts @ u # r) = Inr (e, u # r)"
    by (simp add: chain_stop follows_level [OF *(2) assms(3)])
qed

lemma op_token_inj: "op_token op = op_token op' \<longleftrightarrow> op = op'"
  by (cases op; cases op') (simp_all add: op_token_def)

lemma follows_op: "follows l (op_token op) \<longleftrightarrow> op_level op < l"
proof -
  have "op_token op \<notin> {LParen, LBrace, DoubleColon, Dot}" by (cases op) (simp_all add: op_token_def)
  then show ?thesis by (simp add: follows_def op_token_inj)
qed

lemma enters_step:
  assumes a: "enters n l ks a" and b: "reads_to (follows (Suc l)) (level n (parse_expr (n - 1)) (Suc l)) ks' b"
    and l: "op_level op = l" "l \<in> {1, 2, 4, 5}" and n: "length ks < n"
  shows "enters n l (ks @ op_token op # ks') (EBinary op a b)"
  unfolding enters_def
proof (intro allI impI)
  fix ts r :: "token list" and u :: token assume "kinds_of ts = ks @ op_token op # ks'" and u: "follows (Suc l) (tk_kind u)"
  then obtain xs y ys where ts: "ts = xs @ y # ys" "kinds_of xs = ks" "tk_kind y = op_token op" "kinds_of ys = ks'"
    by (auto simp: map_eq_append_conv map_eq_Cons_conv)
  have "follows (Suc l) (tk_kind y)" by (simp add: ts(3) follows_op l(1))
  with a ts(2) obtain m where m: "n \<le> m + length ks"
    "level n (parse_expr (n - 1)) l (xs @ y # ys @ u # r) = chain_loop n l m a (y # ys @ u # r)"
    unfolding enters_def by blast
  with n obtain m' where m': "m = Suc m'" by (cases m) auto
  have "level_op l (Some (tk_kind y)) = Some op" using level_op_iff [OF l(2)] by (simp add: ts(3) l(1))
  moreover have "tok_advance (y # ys @ u # r) = Inr ((), ys @ u # r)" by (cases ys) (simp_all add: tok_advance_def)
  moreover note readsD [OF b ts(4) u, of r]
  ultimately have "chain_loop n l m a (y # ys @ u # r) = chain_loop n l m' (EBinary op a b) (u # r)"
    by (simp add: chain_loop_def ploop_def m' pif_def pcase_def peek_kind_def ebind_def ret_def)
  then show "\<exists>m. n \<le> m + length (ks @ op_token op # ks') \<and>
      level n (parse_expr (n - 1)) l (ts @ u # r) = chain_loop n l m (EBinary op a b) (u # r)"
    using m m' by (intro exI [of _ m']) (simp add: ts(1))
qed

section \<open>One step per form\<close>

definition ok :: "expr \<Rightarrow> bool" where
  "ok e \<longleftrightarrow> (printable e \<longrightarrow> (\<forall>n. length (show_expr e) < n \<longrightarrow>
     fits n e \<and> (\<forall>l \<in> {1, 2, 4, 5}. l \<le> expr_level e \<longrightarrow> enters n l (show_expr e) e)))"

lemma okD: "ok e \<Longrightarrow> printable e \<Longrightarrow> length (show_expr e) < n \<Longrightarrow> fits n e"
  by (simp add: ok_def)

lemma ok_arg: "ok a \<Longrightarrow> printable a \<Longrightarrow> length (show_expr a) < n \<Longrightarrow> arg (parse_expr n) a"
  by (simp add: okD fits_arg)

text \<open>Unless the expression is a chain of that level itself, the level above it reads it.\<close>

lemma fits_enters:
  assumes "fits n e" "l \<in> {1, 2, 4, 5}" "Suc l \<le> expr_level e"
  shows "enters n l (show_expr e) e"
  by (rule entersI [OF fitsD(2) [OF assms(1)]]) (use assms(2,3) in auto)

lemma okI:
  assumes "\<And>n. printable e \<Longrightarrow> length (show_expr e) < n \<Longrightarrow> fits n e" "expr_level e \<notin> {1, 2, 4, 5}"
  shows "ok e"
  unfolding ok_def
proof (intro impI allI conjI ballI)
  fix n l assume "printable e" "length (show_expr e) < n" "l \<in> {1, 2, 4, 5::nat}" "l \<le> expr_level e"
  with assms(2) have "Suc l \<le> expr_level e" by (metis not_less_eq_eq le_antisym)
  with \<open>printable e\<close> \<open>length (show_expr e) < n\<close> \<open>l \<in> _\<close> show "enters n l (show_expr e) e" by (intro fits_enters assms(1))
qed (use assms(1) in blast)

lemma ok_chain_operand:
  assumes "ok a" "printable a" "l \<in> {1, 2, 4, 5}" "length (paren (expr_level a < l) (show_expr a)) < n"
  shows "enters n l (paren (expr_level a < l) (show_expr a)) a"
proof (cases "expr_level a < l")
  case True
  have "reads_to (follows (Suc l)) (level n (parse_expr (n - 1)) (Suc l)) (paren (expr_level a < Suc l) (show_expr a)) a"
    by (rule reads_operand) (use assms True in \<open>auto intro: okD simp: paren_def\<close>)
  with True assms(3) show ?thesis by (auto intro: entersI simp: paren_def)
next
  case False
  with assms have "fits n a \<and> (\<forall>l \<in> {1, 2, 4, 5}. l \<le> expr_level a \<longrightarrow> enters n l (show_expr a) a)" by (simp add: ok_def paren_def)
  with assms(3) False have "enters n l (show_expr a) a" by (metis not_less)
  with False show ?thesis by (simp add: paren_def)
qed

lemma ok_binary:
  assumes "ok a" "ok b"
  shows "ok (EBinary op a b)"
proof (cases "op_level op = 3")
  case False
  then have l: "op_level op \<in> {1, 2, 4, 5}" by (simp add: op_level_def split: binop.splits)
  have en: "enters n (op_level op) (show_expr (EBinary op a b)) (EBinary op a b)"
    if p: "printable (EBinary op a b)" and n: "length (show_expr (EBinary op a b)) < n" for n
  proof -
    have "reads_to (follows (Suc (op_level op))) (level n (parse_expr (n - 1)) (Suc (op_level op))) (paren (expr_level b \<le> op_level op) (show_expr b)) b"
      unfolding less_Suc_eq_le [symmetric] by (rule reads_operand) (use assms(2) p n l in \<open>auto intro: okD simp: less_Suc_eq_le\<close>)
    moreover have "enters n (op_level op) (paren (expr_level a < op_level op) (show_expr a)) a"
      by (rule ok_chain_operand [OF assms(1)]) (use p n l False in \<open>auto simp: left_level_def\<close>)
    ultimately show ?thesis using enters_step [OF _ _ refl l] n False by (simp add: left_level_def)
  qed
  have f: "fits n (EBinary op a b)" if p: "printable (EBinary op a b)" and n: "length (show_expr (EBinary op a b)) < n" for n
    by (rule fits_level [OF reads_enters [OF en [OF p n] n l]]) (use l n in \<open>auto simp: expr_level_def\<close>)
  show ?thesis
    unfolding ok_def
  proof (intro impI allI conjI ballI f)
    fix n l assume *: "printable (EBinary op a b)" "length (show_expr (EBinary op a b)) < n" "l \<in> {1, 2, 4, 5::nat}" "l \<le> expr_level (EBinary op a b)"
    show "enters n l (show_expr (EBinary op a b)) (EBinary op a b)"
    proof (cases "l = op_level op")
      case False
      with * have "Suc l \<le> expr_level (EBinary op a b)" by (simp add: expr_level_def)
      then show ?thesis by (rule fits_enters [OF f [OF *(1,2)] *(3)])
    qed (use en * in auto)
  qed
next
  case True
  show ?thesis
  proof (rule okI)
    fix n assume p: "printable (EBinary op a b)" and n: "length (show_expr (EBinary op a b)) < n"
    have "reads_to (follows 4) (level n (parse_expr (n - 1)) 4) (paren (expr_level b < 4) (show_expr b)) b"
      by (rule reads_operand) (use assms(2) p n True in \<open>auto intro: okD simp: paren_def split: if_splits\<close>)
    then have b: "reads_to (follows 3) (level n (parse_expr (n - 1)) 4) (paren (expr_level b < 4) (show_expr b)) b"
      by (rule reads_mono) (simp add: follows_mono)
    have a: "reads_to (follows 4) (level n (parse_expr (n - 1)) 4) (paren (expr_level a < 4) (show_expr a)) a"
      by (rule reads_operand) (use assms(1) p n True in \<open>auto intro: okD simp: left_level_def\<close>)
    have c: "cmp_op (Some (op_token op)) = Some op" by (simp add: op_of_iff True)
    have "reads_to (follows 3) (level n (parse_expr (n - 1)) 3)
      (paren (expr_level a < 4) (show_expr a) @ op_token op # paren (expr_level b < 4) (show_expr b)) (EBinary op a b)"
      using a reads_last [OF b, of "EBinary op a"] unfolding level_def parse_cmp_expr_def
      by (auto intro!: reads_bind [where F' = "follows 4"] reads_pcase reads_step [OF reads_advance] simp: follows_op True c
          intro: follows_mono)
    moreover have "(expr_level b \<le> 3) = (expr_level b < 4)" by auto
    ultimately show "fits n (EBinary op a b)"
      by (intro fits_level [where l = 3]) (use n in \<open>auto simp: True left_level_def expr_level_def\<close>)
  qed (simp add: expr_level_def True)
qed

text \<open>The prefix operators and the conditional.\<close>

lemma ok_prefix:
  assumes "ok a"
  shows "ok (ENot a)" "ok (ENeg a)"
proof -
  have r: "reads_to (follows 6) (parse_unary u (parse_primary n (parse_expr (n - 1)))) (paren (expr_level a < 6) (show_expr a)) a"
    if "printable a" "length (paren (expr_level a < 6) (show_expr a)) < n" "length (paren (expr_level a < 6) (show_expr a)) < u" for n u
    by (rule reads_prefix_operand [OF okD [OF assms]]) (use that in auto)
  have l: "expr_level (ENot a) = 6" "expr_level (ENeg a) = 6" by (simp_all add: expr_level_def)
  show "ok (ENot a)"
  proof (intro okI fits_unary)
    fix n u assume *: "printable (ENot a)" "length (show_expr (ENot a)) < n" "length (show_expr (ENot a)) < u"
    then obtain v where "u = Suc v" by (cases u) auto
    with * r show "reads_to (follows 6) (parse_unary u (parse_primary n (parse_expr (n - 1)))) (show_expr (ENot a)) (ENot a)"
      by (auto simp: parse_unary.simps intro!: reads_step [OF reads_advance] reads_last)
  qed (simp_all add: l)
  show "ok (ENeg a)"
  proof (intro okI fits_unary)
    fix n u assume *: "printable (ENeg a)" "length (show_expr (ENeg a)) < n" "length (show_expr (ENeg a)) < u"
    then obtain v where "u = Suc v" by (cases u) auto
    with * r show "reads_to (follows 6) (parse_unary u (parse_primary n (parse_expr (n - 1)))) (show_expr (ENeg a)) (ENeg a)"
      by (auto simp: parse_unary.simps intro!: reads_step [OF reads_advance] reads_last)
  qed (simp_all add: l)
qed

lemma ok_if:
  assumes "ok c" "ok t" "ok e"
  shows "ok (EIf c t e)"
proof (rule okI)
  fix n assume p: "printable (EIf c t e)" "length (show_expr (EIf c t e)) < n"
  then have "reads_to (follows 0) (parse_primary n (parse_expr (n - 1))) (show_expr (EIf c t e)) (EIf c t e)"
    using reads_if_form [of "parse_expr (n - 1)" c t e] by (simp add: ok_arg assms parse_primary_def)
  then have "reads_to (follows 0) (level n (parse_expr (n - 1)) 6) (show_expr (EIf c t e)) (EIf c t e)"
    using p(2) by (cases n) (simp_all add: level_def reads_unary_primary prefixed_def)
  then have "reads_to (follows 0) (parse_expr n) (show_expr (EIf c t e)) (EIf c t e)"
    using level_le [of "follows 0" n "parse_expr (n - 1)" 6 _ _ 1] p(2) by (simp add: parse_expr_level follows_mono)
  then show "fits n (EIf c t e)" by (simp add: fits_def expr_level_def)
qed (simp add: expr_level_def)

text \<open>A primary form that opens with a name: what follows the name is read by \<open>named_form\<close>.\<close>

lemma reads_any: "reads_to anything p ks a \<Longrightarrow> reads_to F p ks a"
  by (simp add: reads_to_def)

lemma ok_named:
  assumes "printable e \<Longrightarrow> \<exists>name ks. show_expr e = Ident name # ks \<and> \<not> opening_word name \<and>
      (\<forall>n. length (show_expr e) < n \<longrightarrow> reads_to (follows 6) (named_form n (parse_expr (n - 1)) name) ks e)"
    and "expr_level e = 7"
  shows "ok e"
proof (rule okI)
  fix n assume p: "printable e" "length (show_expr e) < n"
  from assms(1) [OF p(1)] p(2) obtain name ks where e: "show_expr e = Ident name # ks" "\<not> opening_word name"
    "reads_to (follows 6) (named_form n (parse_expr (n - 1)) name) ks e" by blast
  then have "reads_to (follows 6) (parse_primary n (parse_expr (n - 1))) (show_expr e) e"
    by (auto simp: parse_primary_def opening_word_def literal_form_def intro!: reads_pcase reads_piece)
  then show "fits n e" by (rule fits_primary) (use assms(2) p e in \<open>auto simp: prefixed_def opening_word_def\<close>)
qed (simp add: assms(2))

lemmas reads_calls = reads_unary_call [THEN reads_any] reads_binary_call [THEN reads_any] reads_substring_call [THEN reads_any]
  reads_lambda_call [THEN reads_any] reads_fold_call [THEN reads_any] reads_fold_bytes_call [THEN reads_any]
  reads_match_result_call [THEN reads_any] reads_wrap_call [THEN reads_any] reads_name_call [THEN reads_any]
  reads_fetch_call [THEN reads_any] reads_now_unix_call [THEN reads_any]

lemmas form_defs = named_form_def text_forms_def bitwise_forms_def at_call_def bitwise_op_def show_call_def show_lambda_def opening_word_def
  expr_level_def

lemma ok_unary_calls:
  assumes "ok a"
  shows "ok (EJsonEscape a)" "ok (EParseInt a)" "ok (ELength a)" "ok (EAbs a)" "ok (ELe32 a)" "ok (ELe64 a)" "ok (EArenaScope a)"
    "ok (EAbortIf a)" "ok (EBitNot a)" "ok (EOk a)" "ok (EErr a)"
  by (rule ok_named; simp add: form_defs; auto intro!: reads_calls ok_arg assms)+

lemma ok_binary_calls:
  assumes "ok a" "ok b"
  shows "ok (EStartsWith a b)" "ok (EContains a b)" "ok (EEndsWith a b)" "ok (EBitAnd a b)" "ok (EBitOr a b)" "ok (EBitXor a b)"
    "ok (EShl a b)" "ok (EShr a b)" "ok (EByteAt a b)" "ok (ETryByteAt a b)"
  by (rule ok_named; simp add: form_defs; auto intro!: reads_calls ok_arg assms)+

lemma ok_min_max:
  assumes "ok a" "ok b"
  shows "ok (EMin a b)" "ok (EMax a b)"
  by (rule ok_named; simp add: form_defs;
      auto intro!: reads_reduce_call [where name = "''min''", THEN reads_any, simplified] reads_reduce_call [where name = "''max''", THEN reads_any, simplified]
        ok_arg assms)+

lemma ok_lambda_calls:
  assumes "ok a" "ok b"
  shows "ok (EQuantifier q a v b)" "ok (EMap a v b)" "ok (EFilter a v b)"
  by (rule ok_named; cases q; simp add: form_defs; auto intro!: reads_calls ok_arg assms)+

lemma ok_wide_calls:
  assumes "ok a" "ok b" "ok c"
  shows "ok (EFold a b x y c)" "ok (EFoldBytes a b x y z c)" "ok (EMatchResult a x b y c)" "ok (ESubstring a b c)"
  by (rule ok_named; simp add: form_defs; auto intro!: reads_calls ok_arg assms)+

lemma ok_name_calls: "ok (ERead x)" "ok (ERandom x)" "ok ENowUnix" "ok a \<Longrightarrow> ok (EFetch x a)"
  by (rule ok_named; simp add: form_defs; auto intro!: reads_calls ok_arg)+

lemma ok_literals: "ok (ENumber i)" "ok (EText s)" "ok (EBytes b)"
proof -
  have l: "expr_level (ENumber i) = 7" "expr_level (EText s) = 7" "expr_level (EBytes b) = 7" by (simp_all add: expr_level_def)
  note f = parse_primary_def literal_form_def prefixed_def l
  show "ok (ENumber i)"
    by (intro okI fits_primary; simp add: f; auto simp: f intro!: reads_pcase reads_step [OF reads_expect(4)])
  show "ok (EText s)"
    by (intro okI fits_primary; simp add: f; auto simp: f intro!: reads_pcase reads_step [OF reads_expect(5)])
  show "ok (EBytes b)"
    by (intro okI fits_primary; simp add: f; auto simp: f intro!: reads_pcase reads_step [OF reads_advance])
qed

end
