(* ===== verification/Parser_Safe.thy ===== *)
theory Parser_Safe
  imports Parser_Tracks
begin

text \<open>
  Every parsing function of the model tracks itself: the rules of \<open>Parser_Tracks\<close> applied along the definitions, first the
  cursor, then the layers of expressions, then the blocks. The bound \<open>k\<close> on the tokens stays below both amounts
  of fuel.
\<close>

lemma tracks_0: "tracks g 1 k p q \<Longrightarrow> tracks g 0 k p q"
  using tracks_weaken [of g 1 k p q 0 k g] by simp

lemma tracks_le: "tracks g s k p q \<Longrightarrow> k' \<le> k \<Longrightarrow> tracks g s k' p q"
  using tracks_weaken [of g s k p q s k' g] by simp

lemma tracks_none: "tracks g s 0 p q"
  by (rule tracksI) (auto simp: ready_def)

lemma tracks_If [trk]:
  assumes "b \<Longrightarrow> tracks g s k p p'" "\<not> b \<Longrightarrow> tracks g s k q q'"
  shows "tracks g s k (if b then p else q) (if b then p' else q')"
  using assms by simp

lemma tracks_option [trk]:
  assumes "v = None \<Longrightarrow> tracks g s k p p'" "\<And>a. v = Some a \<Longrightarrow> tracks g s k (q a) (q' a)"
  shows "tracks g s k (case v of None \<Rightarrow> p | Some a \<Rightarrow> q a) (case v of None \<Rightarrow> p' | Some a \<Rightarrow> q' a)"
  using assms by (cases v) auto

lemma tracks_prod [trk]:
  assumes "\<And>a b. v = (a, b) \<Longrightarrow> tracks g s k (q a b) (q' a b)"
  shows "tracks g s k (case v of (a, b) \<Rightarrow> q a b) (case v of (a, b) \<Rightarrow> q' a b)"
  using assms by (cases v) auto

lemma tracks_Let [trk]:
  assumes "\<And>x. x = v \<Longrightarrow> tracks g s k (q x) (q' x)"
  shows "tracks g s k (Let v q) (Let v q')"
  using assms by (simp add: Let_def)

lemmas [trk] = tracks_pcase

section \<open>The cursor\<close>

lemmas checks = check_kind_def check_ident_def in_block_def at_call_def

lemma tracks_eat_pif:
  assumes "\<And>x. f x \<notin> {Diverges, ParserPanic}" "\<not> c (Some Eof)"
  shows "tracks g 1 k (pif c tok_advance (refuse f)) (pif c tok_advance (refuse f))"
  by (intro tracks_pif tracks_advance tracks_refuse assms(1)) (use assms(2) in simp)

lemma tracks_expect [trk_eat]:
  "K \<noteq> Eof \<Longrightarrow> tracks g 1 k (expect_kind K) (expect_kind K)"
  "tracks g 1 k (expect_ident w) (expect_ident w)"
  "tracks g 1 k (expect_attribute w) (expect_attribute w)"
  unfolding expect_kind_def expect_ident_def expect_attribute_def by (intro tracks_eat_pif; simp add: checks)+

lemma tracks_expect_any [trk_eat]:
  "tracks g 1 k expect_ident_any expect_ident_any"
  "tracks g 1 k expect_number expect_number"
  "tracks g 1 k expect_string expect_string"
proof -
  have r: "tracks (\<lambda>x. x = o') 1 k (refuse f :: 'a parser) (refuse f)" if "\<And>x. f x \<notin> {Diverges, ParserPanic}" for f o'
    by (rule tracks_refuse) (rule that)
  have a: "tracks (\<lambda>x. x = Some t) 1 k (ebind tok_advance (\<lambda>_. ret v)) (ebind tok_advance (\<lambda>_. ret v))" if "t \<noteq> Eof" for t and v :: 'b
    by (intro tracks_eat_then trk trk_eat) (use that in simp)
  show "tracks g 1 k expect_ident_any expect_ident_any" "tracks g 1 k expect_number expect_number"
    "tracks g 1 k expect_string expect_string"
    unfolding expect_ident_any_def expect_number_def expect_string_def
    by (rule tracks_pcase; auto intro!: tracks_refuse a[simplified] split: option.split token_kind.split)+
qed

lemmas [trk] = tracks_expect [THEN tracks_0] tracks_expect_any [THEN tracks_0]

lemma tracks_required [trk]: "k' \<notin> {Diverges, ParserPanic} \<Longrightarrow> tracks g 0 k (required v k') (required v k')"
  unfolding required_def by (intro trk)

lemma tracks_reject [trk]: "k' \<notin> {Diverges, ParserPanic} \<Longrightarrow> tracks g 0 k (reject_if b k') (reject_if b k')"
  unfolding reject_if_def by (intro trk)

section \<open>Expressions\<close>

lemma tracks_more_args [trk]:
  assumes "tracks (\<lambda>_. True) 0 k pe pe'" "k < n" "k < n'"
  shows "tracks g 0 k (more_args n pe args) (more_args n' pe' args)"
  unfolding more_args_def by (intro trk trk_eat tracks_eat_then assms; simp add: checks)

lemma tracks_call_args [trk]:
  assumes "\<And>g. tracks g 0 k pe pe'" "k < n" "k < n'"
  shows "tracks g 0 k (call_args n pe) (call_args n' pe')"
  unfolding call_args_def by (intro trk assms; simp)

lemma tracks_brace_fields [trk]:
  assumes "\<And>g. tracks g 0 k pe pe'" "k < n" "k < n'"
  shows "tracks g 0 k (brace_fields n pe) (brace_fields n' pe')"
  unfolding brace_fields_def field_step_def by (intro trk trk_eat tracks_eat_then assms; simp)

lemma tracks_calls [trk]:
  assumes "\<And>g. tracks g 0 k pe pe'"
  shows "tracks g 0 k (unary_call pe m mk) (unary_call pe' m mk)"
    "tracks g 0 k (binary_call pe m mk2) (binary_call pe' m mk2)"
    "tracks g 0 k (substring_call pe) (substring_call pe')"
    "tracks g 0 k (lambda_call pe mk3) (lambda_call pe' mk3)"
    "tracks g 0 k (fold_call pe) (fold_call pe')"
    "tracks g 0 k (fold_bytes_call pe) (fold_bytes_call pe')"
    "tracks g 0 k (match_result_call pe) (match_result_call pe')"
    "tracks g 0 k (wrap_call pe mk) (wrap_call pe' mk)"
    "tracks g 0 k (fetch_call pe) (fetch_call pe')"
    "tracks g 0 k (reduce_fold pe name coll) (reduce_fold pe' name coll)"
  unfolding unary_call_def binary_call_def substring_call_def lambda_call_def fold_call_def fold_bytes_call_def
    match_result_call_def wrap_call_def fetch_call_def reduce_fold_def
  by (intro trk assms; simp)+

lemma tracks_name_calls [trk]:
  "tracks g 0 k (name_call mk) (name_call mk)"
  "tracks g 0 k now_unix_call now_unix_call"
  unfolding name_call_def now_unix_call_def by (intro trk; simp)+

lemma tracks_reduce_pair: "rel_option (tracks (\<lambda>_. True) 0 k) (reduce_pair name coll a o') (reduce_pair name coll a o')"
  unfolding reduce_pair_def by (simp split: if_split) (intro impI conjI trk; simp)

lemma tracks_reduce_call [trk]:
  assumes "\<And>g. tracks g 0 k pe pe'"
  shows "tracks g 0 k (reduce_call pe name) (reduce_call pe' name)"
  unfolding reduce_call_def by (intro trk assms tracks_reduce_pair; simp)

lemma tracks_loop_forms [trk]:
  assumes "\<And>g. tracks g 0 k pe pe'" "k < n" "k < n'"
  shows "tracks g 0 k (variant_form n pe name) (variant_form n' pe' name)"
    "tracks g 0 k (concat_call n pe) (concat_call n' pe')"
    "tracks g 0 k (generic_call n pe name) (generic_call n' pe' name)"
  unfolding variant_form_def concat_call_def generic_call_def
  by (intro trk trk_eat tracks_eat_then assms; simp add: checks)+

lemma tracks_field_chain [trk]: "k < n \<Longrightarrow> k < n' \<Longrightarrow> tracks g 0 k (field_chain n name) (field_chain n' name)"
  unfolding field_chain_def by (intro trk trk_eat tracks_eat_then; simp add: checks)

lemma tracks_named_form [trk]:
  assumes "\<And>g. tracks g 0 k pe pe'" "k < n" "k < n'"
  shows "tracks g 0 k (named_form n pe name) (named_form n' pe' name)"
  unfolding named_form_def text_forms_def bitwise_forms_def by (intro trk assms; simp)

lemma tracks_if_form:
  assumes "\<And>g. tracks g 0 k pe pe'" "\<not> g (Some Eof)"
  shows "tracks g 1 (Suc k) (if_form pe) (if_form pe')"
  unfolding if_form_def by (intro tracks_bind_eat trk trk_eat assms)

lemma tracks_arm_step:
  assumes "\<And>g. tracks g 0 k pe pe'" "k < n" "k < n'"
  shows "tracks g 1 k (arm_step n pe arms) (arm_step n' pe' arms)"
  unfolding arm_step_def parse_binders_def binder_step_def by (intro trk trk_eat tracks_eat_then assms; simp add: checks)

lemma tracks_match_form:
  assumes "\<And>g. tracks g 0 k pe pe'" "k < n" "k < n'" "\<not> g (Some Eof)"
  shows "tracks g 1 (Suc k) (match_form n pe) (match_form n' pe')"
  unfolding match_form_def by (intro tracks_bind_eat trk trk_eat assms tracks_arm_step; simp)

lemma tracks_literal_form:
  assumes "\<And>g. tracks g 0 k pe pe'" "k < n" "k < n'"
  shows "tracks (\<lambda>x. x = o') 1 (Suc k) (literal_form n pe o') (literal_form n' pe' o')"
proof (cases o')
  case (Some t)
  have err: "tracks (\<lambda>x. x = o') 1 (Suc k) (msg m []) (msg m [])" for m by (intro trk) simp
  have "tracks (\<lambda>x. x = o') 1 (Suc k) (ebind expect_ident_any (named_form n pe)) (ebind expect_ident_any (named_form n' pe'))"
    "tracks (\<lambda>x. x = o') 1 (Suc k) (ebind expect_string (\<lambda>s. ret (EText s))) (ebind expect_string (\<lambda>s. ret (EText s)))"
    "tracks (\<lambda>x. x = o') 1 (Suc k) (ebind expect_number (\<lambda>m. ret (ENumber m))) (ebind expect_number (\<lambda>m. ret (ENumber m)))"
    by (intro tracks_bind_eat trk trk_eat assms)+
  moreover have "tracks (\<lambda>x. x = o') 1 (Suc k) (ebind tok_advance (\<lambda>_. ret (EBytes b))) (ebind tok_advance (\<lambda>_. ret (EBytes b)))"
    if "o' = Some (BytesLit b)" for b
    by (intro tracks_bind_eat trk trk_eat) (use that in simp)
  ultimately show ?thesis unfolding literal_form_def Some using err [unfolded Some] by (cases t) simp_all
qed (auto simp: literal_form_def intro: tracks_err)

lemma tracks_primary:
  assumes "\<And>g. tracks g 0 k pe pe'" "k < n" "k < n'"
  shows "tracks g 1 (Suc k) (parse_primary n pe) (parse_primary n' pe')"
  unfolding parse_primary_def
  by (intro tracks_pif tracks_pcase tracks_if_form tracks_match_form tracks_bind_eat tracks_literal_form trk trk_eat assms; simp add: checks)

lemma tracks_unary:
  assumes "\<And>g. tracks g 1 k p p'" "k < n" "k < n'"
  shows "tracks g 1 k (parse_unary n p) (parse_unary n' p')"
  using assms
proof (induction n arbitrary: n' k g)
  case (Suc m)
  then obtain m' where n': "n' = Suc m'" by (cases n') auto
  show ?case
  proof (cases k)
    case (Suc j)
    have IH: "tracks g 0 j (parse_unary m p) (parse_unary m' p')" for g
      by (rule tracks_0, rule Suc.IH, rule tracks_le [OF Suc.prems(1)]) (use Suc.prems n' Suc in simp_all)
    show ?thesis unfolding n' parse_unary.simps Suc
      by (intro tracks_pif tracks_bind_eat trk trk_eat IH Suc.prems(1) [unfolded Suc]; simp add: checks)
  qed (simp add: tracks_none)
qed simp

lemma tracks_left_layer:
  assumes "\<And>g. tracks g 1 k p p'" "k < n" "k < n'" "op_of (Some Eof) = None"
  shows "tracks g 1 k (left_layer op_of n p) (left_layer op_of n' p')"
proof -
  have body: "tracks (\<lambda>x. x = o') 1 k (ebind tok_advance (\<lambda>_. ebind p (\<lambda>r. ret (EBinary (the (op_of o')) l r))))
     (ebind tok_advance (\<lambda>_. ebind p' (\<lambda>r. ret (EBinary (the (op_of o')) l r))))" if "op_of o' \<noteq> None" for o' l
    by (intro tracks_eat_then trk trk_eat assms(1) [THEN tracks_0]) (use that assms(4) in auto)
  show ?thesis unfolding left_layer_def
    by (rule tracks_eat_then [OF assms(1)], rule tracks_ploop [OF assms(2,3)], rule tracks_pcase, erule body)
qed

lemma tracks_layers:
  assumes "\<And>g. tracks g 0 k pe pe'" "Suc k < n" "Suc k < n'"
  shows "tracks g 1 (Suc k) (parse_or_expr n pe) (parse_or_expr n' pe')"
proof -
  have add: "tracks g 1 (Suc k) (parse_add_expr n pe) (parse_add_expr n' pe')" for g
    unfolding parse_add_expr_def parse_mul_expr_def
    by (intro tracks_left_layer tracks_unary tracks_primary assms) (use assms in \<open>simp_all add: mul_op_def add_op_def\<close>)
  have "tracks g 1 (Suc k) (parse_cmp_expr n pe) (parse_cmp_expr n' pe')" for g
    unfolding parse_cmp_expr_def by (intro tracks_eat_then add trk add [THEN tracks_0])
  then show ?thesis unfolding parse_or_expr_def parse_and_expr_def
    by (intro tracks_left_layer) (use assms in \<open>simp_all add: word_op_def checks\<close>)
qed

lemma tracks_expr [trk_eat]: "k < n \<Longrightarrow> k < n' \<Longrightarrow> tracks g 1 k (parse_expr n) (parse_expr n')"
proof (induction n arbitrary: n' k g)
  case (Suc m)
  then obtain m' where n': "n' = Suc m'" by (cases n') auto
  show ?case
  proof (cases k)
    case (Suc j)
    have "tracks g 0 j (parse_expr m) (parse_expr m')" for g
      by (rule tracks_0, rule Suc.IH) (use Suc.prems n' Suc in simp_all)
    then show ?thesis unfolding n' Suc parse_expr.simps
      by (rule tracks_layers) (use Suc.prems Suc n' in simp_all)
  qed (simp add: tracks_none)
qed simp

lemmas [trk] = tracks_expr [THEN tracks_0]

end
