(* ===== verification/Parser_Safe_Items.thy ===== *)
theory Parser_Safe_Items
  imports Parser_Safe
begin

text \<open>
  The declarations track themselves, up to the whole program. The only facts about values that are needed: a number token is
  not negative (its negation fits), and an execution that has all its required keys has all the values that are unwrapped.
\<close>

section \<open>Lines and attributes\<close>

lemma tracks_number_then:
  assumes "\<And>m. 0 \<le> m \<Longrightarrow> tracks (\<lambda>_. True) 0 k (f m) (f' m)"
  shows "tracks g 1 k (ebind expect_number f) (ebind expect_number f')"
proof (rule tracksI)
  fix ts us assume *: "kinds_of ts = kinds_of us" "ready ts" "length ts \<le> k" "g (peek_kind ts)"
  have "outcome (1 + 0) ts us (ebind expect_number f ts) (ebind expect_number f' us)"
  proof (rule outcome_bind [of 1 ts us expect_number expect_number, OF tracksD [OF tracks_expect_any(2)] *(1)])
    fix m j assume j: "1 \<le> j" "j < length ts" "expect_number ts = Inr (m, drop j ts)"
    obtain t ts' where ts: "ts = t # ts'" using * by (cases ts) (auto simp: ready_def)
    with j(3) have "tk_kind t = Number m"
      by (auto simp: expect_number_def pcase_def peek_kind_def refuse_def ebind_def tok_advance_def ret_def
          split: option.splits token_kind.splits)
    then have "0 \<le> m" using * ts by (auto simp: ready_def)
    then show "outcome 0 (drop j ts) (drop j us) (f m (drop j ts)) (f' m (drop j us))"
      by (intro tracksD [OF assms]) (use j * ready_drop in \<open>auto simp flip: drop_map\<close>)
  qed (use * in auto)
  then show "outcome 1 ts us (ebind expect_number f ts) (ebind expect_number f' us)" by simp
qed

lemma tracks_signed [trk]: "tracks g 0 k parse_signed_number parse_signed_number"
proof -
  have neg: "tracks (\<lambda>_. True) 0 k (ebind expect_number (\<lambda>n. if n = i64_MIN then parse_err ParserPanic else ret (- n)))
    (ebind expect_number (\<lambda>n. if n = i64_MIN then parse_err ParserPanic else ret (- n)))"
    by (rule tracks_0, rule tracks_number_then) (auto intro: tracks_ret)
  show ?thesis unfolding parse_signed_number_def by (intro tracks_pif tracks_bind_any [OF tracks_advance_any] neg trk)
qed

lemma tracks_line_end [trk]: "tracks g 0 k (line_end a) (line_end a)"
  unfolding line_end_def by (intro trk; simp)

lemma tracks_keyed [trk_eat]:
  assumes "\<not> g (Some Eof)" "tracks (\<lambda>_. True) 0 k p p'"
  shows "tracks g 1 k (keyed p) (keyed p')"
  unfolding keyed_def by (intro tracks_eat_then trk trk_eat assms; simp)

lemma tracks_keyed_any [trk]:
  assumes "tracks (\<lambda>_. True) 0 k p p'"
  shows "tracks g 0 k (keyed p) (keyed p')"
  unfolding keyed_def by (intro trk assms; simp)

lemma tracks_keyed_line [trk_eat]:
  assumes "\<not> g (Some Eof)" "tracks (\<lambda>_. True) 0 k p p'"
  shows "tracks g 1 k (keyed_line p) (keyed_line p')"
  unfolding keyed_line_def by (intro tracks_keyed trk assms)

lemma tracks_open [trk_eat]:
  "tracks g 1 k (open_item w) (open_item w)"
  "tracks g 1 k (open_block w) (open_block w)"
  "tracks g 1 k open_lines open_lines"
  unfolding open_item_def open_block_def open_lines_def by (intro tracks_eat_then trk trk_eat; simp)+

lemmas [trk] = tracks_open [THEN tracks_0]

lemma tracks_type [trk_eat]: "k < n \<Longrightarrow> k < n' \<Longrightarrow> tracks g 1 k (parse_type n) (parse_type n')"
proof (induction n arbitrary: n' k g)
  case (Suc m)
  then obtain m' where n': "n' = Suc m'" by (cases n') auto
  show ?case
  proof (cases k)
    case (Suc j)
    have IH: "tracks g 0 j (parse_type m) (parse_type m')" for g
      by (rule tracks_0, rule Suc.IH) (use Suc.prems Suc n' in simp_all)
    show ?thesis unfolding n' Suc parse_type.simps by (intro tracks_bind_eat trk trk_eat IH; simp)
  qed (simp add: tracks_none)
qed simp

lemmas [trk] = tracks_type [THEN tracks_0]

lemma tracks_source_ref [trk]:
  assumes "k < n" "k < n'"
  shows "tracks g 0 k (parse_source_ref n) (parse_source_ref n')"
  unfolding parse_source_ref_def dotted_name_def
  by (intro trk trk_eat tracks_eat_then assms; simp add: checks)

lemma tracks_version: "tracks g 0 k parse_version_directive parse_version_directive"
  unfolding parse_version_directive_def by (intro trk; simp)

lemma tracks_unknown_attribute [trk]: "tracks g s k (unknown_attribute b a) (unknown_attribute b a)"
  unfolding unknown_attribute_def by (intro trk; simp)

lemma tracks_attributes:
  assumes "k < n" "k < n'" "\<not> g (Some Eof)" "tracks g 1 k (h a) (h a)"
  shows "tracks g 1 k (attributes n f1 f2 h a) (attributes n' f1 f2 h a)"
  unfolding attributes_def by (intro trk trk_eat assms)

text \<open>A line of a block whose first token decides what it is.\<close>

lemma tracks_lines:
  assumes "\<And>o'. in_block o' \<Longrightarrow> tracks (\<lambda>x. x = o') 1 k (f o') (f' o')"
  shows "tracks in_block 1 k (pcase f) (pcase f')"
  by (rule tracks_pcase) (rule assms)

lemma in_block_Eof: "in_block o' \<Longrightarrow> \<not> (Some Eof = o')"
  by (auto simp: in_block_def)

section \<open>Concepts\<close>

lemma tracks_range [trk]: "tracks g 0 k (parse_range ty) (parse_range ty)"
  unfolding parse_range_def by (intro trk; simp)

lemma tracks_fields_block [trk_eat]:
  assumes "k < n" "k < n'"
  shows "tracks g 1 k (parse_fields_block n) (parse_fields_block n')"
  unfolding parse_fields_block_def field_line_def by (intro tracks_eat_then trk trk_eat assms; simp)

lemma tracks_variants_block [trk_eat]:
  assumes "k < n" "k < n'"
  shows "tracks g 1 k (parse_variants_block n) (parse_variants_block n')"
  unfolding parse_variants_block_def variant_line_def variant_payload_def payload_step_def
  by (intro tracks_eat_then trk trk_eat assms; simp)

lemma tracks_concept_line:
  assumes "k < n" "k < n'"
  shows "tracks in_block 1 k (concept_line n st) (concept_line n' st)"
  unfolding concept_line_def
  by (intro tracks_lines tracks_attributes tracks_eat_then trk trk_eat assms in_block_Eof; simp)

lemma tracks_concept_shape [trk]: "tracks g 0 k (concept_shape name st) (concept_shape name st)"
  unfolding concept_shape_def by (intro trk; simp)

lemma tracks_concept [trk_eat]:
  assumes "k < n" "k < n'"
  shows "tracks g 1 k (parse_concept n) (parse_concept n')"
  unfolding parse_concept_def by (intro tracks_eat_then trk trk_eat assms tracks_concept_line; simp)

lemma tracks_group_bound [trk]: "tracks g 0 k (group_bound name key) (group_bound name key)"
  unfolding group_bound_def by (intro trk; simp)

lemma tracks_group_line:
  assumes "k < n" "k < n'"
  shows "tracks in_block 1 k (group_line n st) (group_line n' st)"
  unfolding group_line_def
  by (intro tracks_lines tracks_attributes tracks_eat_then trk trk_eat assms in_block_Eof; simp)

lemma tracks_concept_group [trk_eat]:
  assumes "k < n" "k < n'"
  shows "tracks g 1 k (parse_concept_group n) (parse_concept_group n')"
  unfolding parse_concept_group_def by (intro tracks_eat_then trk trk_eat assms tracks_group_line; simp)

section \<open>Rules\<close>

lemma tracks_binding_block [trk_eat]:
  assumes "k < n" "k < n'"
  shows "tracks g 1 k (parse_binding_block n w) (parse_binding_block n' w)"
  unfolding parse_binding_block_def by (intro tracks_eat_then trk trk_eat assms; simp)

lemma tracks_logic_block [trk_eat]:
  assumes "k < n" "k < n'"
  shows "tracks g 1 k (parse_logic_block n) (parse_logic_block n')"
  unfolding parse_logic_block_def let_line_def by (intro tracks_eat_then trk trk_eat assms; simp add: checks)

lemma tracks_path_list [trk]:
  assumes "k < n" "k < n'"
  shows "tracks g 0 k (parse_path_list n) (parse_path_list n')"
  unfolding parse_path_list_def parse_path_def path_step_def by (intro tracks_eat_then trk trk_eat assms; simp add: checks)

lemma tracks_purity_block [trk_eat]:
  assumes "k < n" "k < n'"
  shows "tracks g 1 k (parse_purity_block n) (parse_purity_block n')"
  unfolding parse_purity_block_def purity_line_def by (intro tracks_eat_then trk trk_eat assms; simp)

lemma tracks_termination_block [trk_eat]:
  assumes "k < n" "k < n'"
  shows "tracks g 1 k (parse_termination_block n) (parse_termination_block n')"
  unfolding parse_termination_block_def termination_line_def by (intro tracks_eat_then trk trk_eat assms; simp)

lemma tracks_number_in [trk]:
  assumes "\<And>m. e m \<notin> {Diverges, ParserPanic}"
  shows "tracks g 0 k (number_in lo hi e) (number_in lo hi e)"
  unfolding number_in_def by (intro trk assms)

lemma tracks_reject_then:
  assumes "e \<notin> {Diverges, ParserPanic}" "tracks g 1 k p p'"
  shows "tracks g 1 k (ebind (reject_if b e) (\<lambda>_. p)) (ebind (reject_if b e) (\<lambda>_. p'))"
proof (cases b)
  case True
  then have "ebind (reject_if b e) (\<lambda>_. q) = parse_err e" for q :: "'a parser"
    by (auto simp: reject_if_def ebind_def parse_err_def refuse_def split: list.splits)
  then show ?thesis using tracks_err [OF assms(1)] by metis
next
  case False
  then have "ebind (reject_if b e) (\<lambda>_. q) = q" for q :: "'a parser" by (auto simp: reject_if_def ebind_def ret_def)
  then show ?thesis using assms(2) by simp
qed

lemma tracks_proofs_block [trk_eat]:
  assumes "k < n" "k < n'"
  shows "tracks g 1 k (parse_proofs_block n) (parse_proofs_block n')"
proof -
  have "tracks in_block 1 k (proofs_line n st) (proofs_line n' st)" for st
    unfolding proofs_line_def
    by (intro tracks_lines tracks_If tracks_reject_then tracks_eat_then trk trk_eat assms in_block_Eof; simp)
  then show ?thesis unfolding parse_proofs_block_def by (intro tracks_eat_then trk trk_eat assms; simp)
qed

lemma tracks_hints_block [trk_eat]:
  assumes "k < n" "k < n'"
  shows "tracks g 1 k (parse_hints_block n) (parse_hints_block n')"
  unfolding parse_hints_block_def hint_line_def overflow_hint_value_def by (intro tracks_eat_then trk trk_eat assms; simp)

lemma tracks_output_block:
  assumes "k < n" "k < n'"
  shows "tracks g 1 k (output_block n st) (output_block n' st)"
  unfolding output_block_def output_bound_def by (intro tracks_reject_then tracks_eat_then trk trk_eat assms; simp)

lemma tracks_rule_attribute: "\<not> g (Some Eof) \<Longrightarrow> tracks g 1 k (rule_attribute st a) (rule_attribute st a)"
  unfolding rule_attribute_def by (intro trk trk_eat; simp)

lemma tracks_rule_line:
  assumes "k < n" "k < n'"
  shows "tracks in_block 1 k (rule_line n st) (rule_line n' st)"
  unfolding rule_line_def
  by (intro tracks_lines tracks_attributes tracks_rule_attribute tracks_output_block tracks_option tracks_If tracks_reject_then
      tracks_eat_then trk trk_eat assms in_block_Eof; simp)

lemma tracks_rule [trk_eat]:
  assumes "k < n" "k < n'"
  shows "tracks g 1 k (parse_rule n) (parse_rule n')"
  unfolding parse_rule_def by (intro tracks_eat_then trk trk_eat assms tracks_rule_line; simp)

section \<open>Reactions and services\<close>

lemma tracks_append_file [trk]:
  assumes "k < n" "k < n'"
  shows "tracks g 0 k (append_file_to n m) (append_file_to n' m)"
  unfolding append_file_to_def by (intro trk assms; simp)

lemma tracks_print_args [trk]:
  assumes "k < n" "k < n'"
  shows "tracks g 0 k (print_args n) (print_args n')"
  unfolding print_args_def by (intro trk trk_eat tracks_eat_then assms)

lemma tracks_reaction [trk_eat]:
  assumes "k < n" "k < n'"
  shows "tracks g 1 k (parse_reaction n) (parse_reaction n')"
proof -
  have "tracks in_block 1 k (effect_line n effs) (effect_line n' effs)" for effs
    unfolding effect_line_def by (intro tracks_eat_then trk trk_eat assms; simp)
  then have "tracks in_block 1 k (reaction_line n st) (reaction_line n' st)" for st
    unfolding reaction_line_def
    by (intro tracks_lines tracks_attributes tracks_eat_then trk trk_eat assms in_block_Eof; simp)
  then show ?thesis unfolding parse_reaction_def by (intro tracks_eat_then trk trk_eat assms; simp)
qed

lemma tracks_numbers [trk]:
  "tracks g 0 k (positive_u32 what) (positive_u32 what)"
  "tracks g 0 k (port_number m) (port_number m)"
  unfolding positive_u32_def port_number_def by (intro trk; simp)+

lemma tracks_listen_line: "tracks g 1 k (listen_line st) (listen_line st)"
  unfolding listen_line_def by (intro tracks_eat_then trk trk_eat; simp)

lemma tracks_log_lines:
  assumes "k < n" "k < n'" "\<not> g (Some Eof)"
  shows "tracks g 1 k (log_lines n) (log_lines n')"
  unfolding log_lines_def log_policy_def by (intro tracks_eat_then trk trk_eat assms; simp)

lemma tracks_concurrency [trk]: "tracks g 0 k (concurrency_value st) (concurrency_value st)"
  unfolding concurrency_value_def by (intro trk; simp)

lemma tracks_state_init [trk]: "tracks g 0 k (state_init f ty m) (state_init f ty m)"
  unfolding state_init_def by (cases ty; simp only: vtype.case; intro trk; simp)

lemma tracks_state_line:
  assumes "k < n" "k < n'"
  shows "tracks g 1 k (state_line n fs) (state_line n' fs)"
  unfolding state_line_def state_bound_def by (intro tracks_eat_then trk trk_eat assms; simp)

lemma tracks_after_line:
  assumes "k < n" "k < n'"
  shows "tracks g 1 k (after_line n sets) (after_line n' sets)"
  unfolding after_line_def by (intro tracks_pif tracks_eat_then trk trk_eat assms; simp add: checks)

lemma tracks_block_lines [trk_eat]:
  assumes "k < n" "k < n'" "\<not> g (Some Eof)" "\<And>s. tracks in_block 1 k (f s) (f' s)"
  shows "tracks g 1 k (block_lines n f st) (block_lines n' f' st)"
  unfolding block_lines_def by (intro tracks_eat_then trk trk_eat assms; simp)

lemma tracks_once [trk_eat]:
  assumes "\<And>m. e m \<notin> {Diverges, ParserPanic}" "\<not> g (Some Eof)"
  shows "tracks g 1 k (once_number lo hi e key slot f) (once_number lo hi e key slot f)"
  unfolding once_number_def by (intro tracks_keyed_line trk assms; simp)

lemma tracks_service_numbers:
  assumes "\<not> g (Some Eof)"
  shows "tracks g 1 k (service_numbers st key) (service_numbers st key)"
  unfolding service_numbers_def by (intro tracks_If trk_eat trk assms; simp)

lemma tracks_service_line:
  assumes "k < n" "k < n'"
  shows "tracks in_block 1 k (service_line n name st) (service_line n' name st)"
  unfolding service_line_def
  by (intro tracks_lines tracks_attributes tracks_service_numbers tracks_listen_line tracks_state_line tracks_after_line
      tracks_log_lines tracks_option tracks_If tracks_eat_then trk trk_eat assms in_block_Eof; simp)

lemma tracks_service [trk_eat]:
  assumes "k < n" "k < n'"
  shows "tracks g 1 k (parse_service n) (parse_service n')"
  unfolding parse_service_def by (intro tracks_eat_then trk trk_eat assms tracks_service_line; simp)

section \<open>Resources, entropy sources, connections\<close>

lemma tracks_policies [trk]:
  "tracks g 0 k (abort_policy what key) (abort_policy what key)"
  "tracks g 0 k cache_value cache_value"
  "tracks g 0 k (draw_policy name) (draw_policy name)"
  unfolding abort_policy_def cache_value_def draw_policy_def by (intro trk; simp)+

lemma tracks_resource [trk_eat]:
  assumes "k < n" "k < n'"
  shows "tracks g 1 k (parse_resource n) (parse_resource n')"
proof -
  have "tracks in_block 1 k (resource_line n st) (resource_line n' st)" for st
    unfolding resource_line_def
    by (intro tracks_lines tracks_attributes tracks_eat_then trk trk_eat assms in_block_Eof; simp)
  then show ?thesis unfolding parse_resource_def by (intro tracks_eat_then trk trk_eat assms; simp)
qed

lemma entropy_message: "entropy_bytes_range_message name m \<notin> {Diverges, ParserPanic}"
  by (simp add: entropy_bytes_range_message_def)

lemma tracks_entropy [trk_eat]:
  assumes "k < n" "k < n'"
  shows "tracks g 1 k (parse_entropy n) (parse_entropy n')"
proof -
  have "tracks in_block 1 k (entropy_line n name st) (entropy_line n' name st)" for name st
    unfolding entropy_line_def
    by (intro tracks_lines tracks_attributes tracks_eat_then trk trk_eat assms in_block_Eof entropy_message; simp)
  then show ?thesis unfolding parse_entropy_def by (intro tracks_eat_then trk trk_eat assms entropy_message; simp)
qed

lemma octet_error_ok: "octet_error h ws = Some e \<Longrightarrow> e \<notin> {Diverges, ParserPanic}"
  by (induction ws) (auto split: if_splits option.splits)

lemma tracks_reject_some [trk]:
  "(\<And>e. v = Some e \<Longrightarrow> e \<notin> {Diverges, ParserPanic}) \<Longrightarrow> tracks g 0 k (reject_some v) (reject_some v)"
  unfolding reject_some_def by (intro trk)

lemma host_error_ok: "host_error h = Some e \<Longrightarrow> e \<notin> {Diverges, ParserPanic}"
  by (auto simp: host_error_def dest: octet_error_ok split: if_splits)

lemma tracks_connection [trk_eat]:
  assumes "k < n" "k < n'"
  shows "tracks g 1 k (parse_connection n) (parse_connection n')"
proof -
  have "tracks in_block 1 k (connection_line n st) (connection_line n' st)" for st
    unfolding connection_line_def
    by (intro tracks_lines tracks_attributes tracks_eat_then trk trk_eat assms in_block_Eof; simp add: host_error_ok [simplified])
  then show ?thesis unfolding parse_connection_def by (intro tracks_eat_then trk trk_eat assms; simp)
qed

section \<open>Workloads and executions\<close>

lemma tracks_case_line: "tracks g 1 k (case_line name st) (case_line name st)"
  unfolding case_line_def by (intro tracks_eat_then trk trk_eat; simp)

lemma tracks_workload_case [trk]:
  assumes "k < n" "k < n'"
  shows "tracks g 0 k (parse_workload_case n) (parse_workload_case n')"
  unfolding parse_workload_case_def by (intro trk assms tracks_case_line; simp)

lemma cases_error_ok: "cases_error seen cs = Some e \<Longrightarrow> e \<notin> {Diverges, ParserPanic}"
  by (induction seen cs rule: cases_error.induct) (auto simp: case_range_error_def split: if_splits option.splits prod.splits)

lemma shape_error_ok: "shape_error w = Some e \<Longrightarrow> e \<notin> {Diverges, ParserPanic}"
  by (auto simp: shape_error_def dest: cases_error_ok split: if_splits)

lemma tracks_workload [trk]:
  assumes "k < n" "k < n'"
  shows "tracks g 0 k (parse_workload n) (parse_workload n')"
proof -
  have "tracks in_block 1 k (workload_line n st) (workload_line n' st)" for st
    unfolding workload_line_def by (intro tracks_eat_then trk trk_eat assms; simp)
  then show ?thesis unfolding parse_workload_def by (intro trk assms; simp add: shape_error_ok [simplified])
qed

lemma tracks_phase_names [trk]:
  assumes "k < n" "k < n'"
  shows "tracks g 0 k (phase_names n) (phase_names n')"
  unfolding phase_names_def name_step_def by (intro tracks_eat_then trk trk_eat assms; simp)

lemma tracks_result_batch [trk]: "tracks g 0 k result_batch_number result_batch_number"
  unfolding result_batch_number_def by (intro trk; simp)

lemma tracks_execution_line:
  assumes "k < n" "k < n'"
  shows "tracks in_block 1 k (execution_line n name st) (execution_line n' name st)"
proof -
  have "tracks in_block 1 k execution_key execution_key"
    unfolding execution_key_def by (intro tracks_lines tracks_option tracks_eat_then trk trk_eat in_block_Eof)
  then show ?thesis unfolding execution_line_def execution_value_def
    by (intro tracks_eat_then trk trk_eat assms; simp)
qed

text \<open>A key that was read has its value, so the \<open>unwrap\<close>s at the end cannot fail.\<close>

lemma results_line_end: "b \<in> results (line_end a) \<Longrightarrow> b = a"
  by (auto simp: line_end_def results_ret elim!: results_bindE)

lemma results_reject_some: "u \<in> results (reject_some v) \<Longrightarrow> v = None"
  by (auto simp: reject_some_def split: option.splits)

lemma results_IfE: "a \<in> results (if b then p else q) \<Longrightarrow> (b \<Longrightarrow> a \<in> results p \<Longrightarrow> P) \<Longrightarrow> (\<not> b \<Longrightarrow> a \<in> results q \<Longrightarrow> P) \<Longrightarrow> P"
  by (simp split: if_splits)

definition exec_inv :: "execution_parts \<Rightarrow> bool" where
  "exec_inv st \<longleftrightarrow>
     (''@intention'' \<in> set (ep_seen st) \<longrightarrow> ep_intention st \<noteq> None) \<and> (''@source'' \<in> set (ep_seen st) \<longrightarrow> ep_source st \<noteq> None) \<and>
     (''input'' \<in> set (ep_seen st) \<longrightarrow> ep_input st \<noteq> None) \<and> (''mode'' \<in> set (ep_seen st) \<longrightarrow> ep_mode st \<noteq> None) \<and>
     (''phases'' \<in> set (ep_seen st) \<longrightarrow> ep_phases st \<noteq> None)"

lemma exec_value_inv:
  "st' \<in> results (execution_value n name key (st\<lparr>ep_seen := key # ep_seen st\<rparr>)) \<Longrightarrow> exec_inv st \<Longrightarrow> exec_inv st'"
  unfolding execution_value_def by (elim results_IfE results_bindE; simp add: exec_inv_def results_ret)

lemma exec_line_inv: "exec_inv st \<Longrightarrow> st' \<in> results (execution_line n name st) \<Longrightarrow> exec_inv st'"
  unfolding execution_line_def Let_def
  by (elim results_bindE results_IfE; (drule results_line_end)?; simp add: results_ret exec_value_inv)
     (simp add: exec_inv_def)

lemma tracks_some [trk]: "v \<noteq> None \<Longrightarrow> tracks g 0 k (required v e) (required v e)"
  by (auto simp: required_def intro: tracks_ret)

lemma tracks_modes [trk]:
  "tracks g 0 k (concurrent_mode st) (concurrent_mode st)"
  "tracks g 0 k (stack_mode st kind) (stack_mode st kind)"
  unfolding concurrent_mode_def stack_mode_def by (intro trk; simp)+

lemma tracks_execution_of:
  assumes "exec_inv st"
  shows "tracks g 0 k (execution_of name st) (execution_of name st)"
  unfolding execution_of_def
proof (rule tracks_bind_any)
  fix u assume "u \<in> results (reject_some (map_option (\<lambda>key. Message ''execution {}: missing {}'' [MStr name, MStr key])
    (find (\<lambda>key. key \<notin> set (ep_seen st)) execution_required)))"
  then have "\<forall>key \<in> set execution_required. key \<in> set (ep_seen st)"
    by (auto dest!: results_reject_some simp: find_None)
  then have some: "ep_mode st \<noteq> None" "ep_intention st \<noteq> None" "ep_source st \<noteq> None" "ep_input st \<noteq> None" "ep_phases st \<noteq> None"
    using assms by (auto simp: exec_inv_def execution_required_def)
  show "tracks (\<lambda>_. True) 0 k (ebind (execution_mode_of st) (\<lambda>mode. ebind (required (ep_intention st) ParserPanic) (\<lambda>i.
      ebind (required (ep_source st) ParserPanic) (\<lambda>s. ebind (required (ep_input st) ParserPanic) (\<lambda>inp.
      ebind (required (ep_phases st) ParserPanic) (\<lambda>ph. ret (f mode i s inp ph)))))))
    (ebind (execution_mode_of st) (\<lambda>mode. ebind (required (ep_intention st) ParserPanic) (\<lambda>i.
      ebind (required (ep_source st) ParserPanic) (\<lambda>s. ebind (required (ep_input st) ParserPanic) (\<lambda>inp.
      ebind (required (ep_phases st) ParserPanic) (\<lambda>ph. ret (f mode i s inp ph)))))))" for f :: "_ \<Rightarrow> _ \<Rightarrow> _ \<Rightarrow> _ \<Rightarrow> _ \<Rightarrow> execution"
    unfolding execution_mode_of_def by (intro tracks_bind_any tracks_If tracks_modes tracks_some some tracks_ret)
qed (intro trk, auto)

lemma tracks_execution [trk_eat]:
  assumes "k < n" "k < n'"
  shows "tracks g 1 k (parse_execution n) (parse_execution n')"
proof -
  have new: "exec_inv execution_parts_new" by (simp add: exec_inv_def execution_parts_new_def)
  show ?thesis unfolding parse_execution_def
    by (intro tracks_eat_then tracks_open tracks_bind_any tracks_ploop tracks_execution_line assms tracks_execution_of
        trk tracks_expect [THEN tracks_0]; (erule results_ploop [where I = exec_inv, OF exec_line_inv new, rotated 2])?; simp)
qed

section \<open>Programs\<close>

lemma tracks_program_item:
  assumes "k < n" "k < n'"
  shows "tracks g 1 k (program_item n o') (program_item n' o')"
  unfolding program_item_def by (intro tracks_If tracks_eat_then trk trk_eat assms; simp)

lemma tracks_program:
  assumes "k < n" "k < n'"
  shows "tracks g 0 k (parse_program_fuel n) (parse_program_fuel n')"
  unfolding parse_program_fuel_def use_line_def
  by (intro tracks_bind_any tracks_version tracks_ploop tracks_eat_then tracks_pcase tracks_program_item trk trk_eat assms; simp add: checks)

end
