(* ===== verification/Lexer_Properties.thy ===== *)
theory Lexer_Properties
  imports Lexer
begin

text \<open>
  What the lexer promises: an independent lexical grammar with positions that its tokens obey, balanced
  indentation, UTF-8 contents of every literal, and the literals that read back.
\<close>

section \<open>Lexical grammar\<close>

text \<open>
  \<open>scans p src ts\<close>: reading from position \<open>p\<close>, the source is a sequence of blanks, newlines, comments and
  spelled tokens, each as long as it can be, and \<open>ts\<close> lists the tokens with the positions where they start.
\<close>

inductive scans :: "nat \<times> nat \<Rightarrow> byte list \<Rightarrow> (token_kind \<times> nat \<times> nat) list \<Rightarrow> bool" where
  scan_end: "scans p [] []"
| scan_blank: "c = CHR '' '' \<or> c = CHR 0x09 \<Longrightarrow> scans (l, Suc k) r ts \<Longrightarrow> scans (l, k) (c # r) ts"
| scan_newline: "scans (Suc l, 1) r ts \<Longrightarrow> scans (l, k) (CHR 0x0A # r) ts"
| scan_comment: "starts_with t ''--'' \<Longrightarrow> CHR 0x0A \<notin> set t \<Longrightarrow> r = [] \<or> hd r = CHR 0x0A \<Longrightarrow>
    scans (l, k + length t) r ts \<Longrightarrow> scans (l, k) (t @ r) ts"
| scan_token: "spells t kd \<Longrightarrow> ends_before kd r \<Longrightarrow> scans (l, k + length t) r ts \<Longrightarrow> scans (l, k) (t @ r) ((kd, l, k) # ts)"

definition view :: "token list \<Rightarrow> (token_kind \<times> nat \<times> nat) list" where
  "view ts = map (\<lambda>t. (tk_kind t, tk_line t, tk_col t)) (filter (\<lambda>t. \<not> is_layout (tk_kind t) \<and> tk_kind t \<noteq> Eof) ts)"

lemma view_append [simp]: "view (a @ b) = view a @ view b"
  by (simp add: view_def)

lemma view_layout [simp]: "is_layout k \<or> k = Eof \<Longrightarrow> view [\<lparr>tk_kind = k, tk_line = l, tk_col = c\<rparr>] = []"
  by (auto simp: view_def)

lemma view_replicate [simp]: "is_layout k \<Longrightarrow> view (replicate n \<lparr>tk_kind = k, tk_line = l, tk_col = c\<rparr>) = []"
  by (induction n) (simp_all add: view_def)

definition moves :: "lexer \<Rightarrow> lexer \<Rightarrow> bool" where
  "moves lx lx' \<longleftrightarrow> (\<exists>us. lx_tokens lx' = lx_tokens lx @ us \<and>
     (\<forall>ts. scans (lx_pos lx') (lx_rest lx') ts \<longrightarrow> scans (lx_pos lx) (lx_rest lx) (view us @ ts)))"

lemma moves_refl [simp]: "moves lx lx"
  unfolding moves_def by (intro exI [of _ "[]"]) (simp add: view_def)

lemma moves_trans: "moves lx lx' \<Longrightarrow> moves lx' lx'' \<Longrightarrow> moves lx lx''"
  unfolding moves_def by (elim exE conjE) (rule_tac x = "us @ usa" in exI, simp)

lemma moves_layout:
  assumes "is_layout k \<or> k = Eof"
  shows "moves lx (emit_token k p lx)"
  using assms unfolding moves_def emit_token_def by (intro exI) (auto simp: lx_pos_def)

lemma moves_fields:
  assumes "lx_rest lx' = lx_rest lx" "lx_tokens lx' = lx_tokens lx" "lx_pos lx' = lx_pos lx"
  shows "moves lx lx'"
  unfolding moves_def using assms by (intro exI [of _ "[]"]) (simp add: view_def)

lemma scan_blanks:
  "set t \<subseteq> {CHR '' '', CHR 0x09} \<Longrightarrow> scans (l, k + length t) r ts \<Longrightarrow> scans (l, k) (t @ r) ts"
  by (induction t arbitrary: k) (auto intro!: scan_blank)

lemma moves_blanks:
  assumes "eats t lx lx'" "set t \<subseteq> {CHR '' '', CHR 0x09}"
  shows "moves lx lx'"
  unfolding moves_def using eats_sel [OF assms(1)] eats_rest [OF assms(1)] scan_blanks [OF assms(2)]
  by (intro exI [of _ "[]"]) (simp add: lx_pos_def view_def)

lemma moves_pop: "moves lx (pop_indents w is lx)"
proof -
  obtain n where "lx_tokens (pop_indents w is lx) = lx_tokens lx @ replicate n \<lparr>tk_kind = Dedent, tk_line = lx_line lx, tk_col = 1\<rparr>"
    using pop_indents_tokens by blast
  then show ?thesis unfolding moves_def by (intro exI) (auto simp: lx_pos_def is_layout_def)
qed

lemma moves_line_start: "handle_line_start lx = Inr lx' \<Longrightarrow> moves lx lx'"
proof (erule handle_line_start_cases)
  fix t lx1 assume "eats t lx lx1" "set t \<subseteq> {CHR '' ''}" "lx' = lx1\<lparr>lx_at_line_start := False\<rparr>"
  then show ?thesis by (intro moves_trans [OF moves_blanks moves_fields]) (auto simp: lx_pos_def)
next
  fix t lx1 w assume *: "eats t lx lx1" "set t \<subseteq> {CHR '' ''}"
    "lx' = emit_token Indent (lx_line lx1, 1) (lx1\<lparr>lx_indents := w # lx_indents lx1, lx_at_line_start := False\<rparr>)"
  have "moves lx lx1" using *(1,2) by (intro moves_blanks) auto
  moreover have "moves lx1 (lx1\<lparr>lx_indents := w # lx_indents lx1, lx_at_line_start := False\<rparr>)"
    by (rule moves_fields) (simp_all add: lx_pos_def)
  ultimately show ?thesis unfolding *(3) using moves_layout moves_trans by (metis is_layout_def)
next
  fix t lx1 w assume *: "eats t lx lx1" "set t \<subseteq> {CHR '' ''}" "lx' = (pop_indents w (lx_indents lx1) lx1)\<lparr>lx_at_line_start := False\<rparr>"
  have "moves lx lx1" using *(1,2) by (intro moves_blanks) auto
  moreover have "moves (pop_indents w (lx_indents lx1) lx1) lx'"
    unfolding *(3) by (rule moves_fields) (simp_all add: lx_pos_def)
  ultimately show ?thesis using moves_pop moves_trans by metis
qed

lemma moves_newline:
  assumes "lx_rest lx = CHR 0x0A # r"
  shows "moves lx (read_newline lx)"
proof -
  let ?lx = "lx\<lparr>lx_rest := tl (lx_rest lx), lx_line := lx_line lx + 1, lx_col := 1\<rparr>"
  have "moves lx ?lx" unfolding moves_def using assms by (intro exI [of _ "[]"]) (auto simp: lx_pos_def view_def intro: scan_newline)
  moreover have "moves ?lx (read_newline lx)"
  proof -
    have "moves ?lx (emit_token Newline (lx_pos lx) ?lx)" by (rule moves_layout) (simp add: is_layout_def)
    moreover have "moves lx1 (lx1\<lparr>lx_at_line_start := True\<rparr>)" for lx1 by (rule moves_fields) (simp_all add: lx_pos_def)
    ultimately show ?thesis unfolding read_newline_def Let_def using moves_trans by auto
  qed
  ultimately show ?thesis by (rule moves_trans)
qed

lemma moves_comment:
  assumes "lx_rest lx = CHR ''-'' # CHR ''-'' # r"
  shows "moves lx (skip_while (\<lambda>b. b \<noteq> CHR 0x0A) lx)"
proof -
  obtain t where t: "eats t lx (skip_while (\<lambda>b. b \<noteq> CHR 0x0A) lx)"
    "lx_rest (skip_while (\<lambda>b. b \<noteq> CHR 0x0A) lx) = [] \<or> hd (lx_rest (skip_while (\<lambda>b. b \<noteq> CHR 0x0A) lx)) = CHR 0x0A"
    using comment_eats by blast
  have "starts_with t ''--''" using eats_rest [OF t(1), symmetric] assms t(2)
    by (cases t; cases "tl t") (auto simp: starts_with_iff)
  moreover have "CHR 0x0A \<notin> set t" using t(1) by (simp add: eats_def)
  ultimately show ?thesis unfolding moves_def using eats_sel [OF t(1)] eats_rest [OF t(1)] t(2)
    by (intro exI [of _ "[]"]) (auto simp: lx_pos_def view_def intro!: scan_comment)
qed

lemma moves_token: "reads_token lx lx' \<Longrightarrow> moves lx lx'"
proof -
  assume "reads_token lx lx'"
  then obtain t k lx1 where t: "eats t lx lx1" "spells t k" "ends_before k (lx_rest lx1)"
    and lx': "lx' = emit_token k (lx_pos lx) (lx1\<lparr>lx_depth := lx_depth lx + bracket_step k\<rparr>)"
    by (auto simp: reads_token_def)
  have "view [\<lparr>tk_kind = k, tk_line = lx_line lx, tk_col = lx_col lx\<rparr>] = [(k, lx_line lx, lx_col lx)]"
    using spells_nonempty [OF t(2)] by (simp add: view_def)
  then show ?thesis unfolding moves_def lx' emit_token_def using eats_sel [OF t(1)] eats_rest [OF t(1)] t(2,3)
    by (intro exI [of _ "[\<lparr>tk_kind = k, tk_line = lx_line lx, tk_col = lx_col lx\<rparr>]"]) (auto simp: lx_pos_def intro: scan_token)
qed

lemma moves_iter: "lex_iter lx = Inr lx' \<Longrightarrow> moves lx lx'"
proof (erule lex_iter_cases)
  fix lx1
  assume "lx1 = lx \<and> \<not> (lx_at_line_start lx \<and> lx_depth lx = 0) \<or> handle_line_start lx = Inr lx1 \<and> lx_at_line_start lx \<and> lx_depth lx = 0"
  then have "moves lx lx1" using moves_line_start by auto
  moreover assume "lx_rest lx1 = [] \<and> lx' = lx1
     \<or> (\<exists>r. lx_rest lx1 = CHR ''-'' # CHR ''-'' # r \<and> lx' = skip_while (\<lambda>b. b \<noteq> CHR 0x0A) lx1)
     \<or> (\<exists>r. lx_rest lx1 = CHR 0x0A # r \<and> lx' = read_newline lx1)
     \<or> (\<exists>c r. lx_rest lx1 = c # r \<and> (c = CHR '' '' \<or> c = CHR 0x09) \<and> lx' = advance lx1)
     \<or> (lx_rest lx1 \<noteq> [] \<and> hd (lx_rest lx1) \<notin> {CHR 0x0A, CHR '' '', CHR 0x09} \<and> reads_token lx1 lx' \<and> read_token lx1 = Inr lx')"
  then have "moves lx1 lx'"
    using moves_comment moves_newline moves_token moves_blanks [OF eats_advance] by fastforce
  ultimately show ?thesis by (rule moves_trans)
qed

lemma lex_loop_induct [consumes 1, case_names step]:
  assumes "lex_loop lx = Inr lx'"
    and "\<And>lx lx1. lx_rest lx \<noteq> [] \<Longrightarrow> lex_iter lx = Inr lx1 \<Longrightarrow> R lx lx1"
    and "\<And>lx. R lx lx" "\<And>a b c. R a b \<Longrightarrow> R b c \<Longrightarrow> R a c"
  shows "R lx lx' \<and> lx_rest lx' = []"
  using assms(1)
proof (induction lx rule: lex_loop.induct)
  case (1 lx)
  show ?case
  proof (cases "lx_rest lx = []")
    case True
    with 1(2) assms(3) show ?thesis by (simp add: lex_loop.simps [of lx])
  next
    case False
    with 1(2) obtain lx1 where "lex_iter lx = Inr lx1" "lex_loop lx1 = Inr lx'"
      by (auto simp: lex_loop.simps [of lx] split: sum.splits)
    with 1(1) [OF False] assms(2) [OF False] assms(4) show ?thesis by blast
  qed
qed

lemma moves_close: "moves lx (close_indents is lx)"
proof (induction "is" lx rule: close_indents.induct)
  case (1 i j js lx)
  have "moves lx (lx\<lparr>lx_indents := j # js\<rparr>)" by (rule moves_fields) (simp_all add: lx_pos_def)
  moreover have "moves (lx\<lparr>lx_indents := j # js\<rparr>) (emit_token Dedent (lx_pos lx) (lx\<lparr>lx_indents := j # js\<rparr>))"
    by (rule moves_layout) (simp add: is_layout_def)
  ultimately show ?case using 1 moves_trans by (metis close_indents.simps(1))
qed simp_all

lemma rest_close [simp]: "lx_rest (close_indents is lx) = lx_rest lx"
  by (induction "is" lx rule: close_indents.induct) simp_all

lemma moves_finish: "moves lx (lex_finish lx)"
  unfolding lex_finish_def Let_def by (auto simp: is_layout_def intro!: moves_trans [OF _ moves_layout] moves_trans [OF _ moves_close] moves_layout)

lemma tokenize_moves:
  assumes "tokenize src = Inr ts"
  obtains lx where "moves (lexer_new src) lx" "lx_rest lx = []" "lx_tokens lx = ts" "tk_kind (last ts) = Eof" "ts \<noteq> []"
proof -
  from assms obtain lx where l: "lex_loop (lexer_new src) = Inr lx" and ts: "ts = lx_tokens (lex_finish lx)"
    by (auto simp: tokenize_def split: sum.splits)
  have "moves (lexer_new src) lx \<and> lx_rest lx = []"
    by (rule lex_loop_induct [OF l, where R = moves]) (auto intro: moves_iter moves_trans)
  then have "moves (lexer_new src) (lex_finish lx)" "lx_rest (lex_finish lx) = []"
    using moves_finish moves_trans by (blast, auto simp: lex_finish_def Let_def)
  then show ?thesis using that [of "lex_finish lx"] ts by (simp add: lex_finish_def Let_def emit_token_def)
qed

lemma tokenize_reads:
  assumes "tokenize src = Inr ts"
  shows "scans (1, 1) src (view ts)"
proof -
  obtain lx where "moves (lexer_new src) lx" "lx_rest lx = []" "lx_tokens lx = ts" using tokenize_moves [OF assms] by blast
  with scan_end show ?thesis unfolding moves_def by (fastforce simp: lexer_new_def lx_pos_def)
qed

text \<open>
  C19. The tokens of a source are its tokens: whenever the lexer accepts, the source is a sequence of blanks, newlines,
  comments and tokens spelled as the grammar says, each as long as possible, and the tokens it returns, layout
  apart, are exactly these, in order, each at the line and column where its spelling starts.
\<close>

theorem tokenize_scans:
  assumes "tokenize src = Inr ts"
  shows "scans (1, 1) src (view ts)"
  using assms by (rule tokenize_reads)

theorem tokenize_scans_witness:
  "scans (1, 1) (''a = 12'' @ [CHR 0x0A] @ ''  b-- c'')
     [(Ident ''a'', 1, 1), (Equal, 1, 3), (Number 12, 1, 5), (Ident ''b'', 2, 3)]"
proof -
  have "tokenize (''a = 12'' @ [CHR 0x0A] @ ''  b-- c'') = Inr (map (\<lambda>(k, l, c). \<lparr>tk_kind = k, tk_line = l, tk_col = c\<rparr>)
    [(Ident ''a'', 1, 1), (Equal, 1, 3), (Number 12, 1, 5), (Newline, 1, 7), (Indent, 2, 1), (Ident ''b'', 2, 3),
     (Newline, 2, 8), (Dedent, 2, 8), (Eof, 2, 8)])" by code_simp
  from tokenize_scans [OF this] show ?thesis by (simp add: view_def is_layout_def)
qed

section \<open>Layout\<close>

fun layout_run :: "nat \<Rightarrow> token_kind list \<Rightarrow> nat option" where
  "layout_run n [] = Some n"
| "layout_run n (k # ks) =
     (if k = Indent then layout_run (Suc n) ks
      else if k = Dedent then (if n = 0 then None else layout_run (n - 1) ks)
      else layout_run n ks)"

lemma layout_run_append: "layout_run n (a @ b) = (case layout_run n a of None \<Rightarrow> None | Some m \<Rightarrow> layout_run m b)"
  by (induction a arbitrary: n) auto

lemma layout_run_dedents: "layout_run n (replicate k Dedent) = (if k \<le> n then Some (n - k) else None)"
  by (induction k arbitrary: n) auto

definition bracket_depth :: "token_kind list \<Rightarrow> int" where
  "bracket_depth ks = sum_list (map bracket_step ks)"

lemma bracket_depth_Nil [simp]: "bracket_depth [] = 0"
  by (simp add: bracket_depth_def)

lemma bracket_depth_append [simp]: "bracket_depth (a @ b) = bracket_depth a + bracket_depth b"
  by (simp add: bracket_depth_def)

lemma bracket_depth_layout [simp]: "is_layout k \<or> k = Eof \<Longrightarrow> bracket_depth [k] = 0"
  by (auto simp: bracket_depth_def bracket_step_def is_layout_def)

text \<open>Well-formed token sequences: blocks and brackets never close more than was opened, and no newline follows a newline.\<close>

definition layout_wf :: "token_kind list \<Rightarrow> bool" where
  "layout_wf ks \<longleftrightarrow> layout_run 0 ks \<noteq> None \<and> (\<forall>n. 0 \<le> bracket_depth (take n ks))
     \<and> successively (\<lambda>a b. \<not> (a = Newline \<and> b = Newline)) ks \<and> Eof \<notin> set ks"

definition kinds :: "lexer \<Rightarrow> token_kind list" where
  "kinds lx = map tk_kind (lx_tokens lx)"

lemma kinds_emit [simp]: "kinds (emit_token k p lx) = kinds lx @ [k]"
  by (simp add: kinds_def emit_token_def)

lemma layout_wf_snoc:
  assumes "layout_wf ks" "layout_run 0 (ks @ [k]) \<noteq> None" "0 \<le> bracket_depth (ks @ [k])" "k = Newline \<longrightarrow> ks = [] \<or> last ks \<noteq> Newline" "k \<noteq> Eof"
  shows "layout_wf (ks @ [k])"
proof -
  have "0 \<le> bracket_depth (take n (ks @ [k]))" for n
    using assms(1,3) by (cases "n \<le> length ks") (auto simp: layout_wf_def)
  with assms show ?thesis by (auto simp: layout_wf_def successively_append_iff)
qed

definition layout_inv :: "lexer \<Rightarrow> bool" where
  "layout_inv lx \<longleftrightarrow> layout_wf (kinds lx) \<and> lx_indents lx \<noteq> [] \<and> last (lx_indents lx) = 0
     \<and> layout_run 0 (kinds lx) = Some (length (lx_indents lx) - 1) \<and> bracket_depth (kinds lx) = lx_depth lx"

lemma layout_inv_same:
  assumes "lx_tokens lx' = lx_tokens lx" "lx_indents lx' = lx_indents lx" "lx_depth lx' = lx_depth lx"
  shows "layout_inv lx' \<longleftrightarrow> layout_inv lx"
  using assms by (simp add: layout_inv_def kinds_def)

lemma layout_inv_eats: "eats t lx lx' \<Longrightarrow> layout_inv lx' \<longleftrightarrow> layout_inv lx"
  by (rule layout_inv_same) (simp_all add: eats_sel)

lemma layout_inv_depth: "layout_inv lx \<Longrightarrow> 0 \<le> lx_depth lx"
  unfolding layout_inv_def layout_wf_def by (metis order_refl take_all)

lemma layout_inv_emit:
  assumes "layout_inv lx" "lx_indents lx' = lx_indents lx" "lx_tokens lx' = lx_tokens lx" "k \<notin> {Indent, Dedent, Eof}"
    "lx_depth lx' = lx_depth lx + bracket_step k" "0 \<le> lx_depth lx'" "k = Newline \<longrightarrow> kinds lx = [] \<or> last (kinds lx) \<noteq> Newline"
  shows "layout_inv (emit_token k p lx')"
proof -
  have k: "kinds lx' = kinds lx" using assms(3) by (simp add: kinds_def)
  have "bracket_depth [k] = bracket_step k" by (simp add: bracket_depth_def)
  moreover have "layout_run 0 (kinds lx @ [k]) = layout_run 0 (kinds lx)"
    using assms(1,4) by (auto simp: layout_run_append layout_inv_def)
  ultimately have "layout_wf (kinds lx @ [k])" "bracket_depth (kinds lx @ [k]) = lx_depth lx'"
    "layout_run 0 (kinds lx @ [k]) = Some (length (lx_indents lx) - 1)"
    using assms by (auto simp: layout_inv_def intro!: layout_wf_snoc)
  with assms(1,2) k show ?thesis by (simp add: layout_inv_def) (simp add: emit_token_def)
qed

lemma layout_inv_dedents:
  "layout_inv lx \<Longrightarrow> lx_indents lx = is \<Longrightarrow> layout_inv (pop_indents w is lx)"
proof (induction w "is" lx rule: pop_indents.induct)
  case (1 w i js lx)
  show ?case
  proof (cases "i > w")
    case True
    with 1 have js: "js \<noteq> []" by (auto simp: layout_inv_def split: if_splits)
    let ?lx = "emit_token Dedent (lx_line lx, 1) (lx\<lparr>lx_indents := js\<rparr>)"
    have l: "layout_run 0 (kinds lx @ [Dedent]) = Some (length js - 1)"
      using 1 js by (auto simp: layout_run_append layout_inv_def)
    have "layout_wf (kinds lx @ [Dedent])"
      by (rule layout_wf_snoc) (use 1 l layout_inv_depth [OF 1(2)] in \<open>auto simp: layout_inv_def is_layout_def\<close>)
    moreover have "kinds ?lx = kinds lx @ [Dedent]" "lx_indents ?lx = js" "lx_depth ?lx = lx_depth lx"
      by (simp_all add: kinds_def emit_token_def)
    ultimately have "layout_inv ?lx" using 1(2,3) js l by (auto simp: layout_inv_def is_layout_def)
    with 1 True show ?thesis by (simp add: emit_token_def)
  next
    case False
    with 1 show ?thesis by simp
  qed
qed simp

lemma layout_inv_line_start: "handle_line_start lx = Inr lx' \<Longrightarrow> layout_inv lx \<Longrightarrow> layout_inv lx'"
proof (erule handle_line_start_cases)
  fix t lx1 assume "layout_inv lx" "eats t lx lx1" "lx' = lx1\<lparr>lx_at_line_start := False\<rparr>"
  with layout_inv_eats show ?thesis by (simp add: layout_inv_def kinds_def)
next
  fix t lx1 w assume *: "layout_inv lx" "eats t lx lx1"
    "lx' = emit_token Indent (lx_line lx1, 1) (lx1\<lparr>lx_indents := w # lx_indents lx1, lx_at_line_start := False\<rparr>)"
  have inv: "layout_inv lx1" using *(1,2) layout_inv_eats by simp
  then have l: "layout_run 0 (kinds lx1 @ [Indent]) = Some (length (lx_indents lx1))"
    by (cases "lx_indents lx1") (auto simp: layout_run_append layout_inv_def)
  have "layout_wf (kinds lx1 @ [Indent])"
    by (rule layout_wf_snoc) (use inv l layout_inv_depth [OF inv] in \<open>auto simp: layout_inv_def is_layout_def\<close>)
  with inv l *(3) show ?thesis by (auto simp: layout_inv_def is_layout_def kinds_def emit_token_def)
next
  fix t lx1 w assume *: "layout_inv lx" "eats t lx lx1" "lx' = (pop_indents w (lx_indents lx1) lx1)\<lparr>lx_at_line_start := False\<rparr>"
  have "layout_inv lx1" using *(1,2) layout_inv_eats by simp
  from layout_inv_dedents [OF this refl] show ?thesis unfolding *(3) by (simp add: layout_inv_def kinds_def)
qed

lemma layout_inv_newline: "layout_inv lx \<Longrightarrow> layout_inv (read_newline lx)"
proof -
  assume inv: "layout_inv lx"
  let ?lx = "lx\<lparr>lx_rest := tl (lx_rest lx), lx_line := lx_line lx + 1, lx_col := 1\<rparr>"
  have "layout_inv ?lx" using inv by (simp add: layout_inv_def kinds_def)
  moreover have "layout_inv (emit_token Newline (lx_pos lx) ?lx)"
    if "lx_tokens lx \<noteq> []" "\<not> is_layout (tk_kind (last (lx_tokens lx)))"
    by (rule layout_inv_emit [OF inv])
       (use that layout_inv_depth [OF inv] in \<open>auto simp: bracket_step_def kinds_def last_map is_layout_def\<close>)
  moreover have "layout_inv (l\<lparr>lx_at_line_start := True\<rparr>) = layout_inv l" for l by (rule layout_inv_same) simp_all
  ultimately show ?thesis by (auto simp: read_newline_def Let_def)
qed

lemma layout_inv_token: "reads_token lx lx' \<Longrightarrow> layout_inv lx \<Longrightarrow> layout_inv lx'"
proof -
  assume "reads_token lx lx'" and inv: "layout_inv lx"
  then obtain t k lx1 where t: "eats t lx lx1" "spells t k"
    and lx': "lx' = emit_token k (lx_pos lx) (lx1\<lparr>lx_depth := lx_depth lx + bracket_step k\<rparr>)" "0 \<le> lx_depth lx'"
    using layout_inv_depth [OF inv] by (auto simp: reads_token_def)
  show ?thesis unfolding lx'(1)
    by (rule layout_inv_emit [OF inv])
       (use lx' t spells_nonempty [OF t(2)] eats_sel [OF t(1)] in \<open>auto simp: is_layout_def emit_token_def\<close>)
qed

lemma layout_inv_iter: "lex_iter lx = Inr lx' \<Longrightarrow> layout_inv lx \<Longrightarrow> layout_inv lx'"
proof (erule lex_iter_cases)
  fix lx1
  assume "layout_inv lx"
    "lx1 = lx \<and> \<not> (lx_at_line_start lx \<and> lx_depth lx = 0) \<or> handle_line_start lx = Inr lx1 \<and> lx_at_line_start lx \<and> lx_depth lx = 0"
  then have inv: "layout_inv lx1" using layout_inv_line_start by auto
  have "layout_inv (skip_while (\<lambda>b. b \<noteq> CHR 0x0A) lx1)" "layout_inv (advance lx1)"
    using comment_eats layout_inv_eats inv by (blast, simp add: layout_inv_def kinds_def advance_def)
  moreover assume "lx_rest lx1 = [] \<and> lx' = lx1
     \<or> (\<exists>r. lx_rest lx1 = CHR ''-'' # CHR ''-'' # r \<and> lx' = skip_while (\<lambda>b. b \<noteq> CHR 0x0A) lx1)
     \<or> (\<exists>r. lx_rest lx1 = CHR 0x0A # r \<and> lx' = read_newline lx1)
     \<or> (\<exists>c r. lx_rest lx1 = c # r \<and> (c = CHR '' '' \<or> c = CHR 0x09) \<and> lx' = advance lx1)
     \<or> (lx_rest lx1 \<noteq> [] \<and> hd (lx_rest lx1) \<notin> {CHR 0x0A, CHR '' '', CHR 0x09} \<and> reads_token lx1 lx' \<and> read_token lx1 = Inr lx')"
  ultimately show "layout_inv lx'" using inv layout_inv_newline layout_inv_token by auto
qed

lemma layout_inv_close:
  "layout_inv lx \<Longrightarrow> lx_indents lx = is \<Longrightarrow> layout_inv (close_indents is lx) \<and> length (lx_indents (close_indents is lx)) = 1"
proof (induction "is" lx rule: close_indents.induct)
  case (1 i j js lx)
  let ?lx = "emit_token Dedent (lx_pos lx) (lx\<lparr>lx_indents := j # js\<rparr>)"
  have l: "layout_run 0 (kinds lx @ [Dedent]) = Some (length js)"
    using 1 by (auto simp: layout_run_append layout_inv_def)
  have "layout_wf (kinds lx @ [Dedent])"
    by (rule layout_wf_snoc) (use 1 l layout_inv_depth [OF 1(2)] in \<open>auto simp: layout_inv_def is_layout_def\<close>)
  moreover have s: "kinds ?lx = kinds lx @ [Dedent]" "lx_indents ?lx = j # js" "lx_depth ?lx = lx_depth lx"
    by (simp_all add: kinds_def emit_token_def)
  ultimately have "layout_inv ?lx" using 1(2,3) l by (auto simp: layout_inv_def is_layout_def)
  with 1(1) s(2) show ?case by simp
qed (auto simp: layout_inv_def)

text \<open>
  C20. The layout of an accepted source is well formed: every \<open>Dedent\<close> closes an earlier \<open>Indent\<close> and at the end all
  blocks are closed, no bracket closes more than was opened, no newline token follows another, and the end marker stands last
  and nowhere else.
\<close>

theorem tokenize_layout:
  assumes "tokenize src = Inr ts"
  shows "\<exists>ks. map tk_kind ts = ks @ [Eof] \<and> layout_run 0 ks = Some 0 \<and> (\<forall>n. 0 \<le> bracket_depth (take n ks))
    \<and> successively (\<lambda>a b. \<not> (a = Newline \<and> b = Newline)) ks \<and> Eof \<notin> set ks"
proof -
  from assms obtain lx where l: "lex_loop (lexer_new src) = Inr lx" and ts: "ts = lx_tokens (lex_finish lx)"
    by (auto simp: tokenize_def split: sum.splits)
  have "layout_inv (lexer_new src) \<longrightarrow> layout_inv lx"
    using lex_loop_induct [OF l, where R = "\<lambda>a b. layout_inv a \<longrightarrow> layout_inv b"] layout_inv_iter by blast
  moreover have "layout_inv (lexer_new src)" by (simp add: layout_inv_def layout_wf_def lexer_new_def kinds_def)
  ultimately have inv: "layout_inv lx" by simp
  let ?lx = "if lx_tokens lx = [] \<or> tk_kind (last (lx_tokens lx)) = Newline then lx else emit_token Newline (lx_pos lx) lx"
  have "layout_inv (emit_token Newline (lx_pos lx) lx)" if "lx_tokens lx \<noteq> []" "tk_kind (last (lx_tokens lx)) \<noteq> Newline"
    by (rule layout_inv_emit [OF inv]) (use that layout_inv_depth [OF inv] in \<open>auto simp: bracket_step_def kinds_def last_map\<close>)
  with inv have "layout_inv ?lx" by simp
  with layout_inv_close [of ?lx] have "layout_inv (close_indents (lx_indents ?lx) ?lx)"
    "length (lx_indents (close_indents (lx_indents ?lx) ?lx)) = 1" by blast+
  moreover have "map tk_kind ts = kinds (close_indents (lx_indents ?lx) ?lx) @ [Eof]"
    unfolding ts kinds_def [symmetric] lex_finish_def Let_def by (rule kinds_emit)
  ultimately show ?thesis unfolding layout_inv_def layout_wf_def by auto
qed

theorem tokenize_layout_witness:
  "layout_run 0 [Ident ''r'', Colon, Newline, Indent, Ident ''x'', LParen, RParen, Newline, Dedent] = Some 0"
proof -
  have "tokenize (''r:'' @ [CHR 0x0A] @ ''  x('' @ [CHR 0x0A] @ '')'') = Inr (map (\<lambda>(k, l, c). \<lparr>tk_kind = k, tk_line = l, tk_col = c\<rparr>)
    [(Ident ''r'', 1, 1), (Colon, 1, 2), (Newline, 1, 3), (Indent, 2, 1), (Ident ''x'', 2, 3), (LParen, 2, 4), (RParen, 3, 1),
     (Newline, 3, 2), (Dedent, 3, 2), (Eof, 3, 2)])" by code_simp
  from tokenize_layout [OF this] obtain ks where "[Ident ''r'', Colon, Newline, Indent, Ident ''x'', LParen, RParen, Newline, Dedent] @ [Eof] = ks @ [Eof]"
    "layout_run 0 ks = Some 0" by auto
  then show ?thesis by (metis append1_eq_conv)
qed

section \<open>Literals are UTF-8\<close>

lemma utf8_step_take:
  assumes "utf8_step l bs = (ok, n)"
  shows "1 \<le> n" "n \<le> 4"
  using assms by (auto simp: utf8_step_def split: if_splits)

lemma nth_sat_append:
  "nth_sat P (a @ b) i \<longleftrightarrow> (if i < length a then P (a ! i) else nth_sat P b (i - length a))"
  by (auto simp: nth_sat_def nth_append)

text \<open>A well-formed character never spans an ASCII byte.\<close>

lemma utf8_step_ascii:
  assumes "utf8_step l (a @ c # b) = (True, n)" "code c < 128"
  shows "n - 1 \<le> length a \<and> utf8_step l a = (True, n)"
proof -
  have "\<not> is_cont c" "\<not> second_ok l c" using assms(2) by (auto simp: is_cont_def second_ok_def)
  then have eq: "nth_sat P (a @ c # b) i = nth_sat P a i" if "P = is_cont \<or> P = second_ok l" "i \<le> length a" for P i
    using that by (cases "i = length a") (auto simp: nth_sat_def nth_append)
  have len: "nth_sat P a i \<Longrightarrow> Suc i \<le> length a" for P i by (simp add: nth_sat_def)
  have sat: "nth_sat P (a @ c # b) 0 \<Longrightarrow> nth_sat P a 0" if "P = is_cont \<or> P = second_ok l" for P using eq [OF that] by simp
  have sat1: "nth_sat P (a @ c # b) 1 \<Longrightarrow> nth_sat Q a 0 \<Longrightarrow> nth_sat P a 1" if "P = is_cont \<or> P = second_ok l" for P Q
    using eq [OF that] len [of Q 0] by simp
  have sat2: "nth_sat P (a @ c # b) 2 \<Longrightarrow> nth_sat Q a 1 \<Longrightarrow> nth_sat P a 2" if "P = is_cont \<or> P = second_ok l" for P Q
    using eq [OF that] len [of Q 1] by simp
  from assms(1) consider "code l < 128" "n = 1" | "194 \<le> code l" "code l \<le> 223" "n = 2" "nth_sat is_cont (a @ c # b) 0"
    | "224 \<le> code l" "code l \<le> 239" "n = 3" "nth_sat (second_ok l) (a @ c # b) 0" "nth_sat is_cont (a @ c # b) 1"
    | "240 \<le> code l" "code l \<le> 244" "n = 4" "nth_sat (second_ok l) (a @ c # b) 0" "nth_sat is_cont (a @ c # b) 1" "nth_sat is_cont (a @ c # b) 2"
    by (auto simp: utf8_step_def split: if_splits)
  then show ?thesis
  proof cases
    case 1
    then show ?thesis by (simp add: utf8_step_def)
  next
    case 2
    then have "nth_sat is_cont a 0" using sat by simp
    with 2 len [of is_cont 0] show ?thesis by (simp add: utf8_step_def)
  next
    case 3
    then have s: "nth_sat (second_ok l) a 0" "nth_sat is_cont a 1" using sat sat1 by blast+
    with 3 len [OF s(2)] show ?thesis by (simp add: utf8_step_def)
  next
    case 4
    then have s: "nth_sat (second_ok l) a 0" "nth_sat is_cont a 1" "nth_sat is_cont a 2" using sat sat1 sat2 by blast+
    with 4 len [OF s(3)] show ?thesis by (simp add: utf8_step_def)
  qed
qed

lemma utf8_step_extend:
  assumes "utf8_step l a = (True, n)"
  shows "utf8_step l (a @ b) = (True, n) \<and> n - 1 \<le> length a"
proof -
  have e: "nth_sat P a i \<Longrightarrow> nth_sat P (a @ b) i \<and> Suc i \<le> length a" for P i by (auto simp: nth_sat_def nth_append)
  from assms show ?thesis by (auto simp: utf8_step_def dest!: e split: if_splits)
qed

lemma valid_utf8_split:
  "code c < 128 \<Longrightarrow> valid_utf8 (a @ c # b) \<Longrightarrow> valid_utf8 a \<and> valid_utf8 b"
proof (induction "length a" arbitrary: a rule: less_induct)
  case less
  show ?case
  proof (cases a)
    case Nil
    with less.prems show ?thesis by (simp add: utf8_step_def)
  next
    case (Cons l a')
    with less.prems(2) obtain n where n: "utf8_step l (a' @ c # b) = (True, n)" "valid_utf8 (drop (n - 1) (a' @ c # b))"
      by (auto split: prod.splits)
    from utf8_step_ascii [OF n(1) less.prems(1)] have s: "n - 1 \<le> length a'" "utf8_step l a' = (True, n)" by auto
    then have "valid_utf8 (drop (n - 1) a' @ c # b)" using n(2) by simp
    from less.hyps [OF _ less.prems(1) this] Cons have "valid_utf8 (drop (n - 1) a') \<and> valid_utf8 b" by simp
    with Cons s(2) show ?thesis by simp
  qed
qed

lemma valid_utf8_append: "valid_utf8 a \<Longrightarrow> valid_utf8 b \<Longrightarrow> valid_utf8 (a @ b)"
proof (induction a rule: valid_utf8.induct)
  case (2 l a)
  then obtain n where n: "utf8_step l a = (True, n)" "valid_utf8 (drop (n - 1) a)" by (auto split: prod.splits)
  have s: "utf8_step l (a @ b) = (True, n)" "n - 1 \<le> length a" using utf8_step_extend [OF n(1)] by auto
  have "valid_utf8 (drop (n - 1) a @ b)" using "2.IH" [OF n(1) [symmetric]] n(2) "2.prems"(2) by simp
  with s show ?case by simp
qed simp

lemma valid_utf8_Cons_ascii: "code c < 128 \<Longrightarrow> valid_utf8 (c # r) = valid_utf8 r"
  by (simp add: utf8_step_def)

declare valid_utf8.simps(2) [simp del]

lemma unescape_utf8: "unescape raw = Some s \<Longrightarrow> valid_utf8 (acc @ raw) \<Longrightarrow> valid_utf8 (acc @ s)"
proof (induction raw arbitrary: acc s rule: unescape.induct)
  case (2 c)
  then show ?case by (simp split: if_splits)
next
  case (3 c e r)
  show ?case
  proof (cases "c = CHR 0x5C")
    case True
    with "3.prems" obtain x u where x: "text_escape e = Some x" "unescape r = Some u" "s = x # u"
      by (auto split: option.splits)
    note b = text_escape_byte [OF x(1)]
    have "code c < 128" using True by simp
    from valid_utf8_split [OF this "3.prems"(2)] have "valid_utf8 acc" "valid_utf8 (e # r)" by auto
    with b have "valid_utf8 (acc @ x # r)" by (simp add: valid_utf8_append valid_utf8_Cons_ascii)
    with "3.IH"(1) [OF True x(1,2), of "acc @ [x]"] x(3) show ?thesis by simp
  next
    case False
    with "3.prems" obtain u where u: "unescape (e # r) = Some u" "s = c # u" "c \<notin> {CHR 0x22, CHR 0x0A}" by (auto split: if_splits)
    from "3.IH"(2) [OF False u(3,1), of "acc @ [c]"] "3.prems"(2) u(2) show ?thesis by simp
  qed
qed simp

lemma spells_last_ascii: "spells t k \<Longrightarrow> code (last t) < 128"
proof -
  assume t: "spells t k"
  have asc: "is_ident_continue c \<Longrightarrow> code c < 128" "is_ascii_digit c \<Longrightarrow> code c < 128" for c
    by (auto simp: is_ident_continue_def is_ascii_alphanumeric_def is_ascii_alphabetic_def is_ascii_digit_def)
  show ?thesis
  proof (cases k)
    case (Ident s)
    with t asc show ?thesis by (auto simp: spells_def list_all_iff)
  next
    case (Number n)
    with t asc show ?thesis by (auto simp: spells_def list_all_iff)
  next
    case (Attribute s)
    with t asc show ?thesis by (auto simp: spells_def list_all_iff)
  qed (use t in \<open>auto simp: spells_def symbol_text_def\<close>)
qed

lemma valid_utf8_after:
  assumes "valid_utf8 (t @ r)" "t \<noteq> []" "code (last t) < 128"
  shows "valid_utf8 (butlast t) \<and> valid_utf8 r"
proof -
  have "t @ r = butlast t @ last t # r" using assms(2) by simp
  with assms(1) have "valid_utf8 (butlast t @ last t # r)" by simp
  with assms(3) show ?thesis by (rule valid_utf8_split)
qed

definition utf8_inv :: "lexer \<Rightarrow> bool" where
  "utf8_inv lx \<longleftrightarrow> valid_utf8 (lx_rest lx) \<and> (\<forall>t \<in> set (lx_tokens lx). \<forall>s. tk_kind t = StringLit s \<longrightarrow> valid_utf8 s)"

lemma utf8_inv_rest: "utf8_inv lx \<Longrightarrow> lx_tokens lx' = lx_tokens lx \<Longrightarrow> valid_utf8 (lx_rest lx') \<Longrightarrow> utf8_inv lx'"
  by (simp add: utf8_inv_def)

lemma utf8_inv_emit: "utf8_inv lx \<Longrightarrow> (\<And>s. k = StringLit s \<Longrightarrow> valid_utf8 s) \<Longrightarrow> utf8_inv (emit_token k p lx)"
  by (auto simp: utf8_inv_def emit_token_def)

lemma utf8_inv_eats:
  assumes "utf8_inv lx" "eats t lx lx'" "t = [] \<or> code (last t) < 128 \<or> lx_rest lx' = [] \<or> hd (lx_rest lx') = CHR 0x0A"
  shows "utf8_inv lx'"
proof (rule utf8_inv_rest [OF assms(1) eats_sel(4) [OF assms(2)]])
  have v: "valid_utf8 (t @ lx_rest lx')" using assms(1) eats_rest [OF assms(2)] by (simp add: utf8_inv_def)
  show "valid_utf8 (lx_rest lx')"
  proof (cases "t = [] \<or> code (last t) < 128")
    case True
    then show ?thesis using v valid_utf8_after by (cases "t = []") auto
  next
    case False
    with assms(3) v show ?thesis
      by (cases "lx_rest lx'") (auto simp: valid_utf8_Cons_ascii dest: valid_utf8_split [rotated])
  qed
qed

lemma last_blank: "set t \<subseteq> {CHR '' ''} \<Longrightarrow> t = [] \<or> code (last t) < 128"
  using last_in_set [of t] by fastforce

lemma utf8_inv_pop: "utf8_inv lx \<Longrightarrow> utf8_inv (pop_indents w is lx)"
  by (induction w "is" lx rule: pop_indents.induct) (auto simp: utf8_inv_def emit_token_def)

lemma utf8_inv_line_start: "handle_line_start lx = Inr lx' \<Longrightarrow> utf8_inv lx \<Longrightarrow> utf8_inv lx'"
proof (erule handle_line_start_cases)
  fix t lx1 assume *: "utf8_inv lx" "eats t lx lx1" "set t \<subseteq> {CHR '' ''}" "lx' = lx1\<lparr>lx_at_line_start := False\<rparr>"
  have "utf8_inv lx1" by (rule utf8_inv_eats [OF *(1,2)]) (use last_blank [OF *(3)] in auto)
  with *(4) show ?thesis by (simp add: utf8_inv_def)
next
  fix t lx1 w assume *: "utf8_inv lx" "eats t lx lx1" "set t \<subseteq> {CHR '' ''}"
    "lx' = emit_token Indent (lx_line lx1, 1) (lx1\<lparr>lx_indents := w # lx_indents lx1, lx_at_line_start := False\<rparr>)"
  have "utf8_inv lx1" by (rule utf8_inv_eats [OF *(1,2)]) (use last_blank [OF *(3)] in auto)
  with *(4) show ?thesis by (auto simp: utf8_inv_def emit_token_def)
next
  fix t lx1 w assume *: "utf8_inv lx" "eats t lx lx1" "set t \<subseteq> {CHR '' ''}" "lx' = (pop_indents w (lx_indents lx1) lx1)\<lparr>lx_at_line_start := False\<rparr>"
  have "utf8_inv lx1" by (rule utf8_inv_eats [OF *(1,2)]) (use last_blank [OF *(3)] in auto)
  from utf8_inv_pop [OF this] *(4) show ?thesis by (simp add: utf8_inv_def)
qed

lemma utf8_inv_newline: "utf8_inv lx \<Longrightarrow> lx_rest lx = CHR 0x0A # r \<Longrightarrow> utf8_inv (read_newline lx)"
  by (auto simp: utf8_inv_def read_newline_def Let_def emit_token_def valid_utf8_Cons_ascii)

lemma utf8_inv_token: "reads_token lx lx' \<Longrightarrow> utf8_inv lx \<Longrightarrow> utf8_inv lx'"
proof -
  assume "reads_token lx lx'" and inv: "utf8_inv lx"
  then obtain t k lx1 where t: "eats t lx lx1" "spells t k"
    and lx': "lx' = emit_token k (lx_pos lx) (lx1\<lparr>lx_depth := lx_depth lx + bracket_step k\<rparr>)"
    by (auto simp: reads_token_def)
  have v: "valid_utf8 (t @ lx_rest lx1)" using inv eats_rest [OF t(1)] by (simp add: utf8_inv_def)
  have "utf8_inv lx1" by (rule utf8_inv_eats [OF inv t(1)]) (use spells_last_ascii [OF t(2)] in simp)
  then have "utf8_inv (lx1\<lparr>lx_depth := lx_depth lx + bracket_step k\<rparr>)" by (simp add: utf8_inv_def)
  then show ?thesis unfolding lx'
  proof (rule utf8_inv_emit)
    fix s assume "k = StringLit s"
    with t(2) obtain raw where raw: "t = CHR 0x22 # raw @ [CHR 0x22]" "unescape raw = Some s" by (auto simp: spells_def)
    from valid_utf8_after [OF v] spells_nonempty [OF t(2)] spells_last_ascii [OF t(2)] have "valid_utf8 (butlast t)" by simp
    with raw(1) have "valid_utf8 raw" by (simp add: butlast_append valid_utf8_Cons_ascii)
    with unescape_utf8 [OF raw(2), of "[]"] show "valid_utf8 s" by simp
  qed
qed

lemma utf8_inv_iter: "lex_iter lx = Inr lx' \<Longrightarrow> utf8_inv lx \<Longrightarrow> utf8_inv lx'"
proof (erule lex_iter_cases)
  fix lx1
  assume "utf8_inv lx"
    "lx1 = lx \<and> \<not> (lx_at_line_start lx \<and> lx_depth lx = 0) \<or> handle_line_start lx = Inr lx1 \<and> lx_at_line_start lx \<and> lx_depth lx = 0"
  then have inv: "utf8_inv lx1" using utf8_inv_line_start by auto
  have "utf8_inv (skip_while (\<lambda>b. b \<noteq> CHR 0x0A) lx1)"
    using comment_eats [of lx1] utf8_inv_eats [OF inv] by blast
  moreover have "utf8_inv (advance lx1)" if "lx_rest lx1 = c # r" "c = CHR '' '' \<or> c = CHR 0x09" for c r
    by (rule utf8_inv_eats [OF inv eats_advance [OF that(1)]]) (use that(2) in auto)
  moreover assume "lx_rest lx1 = [] \<and> lx' = lx1
     \<or> (\<exists>r. lx_rest lx1 = CHR ''-'' # CHR ''-'' # r \<and> lx' = skip_while (\<lambda>b. b \<noteq> CHR 0x0A) lx1)
     \<or> (\<exists>r. lx_rest lx1 = CHR 0x0A # r \<and> lx' = read_newline lx1)
     \<or> (\<exists>c r. lx_rest lx1 = c # r \<and> (c = CHR '' '' \<or> c = CHR 0x09) \<and> lx' = advance lx1)
     \<or> (lx_rest lx1 \<noteq> [] \<and> hd (lx_rest lx1) \<notin> {CHR 0x0A, CHR '' '', CHR 0x09} \<and> reads_token lx1 lx' \<and> read_token lx1 = Inr lx')"
  ultimately show "utf8_inv lx'" using inv utf8_inv_newline utf8_inv_token by auto
qed

text \<open>The only panic of the lexer is the UTF-8 check of a literal; it is reached from \<open>read_string\<close> alone.\<close>

definition no_panic :: "lex_error + 'a \<Rightarrow> bool" where
  "no_panic r \<longleftrightarrow> (\<forall>e. r = Inl e \<longrightarrow> le_kind e \<noteq> LiteralPanic)"

lemma no_panic_simps [simp]: "no_panic (Inr x)" "no_panic (lex_err p k) \<longleftrightarrow> k \<noteq> LiteralPanic"
  by (simp_all add: no_panic_def lex_err_def)

lemma no_panic_string: "no_panic (string_loop s lx b)"
proof (induction s lx b rule: string_loop.induct)
  case (1 s lx b)
  show ?case
  proof (cases "lx_rest lx")
    case (Cons c r)
    with 1 show ?thesis by (subst string_loop.simps) (cases r; cases "text_escape (hd r)"; simp)
  qed (simp add: string_loop.simps [of s lx b])
qed

lemma no_panic_escape: "no_panic (bytes_escape lx e)"
  by (simp add: bytes_escape_def split: option.split)

lemma no_panic_bytes: "no_panic (bytes_loop s lx b)"
proof (induction "length (lx_rest lx)" arbitrary: lx b rule: less_induct)
  case less
  have "no_panic (case bytes_escape (advance lx) e of Inl err \<Rightarrow> Inl err | Inr (x, lx') \<Rightarrow> bytes_loop s lx' (b @ [x]))"
    if "lx_rest lx = c # r" for c r e
  proof (cases "bytes_escape (advance lx) e" rule: sum.exhaust)
    case (Inl err)
    with no_panic_escape [of "advance lx" e] show ?thesis by (simp add: no_panic_def)
  next
    case (Inr xl)
    obtain x l where xl: "xl = (x, l)" by (cases xl)
    with Inr bytes_escape_rest [of "advance lx" e x l] that have "length (lx_rest l) < length (lx_rest lx)" by simp
    from less [OF this] Inr xl show ?thesis by simp
  qed
  moreover have "no_panic (bytes_loop s (advance lx) (b @ [c]))" if "lx_rest lx = c # r" for c r
    by (rule less) (simp add: that)
  ultimately show ?case by (subst bytes_loop.simps) (cases "lx_rest lx"; cases "tl (lx_rest lx)"; simp)
qed

lemma no_panic_symbol: "no_panic (read_symbol c p lx)"
  by (simp add: read_symbol_def read_one_def read_two_def read_open_def read_close_def)

lemma no_panic_token:
  assumes "lx_rest lx = c # r" "valid_utf8 (c # r)"
  shows "no_panic (read_token lx)"
proof (cases "c = CHR 0x22")
  case True
  have "valid_utf8 b" if l: "string_loop (lx_pos lx) (advance lx) [] = Inr (b, lx1)" "lx_rest lx1 \<noteq> []" for b lx1
  proof -
    from string_loop_reads [OF l(1)] l(2) obtain raw r' where raw: "eats raw (advance lx) lx1" "unescape raw = Some b"
      "lx_rest lx1 = CHR 0x22 # r'" by (cases "lx_rest lx1") auto
    have "valid_utf8 (raw @ CHR 0x22 # r')"
      using eats_rest [OF raw(1)] raw(3) assms True by (simp add: valid_utf8_Cons_ascii)
    from valid_utf8_split [OF _ this] have "valid_utf8 raw" by simp
    with unescape_utf8 [OF raw(2), of "[]"] show ?thesis by simp
  qed
  then have "no_panic (read_string (lx_pos lx) lx)"
    using no_panic_string [of "lx_pos lx" "advance lx" "[]"] unfolding read_string_def
    by (cases "string_loop (lx_pos lx) (advance lx) []") (auto simp: no_panic_def lex_err_def split: if_splits)
  with True assms(1) show ?thesis by (simp add: read_token_def)
next
  case False
  have "no_panic (read_bytes (lx_pos lx) lx)" using no_panic_bytes [of "lx_pos lx" "advance (advance lx)" "[]"]
    unfolding read_bytes_def
    by (cases "bytes_loop (lx_pos lx) (advance (advance lx)) []") (auto simp: no_panic_def lex_err_def split: if_splits)
  with False assms(1) no_panic_symbol show ?thesis
    by (auto simp: read_token_def read_attribute_def read_number_def read_ident_def Let_def split: option.splits)
qed

lemma no_panic_width: "no_panic (indent_width w lx)"
proof (induction w lx rule: indent_width.induct)
  case (1 w lx)
  from 1 show ?case by (subst indent_width.simps) (cases "lx_rest lx"; simp)
qed

lemma no_panic_line_start: "no_panic (handle_line_start lx)"
  using no_panic_width [of 0 lx]
  by (auto simp: handle_line_start_def no_panic_def lex_err_def Let_def split: sum.splits prod.splits if_splits)

lemma no_panic_iter: "utf8_inv lx \<Longrightarrow> no_panic (lex_iter lx)"
proof -
  assume inv: "utf8_inv lx"
  have step: "no_panic (case lx_rest l of
             [] \<Rightarrow> Inr l
           | c # _ \<Rightarrow>
               if c = CHR ''-'' \<and> peek l 1 = Some (CHR ''-'') then Inr (skip_while (\<lambda>b. b \<noteq> CHR 0x0A) l)
               else if c = CHR 0x0A then Inr (read_newline l)
               else if c = CHR '' '' \<or> c = CHR 0x09 then Inr (advance l)
               else read_token l)" if "utf8_inv l" for l
    using no_panic_token that by (auto simp: utf8_inv_def split: list.split)
  show ?thesis
  proof (cases "lx_at_line_start lx \<and> lx_depth lx = 0")
    case True
    with no_panic_line_start [of lx] step utf8_inv_line_start [OF _ inv] show ?thesis
      by (cases "handle_line_start lx") (simp_all add: lex_iter_def no_panic_def)
  next
    case False
    then have "(if lx_at_line_start lx \<and> lx_depth lx = 0 then handle_line_start lx else Inr lx) = Inr lx" by auto
    with step [OF inv] show ?thesis unfolding lex_iter_def by simp
  qed
qed

lemma no_panic_loop: "utf8_inv lx \<Longrightarrow> no_panic (lex_loop lx)"
proof (induction lx rule: lex_loop.induct)
  case (1 lx)
  show ?case
  proof (cases "lex_iter lx")
    case (Inl e)
    with no_panic_iter [OF 1(2)] show ?thesis by (subst lex_loop.simps) (simp add: no_panic_def)
  next
    case (Inr lx1)
    with 1 utf8_inv_iter [OF Inr 1(2)] show ?thesis by (subst lex_loop.simps) auto
  qed
qed

lemma close_indents_tokens: "tk_kind t = StringLit s \<Longrightarrow> t \<in> set (lx_tokens (close_indents is lx)) \<Longrightarrow> t \<in> set (lx_tokens lx)"
  by (induction "is" lx rule: close_indents.induct) (auto simp: emit_token_def)



section \<open>Literals read back\<close>

definition escape_text_byte :: "byte \<Rightarrow> byte list" where
  "escape_text_byte c =
     (if c = CHR 0x0A then [CHR 0x5C, CHR ''n'']
      else if c = CHR 0x5C \<or> c = CHR 0x22 then [CHR 0x5C, c] else [c])"

definition quote_text :: "byte list \<Rightarrow> byte list" where
  "quote_text s = CHR 0x22 # concat (map escape_text_byte s) @ [CHR 0x22]"

definition hex_digit :: "nat \<Rightarrow> byte" where
  "hex_digit d = (if d < 10 then char_of (48 + d) else char_of (87 + d))"

definition quote_bytes :: "byte list \<Rightarrow> byte list" where
  "quote_bytes s = CHR ''b'' # CHR 0x22 #
     concat (map (\<lambda>c. [CHR 0x5C, CHR ''x'', hex_digit (code c div 16), hex_digit (code c mod 16)]) s) @ [CHR 0x22]"

lemma escape_text_cases:
  "(\<exists>e. escape_text_byte c = [CHR 0x5C, e] \<and> text_escape e = Some c)
   \<or> escape_text_byte c = [c] \<and> c \<notin> {CHR 0x22, CHR 0x0A, CHR 0x5C}"
  by (cases "c = CHR 0x0A"; cases "c = CHR 0x5C"; cases "c = CHR 0x22") (simp_all add: escape_text_byte_def text_escape_def)

lemma string_loop_quoted:
  "lx_rest lx = concat (map escape_text_byte s) @ CHR 0x22 # r \<Longrightarrow>
     \<exists>lx'. string_loop p lx b = Inr (b @ s, lx') \<and> eats (concat (map escape_text_byte s)) lx lx' \<and> lx_rest lx' = CHR 0x22 # r"
proof (induction s arbitrary: lx b)
  case Nil
  then show ?case by (simp add: string_loop.simps [of p lx b])
next
  case (Cons c s)
  consider e where "escape_text_byte c = [CHR 0x5C, e]" "text_escape e = Some c"
    | "escape_text_byte c = [c]" "c \<notin> {CHR 0x22, CHR 0x0A, CHR 0x5C}"
    using escape_text_cases by blast
  then show ?case
  proof cases
    case (1 e)
    with Cons.prems have l: "lx_rest (advance (advance lx)) = concat (map escape_text_byte s) @ CHR 0x22 # r" by simp
    from Cons.IH [OF this, of "b @ [c]"] obtain lx' where
      "string_loop p (advance (advance lx)) (b @ [c]) = Inr (b @ c # s, lx')"
      "eats (concat (map escape_text_byte s)) (advance (advance lx)) lx'" "lx_rest lx' = CHR 0x22 # r" by auto
    moreover have "string_loop p lx b = string_loop p (advance (advance lx)) (b @ [c])"
      using 1 Cons.prems by (simp add: string_loop.simps [of p lx b])
    ultimately show ?thesis using 1 Cons.prems text_escape_byte [OF 1(2)] by (auto intro!: exI [of _ lx'] eats_Cons)
  next
    case 2
    with Cons.prems have l: "lx_rest (advance lx) = concat (map escape_text_byte s) @ CHR 0x22 # r" by simp
    from Cons.IH [OF this, of "b @ [c]"] obtain lx' where
      "string_loop p (advance lx) (b @ [c]) = Inr (b @ c # s, lx')"
      "eats (concat (map escape_text_byte s)) (advance lx) lx'" "lx_rest lx' = CHR 0x22 # r" by auto
    moreover have "string_loop p lx b = string_loop p (advance lx) (b @ [c])"
      using 2 Cons.prems by (simp add: string_loop.simps [of p lx b])
    ultimately show ?thesis using 2 Cons.prems by (auto intro!: exI [of _ lx'] eats_Cons)
  qed
qed

lemma hex_digit_val: "d < 16 \<Longrightarrow> is_ascii_hexdigit (hex_digit d) \<and> hex_val (hex_digit d) = d \<and> hex_digit d \<noteq> CHR 0x0A"
proof -
  assume d: "d < 16"
  then have c: "code (hex_digit d) = (if d < 10 then 48 + d else 87 + d)" by (simp add: hex_digit_def)
  then have "hex_digit d \<noteq> CHR 0x0A" by (auto split: if_splits)
  with c d show ?thesis by (auto simp: is_ascii_hexdigit_def hex_val_def is_ascii_digit_def)
qed

lemma bytes_loop_quoted:
  "lx_rest lx = concat (map (\<lambda>c. [CHR 0x5C, CHR ''x'', hex_digit (code c div 16), hex_digit (code c mod 16)]) s) @ CHR 0x22 # r \<Longrightarrow>
     \<exists>lx'. bytes_loop p lx b = Inr (b @ s, lx')
       \<and> eats (concat (map (\<lambda>c. [CHR 0x5C, CHR ''x'', hex_digit (code c div 16), hex_digit (code c mod 16)]) s)) lx lx'
       \<and> lx_rest lx' = CHR 0x22 # r"
proof (induction s arbitrary: lx b)
  case Nil
  then show ?case by (simp add: bytes_loop.simps [of p lx b])
next
  case (Cons c s)
  let ?lx = "advance (advance (advance (advance lx)))"
  have h: "is_ascii_hexdigit (hex_digit (code c div 16))" "is_ascii_hexdigit (hex_digit (code c mod 16))"
    "hex_val (hex_digit (code c div 16)) * 16 + hex_val (hex_digit (code c mod 16)) = code c"
    "hex_digit (code c div 16) \<noteq> CHR 0x0A" "hex_digit (code c mod 16) \<noteq> CHR 0x0A"
    using hex_digit_val [of "code c div 16"] hex_digit_val [of "code c mod 16"] less_mult_imp_div_less [of "code c" 16 16] by simp_all
  have e: "bytes_escape (advance lx) (CHR ''x'') = Inr (c, ?lx)"
    using Cons.prems h by (simp add: bytes_escape_def peek_def)
  from Cons.prems Cons.IH [of ?lx "b @ [c]"] obtain lx' where
    "bytes_loop p ?lx (b @ [c]) = Inr (b @ c # s, lx')"
    "eats (concat (map (\<lambda>c. [CHR 0x5C, CHR ''x'', hex_digit (code c div 16), hex_digit (code c mod 16)]) s)) ?lx lx'"
    "lx_rest lx' = CHR 0x22 # r" by auto
  moreover have "bytes_loop p lx b = bytes_loop p ?lx (b @ [c])"
    using e Cons.prems by (simp add: bytes_loop.simps [of p lx b])
  ultimately show ?case using Cons.prems h(4,5) by (auto intro!: exI [of _ lx'] eats_Cons)
qed

text \<open>A source that is one token: the line start changes nothing, and the layout tokens of the end follow.\<close>

lemma tokenize_single:
  assumes "src = c # r" "c \<notin> {CHR 0x0A, CHR '' '', CHR 0x09, CHR ''-''}"
    and "read_token ((lexer_new src)\<lparr>lx_at_line_start := False\<rparr>) = Inr (emit_token k (1, 1) lx)"
    and "eats src ((lexer_new src)\<lparr>lx_at_line_start := False\<rparr>) lx" "lx_rest lx = []" "k \<noteq> Newline"
  shows "tokenize src = Inr [\<lparr>tk_kind = k, tk_line = 1, tk_col = 1\<rparr>,
    \<lparr>tk_kind = Newline, tk_line = 1, tk_col = 1 + length src\<rparr>, \<lparr>tk_kind = Eof, tk_line = 1, tk_col = 1 + length src\<rparr>]"
proof -
  let ?lx = "(lexer_new src)\<lparr>lx_at_line_start := False\<rparr>"
  have "handle_line_start (lexer_new src) = Inr ?lx"
    using assms(1,2) by (simp add: handle_line_start_def indent_width.simps [of 0] lexer_new_def)
  then have "lex_iter (lexer_new src) = Inr (emit_token k (1, 1) lx)"
    using assms(1-3) by (simp add: lex_iter_def lexer_new_def)
  then have "lex_loop (lexer_new src) = Inr (emit_token k (1, 1) lx)"
    using assms(1,5) lex_loop.simps [of "lexer_new src"] lex_loop.simps [of "emit_token k (1, 1) lx"] by (simp add: lexer_new_def)
  with eats_sel [OF assms(4)] assms(6) show ?thesis
    by (simp add: tokenize_def lex_finish_def Let_def emit_token_def lexer_new_def lx_pos_def)
qed

text \<open>
  C22. Literals read back: every UTF-8 text has a text literal, and every byte sequence a byte-string literal, that the
  lexer reads as exactly one token with that content.
\<close>

theorem literals_read_back:
  "(valid_utf8 s \<longrightarrow> (\<exists>n. tokenize (quote_text s) = Inr [\<lparr>tk_kind = StringLit s, tk_line = 1, tk_col = 1\<rparr>,
      \<lparr>tk_kind = Newline, tk_line = 1, tk_col = n\<rparr>, \<lparr>tk_kind = Eof, tk_line = 1, tk_col = n\<rparr>]))
   \<and> (\<exists>n. tokenize (quote_bytes s) = Inr [\<lparr>tk_kind = BytesLit s, tk_line = 1, tk_col = 1\<rparr>,
      \<lparr>tk_kind = Newline, tk_line = 1, tk_col = n\<rparr>, \<lparr>tk_kind = Eof, tk_line = 1, tk_col = n\<rparr>])"
proof (intro conjI impI)
  assume v: "valid_utf8 s"
  let ?lx = "(lexer_new (quote_text s))\<lparr>lx_at_line_start := False\<rparr>"
  have "lx_rest (advance ?lx) = concat (map escape_text_byte s) @ CHR 0x22 # []" by (simp add: lexer_new_def quote_text_def)
  from string_loop_quoted [OF this, of "(1, 1)" "[]"] obtain lx' where
    l: "string_loop (1, 1) (advance ?lx) [] = Inr (s, lx')" "eats (concat (map escape_text_byte s)) (advance ?lx) lx'" "lx_rest lx' = [CHR 0x22]"
    by auto
  have "read_token ?lx = Inr (emit_token (StringLit s) (1, 1) (advance lx'))"
    using l v by (simp add: read_token_def read_string_def lx_pos_def lexer_new_def quote_text_def)
  moreover have "eats (quote_text s) ?lx (advance lx')"
    unfolding quote_text_def
    by (rule eats_Cons [OF _ _ eats_trans [OF l(2) eats_advance [OF l(3)], unfolded quote_text_def]]) (simp_all add: lexer_new_def)
  ultimately show "\<exists>n. tokenize (quote_text s) = Inr [\<lparr>tk_kind = StringLit s, tk_line = 1, tk_col = 1\<rparr>,
      \<lparr>tk_kind = Newline, tk_line = 1, tk_col = n\<rparr>, \<lparr>tk_kind = Eof, tk_line = 1, tk_col = n\<rparr>]"
    using tokenize_single [of "quote_text s" "CHR 0x22" "concat (map escape_text_byte s) @ [CHR 0x22]"] l(3)
    by (auto simp: quote_text_def)
next
  let ?lx = "(lexer_new (quote_bytes s))\<lparr>lx_at_line_start := False\<rparr>"
  let ?h = "concat (map (\<lambda>c. [CHR 0x5C, CHR ''x'', hex_digit (code c div 16), hex_digit (code c mod 16)]) s)"
  have "lx_rest (advance (advance ?lx)) = ?h @ CHR 0x22 # []" by (simp add: lexer_new_def quote_bytes_def)
  from bytes_loop_quoted [OF this, of "(1, 1)" "[]"] obtain lx' where
    l: "bytes_loop (1, 1) (advance (advance ?lx)) [] = Inr (s, lx')" "eats ?h (advance (advance ?lx)) lx'" "lx_rest lx' = [CHR 0x22]"
    by auto
  have "read_token ?lx = Inr (emit_token (BytesLit s) (1, 1) (advance lx'))"
    using l by (simp add: read_token_def read_bytes_def lx_pos_def lexer_new_def quote_bytes_def peek_def is_ascii_digit_def)
  moreover have "eats (CHR 0x22 # ?h @ [CHR 0x22]) (advance ?lx) (advance lx')"
    by (rule eats_Cons [OF _ _ eats_trans [OF l(2) eats_advance [OF l(3)]]]) (simp_all add: lexer_new_def quote_bytes_def)
  then have "eats (quote_bytes s) ?lx (advance lx')"
    unfolding quote_bytes_def by (rule eats_Cons [rotated 2]) (simp_all add: lexer_new_def)
  ultimately show "\<exists>n. tokenize (quote_bytes s) = Inr [\<lparr>tk_kind = BytesLit s, tk_line = 1, tk_col = 1\<rparr>,
      \<lparr>tk_kind = Newline, tk_line = 1, tk_col = n\<rparr>, \<lparr>tk_kind = Eof, tk_line = 1, tk_col = n\<rparr>]"
    using tokenize_single [of "quote_bytes s" "CHR ''b''" "CHR 0x22 # ?h @ [CHR 0x22]"] l(3)
    by (auto simp: quote_bytes_def)
qed

theorem literals_read_back_witness:
  "\<exists>n. tokenize (quote_text [CHR 0x22, CHR 0xC3, CHR 0xA9, CHR 0x0A]) = Inr [\<lparr>tk_kind = StringLit [CHR 0x22, CHR 0xC3, CHR 0xA9, CHR 0x0A], tk_line = 1, tk_col = 1\<rparr>,
      \<lparr>tk_kind = Newline, tk_line = 1, tk_col = n\<rparr>, \<lparr>tk_kind = Eof, tk_line = 1, tk_col = n\<rparr>]"
proof -
  have "valid_utf8 [CHR 0x22, CHR 0xC3, CHR 0xA9, CHR 0x0A]" by code_simp
  with literals_read_back [of "[CHR 0x22, CHR 0xC3, CHR 0xA9, CHR 0x0A]"] show ?thesis by blast
qed

end
