(* ===== verification/Parser_Properties.thy ===== *)
theory Parser_Properties
  imports Parser_Safe_Items Lexer_Properties
begin

text \<open>
  What holds of the parser on every input, and of the lexer and the parser together: \<open>front_end\<close> is the part of
  \<open>main\<close> (\<open>src/src/main.rs\<close>) that turns the text of a source file into a program or prints one error.
\<close>

section \<open>From text to program\<close>

datatype front_error = LexFailure lex_error | ParseFailure parse_error

definition front_end :: "byte list \<Rightarrow> front_error + program" where
  "front_end src =
     (case tokenize src of
        Inl e \<Rightarrow> Inl (LexFailure e)
      | Inr ts \<Rightarrow> (case parse_program ts of Inl e \<Rightarrow> Inl (ParseFailure e) | Inr p \<Rightarrow> Inr p))"

lemma scans_spells: "scans p src vs \<Longrightarrow> (k, l, c) \<in> set vs \<Longrightarrow> \<exists>t. spells t k"
  by (induction rule: scans.induct) auto

lemma tokenize_ready:
  assumes "tokenize src = Inr ts"
  shows "ready ts"
proof -
  obtain lx where "tk_kind (last ts) = Eof" "ts \<noteq> []" using tokenize_moves [OF assms] by blast
  moreover have "0 \<le> n" if "t \<in> set ts" "tk_kind t = Number n" for t n
  proof -
    have "(Number n, tk_line t, tk_col t) \<in> set (view ts)" using that by (force simp: view_def is_layout_def)
    then obtain s where "spells s (Number n)" using scans_spells [OF tokenize_reads [OF assms]] by blast
    then show ?thesis by (simp add: spells_def)
  qed
  ultimately show ?thesis by (simp add: ready_def)
qed

lemma outcome_same:
  assumes "outcome s ts ts r r'"
  shows "r = r'" "r = Inl e \<Longrightarrow> pe_kind e \<noteq> Diverges" "r = Inr (a, rest) \<Longrightarrow> 0 < s \<Longrightarrow> length rest < length ts"
  using assms by (auto simp: error_at_def elim!: outcomeE)

lemma program_outcome:
  assumes "ready ts" "kinds_of ts = kinds_of us" "length ts < n" "length ts < n'"
  shows "outcome 0 ts us (parse_program_fuel n ts) (parse_program_fuel n' us)"
  by (rule tracksD [OF tracks_program [of "length ts"], of _ _ _ _ "\<lambda>_. True"]) (use assms in simp_all)

text \<open>
  C30. The front end always answers: on every UTF-8 source, lexing and parsing end with a program, with a lexical error
  that is not a panic, or with a syntax error at a token of the source; no loop of the parser runs for ever, none of its
  indexings, negations and \<open>unwrap\<close>s fails.
\<close>

theorem front_end_answers:
  assumes "valid_utf8 src"
  shows "(\<exists>p. front_end src = Inr p)
    \<or> (\<exists>e. front_end src = Inl (LexFailure e) \<and> le_kind e \<noteq> LiteralPanic)
    \<or> (\<exists>ts t k. tokenize src = Inr ts \<and> t \<in> set ts \<and> k \<notin> {Diverges, ParserPanic} \<and> front_end src = Inl (ParseFailure (error_at k t)))"
proof (cases "tokenize src")
  case (Inl e)
  have "utf8_inv (lexer_new src)" using assms by (simp add: utf8_inv_def lexer_new_def)
  from no_panic_loop [OF this] Inl have "le_kind e \<noteq> LiteralPanic" by (auto simp: no_panic_def tokenize_def split: sum.splits)
  with Inl show ?thesis by (simp add: front_end_def)
next
  case (Inr ts)
  from program_outcome [OF tokenize_ready [OF Inr] refl lessI lessI] show ?thesis
  proof (cases rule: outcomeE)
    case (ok j p)
    with Inr show ?thesis by (simp add: front_end_def parse_program_def)
  next
    case (err j k)
    with Inr have "front_end src = Inl (ParseFailure (error_at k (ts ! j)))" by (simp add: front_end_def parse_program_def)
    with err(1,2) Inr nth_mem show ?thesis by blast
  qed
qed

theorem front_end_answers_witness:
  "front_end ''@verbose 1'' = Inl (ParseFailure \<lparr>pe_line = 1, pe_col = 11, pe_kind = Expected Dot Newline\<rparr>)
   \<and> Expected Dot Newline \<notin> {Diverges, ParserPanic}"
proof -
  have v: "valid_utf8 ''@verbose 1''" by (rule valid_utf8_ascii) simp
  have f: "front_end ''@verbose 1'' = Inl (ParseFailure \<lparr>pe_line = 1, pe_col = 11, pe_kind = Expected Dot Newline\<rparr>)" by code_simp
  from front_end_answers [OF v] f have "\<exists>t k. k \<notin> {Diverges, ParserPanic} \<and> \<lparr>pe_line = 1, pe_col = 11, pe_kind = Expected Dot Newline\<rparr> = error_at k t"
    by auto
  with f show ?thesis by (auto simp: error_at_def)
qed

section \<open>Fuel and positions\<close>



text \<open>
  C32. Positions do not matter: two token lists of the same kinds are parsed to the same program, or refused at the same
  token for the same reason.
\<close>

theorem parser_ignores_positions:
  assumes "ready ts" "map tk_kind ts = map tk_kind us"
  shows "(\<exists>p. parse_program ts = Inr p \<and> parse_program us = Inr p)
    \<or> (\<exists>j k. j < length ts \<and> parse_program ts = Inl (error_at k (ts ! j)) \<and> parse_program us = Inl (error_at k (us ! j)))"
proof -
  have "length us = length ts" using assms(2) by (metis length_map)
  with program_outcome [OF assms lessI lessI]
  have "outcome 0 ts us (parse_program_fuel (Suc (length ts)) ts) (parse_program_fuel (Suc (length us)) us)" by simp
  then show ?thesis by (cases rule: outcomeE) (auto simp: parse_program_def)
qed

theorem parser_ignores_positions_witness:
  "parse_program (map (\<lambda>k. \<lparr>tk_kind = k, tk_line = 7, tk_col = 9\<rparr>) [Attribute ''verbose'', Number 1, Dot, Number 2, Dot, Number 3, Newline, Eof])
     = Inr \<lparr>p_version = \<lparr>major = 1, minor = 2, patch = 3\<rparr>, p_uses = [], p_items = []\<rparr>"
proof -
  let ?k = "[Attribute ''verbose'', Number 1, Dot, Number 2, Dot, Number 3, Newline, Eof]"
  let ?ts = "map (\<lambda>k. \<lparr>tk_kind = k, tk_line = 1, tk_col = 1\<rparr>) ?k"
  let ?us = "map (\<lambda>k. \<lparr>tk_kind = k, tk_line = 7, tk_col = 9\<rparr>) ?k"
  have r: "ready ?ts" by (simp add: ready_def)
  have k: "map tk_kind ?ts = map tk_kind ?us" by simp
  have "parse_program ?ts = Inr \<lparr>p_version = \<lparr>major = 1, minor = 2, patch = 3\<rparr>, p_uses = [], p_items = []\<rparr>" by code_simp
  with parser_ignores_positions [OF r k] show ?thesis by auto
qed

end
