(* ===== verification/Parser_Roundtrip.thy ===== *)
theory Parser_Roundtrip
  imports Parser_Levels Parser_Properties
begin

text \<open>
  The expression parser inverts \<open>show_expr\<close>: the forms with lists, the induction over expressions, and the round trip as a
  property of the parser.
\<close>

section \<open>Forms with lists\<close>

text \<open>Every element takes at least one token, so the fuel is enough for the rounds.\<close>

lemma concat_length:
  "(\<And>x. x \<in> set xs \<Longrightarrow> f x \<noteq> []) \<Longrightarrow> length xs \<le> length (concat (map f xs)) \<and> (\<forall>x \<in> set xs. length (f x) \<le> length (concat (map f xs)))"
proof (induction xs)
  case (Cons x xs)
  have "Suc 0 \<le> length (f x)" using Cons.prems [of x] by (cases "f x") auto
  with Cons show ?case by fastforce
qed simp

lemma commas_length:
  "(\<And>x. x \<in> set xs \<Longrightarrow> f x \<noteq> []) \<Longrightarrow> length xs \<le> length (commas (map f xs)) \<and> (\<forall>x \<in> set xs. length (f x) \<le> length (commas (map f xs)))"
proof (induction xs)
  case (Cons x xs)
  then show ?case by (cases xs) (fastforce simp: Suc_le_eq)+
qed simp

lemma show_nonempty: "printable e \<Longrightarrow> show_expr e \<noteq> []"
  using starts_show by fastforce

lemma ok_args:
  assumes "\<And>a. a \<in> set args \<Longrightarrow> ok a" "list_all printable args" "Suc (length (commas (map show_expr args))) < n"
    and "pe = parse_expr (n - 1)"
  shows "reads_to F (call_args n pe) (commas (map show_expr args) @ [RParen]) args"
proof -
  have "length args \<le> length (commas (map show_expr args)) \<and> (\<forall>a \<in> set args. length (show_expr a) \<le> length (commas (map show_expr args)))"
    by (rule commas_length) (use assms(2) show_nonempty in \<open>auto simp: list_all_iff\<close>)
  with assms show ?thesis by (auto intro!: reads_any [OF reads_call_args] ok_arg simp: list_all_iff)
qed

lemma reads_concat_call:
  assumes "reads_to anything (call_args n pe) ks args" "args \<noteq> []"
  shows "reads_to F (concat_call n pe) (LParen # ks) (EConcat args)"
proof -
  have "reads_to anything (ebind (call_args n pe) (\<lambda>args. ebind (reject_if (args = []) k) (\<lambda>_. ret (EConcat args)))) (ks @ []) (EConcat args)" for k
    by (rule reads_bind [OF assms(1)]) (use assms(2) in \<open>auto simp: reject_if_def reads_to_def ebind_def ret_def\<close>)
  then show ?thesis
    unfolding concat_call_def by (auto intro!: reads_any [OF reads_step [OF reads_advance]])
qed

lemma ok_concat:
  assumes "\<And>a. a \<in> set args \<Longrightarrow> ok a"
  shows "ok (EConcat args)"
  by (rule ok_named; simp add: form_defs; auto intro!: reads_concat_call ok_args assms)

text \<open>A call of a rule: a name that is not a primitive goes through the whole chain of \<open>else if\<close> to the last call form.\<close>

lemma reads_named_call:
  "name \<notin> set primitive_call_names \<Longrightarrow> reads_to F (generic_call n pe name) (LParen # ks) e \<Longrightarrow> reads_to F (named_form n pe name) (LParen # ks) e"
  by (simp add: named_form_def text_forms_def bitwise_forms_def at_call_def primitive_call_names_def)

lemma ok_call:
  assumes "\<And>a. a \<in> set args \<Longrightarrow> ok a"
  shows "ok (ECall f args)"
  by (rule ok_named; simp add: show_call_def expr_level_def generic_call_def;
      auto intro!: reads_named_call reads_step [OF reads_advance] reads_last ok_args assms simp: generic_call_def)

lemma ok_fields:
  assumes "\<And>f e. (f, e) \<in> set fs \<Longrightarrow> ok e" "list_all (\<lambda>(f, e). printable e) fs" "Suc (length (commas (map show_field fs))) < n"
    and "pe = parse_expr (n - 1)"
  shows "reads_to F (brace_fields n pe) (show_braces (map show_field fs)) fs"
proof -
  have "length fs \<le> length (commas (map show_field fs)) \<and> (\<forall>x \<in> set fs. length (show_field x) \<le> length (commas (map show_field fs)))"
    by (rule commas_length) auto
  with assms(3) have l: "length fs < n" "\<And>x. x \<in> set fs \<Longrightarrow> Suc (length (show_field x)) < n" by fastforce+
  have "arg pe e" if "(f, e) \<in> set fs" for f e
    using ok_arg [OF assms(1) [OF that], of "n - 1"] l(2) [OF that] that assms(2,4) by (fastforce simp: list_all_iff)
  then show ?thesis by (intro reads_any [OF reads_brace_fields] l(1))
qed

lemma ok_record:
  assumes "\<And>f e. (f, e) \<in> set fs \<Longrightarrow> ok e"
  shows "ok (ERecord c fs)"
  by (rule ok_named)
    (use reads_last [OF ok_fields [OF assms], where h = "ERecord c"] in
      \<open>auto simp: named_form_def text_forms_def at_call_def expr_level_def show_braces_def\<close>)

lemma ok_variant:
  assumes "\<And>f e. (f, e) \<in> set fs \<Longrightarrow> ok e"
  shows "ok (EVariantConstruct c v fs)"
proof (rule ok_named; simp add: expr_level_def named_form_def variant_form_def; intro allI impI conjI)
  fix n assume p: "\<not> opening_word c \<and> list_all (\<lambda>(f, e). printable e) fs"
  let ?pe = "parse_expr (n - Suc 0)"
  have "reads_to (follows 6) (pif (check_kind LBrace) (brace_fields n ?pe) (ret [])) (if fs = [] then [] else show_braces (map show_field fs)) fs"
    if n: "fs \<noteq> [] \<longrightarrow> Suc (length (commas (map show_field fs))) < n"
  proof (cases "fs = []")
    case True
    then show ?thesis by (auto intro!: reads_pif_else simp: follows_def)
  next
    case False
    then show ?thesis using ok_fields [where fs = fs and n = n and pe = ?pe and F = "follows 6", OF assms] p n by (simp add: show_braces_def)
  qed
  note r = reads_last [OF this, where h = "EVariantConstruct c v"]
  {
    assume "fs = []" "Suc (Suc (Suc 0)) < n"
    with r show "reads_to (follows 6) (ebind tok_advance (\<lambda>_. ebind expect_ident_any (\<lambda>variant_name.
      ebind (pif (check_kind LBrace) (brace_fields n ?pe) (ret [])) (\<lambda>fs. ret (EVariantConstruct c variant_name fs)))))
      [DoubleColon, Ident v] (EVariantConstruct c v [])"
      by (auto intro!: reads_piece)
  next
    assume "fs \<noteq> []" "Suc (Suc (Suc (length (show_braces (map show_field fs))))) < n"
    with r show "reads_to (follows 6) (ebind tok_advance (\<lambda>_. ebind expect_ident_any (\<lambda>variant_name.
      ebind (pif (check_kind LBrace) (brace_fields n ?pe) (ret [])) (\<lambda>fs. ret (EVariantConstruct c variant_name fs)))))
      (DoubleColon # Ident v # show_braces (map show_field fs)) (EVariantConstruct c v fs)"
      by (auto intro!: reads_piece simp: show_braces_def)
  }
qed

lemma binders_length: "length bs \<le> length (show_binders bs)"
proof -
  have "length bs \<le> length (commas (map show_binder bs))" by (rule conjunct1 [OF commas_length]) (simp add: show_binder_def)
  then show ?thesis by (simp add: show_binders_def)
qed

lemma ok_match:
  assumes "ok s" "\<And>a. a \<in> set arms \<Longrightarrow> ok (arm_body a)"
  shows "ok (EMatchVariant s arms)"
proof (rule okI)
  fix n assume p: "printable (EMatchVariant s arms)" and n: "length (show_expr (EMatchVariant s arms)) < n"
  have c: "length arms \<le> length (concat (map show_arm arms)) \<and> (\<forall>a \<in> set arms. length (show_arm a) \<le> length (concat (map show_arm arms)))"
    by (rule concat_length) simp
  have "reads_to anything (match_form n (parse_expr (n - 1))) (show_expr (EMatchVariant s arms)) (EMatchVariant s arms)"
    unfolding show_expr.simps
  proof (rule reads_match_form)
    show "arg (parse_expr (n - 1)) s" by (rule ok_arg [OF assms(1)]) (use p n in auto)
    fix a assume a: "a \<in> set arms"
    then have "length (show_arm a) \<le> length (concat (map show_arm arms))" using c by blast
    then have "length (show_expr (arm_body a)) < n - 1" "length (arm_binders a) < n" using n binders_length [of "arm_binders a"] by auto
    then show "arg (parse_expr (n - 1)) (arm_body a) \<and> Some ''_'' \<notin> set (arm_binders a) \<and> length (arm_binders a) < n"
      using ok_arg [OF assms(2) [OF a]] p a by (auto simp: list_all_iff)
  qed (use c n in auto)
  then have "reads_to (follows 6) (parse_primary n (parse_expr (n - 1))) (show_expr (EMatchVariant s arms)) (EMatchVariant s arms)"
    by (simp add: parse_primary_def reads_any)
  then show "fits n (EMatchVariant s arms)" by (rule fits_primary) (use n in \<open>auto simp: expr_level_def prefixed_def\<close>)
qed (simp add: expr_level_def)

section \<open>Fields of an input\<close>

abbreviation chain :: "string \<Rightarrow> string list \<Rightarrow> expr" where
  "chain x fs \<equiv> foldl EField (EIdent x) fs"

lemma chain_of: "printable e \<Longrightarrow> is_chain e \<Longrightarrow> \<exists>x fs. e = chain x fs \<and> \<not> opening_word x"
proof (induction e)
  case (EIdent x)
  then show ?case by (intro exI [of _ x] exI [of _ "[]"]) simp
next
  case (EField e f)
  then obtain x fs where "e = chain x fs" "\<not> opening_word x" by auto
  then show ?case by (intro exI [of _ x] exI [of _ "fs @ [f]"]) simp
qed (simp_all add: is_chain_def)

lemma show_chain: "show_expr (chain x fs) = Ident x # concat (map (\<lambda>f. [Dot, Ident f]) fs)"
  by (induction fs rule: rev_induct) simp_all

lemma level_chain_expr: "expr_level (chain x fs) = 7"
  by (cases fs rule: rev_cases) (simp_all add: expr_level_def)

lemma reads_field_chain:
  assumes "length fs < n"
  shows "reads_to (follows 6) (field_chain n x) (concat (map (\<lambda>f. [Dot, Ident f]) fs)) (chain x fs)"
  unfolding field_chain_def
  by (rule reads_ploop [where F' = anything]) (use assms in \<open>auto intro!: reads_piece simp: follows_def\<close>)

lemma reads_named_chain:
  assumes "reads_to F (field_chain n name) ks e" "\<And>k. heads F ks k \<Longrightarrow> k \<notin> {DoubleColon, LParen, LBrace}"
  shows "reads_to F (named_form n pe name) ks e"
  unfolding named_form_def text_forms_def bitwise_forms_def
  by ((rule reads_pif_else, use assms(2) in \<open>fastforce simp: at_call_def\<close>)+) (rule assms(1))

lemma ok_chain:
  assumes "is_chain e"
  shows "ok e"
proof (cases "printable e")
  case True
  from chain_of [OF this assms] obtain x fs where e: "e = chain x fs" "\<not> opening_word x" by blast
  have "reads_to (follows 6) (named_form n pe x) (concat (map (\<lambda>f. [Dot, Ident f]) fs)) (chain x fs)"
    if "length (concat (map (\<lambda>f. [Dot, Ident f]) fs)) < n" for n pe
  proof -
    have "length fs < n" using that conjunct1 [OF concat_length [of fs "\<lambda>f. [Dot, Ident f]"]] by simp
    moreover have "k \<notin> {DoubleColon, LParen, LBrace}" if "heads (follows 6) (concat (map (\<lambda>f. [Dot, Ident f]) fs)) k" for k
      using that by (cases fs) (auto simp: follows_def)
    ultimately show ?thesis by (intro reads_named_chain reads_field_chain)
  qed
  with e show ?thesis by (intro ok_named) (simp_all add: show_chain level_chain_expr)
qed (simp add: ok_def)

section \<open>The induction\<close>

lemma ok_all: "ok e"
proof (induction e)
  case (EField e f)
  show ?case by (rule ok_chain) (simp add: is_chain_def)
next
  case (ERecord c fs)
  then show ?case by (intro ok_record) (force simp: snds.simps)
next
  case (EVariantConstruct c v fs)
  then show ?case by (intro ok_variant) (force simp: snds.simps)
next
  case (EMatchVariant s arms)
  then show ?case by (intro ok_match) (auto simp: match_arm.set_sel)
next
  case (EIdent x)
  show ?case by (rule ok_chain) (simp add: is_chain_def)
qed (blast intro: ok_literals ok_binary ok_call ok_if ok_prefix ok_lambda_calls ok_wide_calls ok_unary_calls ok_binary_calls
    ok_min_max ok_name_calls ok_concat)+

lemma parse_show:
  assumes "printable e" "kinds_of ts = show_expr e" "follows 0 (tk_kind u)" "length ts < n"
  shows "parse_expr n (ts @ u # r) = Inr (e, u # r)"
proof -
  have "length (show_expr e) < n" using assms(2,4) by (metis length_map)
  from fitsD(3) [OF okD [OF ok_all assms(1) this]] show ?thesis by (rule readsD) (use assms in simp_all)
qed

section \<open>The round trip\<close>

text \<open>
  C33. Expressions read back: the tokens that \<open>show_expr\<close> writes for an expression, with parentheses only where the precedence asks
  for them, followed by any token that cannot continue an expression, are parsed to that expression, and the parser
  stops at that token. So the grammar has the stated precedences, the binary operators associate to the left, and
  every constructor of the syntax that has a spelling is reachable.
\<close>

theorem expressions_read_back:
  assumes "printable e" "map tk_kind ts = show_expr e" "follows 0 (tk_kind u)" "length ts < n"
  shows "parse_expr n (ts @ u # r) = Inr (e, u # r)"
  using assms by (rule parse_show)

theorem expressions_read_back_witness:
  "parse_expr 30
     (map (\<lambda>k. \<lparr>tk_kind = k, tk_line = 1, tk_col = 1\<rparr>)
       [Ident ''not'', Number 1, Minus, Number 2, Minus, LParen, Ident ''x'', Dot, Ident ''y'', Plus, Minus, Number 3, RParen, Star,
        Ident ''max'', LParen, Number 4, Comma, Number 5, RParen, Ident ''or'', Ident ''b'', Newline])
   = Inr (EBinary OpOr
       (EBinary OpSub (EBinary OpSub (ENot (ENumber 1)) (ENumber 2))
         (EBinary OpMul (EBinary OpAdd (EField (EIdent ''x'') ''y'') (ENeg (ENumber 3))) (EMax (ENumber 4) (ENumber 5))))
       (EIdent ''b''), [\<lparr>tk_kind = Newline, tk_line = 1, tk_col = 1\<rparr>])"
proof -
  let ?e = "EBinary OpOr (EBinary OpSub (EBinary OpSub (ENot (ENumber 1)) (ENumber 2))
         (EBinary OpMul (EBinary OpAdd (EField (EIdent ''x'') ''y'') (ENeg (ENumber 3))) (EMax (ENumber 4) (ENumber 5)))) (EIdent ''b'')"
  let ?t = "\<lambda>k. \<lparr>tk_kind = k, tk_line = 1, tk_col = 1\<rparr> :: token"
  have p: "printable ?e" by (simp add: opening_word_def is_chain_def)
  have k: "map tk_kind (map ?t (show_expr ?e)) = show_expr ?e" by (simp add: o_def)
  have s: "show_expr ?e = [Ident ''not'', Number 1, Minus, Number 2, Minus, LParen, Ident ''x'', Dot, Ident ''y'', Plus, Minus, Number 3,
    RParen, Star, Ident ''max'', LParen, Number 4, Comma, Number 5, RParen, Ident ''or'', Ident ''b'']"
    by (simp add: paren_def expr_level_def op_level_def op_token_def left_level_def show_call_def)
  have l: "length (map ?t (show_expr ?e)) < 30" unfolding s by simp
  have "parse_expr 30 (map ?t (show_expr ?e) @ ?t Newline # []) = Inr (?e, [?t Newline])"
    by (rule expressions_read_back [OF p k _ l]) simp
  then show ?thesis unfolding s by simp
qed

end
