(* ===== verification/Verifier_Names.thy ===== *)
theory Verifier_Names
  imports Text_Bounds Parser_Print "HOL-Library.Multiset"
begin

text \<open>
  The declared names of a program, as \<open>verify_program\<close> of \<open>src/src/verifier.rs\<close> checks them before it looks at any declaration: the
  built-in HTTP concepts, the namespace of concepts, primitive names, duplicates by kind, and the one namespace of
  resources, connections and entropy sources. Sets of names are lists; errors are constructors, in the order of the source.
\<close>

datatype name_error =
    ReservedConcept string
  | GroupCollision string string
  | PrimitiveRule string
  | DuplicateItem string string
  | DuplicateResource string
  | DuplicateConnection string
  | ConnectionResource string
  | DuplicateEntropy string
  | EntropyResource string
  | EntropyConnection string

definition any_http10 :: "program \<Rightarrow> bool" where
  "any_http10 p \<longleftrightarrow> list_ex (\<lambda>it. case it of IService s \<Rightarrow> s_protocol s = Http10 | _ \<Rightarrow> False) (p_items p)"

definition builtin_names :: "program \<Rightarrow> string list" where
  "builtin_names p = (if any_http10 p then [''HttpRequest'', ''HttpResponse''] else [])"

definition top_concepts :: "program \<Rightarrow> concept list" where
  "top_concepts p = concat (map (\<lambda>it. case it of IConcept c \<Rightarrow> [c] | _ \<Rightarrow> []) (p_items p))"

definition reserved_errors :: "program \<Rightarrow> name_error list" where
  "reserved_errors p =
     (if any_http10 p
      then map (\<lambda>c. ReservedConcept (c_name c))
             (filter (\<lambda>c. c_name c = ''HttpRequest'' \<or> c_name c = ''HttpResponse'') (top_concepts p))
      else [])"

text \<open>The concepts of the groups, one after the other, against the names known so far.\<close>

fun group_names :: "string \<Rightarrow> string list \<Rightarrow> concept list \<Rightarrow> name_error list \<times> string list" where
  "group_names g seen [] = ([], seen)"
| "group_names g seen (c # cs) =
     (let (es, seen') = group_names g (c_name c # seen) cs in
      ((if c_name c \<in> set seen then [GroupCollision g (c_name c)] else []) @ es, seen'))"

fun group_pass :: "string list \<Rightarrow> item list \<Rightarrow> name_error list" where
  "group_pass seen [] = []"
| "group_pass seen (it # its) =
     (case it of
        IConceptGroup g \<Rightarrow> (let (es, seen') = group_names (g_name g) seen (g_concepts g) in es @ group_pass seen' its)
      | _ \<Rightarrow> group_pass seen its)"

definition group_errors :: "program \<Rightarrow> name_error list" where
  "group_errors p = group_pass (map c_name (top_concepts p) @ builtin_names p) (p_items p)"

definition primitive_errors :: "program \<Rightarrow> name_error list" where
  "primitive_errors p = map PrimitiveRule (filter (\<lambda>n. n \<in> set primitive_call_names) (map r_name (rules_of p)))"

text \<open>The name of an item, with its kind, for the five kinds whose names are checked against earlier ones of the same kind.\<close>

definition item_name :: "item \<Rightarrow> (string \<times> string) option" where
  "item_name it =
     (case it of
        IRule r \<Rightarrow> Some (''rule'', r_name r)
      | IConcept c \<Rightarrow> Some (''concept'', c_name c)
      | IReaction x \<Rightarrow> Some (''reaction'', rx_name x)
      | IService s \<Rightarrow> Some (''service'', s_name s)
      | IConceptGroup g \<Rightarrow> Some (''concept_group'', g_name g)
      | _ \<Rightarrow> None)"

fun duplicate_pass :: "(string \<times> string) list \<Rightarrow> item list \<Rightarrow> name_error list" where
  "duplicate_pass seen [] = []"
| "duplicate_pass seen (it # its) =
     (case item_name it of
        None \<Rightarrow> duplicate_pass seen its
      | Some kn \<Rightarrow> (if kn \<in> set seen then [DuplicateItem (fst kn) (snd kn)] else []) @ duplicate_pass (kn # seen) its)"

text \<open>The names of resources, connections and entropy sources.\<close>

definition resource_names :: "program \<Rightarrow> string list" where
  "resource_names p = concat (map (\<lambda>it. case it of IResource r \<Rightarrow> [rs_name r] | _ \<Rightarrow> []) (p_items p))"

definition connection_names :: "program \<Rightarrow> string list" where
  "connection_names p = concat (map (\<lambda>it. case it of IConnection c \<Rightarrow> [cn_name c] | _ \<Rightarrow> []) (p_items p))"

definition entropy_names :: "program \<Rightarrow> string list" where
  "entropy_names p = concat (map (\<lambda>it. case it of IEntropy e \<Rightarrow> [e_name e] | _ \<Rightarrow> []) (p_items p))"

fun resource_pass :: "string list \<Rightarrow> string list \<Rightarrow> name_error list" where
  "resource_pass seen [] = []"
| "resource_pass seen (n # ns) = (if n \<in> set seen then [DuplicateResource n] else []) @ resource_pass (n # seen) ns"

fun connection_pass :: "string list \<Rightarrow> string list \<Rightarrow> string list \<Rightarrow> name_error list" where
  "connection_pass rs seen [] = []"
| "connection_pass rs seen (n # ns) =
     (if n \<in> set seen then [DuplicateConnection n] else []) @ (if n \<in> set rs then [ConnectionResource n] else [])
     @ connection_pass rs (n # seen) ns"

fun entropy_pass :: "string list \<Rightarrow> string list \<Rightarrow> string list \<Rightarrow> string list \<Rightarrow> name_error list" where
  "entropy_pass rs cs seen [] = []"
| "entropy_pass rs cs seen (n # ns) =
     (if n \<in> set seen then [DuplicateEntropy n] else []) @ (if n \<in> set rs then [EntropyResource n] else [])
     @ (if n \<in> set cs then [EntropyConnection n] else []) @ entropy_pass rs cs (n # seen) ns"

definition name_errors :: "program \<Rightarrow> name_error list" where
  "name_errors p =
     reserved_errors p @ group_errors p @ primitive_errors p @ duplicate_pass [] (p_items p)
     @ resource_pass [] (resource_names p) @ connection_pass (resource_names p) [] (connection_names p)
     @ entropy_pass (resource_names p) (connection_names p) [] (entropy_names p)"

section \<open>What the passes accept\<close>

definition group_concepts :: "item list \<Rightarrow> concept list" where
  "group_concepts its = concat (map (\<lambda>it. case it of IConceptGroup g \<Rightarrow> g_concepts g | _ \<Rightarrow> []) its)"

definition names_of_kind :: "string \<Rightarrow> item list \<Rightarrow> string list" where
  "names_of_kind k its = concat (map (\<lambda>it. case item_name it of Some (k', n) \<Rightarrow> if k' = k then [n] else [] | None \<Rightarrow> []) its)"

abbreviation fresh :: "'a list \<Rightarrow> 'a list \<Rightarrow> bool" where
  "fresh seen xs \<equiv> distinct xs \<and> set xs \<inter> set seen = {}"

lemma group_names_seen: "set (snd (group_names g seen cs)) = set (map c_name cs) \<union> set seen"
  by (induction cs arbitrary: seen) (auto simp: Let_def split_def)

lemma group_names_none: "fst (group_names g seen cs) = [] \<longleftrightarrow> fresh seen (map c_name cs)"
  by (induction cs arbitrary: seen) (auto simp: Let_def split_def)

lemma group_pass_none: "group_pass seen its = [] \<longleftrightarrow> fresh seen (map c_name (group_concepts its))"
proof (induction its arbitrary: seen)
  case (Cons it its)
  show ?case
  proof (cases it)
    case (IConceptGroup g)
    have c: "group_concepts (it # its) = g_concepts g @ group_concepts its" by (simp add: IConceptGroup group_concepts_def)
    obtain es seen' where e: "group_names (g_name g) seen (g_concepts g) = (es, seen')" by fastforce
    have "es = [] \<longleftrightarrow> fresh seen (map c_name (g_concepts g))" "set seen' = set (map c_name (g_concepts g)) \<union> set seen"
      using group_names_none [of "g_name g" seen "g_concepts g"] group_names_seen [of "g_name g" seen "g_concepts g"] e by simp_all
    moreover have g: "group_pass seen (it # its) = es @ group_pass seen' its" by (simp add: IConceptGroup e)
    ultimately show ?thesis unfolding c g map_append distinct_append set_append append_is_Nil_conv Cons.IH by blast
  qed (use Cons in \<open>simp_all add: group_concepts_def\<close>)
qed (simp add: group_concepts_def)

definition kinded_names :: "item list \<Rightarrow> (string \<times> string) list" where
  "kinded_names its = concat (map (\<lambda>it. case item_name it of None \<Rightarrow> [] | Some kn \<Rightarrow> [kn]) its)"

lemma duplicate_pass_none: "duplicate_pass seen its = [] \<longleftrightarrow> fresh seen (kinded_names its)"
proof (induction its arbitrary: seen)
  case (Cons it its)
  show ?case
  proof (cases "item_name it")
    case (Some kn)
    then have "kinded_names (it # its) = kn # kinded_names its" by (simp add: kinded_names_def)
    with Cons Some show ?thesis by auto
  qed (use Cons in \<open>simp add: kinded_names_def\<close>)
qed (simp add: kinded_names_def)

lemma resource_pass_none: "resource_pass seen ns = [] \<longleftrightarrow> fresh seen ns"
  by (induction ns arbitrary: seen) auto

lemma connection_pass_none: "connection_pass rs seen ns = [] \<longleftrightarrow> fresh (seen @ rs) ns"
  by (induction ns arbitrary: seen) auto

lemma entropy_pass_none: "entropy_pass rs cs seen ns = [] \<longleftrightarrow> fresh (seen @ rs @ cs) ns"
  by (induction ns arbitrary: seen) auto

lemma distinct_kinded: "distinct kns \<longleftrightarrow> (\<forall>k. distinct (map snd (filter (\<lambda>kn. fst kn = k) kns)))"
proof (induction kns)
  case (Cons kn kns)
  have "kn \<in> set kns \<longleftrightarrow> snd kn \<in> set (map snd (filter (\<lambda>x. fst x = fst kn) kns))" by force
  with Cons show ?case by auto
qed simp

lemma names_of_kind_snd: "names_of_kind k its = map snd (filter (\<lambda>kn. fst kn = k) (kinded_names its))"
  by (induction its) (auto simp: names_of_kind_def kinded_names_def split: option.split)

lemma kinds_listed: "fst ` set (kinded_names its) \<subseteq> {''rule'', ''concept'', ''reaction'', ''service'', ''concept_group''}"
  by (induction its) (auto simp: kinded_names_def item_name_def split: item.splits option.splits)

lemma duplicate_none:
  "duplicate_pass [] its = [] \<longleftrightarrow> (\<forall>k \<in> {''rule'', ''concept'', ''reaction'', ''service'', ''concept_group''}. distinct (names_of_kind k its))"
proof -
  have n: "distinct (names_of_kind k its)" if "k \<notin> {''rule'', ''concept'', ''reaction'', ''service'', ''concept_group''}" for k
  proof -
    have "filter (\<lambda>kn. fst kn = k) (kinded_names its) = []" using kinds_listed [of its] that by (force simp: filter_empty_conv)
    then show ?thesis by (simp add: names_of_kind_snd)
  qed
  have a: "(\<forall>k. D k) \<longleftrightarrow> (\<forall>k \<in> K. D k)" if "\<And>k. k \<notin> K \<Longrightarrow> D k" for K :: "string set" and D using that by blast
  have "(\<forall>k. distinct (names_of_kind k its)) \<longleftrightarrow>
    (\<forall>k \<in> {''rule'', ''concept'', ''reaction'', ''service'', ''concept_group''}. distinct (names_of_kind k its))"
    by (rule a) (rule n)
  then show ?thesis unfolding duplicate_pass_none distinct_kinded names_of_kind_snd [symmetric] list.set Int_empty_right by (simp only: simp_thms)
qed

lemma kind_lists: "names_of_kind ''rule'' (p_items p) = map r_name (rules_of p)" "names_of_kind ''concept'' (p_items p) = map c_name (top_concepts p)"
proof -
  have "names_of_kind ''rule'' its = map r_name (concat (map (\<lambda>it. case it of IRule r \<Rightarrow> [r] | _ \<Rightarrow> []) its))
      \<and> names_of_kind ''concept'' its = map c_name (concat (map (\<lambda>it. case it of IConcept c \<Rightarrow> [c] | _ \<Rightarrow> []) its))" for its
  proof (induction its)
    case (Cons it its)
    then show ?case by (cases it) (simp_all add: names_of_kind_def item_name_def)
  qed (simp add: names_of_kind_def)
  then show "names_of_kind ''rule'' (p_items p) = map r_name (rules_of p)" "names_of_kind ''concept'' (p_items p) = map c_name (top_concepts p)"
    by (simp_all add: rules_of_def top_concepts_def)
qed

lemma concepts_split: "mset (map c_name (concepts_of p)) = mset (map c_name (top_concepts p)) + mset (map c_name (group_concepts (p_items p)))"
proof -
  have "mset (map c_name (iter_all_concepts its)) =
      mset (map c_name (concat (map (\<lambda>it. case it of IConcept c \<Rightarrow> [c] | _ \<Rightarrow> []) its))) + mset (map c_name (group_concepts its))" for its
    by (induction its) (auto simp: iter_all_concepts_def group_concepts_def split: item.split)
  then show ?thesis by (simp add: concepts_of_def top_concepts_def)
qed

text \<open>The names of all concepts are distinct from each other and from the built-in ones.\<close>

lemma concept_names_none:
  "reserved_errors p = [] \<and> group_errors p = [] \<and> distinct (map c_name (top_concepts p))
   \<longleftrightarrow> distinct (map c_name (concepts_of p) @ builtin_names p)"
proof -
  have r: "reserved_errors p = [] \<longleftrightarrow> set (map c_name (top_concepts p)) \<inter> set (builtin_names p) = {}"
  proof -
    have "filter (\<lambda>c. f c = a \<or> f c = b) xs = [] \<longleftrightarrow> set (map f xs) \<inter> set [a, b] = {}" for f :: "concept \<Rightarrow> string" and a b xs
      by (induction xs) auto
    then show ?thesis by (simp only: reserved_errors_def builtin_names_def map_is_Nil_conv list.set(1) Int_empty_right simp_thms if_True if_False split: if_split) blast
  qed
  have m: "mset (map c_name (concepts_of p)) = mset (map c_name (top_concepts p) @ map c_name (group_concepts (p_items p)))"
    by (simp only: concepts_split mset_append)
  note d = mset_eq_imp_distinct_iff [OF m]
  have s: "set (map c_name (concepts_of p)) = set (map c_name (top_concepts p)) \<union> set (map c_name (group_concepts (p_items p)))"
    using mset_eq_setD [OF m] by (simp only: set_append)
  have b: "distinct (builtin_names p)" by (simp add: builtin_names_def)
  have "xs \<inter> ns = {} \<and> (y \<and> ys \<inter> (xs \<union> ns) = {}) \<and> x \<longleftrightarrow> (x \<and> y \<and> xs \<inter> ys = {}) \<and> True \<and> (xs \<union> ys) \<inter> ns = {}"
    for xs ns ys :: "string set" and x y by auto
  then show ?thesis unfolding r group_errors_def group_pass_none distinct_append d s set_append using b by simp
qed

lemma primitive_none: "primitive_errors p = [] \<longleftrightarrow> set (map r_name (rules_of p)) \<inter> set primitive_call_names = {}"
  by (auto simp: primitive_errors_def filter_empty_conv)

lemma handles_none:
  "resource_pass [] rs = [] \<and> connection_pass rs [] cs = [] \<and> entropy_pass rs cs [] es = [] \<longleftrightarrow> distinct (rs @ cs @ es)"
  unfolding resource_pass_none connection_pass_none entropy_pass_none by auto

lemma name_errors_none:
  "name_errors p = [] \<longleftrightarrow>
     distinct (map r_name (rules_of p)) \<and> set (map r_name (rules_of p)) \<inter> set primitive_call_names = {}
     \<and> distinct (map c_name (concepts_of p) @ builtin_names p)
     \<and> (\<forall>k \<in> {''reaction'', ''service'', ''concept_group''}. distinct (names_of_kind k (p_items p)))
     \<and> distinct (resource_names p @ connection_names p @ entropy_names p)"
  unfolding name_errors_def append_is_Nil_conv primitive_none duplicate_none handles_none [symmetric] concept_names_none [symmetric]
  by (simp only: ball_simps kind_lists) blast

end
