(* ===== verification/Source_Properties.thy ===== *)
theory Source_Properties
  imports Parser_Typed Verifier_Names Text_Soundness
begin

text \<open>
  From the text of a source file to its contracts: a program that the front end returns and whose names are accepted meets the
  assumptions under which the two contract checkers are sound.
\<close>

section \<open>What an accepted program does\<close>

lemma contracted_rule_runs:
  assumes "numeric_verify p = []" "program_ok p" "runs_program cx p"
    and "r \<in> set (rules_of p)" "overflow_of r = Some h"
    and "c \<in> set (concepts_of p)" "r_input_ty r = TNamed (c_name c)" "input_ok c fs"
  shows "\<exists>n d. o_min h \<le> n \<and> n \<le> o_max h \<and> (\<forall>f \<ge> d. \<forall>w. eval_rule cx f r fs w = Inr (VNumber n, w))"
proof -
  obtain nv where nv: "rule_sound cx (check_new p) r nv"
    using numeric_verify_rule [OF assms(1-4) overflow_rule_active [OF assms(4,5)]] by blast
  then have "nv = NNumber (mk_interval (o_min h) (o_max h))" using assms(5) by (simp add: rule_sound_def)
  with nv admissibleI [OF assms(2,6,7,8)] obtain v where "nv_has (NNumber (mk_interval (o_min h) (o_max h))) v"
    "rule_evals cx r fs v" unfolding rule_sound_def by blast
  then obtain n where "o_min h \<le> n" "n \<le> o_max h" "rule_evals cx r fs (VNumber n)" by auto
  then show ?thesis by (auto simp: rule_evals_eval_rule)
qed

lemma bounded_rule_runs:
  assumes "verify_mode p native = []" "text_program_ok p native"
    and "i_rules cx = rules_of p" "i_concepts cx = text_concepts p"
    and "r \<in> set (rules_of p)" "r_output_text_max r = Some mx"
    and "c \<in> set (text_concepts p)" "r_input_ty r = TNamed (c_name c)" "input_ok c fs"
  shows "\<exists>s d. length s \<le> mx \<and> (\<forall>f \<ge> d. \<forall>w. eval_rule cx f r fs w = Inr (VText s, w))"
proof -
  have "r_name r \<in> text_participating (rules_of p)"
    by (rule text_scope.seed_in_part) (use assms(5,6) in auto)
  from verify_mode_rule [OF assms(1-5) this]
  obtain v where v: "text_rule_sound cx (text_new p native (text_concepts p)) r v" by blast
  with text_admissibleI [OF assms(2,7-9)] obtain x where
    "tv_has (text_new p native (text_concepts p)) (XText (Some mx)) x" "rule_evals cx r fs x"
    using assms(6) unfolding text_rule_sound_def by auto
  then obtain s where "length s \<le> mx" "rule_evals cx r fs (VText s)" by auto
  then show ?thesis by (auto simp: rule_evals_eval_rule)
qed

section \<open>Accepted names\<close>

text \<open>
  C36. The name checks accept a program if and only if its rules have distinct names that no primitive has, its concepts, those of
  groups and the built-in HTTP ones included, have distinct names, its reactions, services and groups have distinct names each,
  and no two resources, connections or entropy sources share a name.
\<close>

theorem names_accepted_iff:
  "name_errors p = [] \<longleftrightarrow>
     distinct (map r_name (rules_of p)) \<and> set (map r_name (rules_of p)) \<inter> set primitive_call_names = {}
     \<and> distinct (map c_name (concepts_of p) @ builtin_names p)
     \<and> distinct (names_of_kind ''reaction'' (p_items p)) \<and> distinct (names_of_kind ''service'' (p_items p))
     \<and> distinct (names_of_kind ''concept_group'' (p_items p))
     \<and> distinct (resource_names p @ connection_names p @ entropy_names p)"
  unfolding name_errors_none by (simp only: ball_simps simp_thms conj_assoc)

section \<open>The assumptions of the checkers\<close>

lemma rules_wf: "list_all item_wf (p_items p) \<Longrightarrow> list_all rule_wf (rules_of p)"
  by (auto simp: rules_of_def list_all_iff item_wf_def split: item.splits)

lemma concepts_wf: "list_all item_wf (p_items p) \<Longrightarrow> list_all concept_wf (concepts_of p)"
  by (auto simp: concepts_of_def iter_all_concepts_def list_all_iff item_wf_def split: item.splits)

lemma concept_wf_i64: "concept_wf c \<Longrightarrow> concept_i64 c"
  by (auto simp: concept_wf_def concept_i64_def range_wf_def)

lemma source_program_ok:
  assumes "front_end src = Inr p" "name_errors p = []"
  shows "program_ok p"
  using rules_wf [OF front_end_wf [OF assms(1)]] concepts_wf [OF front_end_wf [OF assms(1)]] assms(2)
  unfolding name_errors_none program_ok_def by (auto simp: list_all_iff rule_wf_def concept_wf_i64)

lemma http_body_small:
  assumes "list_all item_wf (p_items p)" "http_body_max p = Some mx"
  shows "0 \<le> mx \<and> mx \<le> 4294967295" "any_http10 p"
proof -
  let ?ms = "concat (map (\<lambda>it. case it of IService s \<Rightarrow> if s_protocol s = Http10 then [int (s_max_request s)] else [] | _ \<Rightarrow> []) (p_items p))"
  have ms: "?ms \<noteq> []" "mx = foldr max ?ms 0" using assms(2) by (simp_all add: http_body_max_def Let_def split: if_split_asm)
  have "\<forall>m \<in> set ?ms. m \<le> 4294967295"
    using assms(1) by (force simp: list_all_iff item_wf_def service_wf_def split: item.splits if_splits)
  moreover have "0 \<le> foldr max ms 0 \<and> foldr max ms 0 \<le> 4294967295" if "\<forall>m \<in> set ms. m \<le> 4294967295" for ms :: "int list"
    using that by (induction ms) auto
  ultimately have "0 \<le> foldr max ?ms 0 \<and> foldr max ?ms 0 \<le> 4294967295" by blast
  with ms show "0 \<le> mx \<and> mx \<le> 4294967295" by simp
  from ms(1) show "any_http10 p" unfolding any_http10_def list_ex_iff by (auto split: item.splits if_splits)
qed

lemma source_text_program_ok:
  assumes "front_end src = Inr p" "name_errors p = []"
  shows "text_program_ok p True"
proof -
  note wf = front_end_wf [OF assms(1)]
  have n: "distinct (map r_name (rules_of p))" "distinct (map c_name (concepts_of p) @ builtin_names p)"
    using assms(2) unfolding name_errors_none by auto
  have c: "list_all concept_i64 (concepts_of p)" using concepts_wf [OF wf] by (auto simp: list_all_iff concept_wf_i64)
  have "distinct (map c_name (text_concepts p)) \<and> list_all concept_i64 (text_concepts p)"
  proof (cases "http_body_max p")
    case (Some mx)
    from http_body_small [OF wf Some] n(2) c show ?thesis
      by (simp add: text_concepts_def Some builtin_names_def builtin_http_request_def builtin_http_response_def concept_i64_def in_i64_def)
  qed (use n(2) c in \<open>simp add: text_concepts_def\<close>)
  with n(1) rules_wf [OF wf] show ?thesis by (auto simp: text_program_ok_def list_all_iff rule_wf_def)
qed

section \<open>A source file\<close>

definition sample_source :: "byte list" where
  "sample_source = ''@verbose 0.1.0'' @ [CHR 0x0A] @ ''concept C'' @ [CHR 0x0A] @ '' @intention: '' @ [CHR 0x22] @ ''c'' @
     [CHR 0x22] @ [CHR 0x0A] @ '' @source: s:1'' @ [CHR 0x0A] @ '' fields:'' @ [CHR 0x0A] @ ''  n : number [0, 9]'' @
     [CHR 0x0A] @ ''rule r'' @ [CHR 0x0A] @ '' @intention: '' @ [CHR 0x22] @ ''r'' @ [CHR 0x22] @ [CHR 0x0A] @
     '' @source: s:2'' @ [CHR 0x0A] @ '' input:'' @ [CHR 0x0A] @ ''  x : C'' @ [CHR 0x0A] @ '' output:'' @ [CHR 0x0A] @
     ''  y : number'' @ [CHR 0x0A] @ '' logic:'' @ [CHR 0x0A] @ ''  y = x.n + 1'' @ [CHR 0x0A] @ '' proofs:'' @ [CHR 0x0A] @
     ''  purity:'' @ [CHR 0x0A] @ ''   reads: []'' @ [CHR 0x0A] @ ''   calls: []'' @ [CHR 0x0A] @ ''  termination:'' @
     [CHR 0x0A] @ ''   bound: 1'' @ [CHR 0x0A] @ '' hints:'' @ [CHR 0x0A] @ ''  overflow: [1, 10]'' @ [CHR 0x0A]"

definition source_concept :: concept where
  "source_concept = \<lparr>c_name = ''C'', c_intention = ''c'', c_source = \<lparr>src_file = ''s'', src_line = 1\<rparr>,
     c_fields = [\<lparr>f_name = ''n'', f_ty = TNumber, f_range = Some (0, 9)\<rparr>], c_variants = []\<rparr>"

definition source_rule :: rule where
  "source_rule = \<lparr>r_name = ''r'', r_intention = ''r'', r_source = \<lparr>src_file = ''s'', src_line = 2\<rparr>,
     r_input_name = ''x'',
     r_input_ty = TNamed ''C'', r_output_name = ''y'', r_output_ty = TNumber, r_output_text_max = None,
     r_logic = \<lparr>l_bindings = [], l_target = ''y'', l_value = EBinary OpAdd (EField (EIdent ''x'') ''n'') (ENumber 1)\<rparr>,
     r_proofs = \<lparr>pr_purity = \<lparr>reads = [], calls_decl = []\<rparr>,
       pr_termination = \<lparr>t_bound = Some 1, t_structural = None, t_decreasing = None, t_increasing = None\<rparr>,
     pr_native_stack = None\<rparr>,
     r_hints = Some \<lparr>h_vectorizable = None, h_parallel = None, h_cache_result = None, h_overflow = Some \<lparr>o_min = 1,
     o_max = 10\<rparr>\<rparr>,
     r_layer = None, r_context_name = None, r_context_ty = None\<rparr>"

definition source_program :: program where
  "source_program = \<lparr>p_version = \<lparr>major = 0, minor = 1, patch = 0\<rparr>, p_uses = [],
     p_items = [IConcept source_concept, IRule source_rule]\<rparr>"

definition source_kinds :: "token_kind list" where
  "source_kinds = [Attribute ''verbose'', Number 0, Dot, Number 1, Dot, Number 0, Newline, Ident ''concept'', Ident ''C'',
     Newline, Indent, Attribute ''intention'', Colon, StringLit ''c'', Newline, Attribute ''source'', Colon, Ident ''s'', Colon,
     Number 1, Newline, Ident ''fields'', Colon, Newline, Indent, Ident ''n'', Colon, Ident ''number'', LBracket, Number 0,
     Comma, Number 9, RBracket, Newline, Dedent, Dedent, Ident ''rule'', Ident ''r'', Newline, Indent, Attribute ''intention'',
     Colon, StringLit ''r'', Newline, Attribute ''source'', Colon, Ident ''s'', Colon, Number 2, Newline, Ident ''input'',
     Colon, Newline, Indent, Ident ''x'', Colon, Ident ''C'', Newline, Dedent, Ident ''output'', Colon, Newline, Indent,
     Ident ''y'', Colon, Ident ''number'', Newline, Dedent, Ident ''logic'', Colon, Newline, Indent, Ident ''y'', Equal,
     Ident ''x'', Dot, Ident ''n'', Plus, Number 1, Newline, Dedent, Ident ''proofs'', Colon, Newline, Indent, Ident ''purity'',
     Colon, Newline, Indent, Ident ''reads'', Colon, LBracket, RBracket, Newline, Ident ''calls'', Colon, LBracket, RBracket,
     Newline, Dedent, Ident ''termination'', Colon, Newline, Indent, Ident ''bound'', Colon, Number 1, Newline, Dedent, Dedent,
     Ident ''hints'', Colon, Newline, Indent, Ident ''overflow'', Colon, LBracket, Number 1, Comma, Number 10, RBracket,
     Newline, Dedent, Dedent, Eof]"

text \<open>The lexer and the parser are evaluated one after the other, on the kinds of the tokens only.\<close>

definition bare :: "token_kind list \<Rightarrow> token list" where
  "bare ks = map (\<lambda>k. \<lparr>tk_kind = k, tk_line = 0, tk_col = 0\<rparr>) ks"

lemma front_endI:
  assumes "case tokenize src of Inr ts \<Rightarrow> map tk_kind ts = ks | _ \<Rightarrow> False" "parse_program (bare ks) = Inr p"
  shows "front_end src = Inr p"
proof -
  obtain ts where ts: "tokenize src = Inr ts" "kinds_of ts = ks" using assms(1) by (cases "tokenize src") auto
  have k: "kinds_of ts = kinds_of (bare ks)" by (simp add: bare_def ts(2) o_def)
  then have l: "length (bare ks) = length ts" by (metis length_map)
  from program_outcome [OF tokenize_ready [OF ts(1)] k lessI lessI] have "parse_program ts = Inr p"
    by (cases rule: outcomeE) (use assms(2) l in \<open>auto simp: parse_program_def\<close>)
  with ts(1) show ?thesis by (simp add: front_end_def)
qed

lemma source_scanned: "case tokenize sample_source of Inr ts \<Rightarrow> map tk_kind ts = source_kinds | _ \<Rightarrow> False"
  by code_simp

lemma source_parsed: "parse_program (bare source_kinds) = Inr source_program"
  by code_simp

lemmas source_read = front_endI [OF source_scanned source_parsed]

lemma source_checked: "name_errors source_program = []" "numeric_verify source_program = []"
  by code_simp+

text \<open>
  C37. From the source file to the overflow contract: a rule with an overflow bound in a file that the front end, the name checks and the
  strict overflow checker accept evaluates to a number within the bound, on every record that meets its entry guard and for
  every sufficiently large call depth.
\<close>

theorem source_overflow_contract:
  assumes "front_end src = Inr p" "name_errors p = []" "numeric_verify p = []" "runs_program cx p"
    and "r \<in> set (rules_of p)" "overflow_of r = Some h"
    and "c \<in> set (concepts_of p)" "r_input_ty r = TNamed (c_name c)" "input_ok c fs"
  shows "\<exists>n d. o_min h \<le> n \<and> n \<le> o_max h \<and> (\<forall>f \<ge> d. \<forall>w. eval_rule cx f r fs w = Inr (VNumber n, w))"
  by (rule contracted_rule_runs [OF assms(3) source_program_ok [OF assms(1,2)] assms(4-9)])

theorem source_overflow_contract_witness:
  "\<exists>n d. 1 \<le> n \<and> n \<le> 10 \<and> (\<forall>f \<ge> d. \<forall>w.
     eval_rule \<lparr>i_chk = True, i_host = \<lparr>h_now = (\<lambda>w :: unit. (0, w)), h_urandom = (\<lambda>_ w. (None, w))\<rparr>,
       i_rules = rules_of source_program, i_concepts = concepts_of source_program, i_entropies = []\<rparr> f source_rule [(''n'', VNumber 9)] w
     = Inr (VNumber n, w))"
  using source_overflow_contract [OF source_read source_checked, of
      "\<lparr>i_chk = True, i_host = \<lparr>h_now = (\<lambda>w :: unit. (0, w)), h_urandom = (\<lambda>_ w. (None, w))\<rparr>,
        i_rules = rules_of source_program, i_concepts = concepts_of source_program, i_entropies = []\<rparr>"
      source_rule "\<lparr>o_min = 1, o_max = 10\<rparr>" source_concept "[(''n'', VNumber 9)]"]
  by (simp add: runs_program_def source_program_def rules_of_def concepts_of_def iter_all_concepts_def source_rule_def overflow_of_def
      source_concept_def input_ok_def field_ok_def in_i64_def)

text \<open>A second file, with a bounded text.\<close>

definition text_source :: "byte list" where
  "text_source = ''@verbose 0.1.0'' @ [CHR 0x0A] @ ''concept C'' @ [CHR 0x0A] @ '' @intention: '' @ [CHR 0x22] @ ''c'' @
     [CHR 0x22] @ [CHR 0x0A] @ '' @source: s:1'' @ [CHR 0x0A] @ '' fields:'' @ [CHR 0x0A] @ ''  n : number [0, 9]'' @
     [CHR 0x0A] @ ''rule t'' @ [CHR 0x0A] @ '' @intention: '' @ [CHR 0x22] @ ''t'' @ [CHR 0x22] @ [CHR 0x0A] @
     '' @source: s:2'' @ [CHR 0x0A] @ '' input:'' @ [CHR 0x0A] @ ''  x : C'' @ [CHR 0x0A] @ '' output:'' @ [CHR 0x0A] @
     ''  y : text [..30]'' @ [CHR 0x0A] @ '' logic:'' @ [CHR 0x0A] @ ''  y = concat('' @ [CHR 0x22] @ ''n'' @ [CHR 0x22] @
     '', x.n)'' @ [CHR 0x0A] @ '' proofs:'' @ [CHR 0x0A] @ ''  purity:'' @ [CHR 0x0A] @ ''   reads: []'' @ [CHR 0x0A] @
     ''   calls: []'' @ [CHR 0x0A] @ ''  termination:'' @ [CHR 0x0A] @ ''   bound: 1'' @ [CHR 0x0A]"

definition source_text_rule :: rule where
  "source_text_rule = source_rule
     \<lparr>r_name := ''t'', r_intention := ''t'', r_source := \<lparr>src_file = ''s'', src_line = 2\<rparr>, r_output_ty := TText,
      r_output_text_max := Some 30, r_hints := None,
      r_logic := \<lparr>l_bindings = [], l_target = ''y'', l_value = EConcat [EText ''n'', EField (EIdent ''x'') ''n'']\<rparr>\<rparr>"

definition text_program :: program where
  "text_program = \<lparr>p_version = \<lparr>major = 0, minor = 1, patch = 0\<rparr>, p_uses = [],
     p_items = [IConcept source_concept, IRule source_text_rule]\<rparr>"

definition text_kinds :: "token_kind list" where
  "text_kinds = [Attribute ''verbose'', Number 0, Dot, Number 1, Dot, Number 0, Newline, Ident ''concept'', Ident ''C'',
     Newline, Indent, Attribute ''intention'', Colon, StringLit ''c'', Newline, Attribute ''source'', Colon, Ident ''s'', Colon,
     Number 1, Newline, Ident ''fields'', Colon, Newline, Indent, Ident ''n'', Colon, Ident ''number'', LBracket, Number 0,
     Comma, Number 9, RBracket, Newline, Dedent, Dedent, Ident ''rule'', Ident ''t'', Newline, Indent, Attribute ''intention'',
     Colon, StringLit ''t'', Newline, Attribute ''source'', Colon, Ident ''s'', Colon, Number 2, Newline, Ident ''input'',
     Colon, Newline, Indent, Ident ''x'', Colon, Ident ''C'', Newline, Dedent, Ident ''output'', Colon, Newline, Indent,
     Ident ''y'', Colon, Ident ''text'', LBracket, Dot, Dot, Number 30, RBracket, Newline, Dedent, Ident ''logic'', Colon,
     Newline, Indent, Ident ''y'', Equal, Ident ''concat'', LParen, StringLit ''n'', Comma, Ident ''x'', Dot, Ident ''n'',
     RParen, Newline, Dedent, Ident ''proofs'', Colon, Newline, Indent, Ident ''purity'', Colon, Newline, Indent,
     Ident ''reads'', Colon, LBracket, RBracket, Newline, Ident ''calls'', Colon, LBracket, RBracket, Newline, Dedent,
     Ident ''termination'', Colon, Newline, Indent, Ident ''bound'', Colon, Number 1, Newline, Dedent, Dedent, Dedent, Eof]"

lemma text_scanned: "case tokenize text_source of Inr ts \<Rightarrow> map tk_kind ts = text_kinds | _ \<Rightarrow> False"
  by code_simp

lemma text_parsed: "parse_program (bare text_kinds) = Inr text_program"
  by code_simp

lemmas text_read = front_endI [OF text_scanned text_parsed]

lemma text_checked: "name_errors text_program = []" "verify_mode text_program True = []"
  by code_simp+

text \<open>
  C38. From the source file to the capacity of a text: a rule with output \<open>text [..N]\<close> in a file that the front end, the name checks
  and the bounded text checker with the gate of the native backend accept evaluates to a text of at most \<open>N\<close> bytes, on every record
  that meets its entry guard and for every sufficiently large call depth.
\<close>

theorem source_text_contract:
  assumes "front_end src = Inr p" "name_errors p = []" "verify_mode p True = []"
    and "i_rules cx = rules_of p" "i_concepts cx = text_concepts p"
    and "r \<in> set (rules_of p)" "r_output_text_max r = Some mx"
    and "c \<in> set (text_concepts p)" "r_input_ty r = TNamed (c_name c)" "input_ok c fs"
  shows "\<exists>s d. length s \<le> mx \<and> (\<forall>f \<ge> d. \<forall>w. eval_rule cx f r fs w = Inr (VText s, w))"
  by (rule bounded_rule_runs [OF assms(3) source_text_program_ok [OF assms(1,2)] assms(4-10)])

theorem source_text_contract_witness:
  "\<exists>s d. length s \<le> 30 \<and> (\<forall>f \<ge> d. \<forall>w.
     eval_rule \<lparr>i_chk = True, i_host = \<lparr>h_now = (\<lambda>w :: unit. (0, w)), h_urandom = (\<lambda>_ w. (None, w))\<rparr>,
       i_rules = rules_of text_program, i_concepts = text_concepts text_program, i_entropies = []\<rparr> f source_text_rule [(''n'', VNumber 9)] w
     = Inr (VText s, w))"
  using source_text_contract [OF text_read text_checked, of
      "\<lparr>i_chk = True, i_host = \<lparr>h_now = (\<lambda>w :: unit. (0, w)), h_urandom = (\<lambda>_ w. (None, w))\<rparr>,
        i_rules = rules_of text_program, i_concepts = text_concepts text_program, i_entropies = []\<rparr>"
      source_text_rule 30 source_concept "[(''n'', VNumber 9)]"]
  by (simp add: text_concepts_def http_body_max_def text_program_def rules_of_def concepts_of_def iter_all_concepts_def
      source_text_rule_def source_rule_def source_concept_def input_ok_def field_ok_def in_i64_def)

end
