(* ===== verification/Optimizer.thy ===== *)
theory Optimizer
  imports Interpreter Cached_Analysis "HOL-Library.List_Lexorder" "HOL-Library.Char_ord"
begin

text \<open>
  The platform-independent optimizer (\<open>src/src/optimizer.rs\<close>) and the range analysis it uses
  (\<open>compute_range\<close> of \<open>src/src/verifier.rs\<close>): inlining of text-literal bindings, constant folding, algebraic
  identities and branches decided by the declared ranges of the input's fields. A \<open>HashMap\<close> of
  field ranges is a partial map.
\<close>

section \<open>Size\<close>

function count_nodes :: "expr \<Rightarrow> nat" where
  "count_nodes e = 1 + sum_list (map count_nodes (expr_children e))"
  by pat_completeness auto
termination by (relation "measure size") (auto simp: size_child)

declare count_nodes.simps [simp del]

section \<open>Substitution\<close>

fun substitute_ident :: "expr \<Rightarrow> string \<Rightarrow> expr \<Rightarrow> expr" where
  "substitute_ident (EIdent n) name rep = (if n = name then rep else EIdent n)"
| "substitute_ident (ENumber n) name rep = ENumber n"
| "substitute_ident (EText s) name rep = EText s"
| "substitute_ident (EBytes b) name rep = EBytes b"
| "substitute_ident (EField base f) name rep = EField (substitute_ident base name rep) f"
| "substitute_ident (EBinary op l r) name rep = EBinary op (substitute_ident l name rep) (substitute_ident r name rep)"
| "substitute_ident (ENot e) name rep = ENot (substitute_ident e name rep)"
| "substitute_ident (ENeg e) name rep = ENeg (substitute_ident e name rep)"
| "substitute_ident (ECall f args) name rep = ECall f (map (\<lambda>a. substitute_ident a name rep) args)"
| "substitute_ident (EIf c t e) name rep =
     EIf (substitute_ident c name rep) (substitute_ident t name rep) (substitute_ident e name rep)"
| "substitute_ident (EQuantifier k target var body) name rep =
     EQuantifier k (substitute_ident target name rep) var (if var = name then body else substitute_ident body name rep)"
| "substitute_ident (EFold target init acc var body) name rep =
     EFold (substitute_ident target name rep) (substitute_ident init name rep) acc var
       (if acc = name \<or> var = name then body else substitute_ident body name rep)"
| "substitute_ident (EMap target var body) name rep =
     EMap (substitute_ident target name rep) var (if var = name then body else substitute_ident body name rep)"
| "substitute_ident (EFilter target var body) name rep =
     EFilter (substitute_ident target name rep) var (if var = name then body else substitute_ident body name rep)"
| "substitute_ident (EOk e) name rep = EOk (substitute_ident e name rep)"
| "substitute_ident (EErr e) name rep = EErr (substitute_ident e name rep)"
| "substitute_ident (EMatchResult target okv okb errv errb) name rep =
     EMatchResult (substitute_ident target name rep)
       okv (if okv = name then okb else substitute_ident okb name rep)
       errv (if errv = name then errb else substitute_ident errb name rep)"
| "substitute_ident (ERecord c flds) name rep = ERecord c (map (\<lambda>(n, v). (n, substitute_ident v name rep)) flds)"
| "substitute_ident (EConcat args) name rep = EConcat (map (\<lambda>a. substitute_ident a name rep) args)"
| "substitute_ident (ERead n) name rep = ERead n"
| "substitute_ident (ERandom n) name rep = ERandom n"
| "substitute_ident (EFetch n req) name rep = EFetch n (substitute_ident req name rep)"
| "substitute_ident (EJsonEscape e) name rep = EJsonEscape (substitute_ident e name rep)"
| "substitute_ident (EParseInt e) name rep = EParseInt (substitute_ident e name rep)"
| "substitute_ident ENowUnix name rep = ENowUnix"
| "substitute_ident (EStartsWith h n) name rep = EStartsWith (substitute_ident h name rep) (substitute_ident n name rep)"
| "substitute_ident (EContains h n) name rep = EContains (substitute_ident h name rep) (substitute_ident n name rep)"
| "substitute_ident (EEndsWith h n) name rep = EEndsWith (substitute_ident h name rep) (substitute_ident n name rep)"
| "substitute_ident (ELength e) name rep = ELength (substitute_ident e name rep)"
| "substitute_ident (EAbs e) name rep = EAbs (substitute_ident e name rep)"
| "substitute_ident (ELe32 e) name rep = ELe32 (substitute_ident e name rep)"
| "substitute_ident (ELe64 e) name rep = ELe64 (substitute_ident e name rep)"
| "substitute_ident (EArenaScope e) name rep = EArenaScope (substitute_ident e name rep)"
| "substitute_ident (EAbortIf e) name rep = EAbortIf (substitute_ident e name rep)"
| "substitute_ident (EMin l r) name rep = EMin (substitute_ident l name rep) (substitute_ident r name rep)"
| "substitute_ident (EMax l r) name rep = EMax (substitute_ident l name rep) (substitute_ident r name rep)"
| "substitute_ident (ESubstring t s e) name rep =
     ESubstring (substitute_ident t name rep) (substitute_ident s name rep) (substitute_ident e name rep)"
| "substitute_ident (ETryByteAt t i) name rep = ETryByteAt (substitute_ident t name rep) (substitute_ident i name rep)"
| "substitute_ident (EByteAt t i) name rep = EByteAt (substitute_ident t name rep) (substitute_ident i name rep)"
| "substitute_ident (EFoldBytes t init acc byt idx body) name rep =
     EFoldBytes (substitute_ident t name rep) (substitute_ident init name rep) acc byt idx
       (if acc = name \<or> byt = name \<or> idx = name then body else substitute_ident body name rep)"
| "substitute_ident (EVariantConstruct c v flds) name rep =
     EVariantConstruct c v (map (\<lambda>(n, v). (n, substitute_ident v name rep)) flds)"
| "substitute_ident (EMatchVariant scrut arms) name rep =
     EMatchVariant (substitute_ident scrut name rep)
       (map (\<lambda>a. MatchArm (arm_variant a) (arm_binders a)
          (if Some name \<in> set (arm_binders a) then arm_body a else substitute_ident (arm_body a) name rep)) arms)"
| "substitute_ident (EBitAnd a b) name rep = EBitAnd (substitute_ident a name rep) (substitute_ident b name rep)"
| "substitute_ident (EBitOr a b) name rep = EBitOr (substitute_ident a name rep) (substitute_ident b name rep)"
| "substitute_ident (EBitXor a b) name rep = EBitXor (substitute_ident a name rep) (substitute_ident b name rep)"
| "substitute_ident (EBitNot e) name rep = EBitNot (substitute_ident e name rep)"
| "substitute_ident (EShl a b) name rep = EShl (substitute_ident a name rep) (substitute_ident b name rep)"
| "substitute_ident (EShr a b) name rep = EShr (substitute_ident a name rep) (substitute_ident b name rep)"

text \<open>\<open>inline_text_literal_lets\<close>: the substitutions in force, oldest first, are applied in turn.\<close>

definition substitute_all :: "expr \<Rightarrow> (string \<times> expr) list \<Rightarrow> expr" where
  "substitute_all e subs = foldl (\<lambda>acc (n, r). substitute_ident acc n r) e subs"

fun inline_lets :: "(string \<times> expr) list \<Rightarrow> (string \<times> expr) list \<Rightarrow> (string \<times> expr) list \<times> (string \<times> expr) list" where
  "inline_lets [] subs = ([], subs)"
| "inline_lets ((name, e) # bs) subs =
     (let e' = substitute_all e subs; subs' = filter (\<lambda>(n, _). n \<noteq> name) subs in
      case e' of
        EText _ \<Rightarrow> inline_lets bs (subs' @ [(name, e')])
      | _ \<Rightarrow> (case inline_lets bs subs' of (kept, out) \<Rightarrow> ((name, e') # kept, out)))"

definition inline_text_literal_lets :: "(string \<times> expr) list \<Rightarrow> expr \<Rightarrow> (string \<times> expr) list \<times> expr" where
  "inline_text_literal_lets bs logic =
     (case inline_lets bs [] of (kept, subs) \<Rightarrow> (kept, substitute_all logic subs))"

section \<open>Ranges\<close>

type_synonym field_ranges = "string \<rightharpoonup> int \<times> int"

text \<open>\<open>checked_add\<close>, \<open>checked_sub\<close>, \<open>checked_mul\<close> and \<open>checked_div\<close> of \<open>i64\<close>.\<close>

definition checked :: "int \<Rightarrow> int option" where
  "checked n = (if in_i64 n then Some n else None)"

definition checked_div :: "int \<Rightarrow> int \<Rightarrow> int option" where
  "checked_div a b = (if b = 0 then None else checked (a sdiv b))"

text \<open>The least and greatest of four checked results, when all of them exist.\<close>

definition four_corners :: "int option \<Rightarrow> int option \<Rightarrow> int option \<Rightarrow> int option \<Rightarrow> (int \<times> int) option" where
  "four_corners a b c d =
     (case (a, b, c, d) of
        (Some a, Some b, Some c, Some d) \<Rightarrow> Some (min (min a b) (min c d), max (max a b) (max c d))
      | _ \<Rightarrow> None)"

definition pair_opt :: "'a option \<Rightarrow> 'b option \<Rightarrow> ('a \<times> 'b) option" where
  "pair_opt a b = (case a of None \<Rightarrow> None | Some x \<Rightarrow> (case b of None \<Rightarrow> None | Some y \<Rightarrow> Some (x, y)))"

definition binary_range :: "binop \<Rightarrow> int \<times> int \<Rightarrow> int \<times> int \<Rightarrow> (int \<times> int) option" where
  "binary_range op l r =
     (case (l, r) of ((l_min, l_max), (r_min, r_max)) \<Rightarrow>
        (case op of
           OpAdd \<Rightarrow> pair_opt (checked (l_min + r_min)) (checked (l_max + r_max))
         | OpSub \<Rightarrow> pair_opt (checked (l_min - r_max)) (checked (l_max - r_min))
         | OpMul \<Rightarrow> four_corners (checked (l_min * r_min)) (checked (l_min * r_max)) (checked (l_max * r_min)) (checked (l_max * r_max))
         | OpMod \<Rightarrow>
             if (r_min \<le> 0 \<and> r_max \<ge> 0) \<or> (l_min = i64_MIN \<and> r_min \<le> - 1 \<and> r_max \<ge> - 1) then None
             else let limit = max \<bar>r_min\<bar> \<bar>r_max\<bar> - 1 in
               Some (max (min l_min 0) (- limit), min (max l_max 0) limit)
         | OpDiv \<Rightarrow>
             if r_min \<le> 0 \<and> r_max \<ge> 0 then None
             else four_corners (checked_div l_min r_min) (checked_div l_min r_max) (checked_div l_max r_min) (checked_div l_max r_max)
         | _ \<Rightarrow> None))"

fun compute_range :: "expr \<Rightarrow> field_ranges \<Rightarrow> string \<Rightarrow> (int \<times> int) option" where
  "compute_range (ENumber n) fr input = Some (n, n)"
| "compute_range (EField base f) fr input =
     (case base of EIdent n \<Rightarrow> if n = input then fr f else None | _ \<Rightarrow> None)"
| "compute_range (EBinary op l r) fr input =
     (case compute_range l fr input of None \<Rightarrow> None
      | Some lr \<Rightarrow> (case compute_range r fr input of None \<Rightarrow> None | Some rr \<Rightarrow> binary_range op lr rr))"
| "compute_range (ENeg e) fr input =
     (case compute_range e fr input of None \<Rightarrow> None | Some (mn, mx) \<Rightarrow> pair_opt (checked_neg mx) (checked_neg mn))"
| "compute_range (EIf c t e) fr input =
     (case compute_range t fr input of None \<Rightarrow> None
      | Some (t_min, t_max) \<Rightarrow>
          (case compute_range e fr input of None \<Rightarrow> None
           | Some (e_min, e_max) \<Rightarrow> Some (min t_min e_min, max t_max e_max)))"
| "compute_range e fr input = None"

fun can_discard_scalar_eval :: "expr \<Rightarrow> string \<Rightarrow> field_ranges \<Rightarrow> bool" where
  "can_discard_scalar_eval (ENumber n) input fr = True"
| "can_discard_scalar_eval (EIdent n) input fr = True"
| "can_discard_scalar_eval (EField base f) input fr = (case base of EIdent _ \<Rightarrow> True | _ \<Rightarrow> False)"
| "can_discard_scalar_eval (EBinary op l r) input fr =
     (can_discard_scalar_eval l input fr \<and> can_discard_scalar_eval r input fr \<and>
      (op \<in> {OpAdd, OpSub, OpMul, OpDiv, OpMod} \<longrightarrow> compute_range (EBinary op l r) fr input \<noteq> None))"
| "can_discard_scalar_eval (ENeg e) input fr =
     (can_discard_scalar_eval e input fr \<and> compute_range (ENeg e) fr input \<noteq> None)"
| "can_discard_scalar_eval (ENot e) input fr = can_discard_scalar_eval e input fr"
| "can_discard_scalar_eval (EIf c t e) input fr =
     (can_discard_scalar_eval c input fr \<and> can_discard_scalar_eval t input fr \<and> can_discard_scalar_eval e input fr)"
| "can_discard_scalar_eval e input fr = False"

definition decide_ranges :: "binop \<Rightarrow> int \<times> int \<Rightarrow> int \<times> int \<Rightarrow> bool option" where
  "decide_ranges op l r =
     (case (l, r) of ((l_min, l_max), (r_min, r_max)) \<Rightarrow>
        (case op of
           OpGt \<Rightarrow> if l_min > r_max then Some True else if l_max \<le> r_min then Some False else None
         | OpLt \<Rightarrow> if l_max < r_min then Some True else if l_min \<ge> r_max then Some False else None
         | OpGtEq \<Rightarrow> if l_min \<ge> r_max then Some True else if l_max < r_min then Some False else None
         | OpLtEq \<Rightarrow> if l_max \<le> r_min then Some True else if l_min > r_max then Some False else None
         | _ \<Rightarrow> None))"

definition try_static_eval :: "expr \<Rightarrow> field_ranges \<Rightarrow> string \<Rightarrow> bool option" where
  "try_static_eval e fr input =
     (if \<not> can_discard_scalar_eval e input fr then None
      else case e of
        EBinary op l r \<Rightarrow>
          (case compute_range l fr input of None \<Rightarrow> None
           | Some lr \<Rightarrow> (case compute_range r fr input of None \<Rightarrow> None | Some rr \<Rightarrow> decide_ranges op lr rr))
      | _ \<Rightarrow> None)"

section \<open>Folding\<close>

definition bit :: "bool \<Rightarrow> expr" where
  "bit b = ENumber (if b then 1 else 0)"

text \<open>Both operands are number literals: a decided comparison is a number, a fallible operation stays when it fails.\<close>

definition fold_literals :: "binop \<Rightarrow> int \<Rightarrow> int \<Rightarrow> expr option" where
  "fold_literals op l r =
     (case op of
        OpAdd \<Rightarrow> Some (ENumber (wrap_i64 (l + r)))
      | OpSub \<Rightarrow> Some (ENumber (wrap_i64 (l - r)))
      | OpMul \<Rightarrow> Some (ENumber (wrap_i64 (l * r)))
      | OpDiv \<Rightarrow> map_option ENumber (checked_div l r)
      | OpMod \<Rightarrow> map_option ENumber (checked_rem l r)
      | OpGt \<Rightarrow> Some (bit (l > r))
      | OpLt \<Rightarrow> Some (bit (l < r))
      | OpGtEq \<Rightarrow> Some (bit (l \<ge> r))
      | OpLtEq \<Rightarrow> Some (bit (l \<le> r))
      | OpEq \<Rightarrow> Some (bit (l = r))
      | OpNotEq \<Rightarrow> Some (bit (l \<noteq> r))
      | _ \<Rightarrow> None)"

definition algebraic :: "binop \<Rightarrow> expr \<Rightarrow> expr \<Rightarrow> string \<Rightarrow> field_ranges \<Rightarrow> expr option" where
  "algebraic op l r input fr =
     (case op of
        OpAdd \<Rightarrow> if r = ENumber 0 then Some l else if l = ENumber 0 then Some r else None
      | OpSub \<Rightarrow> if r = ENumber 0 then Some l else None
      | OpMul \<Rightarrow>
          if (r = ENumber 0 \<and> can_discard_scalar_eval l input fr) \<or> (l = ENumber 0 \<and> can_discard_scalar_eval r input fr)
          then Some (ENumber 0)
          else if r = ENumber 1 then Some l else if l = ENumber 1 then Some r else None
      | OpDiv \<Rightarrow> if r = ENumber 1 then Some l else None
      | _ \<Rightarrow> None)"

definition opt_binary :: "binop \<Rightarrow> expr \<Rightarrow> expr \<Rightarrow> string \<Rightarrow> field_ranges \<Rightarrow> expr" where
  "opt_binary op l r input fr =
     (case (case (l, r) of (ENumber a, ENumber b) \<Rightarrow> fold_literals op a b | _ \<Rightarrow> None) of
        Some e \<Rightarrow> e
      | None \<Rightarrow> (case algebraic op l r input fr of Some e \<Rightarrow> e | None \<Rightarrow> EBinary op l r))"

definition opt_if :: "expr \<Rightarrow> expr \<Rightarrow> expr \<Rightarrow> string \<Rightarrow> field_ranges \<Rightarrow> expr" where
  "opt_if c t e input fr =
     (case try_static_eval c fr input of Some always \<Rightarrow> if always then t else e | None \<Rightarrow> EIf c t e)"

definition opt_not :: "expr \<Rightarrow> expr" where
  "opt_not e = (case e of ENot d \<Rightarrow> d | _ \<Rightarrow> ENot e)"

definition opt_neg :: "expr \<Rightarrow> expr" where
  "opt_neg e = (case e of ENeg d \<Rightarrow> d | ENumber n \<Rightarrow> ENumber (wrap_i64 (- n)) | _ \<Rightarrow> ENeg e)"

fun literal_texts :: "expr list \<Rightarrow> string option" where
  "literal_texts [] = Some []"
| "literal_texts (e # es) =
     (case e of
        EText s \<Rightarrow> map_option ((@) s) (literal_texts es)
      | ENumber n \<Rightarrow> map_option ((@) (show_int n)) (literal_texts es)
      | _ \<Rightarrow> None)"

definition opt_concat :: "expr list \<Rightarrow> expr" where
  "opt_concat args = (case literal_texts args of Some s \<Rightarrow> EText s | None \<Rightarrow> EConcat args)"

definition opt_json_escape :: "expr \<Rightarrow> expr" where
  "opt_json_escape e = (case e of EText s \<Rightarrow> EText (json_escape s) | _ \<Rightarrow> EJsonEscape e)"

definition opt_parse_int :: "expr \<Rightarrow> expr" where
  "opt_parse_int e =
     (case e of EText s \<Rightarrow> (case parse_i64 (trim s) of Some n \<Rightarrow> ENumber n | None \<Rightarrow> EParseInt e) | _ \<Rightarrow> EParseInt e)"

definition opt_text_test :: "(expr \<Rightarrow> expr \<Rightarrow> expr) \<Rightarrow> (string \<Rightarrow> string \<Rightarrow> bool) \<Rightarrow> expr \<Rightarrow> expr \<Rightarrow> expr" where
  "opt_text_test mk f h n = (case (h, n) of (EText a, EText b) \<Rightarrow> bit (f a b) | _ \<Rightarrow> mk h n)"

text \<open>\<open>s1.windows(n).any(|w| w == s2)\<close>, with the empty needle decided first.\<close>

definition windows_contain :: "string \<Rightarrow> string \<Rightarrow> bool" where
  "windows_contain s1 s2 \<longleftrightarrow> s2 = [] \<or>
     list_ex (\<lambda>i. take (length s2) (drop i s1) = s2) [0..<Suc (length s1) - length s2]"

definition ends_test :: "string \<Rightarrow> string \<Rightarrow> bool" where
  "ends_test s1 s2 \<longleftrightarrow> s2 = [] \<or> ends_with s1 s2"

definition opt_length :: "expr \<Rightarrow> expr" where
  "opt_length e = (case e of EText s \<Rightarrow> ENumber (int (length s)) | EBytes b \<Rightarrow> ENumber (int (length b)) | _ \<Rightarrow> ELength e)"

definition opt_abs :: "expr \<Rightarrow> expr" where
  "opt_abs e = (case e of ENumber n \<Rightarrow> ENumber (wrapping_abs n) | _ \<Rightarrow> EAbs e)"

definition opt_le :: "nat \<Rightarrow> (expr \<Rightarrow> expr) \<Rightarrow> expr \<Rightarrow> expr" where
  "opt_le width mk e = (case e of ENumber n \<Rightarrow> EBytes (le_bytes width n) | _ \<Rightarrow> mk e)"

definition opt_pair :: "(expr \<Rightarrow> expr \<Rightarrow> expr) \<Rightarrow> (int \<Rightarrow> int \<Rightarrow> int) \<Rightarrow> expr \<Rightarrow> expr \<Rightarrow> expr" where
  "opt_pair mk f l r = (case (l, r) of (ENumber a, ENumber b) \<Rightarrow> ENumber (f a b) | _ \<Rightarrow> mk l r)"

definition opt_substring :: "expr \<Rightarrow> expr \<Rightarrow> expr \<Rightarrow> expr" where
  "opt_substring t s e =
     (case (t, s, e) of
        (EText bytes, ENumber start, ENumber stop) \<Rightarrow>
          (let slice = take (nat stop - nat start) (drop (nat start) bytes) in
           if start \<ge> 0 \<and> stop \<ge> 0 \<and> stop \<le> int (length bytes) \<and> start \<le> stop \<and> valid_utf8 slice
           then EText slice else ESubstring t s e)
      | _ \<Rightarrow> ESubstring t s e)"

text \<open>\<open>get(idx as usize)\<close>: a negative index becomes an offset beyond any length.\<close>

definition get_byte :: "byte list \<Rightarrow> int \<Rightarrow> byte option" where
  "get_byte bs i = (if 0 \<le> i \<and> i < int (length bs) then Some (bs ! nat i) else None)"

definition opt_byte_at :: "expr \<Rightarrow> expr \<Rightarrow> expr" where
  "opt_byte_at t i =
     (case (case (t, i) of
              (EText s, ENumber n) \<Rightarrow> get_byte s n | (EBytes b, ENumber n) \<Rightarrow> get_byte b n | _ \<Rightarrow> None) of
        Some b \<Rightarrow> ENumber (int (code b)) | None \<Rightarrow> EByteAt t i)"

fun optimize_expr :: "expr \<Rightarrow> string \<Rightarrow> field_ranges \<Rightarrow> expr" where
  "optimize_expr (EField base f) input fr = EField (optimize_expr base input fr) f"
| "optimize_expr (ENot e) input fr = opt_not (optimize_expr e input fr)"
| "optimize_expr (ENeg e) input fr = opt_neg (optimize_expr e input fr)"
| "optimize_expr (EBinary op l r) input fr = opt_binary op (optimize_expr l input fr) (optimize_expr r input fr) input fr"
| "optimize_expr (EIf c t e) input fr =
     opt_if (optimize_expr c input fr) (optimize_expr t input fr) (optimize_expr e input fr) input fr"
| "optimize_expr (ECall n args) input fr = ECall n (map (\<lambda>a. optimize_expr a input fr) args)"
| "optimize_expr (EFold coll init acc item body) input fr =
     EFold (optimize_expr coll input fr) (optimize_expr init input fr) acc item (optimize_expr body input fr)"
| "optimize_expr (EQuantifier k coll var pred) input fr =
     EQuantifier k (optimize_expr coll input fr) var (optimize_expr pred input fr)"
| "optimize_expr (EMap coll var body) input fr = EMap (optimize_expr coll input fr) var (optimize_expr body input fr)"
| "optimize_expr (EFilter coll var pred) input fr = EFilter (optimize_expr coll input fr) var (optimize_expr pred input fr)"
| "optimize_expr (EOk e) input fr = EOk (optimize_expr e input fr)"
| "optimize_expr (EErr e) input fr = EErr (optimize_expr e input fr)"
| "optimize_expr (EMatchResult target okv okb errv errb) input fr =
     EMatchResult (optimize_expr target input fr) okv (optimize_expr okb input fr) errv (optimize_expr errb input fr)"
| "optimize_expr (ERecord n flds) input fr = ERecord n (map (\<lambda>(k, e). (k, optimize_expr e input fr)) flds)"
| "optimize_expr (EConcat args) input fr = opt_concat (map (\<lambda>a. optimize_expr a input fr) args)"
| "optimize_expr (EFetch n req) input fr = EFetch n (optimize_expr req input fr)"
| "optimize_expr (EJsonEscape e) input fr = opt_json_escape (optimize_expr e input fr)"
| "optimize_expr (EParseInt e) input fr = opt_parse_int (optimize_expr e input fr)"
| "optimize_expr (EStartsWith h n) input fr =
     opt_text_test EStartsWith starts_with (optimize_expr h input fr) (optimize_expr n input fr)"
| "optimize_expr (EContains h n) input fr =
     opt_text_test EContains windows_contain (optimize_expr h input fr) (optimize_expr n input fr)"
| "optimize_expr (EEndsWith h n) input fr =
     opt_text_test EEndsWith ends_test (optimize_expr h input fr) (optimize_expr n input fr)"
| "optimize_expr (ELength e) input fr = opt_length (optimize_expr e input fr)"
| "optimize_expr (EAbs e) input fr = opt_abs (optimize_expr e input fr)"
| "optimize_expr (ELe32 e) input fr = opt_le 4 ELe32 (optimize_expr e input fr)"
| "optimize_expr (ELe64 e) input fr = opt_le 8 ELe64 (optimize_expr e input fr)"
| "optimize_expr (EArenaScope e) input fr = EArenaScope (optimize_expr e input fr)"
| "optimize_expr (EAbortIf e) input fr = EAbortIf (optimize_expr e input fr)"
| "optimize_expr (EMin l r) input fr = opt_pair EMin min (optimize_expr l input fr) (optimize_expr r input fr)"
| "optimize_expr (EMax l r) input fr = opt_pair EMax max (optimize_expr l input fr) (optimize_expr r input fr)"
| "optimize_expr (ESubstring t s e) input fr =
     opt_substring (optimize_expr t input fr) (optimize_expr s input fr) (optimize_expr e input fr)"
| "optimize_expr (ETryByteAt t i) input fr = ETryByteAt t (optimize_expr i input fr)"
| "optimize_expr (EByteAt t i) input fr = opt_byte_at (optimize_expr t input fr) (optimize_expr i input fr)"
| "optimize_expr (EFoldBytes t init acc byt idx body) input fr =
     EFoldBytes (optimize_expr t input fr) (optimize_expr init input fr) acc byt idx (optimize_expr body input fr)"
| "optimize_expr (EVariantConstruct c v flds) input fr =
     EVariantConstruct c v (map (\<lambda>(k, e). (k, optimize_expr e input fr)) flds)"
| "optimize_expr (EMatchVariant scrut arms) input fr =
     EMatchVariant (optimize_expr scrut input fr)
       (map (\<lambda>a. MatchArm (arm_variant a) (arm_binders a) (optimize_expr (arm_body a) input fr)) arms)"
| "optimize_expr (EBitAnd a b) input fr = EBitAnd (optimize_expr a input fr) (optimize_expr b input fr)"
| "optimize_expr (EBitOr a b) input fr = EBitOr (optimize_expr a input fr) (optimize_expr b input fr)"
| "optimize_expr (EBitXor a b) input fr = EBitXor (optimize_expr a input fr) (optimize_expr b input fr)"
| "optimize_expr (EBitNot e) input fr = EBitNot (optimize_expr e input fr)"
| "optimize_expr (EShl a b) input fr = EShl (optimize_expr a input fr) (optimize_expr b input fr)"
| "optimize_expr (EShr a b) input fr = EShr (optimize_expr a input fr) (optimize_expr b input fr)"
| "optimize_expr e input fr = e"

section \<open>Rules\<close>

definition optimize_rule :: "rule \<Rightarrow> field_ranges \<Rightarrow> rule" where
  "optimize_rule r fr =
     (case inline_text_literal_lets (l_bindings (r_logic r)) (l_value (r_logic r)) of
        (bindings, logic) \<Rightarrow>
          r\<lparr>r_logic := (r_logic r)
             \<lparr>l_bindings := map (\<lambda>(n, e). (n, optimize_expr e (r_input_name r) fr)) bindings,
              l_value := optimize_expr logic (r_input_name r) fr\<rparr>\<rparr>)"

definition concept_field_ranges :: "rule \<Rightarrow> (string \<rightharpoonup> concept) \<Rightarrow> field_ranges" where
  "concept_field_ranges r concepts =
     (case r_input_ty r of
        TNamed name \<Rightarrow>
          (case concepts name of
             None \<Rightarrow> Map.empty
           | Some c \<Rightarrow>
               map_of (rev (concat (map (\<lambda>f.
                 if f_ty f = TNumber
                 then [(f_name f, case f_range f of Some rg \<Rightarrow> rg | None \<Rightarrow> (i64_MIN, i64_MAX))] else [])
                 (c_fields c)))))
      | _ \<Rightarrow> Map.empty)"

section \<open>Rules that are left alone\<close>

text \<open>\<open>any\<close> and \<open>rule_any\<close> of \<open>src/src/bounds.rs\<close>: a predicate on some subexpression.\<close>

function expr_any :: "(expr \<Rightarrow> bool) \<Rightarrow> expr \<Rightarrow> bool" where
  "expr_any P e = (P e \<or> list_ex (expr_any P) (expr_children e))"
  by pat_completeness auto
termination by (relation "measure (\<lambda>(P, e). size e)") (auto simp: size_child)

declare expr_any.simps [simp del]

definition rule_any :: "(expr \<Rightarrow> bool) \<Rightarrow> rule \<Rightarrow> bool" where
  "rule_any P r \<longleftrightarrow> expr_any P (l_value (r_logic r)) \<or> list_ex (\<lambda>(_, e). expr_any P e) (l_bindings (r_logic r))"

fun has_bounds_type :: "vtype \<Rightarrow> bool" where
  "has_bounds_type TBoundsError = True"
| "has_bounds_type (TResult a b) = (has_bounds_type a \<or> has_bounds_type b)"
| "has_bounds_type (TNamed n) = (n = ''BoundsError'')"
| "has_bounds_type (TCollection n) = (n = ''BoundsError'')"
| "has_bounds_type _ = False"

definition returns_bounds :: "rule \<Rightarrow> bool" where
  "returns_bounds r \<longleftrightarrow> has_bounds_type (r_output_ty r) \<or> rule_any (\<lambda>e. case e of ETryByteAt _ _ \<Rightarrow> True | _ \<Rightarrow> False) r"

text \<open>The rules of a bounded-result contract: the closure of \<open>src/src/bounds.rs\<close> takes the same steps as the other two.\<close>

definition result_participating :: "rule list \<Rightarrow> string set" where
  "result_participating rules =
     (let active = set (map r_name (filter returns_bounds rules))
      in if active = {} then active else closure_loop (call_edges rules) active)"

text \<open>The rules of every pipeline and their callees (\<open>src/src/execution/pipeline.rs\<close>); \<open>pending\<close> has its end first.\<close>

fun add_callees :: "string list \<Rightarrow> string set \<Rightarrow> string list \<Rightarrow> string set \<times> string list" where
  "add_callees [] active pending = (active, pending)"
| "add_callees (n # ns) active pending =
     (if n \<in> active then add_callees ns active pending else add_callees ns (insert n active) (n # pending))"

definition callees_of :: "rule list \<Rightarrow> string \<Rightarrow> string list" where
  "callees_of rules n = (case collect_map (map (\<lambda>r. (r_name r, r)) rules) n of None \<Rightarrow> [] | Some r \<Rightarrow> rule_deps r)"

lemma add_callees_result:
  "fst (add_callees ns active pending) = active \<union> set ns
   \<and> (set ns \<subseteq> active \<longrightarrow> snd (add_callees ns active pending) = pending)"
  by (induction ns active pending rule: add_callees.induct) auto

lemma callees_of_universe: "set (callees_of rules n) \<subseteq> edge_names (call_edges rules)"
proof -
  have "r \<in> set rules" if "collect_map (map (\<lambda>r. (r_name r, r)) rules) n = Some r" for r
    using map_of_SomeD [OF that [unfolded collect_map_def]] by auto
  then show ?thesis by (force simp: callees_of_def edge_names_def call_edges_def split: option.splits)
qed

function follow_calls :: "rule list \<Rightarrow> string set \<Rightarrow> string list \<Rightarrow> string set" where
  "follow_calls rules active [] = active"
| "follow_calls rules active (n # pending) =
     (case add_callees (callees_of rules n) active pending of
        (active', pending') \<Rightarrow> follow_calls rules active' pending')"
  by pat_completeness auto
termination
proof (relation "measures [\<lambda>(rules, active, pending). card (edge_names (call_edges rules) - active),
    \<lambda>(rules, active, pending). length pending]", goal_cases)
  case 1
  show ?case by simp
next
  case (2 rules active n pending active' pending')
  then have a: "active' = active \<union> set (callees_of rules n)"
    and p: "set (callees_of rules n) \<subseteq> active \<Longrightarrow> pending' = pending"
    using add_callees_result [of "callees_of rules n" active pending] by (auto simp: prod_eq_iff)
  let ?U = "edge_names (call_edges rules)"
  show ?case
  proof (cases "set (callees_of rules n) \<subseteq> active")
    case True
    with a p show ?thesis by (simp add: Un_absorb2)
  next
    case False
    then have "?U - active' \<subset> ?U - active" using a callees_of_universe [of rules n] by blast
    then have "card (?U - active') < card (?U - active)" by (simp add: finite_edge_names psubset_card_mono)
    then show ?thesis by simp
  qed
qed

definition pipeline_phases :: "program \<Rightarrow> string set" where
  "pipeline_phases p = (\<Union>it \<in> set (p_items p). case it of
     IExecution x \<Rightarrow> (case x_mode x of ExecPipeline _ \<Rightarrow> set (x_phases x) | _ \<Rightarrow> {}) | _ \<Rightarrow> {})"

definition pipeline_participating :: "program \<Rightarrow> string set" where
  "pipeline_participating p =
     (let active = pipeline_phases p in
      if active = {} then active
      else follow_calls (rules_of p) active (rev (sorted_list_of_set active)))"

definition bounded_rules :: "program \<Rightarrow> string set" where
  "bounded_rules p = result_participating (rules_of p) \<union> text_participating (rules_of p)
     \<union> numeric_participating (rules_of p) \<union> pipeline_participating p"

section \<open>Programs\<close>

definition rule_nodes :: "rule \<Rightarrow> nat" where
  "rule_nodes r = sum_list (map (\<lambda>(_, e). count_nodes e) (l_bindings (r_logic r))) + count_nodes (l_value (r_logic r))"

definition program_nodes :: "program \<Rightarrow> nat" where
  "program_nodes p = sum_list (map (\<lambda>it. case it of IRule r \<Rightarrow> rule_nodes r | _ \<Rightarrow> 0) (p_items p))"

record opt_stats =
  nodes_before :: nat
  nodes_after :: nat

definition top_concepts :: "program \<Rightarrow> string \<rightharpoonup> concept" where
  "top_concepts p = collect_map (concat (map (\<lambda>it. case it of IConcept c \<Rightarrow> [(c_name c, c)] | _ \<Rightarrow> []) (p_items p)))"

definition optimize_item :: "program \<Rightarrow> item \<Rightarrow> item" where
  "optimize_item p it =
     (case it of
        IRule r \<Rightarrow>
          if r_name r \<in> bounded_rules p then IRule r
          else IRule (optimize_rule r (concept_field_ranges r (top_concepts p)))
      | _ \<Rightarrow> it)"

definition optimize_program :: "program \<Rightarrow> program \<times> opt_stats" where
  "optimize_program p =
     (let optimized = p\<lparr>p_uses := [], p_items := map (optimize_item p) (p_items p)\<rparr> in
      (optimized, \<lparr>nodes_before = program_nodes p, nodes_after = program_nodes optimized\<rparr>))"

end
