(* ===== verification/Optimizer_Correct.thy ===== *)
theory Optimizer_Correct
  imports Optimizer Fuel
begin

text \<open>
  The optimizer preserves evaluation. The range analysis agrees with the interval arithmetic of the strict checker and bounds
  every value; discarded subexpressions neither fail in arithmetic nor act on the host; each rewriting step refines
  (\<open>refines\<close>: a successful run keeps its result and its host) and so do expressions, inlined bindings and rules.
\<close>

section \<open>Ranges\<close>

lemma checked_eq_Some [simp]: "checked n = Some m \<longleftrightarrow> m = n \<and> in_i64 n"
  by (auto simp: checked_def)

lemma pair_opt_eq_Some [simp]: "pair_opt a b = Some p \<longleftrightarrow> a = Some (fst p) \<and> b = Some (snd p)"
  by (auto simp: pair_opt_def split: option.splits)

lemma four_corners_eq:
  "four_corners (checked a) (checked b) (checked c) (checked d) =
     (if Min {a, b, c, d} < i64_MIN \<or> Max {a, b, c, d} > i64_MAX then None else Some (Min {a, b, c, d}, Max {a, b, c, d}))"
proof (cases "in_i64 a \<and> in_i64 b \<and> in_i64 c \<and> in_i64 d")
  case True
  then have "\<not> (Min {a, b, c, d} < i64_MIN \<or> Max {a, b, c, d} > i64_MAX)"
    by (simp add: Min_less_iff Max_gr_iff in_i64_def not_less)
  moreover have "Min {a, b, c, d} = min (min a b) (min c d)" "Max {a, b, c, d} = max (max a b) (max c d)"
    by (simp_all add: min.assoc max.assoc)
  ultimately show ?thesis using True by (simp only: four_corners_def checked_def if_True prod.case option.case if_False)
next
  case False
  then have "Min {a, b, c, d} < i64_MIN \<or> Max {a, b, c, d} > i64_MAX"
    by (simp only: Min_less_iff Max_gr_iff finite_insert finite.emptyI insert_not_empty not_False_eq_True in_i64_def not_le) auto
  moreover have "four_corners (checked a) (checked b) (checked c) (checked d) = None"
    using False by (auto simp: four_corners_def checked_def)
  ultimately show ?thesis by simp
qed

lemma pair_opt_eq: "lo \<le> hi \<Longrightarrow> pair_opt (checked lo) (checked hi) = (if lo < i64_MIN \<or> hi > i64_MAX then None else Some (lo, hi))"
  by (auto simp: pair_opt_def checked_def in_i64_def)

definition to_option :: "'e + 'a \<Rightarrow> 'a option" where
  "to_option r = (case r of Inl _ \<Rightarrow> None | Inr a \<Rightarrow> Some a)"

lemma to_option_simps [simp]: "to_option (Inl e) = None" "to_option (Inr a) = Some a"
  by (simp_all add: to_option_def)

lemma to_option_eq_Some [simp]: "to_option r = Some a \<longleftrightarrow> r = Inr a"
  by (cases r) simp_all

lemma div_range_eq:
  assumes "a \<le> b" "c \<le> d" "\<not> (c \<le> 0 \<and> 0 \<le> d)"
  shows "four_corners (checked_div a c) (checked_div a d) (checked_div b c) (checked_div b d)
    = to_option (interval_arith OpDiv (a, b) (c, d))"
proof -
  have nz: "c \<noteq> 0" "d \<noteq> 0" using assms by auto
  let ?L = "Min {a sdiv c, a sdiv d, b sdiv c, b sdiv d}" and ?H = "Max {a sdiv c, a sdiv d, b sdiv c, b sdiv d}"
  have corners: "four_corners (checked_div a c) (checked_div a d) (checked_div b c) (checked_div b d)
    = (if ?L < i64_MIN \<or> ?H > i64_MAX then None else Some (?L, ?H))"
    unfolding checked_div_def if_not_P [OF nz(1)] if_not_P [OF nz(2)] by (rule four_corners_eq)
  have arith: "to_option (interval_arith OpDiv (a, b) (c, d)) = (if a = i64_MIN \<and> c \<le> -1 \<and> -1 \<le> d \<or> ?L < i64_MIN \<or> ?H > i64_MAX then None else Some (?L, ?H))"
    using assms(3) by (auto simp: interval_arith_def arith_endpoints_def rbind_def)
  have "?H > i64_MAX" if "a = i64_MIN" "c \<le> -1" "-1 \<le> d"
  proof -
    have "d = -1" using that assms(3) by auto
    then have "a sdiv d = - i64_MIN" using that by (simp add: signed_divide_int_def)
    then have "i64_MAX < a sdiv d" by simp
    then show ?thesis by (subst Max_gr_iff) auto
  qed
  with corners arith show ?thesis by auto
qed

lemma binary_range_eq:
  assumes "fst p \<le> snd p" "fst q \<le> snd q" "op = OpMod \<longrightarrow> valid_ivl p \<and> valid_ivl q"
  shows "binary_range op p q = to_option (interval_arith op p q)"
proof -
  obtain a b c d where pq: "p = (a, b)" "q = (c, d)" by (cases p; cases q)
  have v: "a \<le> b" "c \<le> d" using assms by (auto simp: pq)
  show ?thesis
  proof (cases op)
    case OpDiv
    with v show ?thesis
      by (cases "c \<le> 0 \<and> 0 \<le> d") (simp_all add: binary_range_def pq div_range_eq, simp_all add: interval_arith_def)
  next
    case OpMod
    have "\<not> (max (min a 0) (- (max \<bar>c\<bar> \<bar>d\<bar> - 1)) < i64_MIN \<or> min (max b 0) (max \<bar>c\<bar> \<bar>d\<bar> - 1) > i64_MAX)"
      using assms(3) OpMod by (auto simp: valid_ivl_def in_i64_def pq)
    with OpMod show ?thesis
      by (auto simp: binary_range_def pq interval_arith_def arith_endpoints_def rbind_def Let_def)
  next
    case OpMul
    then show ?thesis
      by (simp add: binary_range_def pq four_corners_eq interval_arith_def arith_endpoints_def rbind_def)
  qed (use v in \<open>simp_all add: binary_range_def pq interval_arith_def arith_endpoints_def rbind_def pair_opt_eq\<close>)
qed

definition within :: "int \<Rightarrow> int \<times> int \<Rightarrow> bool" where
  "within x p \<longleftrightarrow> fst p \<le> x \<and> x \<le> snd p"

definition arith_ops :: "binop set" where
  "arith_ops = {OpAdd, OpSub, OpMul, OpDiv, OpMod}"

lemma binary_range_sound:
  assumes "binary_range op p q = Some r" "within x p" "within y q"
  shows "within (arith_val op x y) r \<and> op \<in> arith_ops"
proof (cases "op = OpMod")
  case True
  obtain a b c d where pq: "p = (a, b)" "q = (c, d)" by (cases p; cases q)
  with True assms show ?thesis using smod_between [of a x b c y d]
    by (auto simp: binary_range_def arith_val_def within_def arith_ops_def Let_def split: if_splits)
next
  case False
  with assms have "interval_arith op p q = Inr r" by (subst (asm) binary_range_eq) (auto simp: within_def)
  with interval_arith_sound [OF this] assms(2,3) arith_endpoints_op [OF interval_arith_shape(1)]
  show ?thesis by (auto simp: within_def arith_ops_def)
qed

text \<open>The field ranges hold in an environment: every numeric field of the input record is in its range.\<close>

definition ranges_hold :: "env \<Rightarrow> string \<Rightarrow> field_ranges \<Rightarrow> bool" where
  "ranges_hold env input fr \<longleftrightarrow>
     (\<forall>fs f p n. env input = Some (VRecord fs) \<longrightarrow> fr f = Some p \<longrightarrow> map_of fs f = Some (VNumber n) \<longrightarrow> within n p)"

lemma ranges_hold_upd [simp]: "x \<noteq> input \<Longrightarrow> ranges_hold (env(x \<mapsto> v)) input fr = ranges_hold env input fr"
  by (simp add: ranges_hold_def)

lemma apply_arith:
  assumes "apply_binop True op l r = Inr v" "op \<in> arith_ops"
  obtains x y where "l = VNumber x" "r = VNumber y" "v = VNumber (arith_val op x y)"
  using assms by (auto simp: arith_ops_def apply_binop_def num_args_eq_Inr panicking_def arith_val_def i64_fit_def
    i64_div_def i64_rem_def split: sum.splits if_splits)

lemma eval_binary_Inr:
  "op \<notin> {OpAnd, OpOr} \<Longrightarrow> eval_expr cx call (EBinary op l r) env w = Inr (v, w') \<longleftrightarrow>
     (\<exists>a b w1. eval_expr cx call l env w = Inr (a, w1) \<and> eval_expr cx call r env w1 = Inr (b, w') \<and>
        apply_binop (i_chk cx) op a b = Inr v)"
  by (auto simp: res_simps)

lemma compute_range_sound:
  assumes "i_chk cx"
  shows "compute_range e fr input = Some p \<Longrightarrow> ranges_hold env input fr \<Longrightarrow> eval_expr cx call e env w = Inr (VNumber n, w') \<Longrightarrow> within n p"
proof (induction e fr input arbitrary: p w w' n rule: compute_range.induct)
  case (2 base f fr input)
  then obtain fs where "base = EIdent input" "env input = Some (VRecord fs)" "map_of fs f = Some (VNumber n)" "fr f = Some p"
    by (auto simp: res_simps split: expr.splits if_splits option.splits val.splits)
  with 2(2) show ?case unfolding ranges_hold_def by blast
next
  case (3 op l r fr input)
  then obtain lr rr where cr: "compute_range l fr input = Some lr" "compute_range r fr input = Some rr" "binary_range op lr rr = Some p"
    by (auto split: option.splits)
  then have op: "op \<in> arith_ops"
    by (cases op) (auto simp: binary_range_def arith_ops_def split: prod.splits)
  with 3(5) assms obtain a b w1 where ev: "eval_expr cx call l env w = Inr (a, w1)" "eval_expr cx call r env w1 = Inr (b, w')"
    "apply_binop True op a b = Inr (VNumber n)"
    by (subst (asm) eval_binary_Inr) (auto simp: arith_ops_def)
  from apply_arith [OF ev(3) op] obtain x y where xy: "a = VNumber x" "b = VNumber y" "n = arith_val op x y" by auto
  from 3(1) [OF cr(1) 3(4)] 3(2) [OF cr(1,2) 3(4)] ev xy have "within x lr" "within y rr" by auto
  with binary_range_sound [OF cr(3)] xy show ?case by simp
next
  case (4 e fr input)
  then obtain mn mx where cr: "compute_range e fr input = Some (mn, mx)" "p = (- mx, - mn)"
    by (auto simp: checked_neg_def prod_eq_iff split: option.splits if_splits)
  from 4(4) assms obtain m where "eval_expr cx call e env w = Inr (VNumber m, w')" "n = - m"
    by (auto simp: res_simps panicking_def i64_fit_def split: sum.splits if_splits)
  with 4(1) [OF cr(1) 4(3)] cr(2) show ?case by (auto simp: within_def)
next
  case (5 c t e fr input)
  then obtain tr er where cr: "compute_range t fr input = Some tr" "compute_range e fr input = Some er"
    "p = (min (fst tr) (fst er), max (snd tr) (snd er))"
    by (auto split: option.splits)
  from 5(5) obtain w1 where "eval_expr cx call t env w1 = Inr (VNumber n, w') \<or> eval_expr cx call e env w1 = Inr (VNumber n, w')"
    by (auto simp: res_simps split: if_splits)
  with 5(1) [OF cr(1) 5(4)] 5(2) [OF cr(1) _ cr(2) 5(4)] have "within n tr \<or> within n er" by (cases tr) auto
  then show ?case unfolding cr(3) within_def by auto
qed (auto simp: res_simps within_def)

section \<open>Discarded expressions\<close>

lemma discard_pure:
  "can_discard_scalar_eval e input fr \<Longrightarrow> eval_expr cx call e env w = Inr (v, w') \<Longrightarrow> w' = w"
proof (induction e input fr arbitrary: w w' v rule: can_discard_scalar_eval.induct)
  case (3 base f input fr)
  then obtain n where "base = EIdent n" by (cases base) auto
  with 3 show ?case by (auto simp: res_simps split: option.splits val.splits)
next
  case (4 op l r input fr)
  from 4(4) obtain a w1 where l: "eval_expr cx call l env w = Inr (a, w1)"
    and r: "w' = w1 \<or> (\<exists>b. eval_expr cx call r env w1 = Inr (b, w'))"
    by (auto simp: res_simps split: if_splits)
  from 4(3) have d: "can_discard_scalar_eval l input fr" "can_discard_scalar_eval r input fr" by simp_all
  from 4(1) [OF d(1) l] 4(2) [OF d(2)] r show ?case by blast
next
  case (7 c t e input fr)
  then obtain a w1 where c: "eval_expr cx call c env w = Inr (a, w1)"
    and b: "eval_expr cx call t env w1 = Inr (v, w') \<or> eval_expr cx call e env w1 = Inr (v, w')"
    by (auto simp: res_simps split: if_splits)
  from 7(4) have d: "can_discard_scalar_eval c input fr" "can_discard_scalar_eval t input fr" "can_discard_scalar_eval e input fr"
    by simp_all
  from 7(1) [OF d(1) c] 7(2) [OF d(2)] 7(3) [OF d(3)] b show ?case by blast
qed (auto simp: res_simps split: option.splits val.splits)

lemma decide_ranges_sound:
  assumes "decide_ranges op p q = Some b" "within x p" "within y q" "apply_binop chk op (VNumber x) (VNumber y) = Inr v"
  shows "v = VBool b"
  using assms by (cases op) (auto simp: decide_ranges_def within_def apply_binop_def num_args_def split: prod.splits if_splits)

lemma try_static_eval_sound:
  assumes "i_chk cx" "ranges_hold env input fr" "try_static_eval c fr input = Some b" "eval_expr cx call c env w = Inr (v, w')"
  shows "v = VBool b \<and> w' = w"
proof -
  obtain op l r lr rr where c: "can_discard_scalar_eval c input fr" "c = EBinary op l r" "compute_range l fr input = Some lr"
    "compute_range r fr input = Some rr" "decide_ranges op lr rr = Some b"
    using assms(3) by (auto simp: try_static_eval_def split: if_splits expr.splits option.splits)
  then have op: "op \<in> {OpGt, OpLt, OpGtEq, OpLtEq}" by (cases op) (auto simp: decide_ranges_def split: prod.splits)
  with assms(4) c(2) obtain p q w1 where ev: "eval_expr cx call l env w = Inr (p, w1)" "eval_expr cx call r env w1 = Inr (q, w')"
    "apply_binop (i_chk cx) op p q = Inr v" using eval_binary_Inr [of op cx call l r env w v w'] by fastforce
  then obtain x y where xy: "p = VNumber x" "q = VNumber y" using op by (auto simp: apply_binop_def num_args_eq_Inr)
  have "within x lr" "within y rr"
    using compute_range_sound [OF assms(1) c(3) assms(2)] compute_range_sound [OF assms(1) c(4) assms(2)] ev xy by blast+
  with decide_ranges_sound [OF c(5)] ev(3) xy discard_pure [OF c(1) assms(4)] show ?thesis by simp
qed

text \<open>A discarded expression fails, if at all, for the type of a value: its arithmetic cannot.\<close>

definition arith_failure :: "rt_error \<Rightarrow> bool" where
  "arith_failure er = (case er of Panic _ \<Rightarrow> True | DivisionByZero \<Rightarrow> True | ModuloByZero \<Rightarrow> True | _ \<Rightarrow> False)"

definition ranges_i64 :: "field_ranges \<Rightarrow> bool" where
  "ranges_i64 fr \<longleftrightarrow> (\<forall>f p. fr f = Some p \<longrightarrow> in_i64 (fst p) \<and> in_i64 (snd p))"

lemma four_corners_i64:
  assumes "four_corners a b c d = Some r" "\<And>m. Some m \<in> {a, b, c, d} \<Longrightarrow> in_i64 m"
  shows "in_i64 (fst r) \<and> in_i64 (snd r)"
proof -
  from assms(1) obtain m n k l where "a = Some m" "b = Some n" "c = Some k" "d = Some l" "r = (min (min m n) (min k l), max (max m n) (max k l))"
    by (auto simp: four_corners_def split: option.splits)
  with assms(2) [of m] assms(2) [of n] assms(2) [of k] assms(2) [of l] show ?thesis by simp
qed

lemma checked_i64: "Some m = checked n \<Longrightarrow> in_i64 m" "Some m = checked_div a b \<Longrightarrow> in_i64 m"
  by (auto simp: checked_def checked_div_def split: if_splits)

lemma binary_range_i64:
  assumes "binary_range op p q = Some r" "in_i64 (fst p)" "in_i64 (snd p)" "in_i64 (fst q)" "in_i64 (snd q)"
  shows "in_i64 (fst r) \<and> in_i64 (snd r)"
proof -
  obtain a b c d where pq: "p = (a, b)" "q = (c, d)" by (cases p; cases q)
  consider "op = OpMod" | "op = OpAdd \<or> op = OpSub" | "op = OpMul" | "op = OpDiv"
    using assms(1) by (cases op) (auto simp: binary_range_def pq)
  then show ?thesis
  proof cases
    case 1
    with assms(1) have r: "r = (max (min a 0) (- (max \<bar>c\<bar> \<bar>d\<bar> - 1)), min (max b 0) (max \<bar>c\<bar> \<bar>d\<bar> - 1))"
      and z: "\<not> (c \<le> 0 \<and> 0 \<le> d)"
      by (simp_all add: binary_range_def pq Let_def split: if_splits)
    from z have "0 \<le> max \<bar>c\<bar> \<bar>d\<bar> - 1" by (cases "c \<le> 0") auto
    then obtain l where "r = (max (min a 0) (- l), min (max b 0) l)" "0 \<le> l" using r by blast
    with assms(2,3) show ?thesis by (auto simp: pq in_i64_def)
  next
    case 2
    with assms(1) show ?thesis by (auto simp: binary_range_def pq)
  next
    case 3
    then show ?thesis
      using assms(1) four_corners_i64 [of "checked (a * c)" "checked (a * d)" "checked (b * c)" "checked (b * d)" r] checked_i64(1)
      by (auto simp: binary_range_def pq)
  next
    case 4
    then show ?thesis
      using assms(1) four_corners_i64 [of "checked_div a c" "checked_div a d" "checked_div b c" "checked_div b d" r] checked_i64(2)
      by (auto simp: binary_range_def pq split: if_splits)
  qed
qed

lemma compute_range_i64:
  "compute_range e fr input = Some p \<Longrightarrow> lits_i64 e \<Longrightarrow> ranges_i64 fr \<Longrightarrow> in_i64 (fst p) \<and> in_i64 (snd p)"
proof (induction e fr input arbitrary: p rule: compute_range.induct)
  case (3 op l r fr input)
  then obtain lr rr where "compute_range l fr input = Some lr" "compute_range r fr input = Some rr" "binary_range op lr rr = Some p"
    by (auto split: option.splits)
  with 3 binary_range_i64 show ?case by (simp add: lits_simps)
next
  case (5 c t e fr input)
  then obtain tr er where "compute_range t fr input = Some tr" "compute_range e fr input = Some er"
    "p = (min (fst tr) (fst er), max (snd tr) (snd er))"
    by (auto split: option.splits)
  with 5(1) [of tr] 5(2) [of tr "fst tr" "snd tr" er] 5(4,5) show ?case by (simp add: lits_simps)
qed (auto simp: lits_simps ranges_i64_def checked_neg_def in_i64_def split: expr.splits option.splits if_splits)

lemma arith_succeeds:
  assumes "binary_range op p q = Some r" "within x p" "within y q" "in_i64 (fst p)"
  shows "\<exists>v. apply_binop True op (VNumber x) (VNumber y) = Inr v"
proof (cases "op \<in> {OpDiv, OpMod}")
  case True
  obtain a b c d where pq: "p = (a, b)" "q = (c, d)" by (cases p; cases q)
  have y: "y \<noteq> 0" using True assms by (auto simp: binary_range_def within_def pq split: if_splits)
  have "\<not> (x = i64_MIN \<and> y = -1)"
  proof (cases "op = OpDiv")
    case True
    with assms have "interval_arith OpDiv p q = Inr r" by (subst (asm) binary_range_eq) (auto simp: within_def)
    with interval_arith_sound [OF this, of x y] interval_arith_shape(2,3) [OF this] assms(2,3) show ?thesis
      by (auto simp: within_def arith_val_def signed_divide_int_def)
  next
    case False
    with True assms show ?thesis by (auto simp: binary_range_def within_def pq in_i64_def split: if_splits)
  qed
  with y True show ?thesis by (auto simp: apply_binop_def num_args_def i64_div_def i64_rem_def panicking_def)
next
  case False
  with assms have "interval_arith op p q = Inr r" by (subst (asm) binary_range_eq) (auto simp: within_def)
  with interval_arith_sound [OF this, of x y] interval_arith_shape(2,3) [OF this] assms(2,3)
  have "in_i64 (arith_val op x y)" by (auto simp: within_def in_i64_def)
  moreover have "op \<in> {OpAdd, OpSub, OpMul}" using False binary_range_sound [OF assms(1-3)] by (auto simp: arith_ops_def)
  ultimately show ?thesis by (auto simp: apply_binop_def num_args_def arith_val_def i64_fit_def panicking_def)
qed

lemma eval_binary_Inl:
  "op \<notin> {OpAnd, OpOr} \<Longrightarrow> eval_expr cx call (EBinary op l r) env w = Inl er \<Longrightarrow>
     eval_expr cx call l env w = Inl er \<or>
     (\<exists>a w1. eval_expr cx call l env w = Inr (a, w1) \<and> (eval_expr cx call r env w1 = Inl er \<or>
        (\<exists>b w2. eval_expr cx call r env w1 = Inr (b, w2) \<and> apply_binop (i_chk cx) op a b = Inl er)))"
  by (auto simp: ebind_def elift_def split: sum.splits)

lemma num_args_eq_Inl:
  "num_args e f l r = Inl er \<longleftrightarrow>
     (\<exists>x y. l = VNumber x \<and> r = VNumber y \<and> f x y = Inl er) \<or> (er = e \<and> \<not> (\<exists>x y. l = VNumber x \<and> r = VNumber y))"
  by (auto simp: num_args_def split: val.split)

lemma apply_binop_failure:
  "apply_binop chk op a b = Inl er \<Longrightarrow> arith_failure er \<Longrightarrow> op \<in> arith_ops \<and> (\<exists>x y. a = VNumber x \<and> b = VNumber y)"
  by (cases op) (auto simp: apply_binop_def num_args_eq_Inl arith_failure_def arith_ops_def Let_def split: option.splits)

lemma discard_no_arith_failure:
  assumes "i_chk cx"
  shows "can_discard_scalar_eval e input fr \<Longrightarrow> lits_i64 e \<Longrightarrow> ranges_i64 fr \<Longrightarrow> ranges_hold env input fr \<Longrightarrow>
    eval_expr cx call e env w = Inl er \<Longrightarrow> \<not> arith_failure er"
proof (induction e input fr arbitrary: w er rule: can_discard_scalar_eval.induct)
  case (3 base f input fr)
  then obtain n where "base = EIdent n" by (cases base) auto
  with 3 show ?case by (auto simp: ebind_def eret_def ethrow_def arith_failure_def split: option.splits val.splits)
next
  case (4 op l r input fr)
  note prems = 4(3-7)
  have d: "can_discard_scalar_eval l input fr" "can_discard_scalar_eval r input fr" "lits_i64 l" "lits_i64 r"
    using prems(1,2) by (simp_all add: lits_simps)
  note IHl = 4(1) [OF d(1,3) prems(3,4)] and IHr = 4(2) [OF d(2,4) prems(3,4)]
  show ?case
  proof (cases "op \<in> {OpAnd, OpOr}")
    case True
    with prems(5) consider "eval_expr cx call l env w = Inl er" | w1 where "eval_expr cx call r env w1 = Inl er" | "\<not> arith_failure er"
      by (auto simp: ebind_def eret_def ethrow_def arith_failure_def split: sum.splits val.splits if_splits)
    then show ?thesis using IHl IHr by cases auto
  next
    case False
    from eval_binary_Inl [OF False prems(5)] IHl IHr have "\<not> arith_failure er \<or> (\<exists>a w1 b w2. eval_expr cx call l env w = Inr (a, w1)
        \<and> eval_expr cx call r env w1 = Inr (b, w2) \<and> apply_binop (i_chk cx) op a b = Inl er)" by blast
    moreover have "\<not> arith_failure er" if ev: "eval_expr cx call l env w = Inr (a, w1)" "eval_expr cx call r env w1 = Inr (b, w2)"
      and err: "apply_binop (i_chk cx) op a b = Inl er" for a w1 b w2
    proof
      assume "arith_failure er"
      from apply_binop_failure [OF err this] obtain x y where xy: "op \<in> arith_ops" "a = VNumber x" "b = VNumber y" by blast
      from xy(1) prems(1) have "compute_range (EBinary op l r) fr input \<noteq> None" by (auto simp: arith_ops_def)
      then obtain p q rg where cr: "compute_range l fr input = Some p" "compute_range r fr input = Some q" "binary_range op p q = Some rg"
        by (auto split: option.splits)
      have "within x p" "within y q"
        using compute_range_sound [OF assms cr(1) prems(4)] compute_range_sound [OF assms cr(2) prems(4)] ev xy by blast+
      from arith_succeeds [OF cr(3) this] compute_range_i64 [OF cr(1) d(3) prems(3)] err xy assms show False by auto
    qed
    ultimately show ?thesis by blast
  qed
next
  case (5 e input fr)
  note prems = 5(2-6)
  from prems(5) consider "eval_expr cx call e env w = Inl er" | "\<not> arith_failure er"
    | m w1 where "eval_expr cx call e env w = Inr (VNumber m, w1)" "elift (panicking (i64_fit True (- m))) w1 = Inl er"
    using assms by (auto simp: ebind_def ethrow_def arith_failure_def split: sum.splits val.splits)
  then show ?case
  proof cases
    case 1
    with 5(1) prems show ?thesis by (simp add: lits_simps)
  next
    case 3
    from prems(1) obtain mn mx where cr: "compute_range e fr input = Some (mn, mx)" "mn \<noteq> i64_MIN" by (auto simp: checked_neg_def split: option.splits if_splits)
    from compute_range_sound [OF assms cr(1) prems(4) 3(1)] compute_range_i64 [OF cr(1)] prems(2,3) cr(2)
    have "in_i64 (- m)" by (auto simp: within_def in_i64_def lits_simps)
    with 3(2) show ?thesis by (simp add: panicking_def eret_def)
  qed
next
  case (6 e input fr)
  note prems = 6(2-6)
  from prems(5) consider "eval_expr cx call e env w = Inl er" | "\<not> arith_failure er"
    by (auto simp: ebind_def ethrow_def eret_def arith_failure_def split: sum.splits val.splits)
  then show ?case by cases (use 6(1) prems in \<open>auto simp: lits_simps\<close>)
next
  case (7 c t e input fr)
  note prems = 7(4-8)
  from prems(5) consider "eval_expr cx call c env w = Inl er" | w1 where "eval_expr cx call t env w1 = Inl er"
    | w1 where "eval_expr cx call e env w1 = Inl er" | "\<not> arith_failure er"
    by (auto simp: ebind_def ethrow_def arith_failure_def split: sum.splits val.splits if_splits)
  then show ?case by cases (use 7(1-3) prems in \<open>auto simp: lits_simps\<close>)
qed (auto simp: eret_def ethrow_def arith_failure_def split: option.splits)

section \<open>Steps\<close>

lemma refines_trans [trans]: "refines a b \<Longrightarrow> refines b c \<Longrightarrow> refines a c"
  by (auto simp: refines_def)

lemma refinesI: "(\<And>w v w'. m w = Inr (v, w') \<Longrightarrow> m' w = Inr (v, w')) \<Longrightarrow> refines m m'"
  by (auto simp: refines_def)

lemma emapM_map: "emapM f (map g xs) = emapM (\<lambda>x. f (g x)) xs"
  by (induction xs) simp_all

lemma step_not: "refines (eval_expr cx call (ENot e) env) (eval_expr cx call (opt_not e) env)"
proof -
  consider d where "e = ENot d" | "opt_not e = ENot e" by (cases e) (auto simp: opt_not_def)
  then show ?thesis by cases (auto simp: opt_not_def res_simps intro!: refinesI)
qed

lemma neg_fit: "elift (panicking (i64_fit True n)) w = Inr (v, w') \<longleftrightarrow> in_i64 n \<and> v = VNumber n \<and> w' = w"
  by (auto simp: i64_fit_def panicking_def res_simps)

lemma step_neg:
  assumes "i_chk cx"
  shows "refines (eval_expr cx call (ENeg e) env) (eval_expr cx call (opt_neg e) env)"
proof -
  consider d where "e = ENeg d" | n where "e = ENumber n" | "opt_neg e = ENeg e" by (cases e) (auto simp: opt_neg_def)
  then show ?thesis
  proof cases
    case 1
    with assms show ?thesis
      by (auto simp: opt_neg_def ebind_eq_Inr case_number_eq_Inr neg_fit intro!: refinesI)
  next
    case 2
    with assms show ?thesis by (auto simp: opt_neg_def eret_def neg_fit intro!: refinesI)
  qed simp
qed

lemma eval_if_Inr:
  "eval_expr cx call (EIf c t e) env w = Inr r \<longleftrightarrow>
     (\<exists>u w1. eval_expr cx call c env w = Inr (VBool u, w1) \<and>
        eval_expr cx call (if u then t else e) env w1 = Inr r)"
  unfolding if_distrib [where f = "\<lambda>x. eval_expr cx call x env"]
  by (simp only: eval_expr.simps ebind_eq_Inr case_bool_eq_Inr) blast

lemma step_if:
  assumes "i_chk cx" "ranges_hold env input fr"
  shows "refines (eval_expr cx call (EIf c t e) env) (eval_expr cx call (opt_if c t e input fr) env)"
proof (cases "try_static_eval c fr input")
  case (Some b)
  show ?thesis
  proof (rule refinesI)
    fix w v w'
    assume "eval_expr cx call (EIf c t e) env w = Inr (v, w')"
    then obtain u w1 where c: "eval_expr cx call c env w = Inr (VBool u, w1)"
      "eval_expr cx call (if u then t else e) env w1 = Inr (v, w')"
      unfolding eval_if_Inr by blast
    from try_static_eval_sound [OF assms Some c(1)] c(2) Some
    show "eval_expr cx call (opt_if c t e input fr) env w = Inr (v, w')" by (cases b) (simp_all add: opt_if_def)
  qed
qed (simp add: opt_if_def)

definition comparison :: "binop \<Rightarrow> bool" where
  "comparison op \<longleftrightarrow> op \<in> {OpEq, OpNotEq, OpLt, OpLtEq, OpGt, OpGtEq}"

definition both_numbers :: "expr \<Rightarrow> expr \<Rightarrow> bool" where
  "both_numbers l r = (case (l, r) of (ENumber _, ENumber _) \<Rightarrow> True | _ \<Rightarrow> False)"

definition both_texts :: "expr \<Rightarrow> expr \<Rightarrow> bool" where
  "both_texts l r = (case (l, r) of (EText _, EText _) \<Rightarrow> True | _ \<Rightarrow> False)"

lemma fold_literals_sound:
  assumes "i_chk cx" "fold_literals op a b = Some e" "\<not> comparison op" "apply_binop (i_chk cx) op (VNumber a) (VNumber b) = Inr v"
  shows "eval_expr cx call e env w = Inr (v, w)"
  using assms
  by (cases op) (auto simp: fold_literals_def comparison_def apply_binop_def num_args_def panicking_def i64_fit_def i64_div_def
      i64_rem_def checked_div_def checked_rem_def eret_def split: if_splits)

lemma algebraic_sound:
  assumes "i_chk cx" "algebraic op l r input fr = Some e" "eval_expr cx call (EBinary op l r) env w = Inr (v, w')"
  shows "eval_expr cx call e env w = Inr (v, w')"
proof -
  have op: "op \<in> arith_ops" using assms(2) by (cases op) (auto simp: algebraic_def arith_ops_def)
  then obtain a b w1 where ev: "eval_expr cx call l env w = Inr (a, w1)" "eval_expr cx call r env w1 = Inr (b, w')"
    "apply_binop True op a b = Inr v"
    using assms(1,3) by (subst (asm) eval_binary_Inr) (auto simp: arith_ops_def)
  obtain x y where xy: "a = VNumber x" "b = VNumber y" "v = VNumber (arith_val op x y)" by (rule apply_arith [OF ev(3) op])
  have lit: "l = ENumber n \<Longrightarrow> x = n \<and> w1 = w" "r = ENumber n \<Longrightarrow> y = n \<and> w' = w1" for n
    using ev xy by (auto simp: eret_def)
  show ?thesis
  proof (cases "op = OpMul")
    case True
    with assms(2) have "(r = ENumber 0 \<and> can_discard_scalar_eval l input fr \<or> l = ENumber 0 \<and> can_discard_scalar_eval r input fr)
        \<and> e = ENumber 0 \<or> r = ENumber 1 \<and> e = l \<or> l = ENumber 1 \<and> e = r"
      by (simp add: algebraic_def split: if_split_asm)
    then consider "r = ENumber 0" "can_discard_scalar_eval l input fr" "e = ENumber 0"
      | "l = ENumber 0" "can_discard_scalar_eval r input fr" "e = ENumber 0" | "r = ENumber 1" "e = l" | "l = ENumber 1" "e = r"
      by blast
    then show ?thesis
    proof cases
      case 1
      with discard_pure [OF 1(2) ev(1)] lit(2) [OF 1(1)] xy True show ?thesis by (simp add: arith_val_def eret_def)
    next
      case 2
      with discard_pure [OF 2(2) ev(2)] lit(1) [OF 2(1)] xy True show ?thesis by (simp add: arith_val_def eret_def)
    next
      case 3
      with lit(2) [OF 3(1)] ev xy True show ?thesis by (simp add: arith_val_def)
    next
      case 4
      with lit(1) [OF 4(1)] ev xy True show ?thesis by (simp add: arith_val_def)
    qed
  next
    case False
    with assms(2) consider "op = OpAdd" "r = ENumber 0" "e = l" | "op = OpAdd" "l = ENumber 0" "e = r"
      | "op = OpSub" "r = ENumber 0" "e = l" | "op = OpDiv" "r = ENumber 1" "e = l"
      by (cases op) (auto simp: algebraic_def split: if_splits)
    then show ?thesis
    proof cases
      case 1
      with lit(2) [OF 1(2)] ev xy show ?thesis by (simp add: arith_val_def)
    next
      case 2
      with lit(1) [OF 2(2)] ev xy show ?thesis by (simp add: arith_val_def)
    next
      case 3
      with lit(2) [OF 3(2)] ev xy show ?thesis by (simp add: arith_val_def)
    next
      case 4
      with lit(2) [OF 4(2)] ev xy show ?thesis by (simp add: arith_val_def)
    qed
  qed
qed

lemma step_binary:
  assumes "i_chk cx" "\<not> (comparison op \<and> both_numbers l r)"
  shows "refines (eval_expr cx call (EBinary op l r) env) (eval_expr cx call (opt_binary op l r input fr) env)"
proof (rule refinesI)
  fix w v w'
  assume ev: "eval_expr cx call (EBinary op l r) env w = Inr (v, w')"
  show "eval_expr cx call (opt_binary op l r input fr) env w = Inr (v, w')"
  proof (cases "\<exists>a b e. l = ENumber a \<and> r = ENumber b \<and> fold_literals op a b = Some e")
    case True
    then obtain a b e where lit: "l = ENumber a" "r = ENumber b" "fold_literals op a b = Some e" by blast
    with assms(2) have nc: "\<not> comparison op" by (simp add: both_numbers_def)
    from lit(3) have "op \<notin> {OpAnd, OpOr}" by (auto simp: fold_literals_def)
    with ev lit have "apply_binop (i_chk cx) op (VNumber a) (VNumber b) = Inr v" "w' = w" by (auto simp: elift_eq_Inr)
    with fold_literals_sound [OF assms(1) lit(3) nc] lit show ?thesis by (simp add: opt_binary_def)
  next
    case False
    then have "(case (l, r) of (ENumber a, ENumber b) \<Rightarrow> fold_literals op a b | _ \<Rightarrow> None) = None"
      by (auto split: expr.split)
    with ev algebraic_sound [OF assms(1) _ ev] show ?thesis
      by (auto simp: opt_binary_def simp del: eval_expr.simps split: option.split)
  qed
qed

text \<open>Operations on literals: the value is computed as at run time.\<close>

lemma literal_texts_sound:
  "literal_texts es = Some s \<Longrightarrow> emapM (\<lambda>a. eval_expr cx call a env) es w = Inr (vs, w') \<Longrightarrow>
     w' = w \<and> list_all (\<lambda>v. case v of VText _ \<Rightarrow> True | VNumber _ \<Rightarrow> True | _ \<Rightarrow> False) vs
     \<and> rbind (rmapM text_form vs) (\<lambda>ss. Inr (concat ss)) = Inr s"
proof (induction es arbitrary: s vs w)
  case (Cons e es)
  obtain t s' where e: "e = EText t \<or> (\<exists>n. e = ENumber n \<and> t = show_int n)" "literal_texts es = Some s'" "s = t @ s'"
    using Cons.prems(1) by (cases e) auto
  then obtain v where v: "eval_expr cx call e env = eret v" "text_form v = Inr t" "case v of VText _ \<Rightarrow> True | VNumber _ \<Rightarrow> True | _ \<Rightarrow> False"
    by (auto simp: text_form_def)
  with Cons.prems(2) obtain vs' where vs: "vs = v # vs'" "emapM (\<lambda>a. eval_expr cx call a env) es w = Inr (vs', w')"
    by (auto simp: ebind_eq_Inr)
  from Cons.IH [OF e(2) vs(2)] v e(3) vs(1) show ?case by (auto simp: rbind_eq_Inr)
qed simp

lemma step_concat: "refines (eval_expr cx call (EConcat es) env) (eval_expr cx call (opt_concat es) env)"
proof (cases "literal_texts es")
  case (Some s)
  show ?thesis
  proof (rule refinesI)
    fix w v w'
    assume "eval_expr cx call (EConcat es) env w = Inr (v, w')"
    then obtain vs where vs: "emapM (\<lambda>a. eval_expr cx call a env) es w = Inr (vs, w')" "concat_val vs = Inr v"
      by (auto simp: res_simps)
    from literal_texts_sound [OF Some vs(1)] have w: "w' = w"
      and l: "list_all (\<lambda>v. case v of VText _ \<Rightarrow> True | VNumber _ \<Rightarrow> True | _ \<Rightarrow> False) vs"
      and s: "rbind (rmapM text_form vs) (\<lambda>ss. Inr (concat ss)) = Inr s" by blast+
    from l have "\<not> list_ex (\<lambda>v. case v of VBytes _ \<Rightarrow> True | _ \<Rightarrow> False) vs"
      by (induction vs) (auto split: val.splits)
    with vs(2) s have "v = VText s" by (auto simp: concat_val_def rbind_eq_Inr)
    with w Some show "eval_expr cx call (opt_concat es) env w = Inr (v, w')" by (simp add: opt_concat_def eret_def)
  qed
qed (simp add: opt_concat_def)

lemma step_json_escape: "refines (eval_expr cx call (EJsonEscape e) env) (eval_expr cx call (opt_json_escape e) env)"
proof -
  consider s where "e = EText s" | "opt_json_escape e = EJsonEscape e" by (cases e) (auto simp: opt_json_escape_def)
  then show ?thesis by cases (auto simp: opt_json_escape_def json_escape_val_def)
qed

lemma step_parse_int: "refines (eval_expr cx call (EParseInt e) env) (eval_expr cx call (opt_parse_int e) env)"
proof -
  consider s where "e = EText s" | "opt_parse_int e = EParseInt e" by (cases e) (auto simp: opt_parse_int_def)
  then show ?thesis by cases (auto simp: opt_parse_int_def parse_int_val_def split: option.split)
qed

lemma step_length: "refines (eval_expr cx call (ELength e) env) (eval_expr cx call (opt_length e) env)"
proof -
  consider s where "e = EText s" | s where "e = EBytes s" | "opt_length e = ELength e" by (cases e) (auto simp: opt_length_def)
  then show ?thesis by cases (auto simp: opt_length_def length_val_def)
qed

lemma step_abs: "refines (eval_expr cx call (EAbs e) env) (eval_expr cx call (opt_abs e) env)"
proof -
  consider n where "e = ENumber n" | "opt_abs e = EAbs e" by (cases e) (auto simp: opt_abs_def)
  then show ?thesis by cases (auto simp: opt_abs_def)
qed

lemma step_le_gen:
  assumes "\<And>e. eval_expr cx call (mk e) env = ebind (eval_expr cx call e env) (\<lambda>v. elift (le_value k v))"
  shows "refines (eval_expr cx call (mk e) env) (eval_expr cx call (opt_le k mk e) env)"
proof (cases "\<exists>n. e = ENumber n")
  case True
  then obtain n where n: "e = ENumber n" by blast
  show ?thesis unfolding n assms by (simp add: opt_le_def le_value_def)
next
  case False
  then have "opt_le k mk e = mk e" by (simp add: opt_le_def split: expr.split)
  then show ?thesis by simp
qed

lemma step_pair_gen:
  assumes "\<And>l r. eval_expr cx call (mk l r) env = ebind (eval_expr cx call l env) (\<lambda>l. ebind (eval_expr cx call r env)
      (\<lambda>r. elift (num_args RequiresNumber (\<lambda>x y. Inr (VNumber (f x y))) l r)))"
  shows "refines (eval_expr cx call (mk l r) env) (eval_expr cx call (opt_pair mk f l r) env)"
proof (cases "\<exists>m n. l = ENumber m \<and> r = ENumber n")
  case True
  then obtain m n where n: "l = ENumber m" "r = ENumber n" by blast
  show ?thesis unfolding n assms by (simp add: opt_pair_def num_args_def)
next
  case False
  then have "opt_pair mk f l r = mk l r" by (cases l) (auto simp: opt_pair_def split: expr.split)
  then show ?thesis by simp
qed

lemma step_le:
  "refines (eval_expr cx call (ELe32 e) env) (eval_expr cx call (opt_le 4 ELe32 e) env)"
  "refines (eval_expr cx call (ELe64 e) env) (eval_expr cx call (opt_le 8 ELe64 e) env)"
  by (rule step_le_gen, simp)+

lemma step_pair:
  "refines (eval_expr cx call (EMin l r) env) (eval_expr cx call (opt_pair EMin min l r) env)"
  "refines (eval_expr cx call (EMax l r) env) (eval_expr cx call (opt_pair EMax max l r) env)"
  by (rule step_pair_gen, simp)+

lemma step_substring: "refines (eval_expr cx call (ESubstring t s e) env) (eval_expr cx call (opt_substring t s e) env)"
proof (cases "opt_substring t s e = ESubstring t s e")
  case False
  have "(\<exists>bytes start stop. t = EText bytes \<and> s = ENumber start \<and> e = ENumber stop) \<or> opt_substring t s e = ESubstring t s e"
    by (simp add: opt_substring_def split: expr.split)
  with False obtain bytes start stop where l: "t = EText bytes" "s = ENumber start" "e = ENumber stop" by blast
  show ?thesis unfolding l by (auto simp: opt_substring_def substring_val_def num_args_def Let_def)
qed simp

lemma step_byte_at: "refines (eval_expr cx call (EByteAt t i) env) (eval_expr cx call (opt_byte_at t i) env)"
proof (cases "opt_byte_at t i = EByteAt t i")
  case False
  have "(\<exists>bs n. (t = EText bs \<or> t = EBytes bs) \<and> i = ENumber n) \<or> opt_byte_at t i = EByteAt t i"
    by (simp add: opt_byte_at_def split: expr.split)
  with False obtain bs n where l: "t = EText bs \<or> t = EBytes bs" "i = ENumber n" by blast
  then show ?thesis by (auto simp: opt_byte_at_def get_byte_def byte_at_val_def index_bytes_def)
qed simp

lemma step_text_test: "\<not> both_texts h n \<Longrightarrow> opt_text_test mk f h n = mk h n"
  by (auto simp: opt_text_test_def both_texts_def split: expr.split)

section \<open>Expressions\<close>

text \<open>
  What the theorem excludes: a variable inside the expression that rebinds the input's name, and a comparison or text test of
  two constants, which the optimizer replaces by the number 0 or 1. The backends read a condition as a number; for the
  interpreter it is not a truth value.
\<close>

definition binds_name :: "string \<Rightarrow> expr \<Rightarrow> bool" where
  "binds_name n e =
     (case e of
        EQuantifier _ _ x _ \<Rightarrow> x = n
      | EMap _ x _ \<Rightarrow> x = n
      | EFilter _ x _ \<Rightarrow> x = n
      | EFold _ _ a x _ \<Rightarrow> a = n \<or> x = n
      | EFoldBytes _ _ a b i _ \<Rightarrow> a = n \<or> b = n \<or> i = n
      | EMatchResult _ a _ b _ \<Rightarrow> a = n \<or> b = n
      | EMatchVariant _ arms \<Rightarrow> list_ex (\<lambda>a. Some n \<in> set (arm_binders a)) arms
      | _ \<Rightarrow> False)"

definition folds_to_bool :: "string \<Rightarrow> field_ranges \<Rightarrow> expr \<Rightarrow> bool" where
  "folds_to_bool input fr e =
     (case e of
        EBinary op l r \<Rightarrow> comparison op \<and> both_numbers (optimize_expr l input fr) (optimize_expr r input fr)
      | EStartsWith h n \<Rightarrow> both_texts (optimize_expr h input fr) (optimize_expr n input fr)
      | EContains h n \<Rightarrow> both_texts (optimize_expr h input fr) (optimize_expr n input fr)
      | EEndsWith h n \<Rightarrow> both_texts (optimize_expr h input fr) (optimize_expr n input fr)
      | _ \<Rightarrow> False)"

definition plain :: "string \<Rightarrow> field_ranges \<Rightarrow> expr \<Rightarrow> bool" where
  "plain input fr e \<longleftrightarrow> \<not> expr_any (\<lambda>e. binds_name input e \<or> folds_to_bool input fr e) e"

lemma plainD:
  assumes "plain input fr e"
  shows "\<not> binds_name input e" "\<not> folds_to_bool input fr e" "c \<in> set (expr_children e) \<Longrightarrow> plain input fr c"
  using assms unfolding plain_def by (subst (asm) expr_any.simps; auto simp: list_ex_iff)+

lemma bind_payload_keeps:
  "bind_payload fs bs ds env = Inr env' \<Longrightarrow> Some n \<notin> set bs \<Longrightarrow> env' n = env n"
  by (induction fs bs ds env rule: bind_payload.induct) (auto split: option.splits)

lemma ranges_hold_arm:
  assumes "arm_env cs cn vn fs bs env = Inr env'" "Some input \<notin> set bs"
  shows "ranges_hold env' input fr = ranges_hold env input fr"
proof -
  from assms(1) obtain ds where "bind_payload fs bs ds env = Inr env'"
    by (auto simp: arm_env_def split: option.splits if_splits)
  from bind_payload_keeps [OF this assms(2)] show ?thesis by (simp add: ranges_hold_def)
qed

lemma refines_emapM_map:
  "(\<And>x. x \<in> set xs \<Longrightarrow> refines (f x) (f' (g x))) \<Longrightarrow> refines (emapM f xs) (emapM f' (map g xs))"
  unfolding emapM_map by (rule refines_emapM)

lemma find_map_arm:
  "find (\<lambda>a. arm_variant a = vn) (map (\<lambda>a. MatchArm (arm_variant a) (arm_binders a) (h a)) arms)
     = map_option (\<lambda>a. MatchArm (arm_variant a) (arm_binders a) (h a)) (find (\<lambda>a. arm_variant a = vn) arms)"
  by (induction arms) auto

lemma refines_arms:
  assumes "\<And>a env'. a \<in> set arms \<Longrightarrow> arm_env cs cn vn fs (arm_binders a) env = Inr env' \<Longrightarrow>
      refines (f (arm_body a) env') (f' (h (arm_body a)) env')"
  shows "refines (case find (\<lambda>a. arm_variant a = vn) arms of None \<Rightarrow> ethrow er
             | Some a \<Rightarrow> ebind (elift (arm_env cs cn vn fs (arm_binders a) env)) (f (arm_body a)))
      (case find (\<lambda>a. arm_variant a = vn) (map (\<lambda>a. MatchArm (arm_variant a) (arm_binders a) (h (arm_body a))) arms) of None \<Rightarrow> ethrow er
             | Some a \<Rightarrow> ebind (elift (arm_env cs cn vn fs (arm_binders a) env)) (f' (arm_body a)))"
proof (cases "find (\<lambda>a. arm_variant a = vn) arms")
  case (Some a)
  then have "a \<in> set arms" by (auto simp: find_Some_iff)
  with Some assms [of a] show ?thesis
    by (cases "arm_env cs cn vn fs (arm_binders a) env") (auto simp: find_map_arm)
qed (simp add: find_map_arm)

text \<open>Two contexts that differ in their rules only, the rules of the second giving what those of the first give.\<close>

definition context_refines :: "'w ictx \<Rightarrow> (rule \<Rightarrow> val \<Rightarrow> ('w, val) eval) \<Rightarrow> 'w ictx \<Rightarrow> (rule \<Rightarrow> val \<Rightarrow> ('w, val) eval) \<Rightarrow> bool" where
  "context_refines cx call cx' call' \<longleftrightarrow>
     cx' = cx\<lparr>i_rules := i_rules cx'\<rparr> \<and>
     (\<forall>name r. find (\<lambda>r. r_name r = name) (i_rules cx) = Some r \<longrightarrow>
        (\<exists>r'. find (\<lambda>r. r_name r = name) (i_rules cx') = Some r' \<and> (\<forall>v. refines (call r v) (call' r' v))))"

lemma context_refines_refl: "context_refines cx call cx call"
  by (simp add: context_refines_def)

lemma context_refinesD:
  assumes "context_refines cx call cx' call'"
  shows "i_chk cx' = i_chk cx" "i_concepts cx' = i_concepts cx" "draw_entropy cx' = draw_entropy cx" "sample_clock cx' = sample_clock cx"
    "find (\<lambda>r. r_name r = name) (i_rules cx) = Some r \<Longrightarrow>
       \<exists>r'. find (\<lambda>r. r_name r = name) (i_rules cx') = Some r' \<and> (\<forall>v. refines (call r v) (call' r' v))"
proof -
  from assms obtain rs where cx': "cx' = cx\<lparr>i_rules := rs\<rparr>" unfolding context_refines_def by blast
  show "i_chk cx' = i_chk cx" "i_concepts cx' = i_concepts cx" by (simp_all add: cx')
  show "draw_entropy cx' = draw_entropy cx" "sample_clock cx' = sample_clock cx"
    unfolding cx' by (rule ext, simp add: draw_entropy_def sample_clock_def split: option.split)+
qed (use assms in \<open>simp add: context_refines_def\<close>)

lemma refines_fields_map:
  "(\<And>n e. (n, e) \<in> set fs \<Longrightarrow> refines (g e) (g' (h e))) \<Longrightarrow>
     refines (emapM (\<lambda>(n, e). ebind (g e) (\<lambda>v. eret (n, v))) fs)
       (emapM (\<lambda>(n, e). ebind (g' e) (\<lambda>v. eret (n, v))) (map (\<lambda>(k, e). (k, h e)) fs))"
  by (rule refines_emapM_map) (auto intro!: refines_ebind)

lemma optimize_expr_refines:
  assumes chk: "i_chk cx" and ctx: "context_refines cx call cx' call'"
  shows "plain input fr e \<Longrightarrow> ranges_hold env input fr \<Longrightarrow>
    refines (eval_expr cx call e env) (eval_expr cx' call' (optimize_expr e input fr) env)"
proof (induction "size e" arbitrary: e env rule: less_induct)
  case less
  have IH: "\<forall>c \<in> set (expr_children e). \<forall>env. ranges_hold env input fr \<longrightarrow>
      refines (eval_expr cx call c env) (eval_expr cx' call' (optimize_expr c input fr) env)"
    using less.hyps [OF size_child] plainD(3) [OF less.prems(1)] by blast
  note ctxs = context_refinesD [OF ctx]
  have chk': "i_chk cx'" using chk ctxs by simp
  note facts = IH plainD(1,2) [OF less.prems(1)] less.prems(2) ctxs(1-4)
  note unf = expr_children_def binds_name_def folds_to_bool_def list_ex_iff
  show ?case
  proof (cases e)
    case (EBinary op l r)
    then have "refines (eval_expr cx call e env)
        (eval_expr cx' call' (EBinary op (optimize_expr l input fr) (optimize_expr r input fr)) env)"
      using facts by (auto simp: unf intro!: refines_intros split: val.split)
    also have "refines \<dots> (eval_expr cx' call' (optimize_expr e input fr) env)"
      unfolding EBinary optimize_expr.simps using facts EBinary chk' by (intro step_binary) (auto simp: unf)
    finally show ?thesis .
  next
    case (EIf c t f)
    then have "refines (eval_expr cx call e env)
        (eval_expr cx' call' (EIf (optimize_expr c input fr) (optimize_expr t input fr) (optimize_expr f input fr)) env)"
      using facts by (auto simp: unf intro!: refines_intros split: val.split)
    also have "refines \<dots> (eval_expr cx' call' (optimize_expr e input fr) env)"
      unfolding EIf optimize_expr.simps using less.prems(2) chk' by (intro step_if)
    finally show ?thesis .
  next
    case (ENot a)
    show ?thesis unfolding ENot optimize_expr.simps
      by (rule refines_trans [OF _ step_not]) (use facts ENot in \<open>simp add: unf refines_intros split: val.split\<close>)
  next
    case (ENeg a)
    show ?thesis unfolding ENeg optimize_expr.simps
      by (rule refines_trans [OF _ step_neg [OF chk']]) (use facts ENeg in \<open>simp add: unf refines_intros split: val.split\<close>)
  next
    case (EConcat as)
    show ?thesis unfolding EConcat optimize_expr.simps
      by (rule refines_trans [OF _ step_concat]) (use facts EConcat in \<open>simp add: unf refines_intros refines_emapM_map split: val.split\<close>)
  next
    case (EJsonEscape a)
    show ?thesis unfolding EJsonEscape optimize_expr.simps
      by (rule refines_trans [OF _ step_json_escape]) (use facts EJsonEscape in \<open>simp add: unf refines_intros split: val.split\<close>)
  next
    case (EParseInt a)
    show ?thesis unfolding EParseInt optimize_expr.simps
      by (rule refines_trans [OF _ step_parse_int]) (use facts EParseInt in \<open>simp add: unf refines_intros split: val.split\<close>)
  next
    case (ELength a)
    show ?thesis unfolding ELength optimize_expr.simps
      by (rule refines_trans [OF _ step_length]) (use facts ELength in \<open>simp add: unf refines_intros split: val.split\<close>)
  next
    case (EAbs a)
    show ?thesis unfolding EAbs optimize_expr.simps
      by (rule refines_trans [OF _ step_abs]) (use facts EAbs in \<open>simp add: unf refines_intros split: val.split\<close>)
  next
    case (ELe32 a)
    show ?thesis unfolding ELe32 optimize_expr.simps
      by (rule refines_trans [OF _ step_le(1)]) (use facts ELe32 in \<open>simp add: unf refines_intros split: val.split\<close>)
  next
    case (ELe64 a)
    show ?thesis unfolding ELe64 optimize_expr.simps
      by (rule refines_trans [OF _ step_le(2)]) (use facts ELe64 in \<open>simp add: unf refines_intros split: val.split\<close>)
  next
    case (EMin a b)
    show ?thesis unfolding EMin optimize_expr.simps
      by (rule refines_trans [OF _ step_pair(1)]) (use facts EMin in \<open>simp add: unf refines_intros split: val.split\<close>)
  next
    case (EMax a b)
    show ?thesis unfolding EMax optimize_expr.simps
      by (rule refines_trans [OF _ step_pair(2)]) (use facts EMax in \<open>simp add: unf refines_intros split: val.split\<close>)
  next
    case (ESubstring a b c)
    show ?thesis unfolding ESubstring optimize_expr.simps
      by (rule refines_trans [OF _ step_substring]) (use facts ESubstring in \<open>simp add: unf refines_intros split: val.split\<close>)
  next
    case (EByteAt a b)
    show ?thesis unfolding EByteAt optimize_expr.simps
      by (rule refines_trans [OF _ step_byte_at]) (use facts EByteAt in \<open>simp add: unf refines_intros split: val.split\<close>)
  next
    case (ECall n args)
    show ?thesis
    proof (cases "find (\<lambda>r. r_name r = n) (i_rules cx)")
      case (Some r)
      from ctxs(5) [OF Some] obtain r' where "find (\<lambda>r. r_name r = n) (i_rules cx') = Some r'" "\<And>v. refines (call r v) (call' r' v)"
        by blast
      with Some facts show ?thesis unfolding ECall by (auto simp: unf intro!: refines_intros refines_emapM_map)
    qed (simp add: ECall)
  next
    case (ERecord n flds)
    show ?thesis unfolding ERecord optimize_expr.simps eval_expr.simps
      by (intro refines_ebind refines_fields_map refines_refl) (use facts ERecord in \<open>force simp: unf\<close>)
  next
    case (EVariantConstruct c v flds)
    show ?thesis unfolding EVariantConstruct optimize_expr.simps eval_expr.simps
      by (intro refines_ebind refines_fields_map refines_refl) (use facts EVariantConstruct in \<open>force simp: unf\<close>)
  next
    case (EMatchVariant scrut arms)
    have arms: "refines (eval_expr cx call (arm_body a) env') (eval_expr cx' call' (optimize_expr (arm_body a) input fr) env')"
      if "a \<in> set arms" "arm_env (i_concepts cx) cn vn fs (arm_binders a) env = Inr env'" for a cn vn fs env'
    proof -
      have "Some input \<notin> set (arm_binders a)" using that(1) plainD(1) [OF less.prems(1)] EMatchVariant by (auto simp: unf)
      from ranges_hold_arm [OF that(2) this] IH that(1) less.prems(2) EMatchVariant show ?thesis by (simp add: unf)
    qed
    show ?thesis unfolding EMatchVariant optimize_expr.simps eval_expr.simps ctxs(2)
    proof (rule refines_ebind)
      show "refines (eval_expr cx call scrut env) (eval_expr cx' call' (optimize_expr scrut input fr) env)"
        using IH less.prems(2) EMatchVariant by (simp add: unf)
    qed (simp add: arms
      refines_arms [where f = "eval_expr cx call" and f' = "eval_expr cx' call'" and h = "\<lambda>e. optimize_expr e input fr"] split: val.split)
  qed (use facts in \<open>simp_all add: unf refines_intros refines_emapM_map step_text_test split: val.split\<close>)
qed

section \<open>Substitution of text literals\<close>

text \<open>The first environment has the text that the second expression has in place of the name.\<close>

definition sub_env :: "string \<Rightarrow> string \<Rightarrow> env \<Rightarrow> env \<Rightarrow> bool" where
  "sub_env n t env env' \<longleftrightarrow> env n = Some (VText t) \<and> (\<forall>m. m \<noteq> n \<longrightarrow> env m = env' m)"

lemma sub_env_upd: "sub_env n t env env' \<Longrightarrow> x \<noteq> n \<Longrightarrow> sub_env n t (env(x \<mapsto> v)) (env'(x \<mapsto> v))"
  by (simp add: sub_env_def)

lemma sub_env_same: "sub_env n t env env' \<Longrightarrow> env(n \<mapsto> v) = env'(n \<mapsto> v)"
  by (auto simp: sub_env_def)

lemma sub_env_shadow:
  assumes "sub_env n t env env'"
  shows "x = n \<or> y = n \<Longrightarrow> env(x \<mapsto> u, y \<mapsto> v) = env'(x \<mapsto> u, y \<mapsto> v)"
    "x = n \<or> y = n \<or> z = n \<Longrightarrow> env(x \<mapsto> u, y \<mapsto> v, z \<mapsto> r) = env'(x \<mapsto> u, y \<mapsto> v, z \<mapsto> r)"
  using assms by (auto simp: sub_env_def)

lemma bind_payload_sub:
  "bind_payload fs bs ds env = Inr e \<Longrightarrow> sub_env n t env env' \<Longrightarrow> length bs = length ds \<Longrightarrow>
     \<exists>e'. bind_payload fs bs ds env' = Inr e' \<and> (if Some n \<in> set bs then e' = e else sub_env n t e e')"
proof (induction fs bs ds env arbitrary: env' rule: bind_payload.induct)
  case (1 fs m bs d ds env)
  then obtain v where v: "map_of fs (f_name d) = Some v" by (auto split: option.splits)
  show ?case
  proof (cases "m = n")
    case True
    with sub_env_same [OF 1(3)] 1(2) v show ?thesis by auto
  next
    case False
    from 1(2,4) v have "bind_payload fs bs ds (env(m \<mapsto> v)) = Inr e" "length bs = length ds" by simp_all
    from 1(1) [OF v this(1) sub_env_upd [OF 1(3) False] this(2)]
    obtain e' where "bind_payload fs bs ds (env'(m \<mapsto> v)) = Inr e'" "if Some n \<in> set bs then e' = e else sub_env n t e e'"
      by blast
    with v False show ?thesis by (intro exI [of _ e']) simp
  qed
qed auto

lemma arm_env_sub:
  assumes "arm_env cs cn vn fs bs env = Inr e" "sub_env n t env env'"
  shows "\<exists>e'. arm_env cs cn vn fs bs env' = Inr e' \<and> (if Some n \<in> set bs then e' = e else sub_env n t e e')"
proof -
  from assms(1) obtain c v where "find (\<lambda>c. c_name c = cn) cs = Some c" "find (\<lambda>v. va_name v = vn) (c_variants c) = Some v"
    "length bs = length (va_fields v)" "bind_payload fs bs (va_fields v) env = Inr e"
    by (auto simp: arm_env_def split: option.splits if_splits)
  with bind_payload_sub [OF this(4) assms(2)] show ?thesis by (simp add: arm_env_def)
qed

lemma substitute_ident_refines:
  "sub_env n t env env' \<Longrightarrow>
     refines (eval_expr cx call e env) (eval_expr cx call (substitute_ident e n (EText t)) env')"
proof (induction "size e" arbitrary: e env env' rule: less_induct)
  case less
  have IH: "\<forall>c \<in> set (expr_children e). \<forall>env env'. sub_env n t env env' \<longrightarrow>
      refines (eval_expr cx call c env) (eval_expr cx call (substitute_ident c n (EText t)) env')"
    using less.hyps [OF size_child] by blast
  note facts = IH less.prems
  note unf = expr_children_def sub_env_upd sub_env_shadow [OF less.prems] sub_env_same [OF less.prems]
  show ?case
  proof (cases e)
    case (EIdent m)
    with less.prems show ?thesis by (auto simp: sub_env_def)
  next
    case (ERecord c flds)
    show ?thesis unfolding ERecord substitute_ident.simps eval_expr.simps
      by (intro refines_ebind refines_fields_map refines_refl) (use facts ERecord in \<open>force simp: unf\<close>)
  next
    case (EVariantConstruct c v flds)
    show ?thesis unfolding EVariantConstruct substitute_ident.simps eval_expr.simps
      by (intro refines_ebind refines_fields_map refines_refl) (use facts EVariantConstruct in \<open>force simp: unf\<close>)
  next
    case (ETryByteAt tab i)
    then show ?thesis using facts
      by (cases tab) (auto simp: unf try_byte_at_table_def intro!: refines_intros)
  next
    case (EMatchVariant scrut arms)
    have "refines (ebind (elift (arm_env (i_concepts cx) cn vn fs (arm_binders a) env)) (eval_expr cx call (arm_body a)))
        (ebind (elift (arm_env (i_concepts cx) cn vn fs (arm_binders a) env'))
          (eval_expr cx call (if Some n \<in> set (arm_binders a) then arm_body a else substitute_ident (arm_body a) n (EText t))))"
      if "a \<in> set arms" for a cn vn fs
    proof (cases "arm_env (i_concepts cx) cn vn fs (arm_binders a) env")
      case (Inr e1)
      from arm_env_sub [OF Inr less.prems] IH that EMatchVariant Inr show ?thesis by (auto simp: expr_children_def split: if_split_asm)
    qed simp
    moreover have "find (\<lambda>a. arm_variant a = vn) arms = Some a \<Longrightarrow> a \<in> set arms" for a vn by (auto simp: find_Some_iff)
    ultimately have "refines (case find (\<lambda>a. arm_variant a = vn) arms of None \<Rightarrow> ethrow (NoMatchArm cn vn)
         | Some a \<Rightarrow> ebind (elift (arm_env (i_concepts cx) cn vn fs (arm_binders a) env)) (eval_expr cx call (arm_body a)))
        (case find (\<lambda>a. arm_variant a = vn) (map (\<lambda>a. MatchArm (arm_variant a) (arm_binders a)
            (if Some n \<in> set (arm_binders a) then arm_body a else substitute_ident (arm_body a) n (EText t))) arms) of
           None \<Rightarrow> ethrow (NoMatchArm cn vn)
         | Some a \<Rightarrow> ebind (elift (arm_env (i_concepts cx) cn vn fs (arm_binders a) env')) (eval_expr cx call (arm_body a)))"
      for cn vn fs by (simp add: find_map_arm split: option.split)
    with IH less.prems EMatchVariant show ?thesis
      by (auto simp: expr_children_def intro!: refines_intros split: val.split)
  qed (use facts in \<open>simp_all add: unf refines_intros refines_emapM_map split: val.split option.split\<close>)
qed

end
