(* ===== verification/Optimizer_Program.thy ===== *)
theory Optimizer_Program
  imports Optimizer_Correct
begin

text \<open>
  The optimizer on rules and programs: the inlining of text-literal bindings refines the evaluation of a rule's body, the rules
  that contracts exempt keep their scope, so entry guards are unchanged, and a whole optimized program refines the
  original one. The rewritten expressions are never larger.
\<close>

section \<open>Inlined bindings\<close>

text \<open>Substitutions in force: the original environment has their texts, the new one need not.\<close>

definition subs_env :: "(string \<times> expr) list \<Rightarrow> env \<Rightarrow> env \<Rightarrow> bool" where
  "subs_env subs env env' \<longleftrightarrow>
     distinct (map fst subs) \<and> (\<forall>(n, r) \<in> set subs. \<exists>t. r = EText t \<and> env n = Some (VText t)) \<and>
     (\<forall>m. m \<notin> fst ` set subs \<longrightarrow> env m = env' m)"

lemma subs_env_Nil [simp]: "subs_env [] env env' \<longleftrightarrow> env = env'"
  by (auto simp: subs_env_def)

lemma substitute_all_refines:
  "subs_env subs env env' \<Longrightarrow> refines (eval_expr cx call e env) (eval_expr cx call (substitute_all e subs) env')"
proof (induction subs arbitrary: e env)
  case (Cons s subs)
  obtain n t where s: "s = (n, EText t)" and n: "env n = Some (VText t)"
    using Cons.prems by (cases s) (auto simp: subs_env_def)
  let ?env = "\<lambda>m. if m = n then env' n else env m"
  have "sub_env n t env ?env" using n by (simp add: sub_env_def)
  then have "refines (eval_expr cx call e env) (eval_expr cx call (substitute_ident e n (EText t)) ?env)"
    by (rule substitute_ident_refines)
  also have "subs_env subs ?env env'" using Cons.prems unfolding subs_env_def s by (force simp: image_iff)
  then have "refines (eval_expr cx call (substitute_ident e n (EText t)) ?env) (eval_expr cx call (substitute_all e (s # subs)) env')"
    using Cons.IH by (simp add: substitute_all_def s)
  finally show ?case .
qed (simp add: substitute_all_def)

lemma subs_env_bind:
  "subs_env subs env env' \<Longrightarrow> subs_env (filter (\<lambda>(n, _). n \<noteq> name) subs) (env(name \<mapsto> v)) (env'(name \<mapsto> v))"
  unfolding subs_env_def by (auto simp: distinct_map_filter case_prod_unfold)

lemma subs_env_text:
  "subs_env subs env env' \<Longrightarrow> subs_env (filter (\<lambda>(n, _). n \<noteq> name) subs @ [(name, EText t)]) (env(name \<mapsto> VText t)) env'"
  unfolding subs_env_def by (auto simp: distinct_map_filter case_prod_unfold)

lemma inline_lets_Cons:
  "inline_lets ((name, e) # bs) subs =
     (let e' = substitute_all e subs; subs' = filter (\<lambda>(n, _). n \<noteq> name) subs in
      if \<exists>t. e' = EText t then inline_lets bs (subs' @ [(name, e')])
      else ((name, e') # fst (inline_lets bs subs'), snd (inline_lets bs subs')))"
  by (cases "substitute_all e subs") (simp_all add: Let_def case_prod_unfold)

declare inline_lets.simps(2) [simp del]

lemma inline_lets_refines:
  assumes "subs_env subs env env'" "eval_lets cx call bs env w = Inr (envf, w')"
  shows "\<exists>envf'. eval_lets cx call (fst (inline_lets bs subs)) env' w = Inr (envf', w') \<and>
    subs_env (snd (inline_lets bs subs)) envf envf'"
  using assms
proof (induction bs arbitrary: subs env env' w)
  case (Cons b bs)
  obtain name e where b: "b = (name, e)" by (cases b)
  with Cons.prems(2) obtain v w1 where e: "eval_expr cx call e env w = Inr (v, w1)"
    and rest: "eval_lets cx call bs (env(name \<mapsto> v)) w1 = Inr (envf, w')"
    by (auto simp: ebind_eq_Inr)
  define e' where "e' = substitute_all e subs"
  have e': "eval_expr cx call e' env' w = Inr (v, w1)"
    using refinesD [OF substitute_all_refines [OF Cons.prems(1)] e] by (simp add: e'_def)
  show ?case
  proof (cases "\<exists>t. e' = EText t")
    case True
    then obtain t where t: "e' = EText t" by blast
    with e' have "v = VText t" "w1 = w" by (auto simp: eret_def)
    from Cons.IH [OF subs_env_text [OF Cons.prems(1)] rest [unfolded this]] t show ?thesis
      by (simp add: b inline_lets_Cons Let_def flip: e'_def)
  next
    case False
    from Cons.IH [of "filter (\<lambda>(n, _). n \<noteq> name) subs" "env(name \<mapsto> v)" "env'(name \<mapsto> v)" w1] subs_env_bind [OF Cons.prems(1)]
      rest e' False show ?thesis
      by (auto simp: b inline_lets_Cons Let_def ebind_eq_Inr fun_upd_def simp flip: e'_def)
  qed
qed (auto simp: eret_def)

section \<open>Rules\<close>

text \<open>What \<open>plain\<close> asks of an expression, for the bindings and the value that are left after inlining; no kept binding rebinds the input.\<close>

definition rule_plain :: "rule \<Rightarrow> field_ranges \<Rightarrow> bool" where
  "rule_plain r fr =
     (case inline_text_literal_lets (l_bindings (r_logic r)) (l_value (r_logic r)) of
        (bs, v) \<Rightarrow> list_all (\<lambda>(n, e). n \<noteq> r_input_name r \<and> plain (r_input_name r) fr e) bs \<and> plain (r_input_name r) fr v)"

lemma optimize_rule_sel [simp]:
  "r_name (optimize_rule r fr) = r_name r" "r_input_name (optimize_rule r fr) = r_input_name r"
  "r_input_ty (optimize_rule r fr) = r_input_ty r" "r_output_text_max (optimize_rule r fr) = r_output_text_max r"
  "r_output_ty (optimize_rule r fr) = r_output_ty r" "r_hints (optimize_rule r fr) = r_hints r"
  by (simp_all add: optimize_rule_def split: prod.split)

lemma eval_lets_optimize:
  assumes "i_chk cx" "context_refines cx call cx' call'"
  shows "list_all (\<lambda>(n, e). n \<noteq> input \<and> plain input fr e) bs \<Longrightarrow> ranges_hold env input fr \<Longrightarrow>
    eval_lets cx call bs env w = Inr (envf, w') \<Longrightarrow>
    eval_lets cx' call' (map (\<lambda>(n, e). (n, optimize_expr e input fr)) bs) env w = Inr (envf, w') \<and> ranges_hold envf input fr"
proof (induction bs arbitrary: env w)
  case (Cons b bs)
  obtain n e where b: "b = (n, e)" by (cases b)
  with Cons.prems(3) obtain v w1 where e: "eval_expr cx call e env w = Inr (v, w1)"
    and rest: "eval_lets cx call bs (env(n \<mapsto> v)) w1 = Inr (envf, w')" by (auto simp: ebind_eq_Inr)
  have "eval_expr cx' call' (optimize_expr e input fr) env w = Inr (v, w1)"
    using refinesD [OF optimize_expr_refines [OF assms] e] Cons.prems(1,2) b by auto
  moreover have "eval_lets cx' call' (map (\<lambda>(n, e). (n, optimize_expr e input fr)) bs) (env(n \<mapsto> v)) w1 = Inr (envf, w')
      \<and> ranges_hold envf input fr"
    using Cons.prems(1,2) b by (intro Cons.IH [of "env(n \<mapsto> v)"] rest) (auto simp: ranges_hold_def)
  ultimately show ?case by (auto simp: b ebind_eq_Inr)
qed (auto simp: eret_def)

text \<open>The body of a rule: its bindings, then its value.\<close>

definition eval_body :: "'w ictx \<Rightarrow> (rule \<Rightarrow> val \<Rightarrow> ('w, val) eval) \<Rightarrow> rule \<Rightarrow> env \<Rightarrow> ('w, val) eval" where
  "eval_body cx call r env = ebind (eval_lets cx call (l_bindings (r_logic r)) env) (eval_expr cx call (l_value (r_logic r)))"

lemma optimize_rule_body:
  assumes "i_chk cx" "context_refines cx call cx' call'" "rule_plain r fr" "ranges_hold env (r_input_name r) fr"
  shows "refines (eval_body cx call r env) (eval_body cx' call' (optimize_rule r fr) env)"
proof (rule refinesI)
  fix w v w'
  assume "eval_body cx call r env w = Inr (v, w')"
  then obtain envf w1 where lets: "eval_lets cx call (l_bindings (r_logic r)) env w = Inr (envf, w1)"
    and val: "eval_expr cx call (l_value (r_logic r)) envf w1 = Inr (v, w')"
    by (auto simp: eval_body_def ebind_eq_Inr)
  let ?I = "inline_lets (l_bindings (r_logic r)) []"
  have inl: "inline_text_literal_lets (l_bindings (r_logic r)) (l_value (r_logic r)) = (fst ?I, substitute_all (l_value (r_logic r)) (snd ?I))"
    by (simp add: inline_text_literal_lets_def case_prod_unfold)
  obtain envf' where lets': "eval_lets cx call (fst ?I) env w = Inr (envf', w1)" and sub: "subs_env (snd ?I) envf envf'"
    using inline_lets_refines [OF _ lets, of "[]" env] by auto
  have val': "eval_expr cx call (substitute_all (l_value (r_logic r)) (snd ?I)) envf' w1 = Inr (v, w')"
    by (rule refinesD [OF substitute_all_refines [OF sub] val])
  have "eval_lets cx' call' (map (\<lambda>(n, e). (n, optimize_expr e (r_input_name r) fr)) (fst ?I)) env w = Inr (envf', w1)
      \<and> ranges_hold envf' (r_input_name r) fr"
    using assms(3) by (intro eval_lets_optimize [OF assms(1,2)] lets' assms(4)) (simp add: rule_plain_def inl)
  moreover from this have "eval_expr cx' call' (optimize_expr (substitute_all (l_value (r_logic r)) (snd ?I)) (r_input_name r) fr) envf' w1 = Inr (v, w')"
    using assms(3) by (intro refinesD [OF optimize_expr_refines [OF assms(1,2)] val']) (simp_all add: rule_plain_def inl)
  ultimately show "eval_body cx' call' (optimize_rule r fr) env w = Inr (v, w')"
    by (simp add: eval_body_def optimize_rule_def inl ebind_eq_Inr)
qed

lemma eval_rule_body:
  "eval_rule_with_value cx (Suc f) r v = ebind (elift (entry_guard cx r v)) (\<lambda>_.
     ebind (eval_body cx (eval_rule_with_value cx f) r [r_input_name r \<mapsto> v]) (\<lambda>res. elift (check_output r res)))"
  by (simp add: eval_body_def ebind_def fun_eq_iff split: sum.split)

section \<open>Smaller expressions\<close>

text \<open>No more nodes and no new callee: what the rewriting keeps of the syntax.\<close>

definition shrinks :: "expr \<Rightarrow> expr \<Rightarrow> bool" where
  "shrinks e e' \<longleftrightarrow> set (calls e') \<subseteq> set (calls e) \<and> count_nodes e' \<le> count_nodes e"

definition callee :: "expr \<Rightarrow> string option" where
  "callee e = (case e of ECall n _ \<Rightarrow> Some n | _ \<Rightarrow> None)"

definition literal :: "expr \<Rightarrow> bool" where
  "literal e = (case e of ENumber _ \<Rightarrow> True | EText _ \<Rightarrow> True | EBytes _ \<Rightarrow> True | _ \<Rightarrow> False)"

lemma set_calls: "set (calls e) = set_option (callee e) \<union> (\<Union>c \<in> set (expr_children e). set (calls c))"
  by (subst calls.simps) (auto simp: callee_def split: expr.split)

lemma shrinks_refl [simp]: "shrinks e e"
  by (simp add: shrinks_def)

lemma shrinks_trans [trans]: "shrinks a b \<Longrightarrow> shrinks b c \<Longrightarrow> shrinks a c"
  by (auto simp: shrinks_def)

lemma shrinks_child: "c \<in> set (expr_children e) \<Longrightarrow> shrinks e c"
  unfolding shrinks_def
  by (subst set_calls [of e], subst (2) count_nodes.simps) (auto dest!: split_list)

lemma shrinks_literal: "literal e' \<Longrightarrow> shrinks e e'"
proof -
  assume "literal e'"
  then have "expr_children e' = []" "callee e' = None" by (auto simp: literal_def expr_children_def callee_def split: expr.splits)
  then show ?thesis unfolding shrinks_def by (subst set_calls, subst (1 2) count_nodes.simps) simp
qed

lemma shrinks_sum: "list_all2 shrinks es es' \<Longrightarrow>
    (\<Union>c \<in> set es'. set (calls c)) \<subseteq> (\<Union>c \<in> set es. set (calls c)) \<and> sum_list (map count_nodes es') \<le> sum_list (map count_nodes es)"
  by (induction rule: list_all2_induct) (auto simp: shrinks_def)

lemma shrinksI: "list_all2 shrinks (expr_children e) (expr_children e') \<Longrightarrow> callee e' = callee e \<Longrightarrow> shrinks e e'"
  using shrinks_sum [of "expr_children e" "expr_children e'"] unfolding shrinks_def
  by (subst (1 2) set_calls, subst (1 2) count_nodes.simps) auto

lemma shrinks_binary: "shrinks (EBinary op l r) (opt_binary op l r input fr)"
proof -
  have fold: "literal e" if "fold_literals op a b = Some e" for a b e
    using that by (cases op) (auto simp: fold_literals_def literal_def bit_def)
  have alg: "e = l \<or> e = r \<or> literal e" if "algebraic op l r input fr = Some e" for e
    using that by (cases op) (auto simp: algebraic_def literal_def split: if_splits)
  have "opt_binary op l r input fr \<in> {l, r, EBinary op l r} \<or> literal (opt_binary op l r input fr)"
  proof (cases "case (l, r) of (ENumber a, ENumber b) \<Rightarrow> fold_literals op a b | _ \<Rightarrow> None")
    case None
    with alg show ?thesis by (auto simp: opt_binary_def simp del: prod.case split: option.split)
  next
    case (Some e)
    then obtain a b where "fold_literals op a b = Some e" by (cases l) (simp_all split: expr.split_asm)
    with fold Some show ?thesis by (simp add: opt_binary_def)
  qed
  then show ?thesis
    using shrinks_child [of l "EBinary op l r"] shrinks_child [of r "EBinary op l r"] shrinks_literal
    by (auto simp: expr_children_def)
qed

lemma shrinks_if: "shrinks (EIf c t e) (opt_if c t e input fr)"
  using shrinks_child [of t "EIf c t e"] shrinks_child [of e "EIf c t e"]
  by (auto simp: opt_if_def expr_children_def split: option.split)

lemma shrinks_not: "shrinks (ENot e) (opt_not e)"
proof (cases "\<exists>d. e = ENot d")
  case True
  then obtain d where "e = ENot d" by blast
  moreover have "shrinks (ENot (ENot d)) (ENot d)" "shrinks (ENot d) d" by (rule shrinks_child, simp add: expr_children_def)+
  ultimately show ?thesis using shrinks_trans by (simp add: opt_not_def)
qed (simp add: opt_not_def split: expr.split)

lemma shrinks_neg: "shrinks (ENeg e) (opt_neg e)"
proof (cases "\<exists>d. e = ENeg d")
  case True
  then obtain d where "e = ENeg d" by blast
  moreover have "shrinks (ENeg (ENeg d)) (ENeg d)" "shrinks (ENeg d) d" by (rule shrinks_child, simp add: expr_children_def)+
  ultimately show ?thesis using shrinks_trans by (simp add: opt_neg_def)
next
  case False
  then have "literal (opt_neg e) \<or> opt_neg e = ENeg e" by (simp add: opt_neg_def literal_def split: expr.split)
  then show ?thesis using shrinks_literal by auto
qed

lemma literal_or_same:
  "literal (opt_concat es) \<or> opt_concat es = EConcat es" "literal (opt_json_escape e) \<or> opt_json_escape e = EJsonEscape e"
  "literal (opt_parse_int e) \<or> opt_parse_int e = EParseInt e" "literal (opt_length e) \<or> opt_length e = ELength e"
  "literal (opt_abs e) \<or> opt_abs e = EAbs e" "literal (opt_le k mk e) \<or> opt_le k mk e = mk e"
  "literal (opt_pair mk2 f a b) \<or> opt_pair mk2 f a b = mk2 a b" "literal (opt_text_test mk2 g a b) \<or> opt_text_test mk2 g a b = mk2 a b"
  "literal (opt_substring a b c) \<or> opt_substring a b c = ESubstring a b c" "literal (opt_byte_at a b) \<or> opt_byte_at a b = EByteAt a b"
  by (auto simp: opt_concat_def literal_def opt_json_escape_def opt_parse_int_def opt_length_def opt_abs_def opt_le_def opt_pair_def
      opt_text_test_def bit_def opt_substring_def opt_byte_at_def Let_def split: expr.split option.split)

lemma shrinks_steps:
  "shrinks (EConcat es) (opt_concat es)" "shrinks (EJsonEscape e) (opt_json_escape e)" "shrinks (EParseInt e) (opt_parse_int e)"
  "shrinks (ELength e) (opt_length e)" "shrinks (EAbs e) (opt_abs e)" "shrinks (mk e) (opt_le k mk e)"
  "shrinks (mk2 a b) (opt_pair mk2 f a b)" "shrinks (mk2 a b) (opt_text_test mk2 g a b)"
  "shrinks (ESubstring a b c) (opt_substring a b c)" "shrinks (EByteAt a b) (opt_byte_at a b)"
  using literal_or_same shrinks_literal shrinks_refl by metis+

lemma list_all2_self_map: "list_all2 P xs (map f xs) \<longleftrightarrow> (\<forall>x \<in> set xs. P x (f x))"
  by (induction xs) auto

lemma optimize_expr_shrinks: "shrinks e (optimize_expr e input fr)"
proof (induction "size e" arbitrary: e rule: less_induct)
  case less
  have IH: "\<forall>c \<in> set (expr_children e). shrinks c (optimize_expr c input fr)" using less.hyps [OF size_child] by blast
  note unf = expr_children_def callee_def list_all2_self_map list.rel_map comp_def case_prod_unfold
  show ?case
  proof (cases e)
    case (EBinary op a b)
    show ?thesis unfolding EBinary optimize_expr.simps
      by (rule shrinks_trans [OF _ shrinks_binary]) (use IH EBinary in \<open>auto intro!: shrinksI simp: unf\<close>)
  next
    case (EIf a b c)
    show ?thesis unfolding EIf optimize_expr.simps
      by (rule shrinks_trans [OF _ shrinks_if]) (use IH EIf in \<open>auto intro!: shrinksI simp: unf\<close>)
  next
    case (ENot a)
    show ?thesis unfolding ENot optimize_expr.simps
      by (rule shrinks_trans [OF _ shrinks_not]) (use IH ENot in \<open>auto intro!: shrinksI simp: unf\<close>)
  next
    case (ENeg a)
    show ?thesis unfolding ENeg optimize_expr.simps
      by (rule shrinks_trans [OF _ shrinks_neg]) (use IH ENeg in \<open>auto intro!: shrinksI simp: unf\<close>)
  next
    case (EConcat as)
    show ?thesis unfolding EConcat optimize_expr.simps
      by (rule shrinks_trans [OF _ shrinks_steps(1)]) (use IH EConcat in \<open>auto intro!: shrinksI simp: unf\<close>)
  next
    case (EJsonEscape a)
    show ?thesis unfolding EJsonEscape optimize_expr.simps
      by (rule shrinks_trans [OF _ shrinks_steps(2)]) (use IH EJsonEscape in \<open>auto intro!: shrinksI simp: unf\<close>)
  next
    case (EParseInt a)
    show ?thesis unfolding EParseInt optimize_expr.simps
      by (rule shrinks_trans [OF _ shrinks_steps(3)]) (use IH EParseInt in \<open>auto intro!: shrinksI simp: unf\<close>)
  next
    case (ELength a)
    show ?thesis unfolding ELength optimize_expr.simps
      by (rule shrinks_trans [OF _ shrinks_steps(4)]) (use IH ELength in \<open>auto intro!: shrinksI simp: unf\<close>)
  next
    case (EAbs a)
    show ?thesis unfolding EAbs optimize_expr.simps
      by (rule shrinks_trans [OF _ shrinks_steps(5)]) (use IH EAbs in \<open>auto intro!: shrinksI simp: unf\<close>)
  next
    case (ELe32 a)
    show ?thesis unfolding ELe32 optimize_expr.simps
      by (rule shrinks_trans [OF _ shrinks_steps(6)]) (use IH ELe32 in \<open>auto intro!: shrinksI simp: unf\<close>)
  next
    case (ELe64 a)
    show ?thesis unfolding ELe64 optimize_expr.simps
      by (rule shrinks_trans [OF _ shrinks_steps(6)]) (use IH ELe64 in \<open>auto intro!: shrinksI simp: unf\<close>)
  next
    case (EMin a b)
    show ?thesis unfolding EMin optimize_expr.simps
      by (rule shrinks_trans [OF _ shrinks_steps(7)]) (use IH EMin in \<open>auto intro!: shrinksI simp: unf\<close>)
  next
    case (EMax a b)
    show ?thesis unfolding EMax optimize_expr.simps
      by (rule shrinks_trans [OF _ shrinks_steps(7)]) (use IH EMax in \<open>auto intro!: shrinksI simp: unf\<close>)
  next
    case (EStartsWith a b)
    show ?thesis unfolding EStartsWith optimize_expr.simps
      by (rule shrinks_trans [OF _ shrinks_steps(8)]) (use IH EStartsWith in \<open>auto intro!: shrinksI simp: unf\<close>)
  next
    case (EContains a b)
    show ?thesis unfolding EContains optimize_expr.simps
      by (rule shrinks_trans [OF _ shrinks_steps(8)]) (use IH EContains in \<open>auto intro!: shrinksI simp: unf\<close>)
  next
    case (EEndsWith a b)
    show ?thesis unfolding EEndsWith optimize_expr.simps
      by (rule shrinks_trans [OF _ shrinks_steps(8)]) (use IH EEndsWith in \<open>auto intro!: shrinksI simp: unf\<close>)
  next
    case (ESubstring a b c)
    show ?thesis unfolding ESubstring optimize_expr.simps
      by (rule shrinks_trans [OF _ shrinks_steps(9)]) (use IH ESubstring in \<open>auto intro!: shrinksI simp: unf\<close>)
  next
    case (EByteAt a b)
    show ?thesis unfolding EByteAt optimize_expr.simps
      by (rule shrinks_trans [OF _ shrinks_steps(10)]) (use IH EByteAt in \<open>auto intro!: shrinksI simp: unf\<close>)
  qed (use IH in \<open>auto intro!: shrinksI simp: unf list_all2_same\<close>)
qed

lemma substitute_ident_shrinks: "shrinks e (substitute_ident e n (EText t))"
proof (induction "size e" arbitrary: e rule: less_induct)
  case less
  have IH: "\<forall>c \<in> set (expr_children e). shrinks c (substitute_ident c n (EText t))" using less.hyps [OF size_child] by blast
  show ?case
  proof (cases e)
    case (EIdent m)
    then show ?thesis by (simp add: shrinks_literal literal_def)
  qed (use IH in \<open>auto intro!: shrinksI simp: expr_children_def callee_def list_all2_self_map list.rel_map case_prod_unfold list_all2_same\<close>)
qed

definition text_subs :: "(string \<times> expr) list \<Rightarrow> bool" where
  "text_subs subs \<longleftrightarrow> (\<forall>(n, r) \<in> set subs. \<exists>t. r = EText t)"

lemma substitute_all_shrinks: "text_subs subs \<Longrightarrow> shrinks e (substitute_all e subs)"
proof (induction subs arbitrary: e)
  case (Cons s subs)
  then obtain n t where s: "s = (n, EText t)" by (cases s) (auto simp: text_subs_def)
  have "shrinks e (substitute_ident e n (EText t))" by (rule substitute_ident_shrinks)
  also have "shrinks \<dots> (substitute_all e (s # subs))"
    using Cons by (simp add: s substitute_all_def text_subs_def)
  finally show ?case .
qed (simp add: substitute_all_def)

lemma inline_lets_shrinks:
  "text_subs subs \<Longrightarrow>
     (\<Union>(n, e) \<in> set (fst (inline_lets bs subs)). set (calls e)) \<subseteq> (\<Union>(n, e) \<in> set bs. set (calls e))
     \<and> sum_list (map (count_nodes \<circ> snd) (fst (inline_lets bs subs))) \<le> sum_list (map (count_nodes \<circ> snd) bs)
     \<and> text_subs (snd (inline_lets bs subs))"
proof (induction bs arbitrary: subs)
  case (Cons b bs)
  obtain name e where b: "b = (name, e)" by (cases b)
  define e' where "e' = substitute_all e subs"
  define subs' where "subs' = filter (\<lambda>(n, _). n \<noteq> name) subs"
  have e': "shrinks e e'" unfolding e'_def by (rule substitute_all_shrinks [OF Cons.prems])
  have subs': "text_subs subs'" using Cons.prems by (auto simp: text_subs_def subs'_def)
  show ?case
  proof (cases "\<exists>t. e' = EText t")
    case True
    with subs' have "text_subs (subs' @ [(name, e')])" by (auto simp: text_subs_def)
    from Cons.IH [OF this] True show ?thesis by (auto simp: b inline_lets_Cons Let_def simp flip: e'_def subs'_def)
  next
    case False
    with Cons.IH [OF subs'] e' show ?thesis
      by (auto simp: b inline_lets_Cons Let_def shrinks_def simp flip: e'_def subs'_def intro: add_mono)
  qed
qed simp

lemma optimize_rule_shrinks:
  "set (rule_deps (optimize_rule r fr)) \<subseteq> set (rule_deps r) \<and> rule_nodes (optimize_rule r fr) \<le> rule_nodes r"
proof -
  let ?bs = "l_bindings (r_logic r)" and ?v = "l_value (r_logic r)" and ?i = "r_input_name r"
  let ?I = "inline_lets ?bs []" and ?O = "\<lambda>e. optimize_expr e ?i fr"
  have inl: "inline_text_literal_lets ?bs ?v = (fst ?I, substitute_all ?v (snd ?I))"
    by (simp add: inline_text_literal_lets_def case_prod_unfold)
  have I: "(\<Union>(n, e) \<in> set (fst ?I). set (calls e)) \<subseteq> (\<Union>(n, e) \<in> set ?bs. set (calls e))"
    "sum_list (map (count_nodes \<circ> snd) (fst ?I)) \<le> sum_list (map (count_nodes \<circ> snd) ?bs)" "text_subs (snd ?I)"
    using inline_lets_shrinks [of "[]" ?bs] by (auto simp: text_subs_def)
  have v: "shrinks ?v (?O (substitute_all ?v (snd ?I)))"
    by (rule shrinks_trans [OF substitute_all_shrinks [OF I(3)] optimize_expr_shrinks])
  have o: "set (calls (?O e)) \<subseteq> set (calls e)" "count_nodes (?O e) \<le> count_nodes e" for e
    using optimize_expr_shrinks [of e ?i fr] by (simp_all add: shrinks_def)
  have "sum_list (map (\<lambda>(n, e). count_nodes (?O e)) (fst ?I)) \<le> sum_list (map (count_nodes \<circ> snd) (fst ?I))"
    by (rule sum_list_mono2) (auto simp: list_all2_conv_all_nth case_prod_unfold o(2))
  with I(2) v have "rule_nodes (optimize_rule r fr) \<le> rule_nodes r"
    by (simp add: rule_nodes_def optimize_rule_def inl shrinks_def case_prod_unfold comp_def)
  moreover have "set (rule_deps (optimize_rule r fr)) \<subseteq> set (rule_deps r)"
    using I(1) v o(1) by (fastforce simp: rule_deps_def optimize_rule_def inl shrinks_def)
  ultimately show ?thesis by blast
qed

section \<open>The scope of a contract\<close>

text \<open>Rewriting only rules outside the scope, without new callees, leaves the scope as it is.\<close>

definition scope_kept :: "(rule \<Rightarrow> bool) \<Rightarrow> string set \<Rightarrow> rule \<Rightarrow> rule \<Rightarrow> bool" where
  "scope_kept seed A r r' \<longleftrightarrow> r_name r' = r_name r \<and> seed r' = seed r \<and> set (rule_deps r') \<subseteq> set (rule_deps r)
     \<and> (r_name r \<in> A \<longrightarrow> set (rule_deps r') = set (rule_deps r))"

context contract_scope
begin

lemma part_transfer:
  assumes "\<And>r. r \<in> set rules \<Longrightarrow> scope_kept seed (part rules) r (g r)"
  shows "part (map g rules) = part rules"
proof
  note k = assms [unfolded scope_kept_def]
  show le: "part (map g rules) \<subseteq> part rules"
  proof (rule part_least)
    show "r_name r' \<in> part rules" if "r' \<in> set (map g rules)" "seed r'" for r'
      using that k seed_in_part by auto
    have "insert (r_name (g r)) (set (rule_deps (g r))) \<subseteq> part rules"
      if "r \<in> set rules" "r_name (g r) \<in> part rules \<or> (\<exists>d \<in> set (rule_deps (g r)). d \<in> part rules)" for r
      using k [OF that(1)] that callee_in_part [OF that(1)] caller_in_part [OF that(1)] by auto
    then show "closed_under (call_edges (map g rules)) (part rules)"
      by (auto simp: closed_under_def call_edges_def)
  qed
  show "part rules \<subseteq> part (map g rules)"
  proof (rule part_least)
    show "r_name r \<in> part (map g rules)" if "r \<in> set rules" "seed r" for r
      using that k [OF that(1)] seed_in_part [of "g r" "map g rules"] by auto
    have "insert (r_name r) (set (rule_deps r)) \<subseteq> part (map g rules)"
      if r: "r \<in> set rules" and p: "r_name r \<in> part (map g rules) \<or> (\<exists>d \<in> set (rule_deps r). d \<in> part (map g rules))" for r
    proof -
      have "r_name r \<in> part rules" using p le caller_in_part [OF r] by blast
      then have deps: "set (rule_deps (g r)) = set (rule_deps r)" and nm: "r_name (g r) = r_name r" using k [OF r] by blast+
      have g: "g r \<in> set (map g rules)" using r by simp
      have "r_name r \<in> part (map g rules)" using p caller_in_part [OF g] deps nm by auto
      with callee_in_part [OF g] deps nm show ?thesis by auto
    qed
    then show "closed_under (call_edges rules) (part (map g rules))"
      by (auto simp: closed_under_def call_edges_def)
  qed
qed

end

interpretation result_scope: contract_scope returns_bounds result_participating
  by unfold_locales (simp add: result_participating_def)

section \<open>Programs\<close>

text \<open>The rule that \<open>optimize_program\<close> puts in place of a rule.\<close>

definition opt_rule :: "program \<Rightarrow> rule \<Rightarrow> rule" where
  "opt_rule p r = (if r_name r \<in> bounded_rules p then r else optimize_rule r (concept_field_ranges r (top_concepts p)))"

lemma rules_of_optimized: "rules_of (fst (optimize_program p)) = map (opt_rule p) (rules_of p)"
proof -
  have "concat (map (\<lambda>it. case it of IRule r \<Rightarrow> [r] | _ \<Rightarrow> []) (map (optimize_item p) its))
      = map (opt_rule p) (concat (map (\<lambda>it. case it of IRule r \<Rightarrow> [r] | _ \<Rightarrow> []) its))" for its
    by (induction its) (auto simp: optimize_item_def opt_rule_def split: item.split)
  from this [of "p_items p"] show ?thesis by (simp add: optimize_program_def rules_of_def Let_def)
qed

lemma opt_rule_sel [simp]:
  "r_name (opt_rule p r) = r_name r" "r_input_name (opt_rule p r) = r_input_name r" "r_input_ty (opt_rule p r) = r_input_ty r"
  "r_output_text_max (opt_rule p r) = r_output_text_max r" "r_hints (opt_rule p r) = r_hints r"
  by (simp_all add: opt_rule_def)

lemma opt_rule_scope:
  assumes "A \<subseteq> bounded_rules p" "\<And>r fr. seed (optimize_rule r fr) = seed r"
  shows "scope_kept seed A r (opt_rule p r)"
proof (cases "r_name r \<in> bounded_rules p")
  case True
  then show ?thesis by (simp add: scope_kept_def opt_rule_def)
next
  case False
  with assms(1) have "r_name r \<notin> A" by blast
  with False assms(2) optimize_rule_shrinks show ?thesis by (simp add: scope_kept_def opt_rule_def)
qed

lemma scope_optimized:
  "numeric_participating (map (opt_rule p) (rules_of p)) = numeric_participating (rules_of p)"
  "text_participating (map (opt_rule p) (rules_of p)) = text_participating (rules_of p)"
proof -
  have "scope_kept has_contract (numeric_participating (rules_of p)) r (opt_rule p r)"
    "scope_kept (\<lambda>r. r_output_text_max r \<noteq> None) (text_participating (rules_of p)) r (opt_rule p r)" for r
    by (rule opt_rule_scope; auto simp: bounded_rules_def has_contract_def)+
  then show "numeric_participating (map (opt_rule p) (rules_of p)) = numeric_participating (rules_of p)"
    "text_participating (map (opt_rule p) (rules_of p)) = text_participating (rules_of p)"
    by (simp_all only: num_scope.part_transfer text_scope.part_transfer)
qed

lemma entry_guard_optimized:
  assumes "i_rules cx = rules_of p"
  shows "entry_guard (cx\<lparr>i_rules := map (opt_rule p) (rules_of p)\<rparr>) (opt_rule p r) v = entry_guard cx r v"
  by (simp add: entry_guard_def assms scope_optimized Let_def)

text \<open>
  A run in which every rule is called within the ranges that its input concept declares: a call outside of them is
  refused (the error is of no interest). The interpreter does not check the ranges of calls, but the optimizer
  relies on them.
\<close>

definition args_fit :: "field_ranges \<Rightarrow> val \<Rightarrow> bool" where
  "args_fit fr v =
     (case v of
        VRecord fs \<Rightarrow> list_all (\<lambda>(k, x). case x of
          VNumber n \<Rightarrow> (case fr k of Some p \<Rightarrow> within n p | None \<Rightarrow> True) | _ \<Rightarrow> True) fs
      | _ \<Rightarrow> True)"

lemma args_fit_holds: "args_fit fr v \<Longrightarrow> ranges_hold [input \<mapsto> v] input fr"
  by (fastforce simp: args_fit_def ranges_hold_def list_all_iff dest!: map_of_SomeD)

fun eval_in_range :: "program \<Rightarrow> 'w ictx \<Rightarrow> nat \<Rightarrow> rule \<Rightarrow> val \<Rightarrow> ('w, val) eval" where
  "eval_in_range p cx 0 r v = ethrow CallDepth"
| "eval_in_range p cx (Suc f) r v =
     (if \<not> args_fit (concept_field_ranges r (top_concepts p)) v then ethrow CallDepth
      else ebind (elift (entry_guard cx r v)) (\<lambda>_.
        ebind (eval_body cx (eval_in_range p cx f) r [r_input_name r \<mapsto> v]) (\<lambda>res. elift (check_output r res))))"

definition program_plain :: "program \<Rightarrow> bool" where
  "program_plain p \<longleftrightarrow> list_all (\<lambda>r. r_name r \<in> bounded_rules p \<or> rule_plain r (concept_field_ranges r (top_concepts p))) (rules_of p)"

lemma eval_expr_context:
  "context_refines cx call cx' call' \<Longrightarrow> refines (eval_expr cx call e env) (eval_expr cx' call' e env)"
proof (induction "size e" arbitrary: e env rule: less_induct)
  case less
  have IH: "\<forall>c \<in> set (expr_children e). \<forall>env. refines (eval_expr cx call c env) (eval_expr cx' call' c env)"
    using less.hyps [OF size_child] less.prems by blast
  note ctxs = context_refinesD [OF less.prems]
  show ?case
  proof (cases e)
    case (ECall n args)
    show ?thesis
    proof (cases "find (\<lambda>r. r_name r = n) (i_rules cx)")
      case (Some r)
      from ctxs(5) [OF Some] obtain r' where "find (\<lambda>r. r_name r = n) (i_rules cx') = Some r'" "\<And>v. refines (call r v) (call' r' v)"
        by blast
      with Some IH show ?thesis unfolding ECall by (auto simp: expr_children_def intro!: refines_intros)
    qed (simp add: ECall)
  next
    case (EMatchVariant scrut arms)
    have "refines (eval_expr cx call (arm_body a) env') (eval_expr cx' call' (arm_body a) env')" if "a \<in> set arms" for a env'
      using IH that EMatchVariant by (simp add: expr_children_def)
    moreover have "find (\<lambda>a. arm_variant a = vn) arms = Some a \<Longrightarrow> a \<in> set arms" for a vn by (auto simp: find_Some_iff)
    ultimately have "refines (case find (\<lambda>a. arm_variant a = vn) arms of None \<Rightarrow> ethrow (NoMatchArm cn vn)
         | Some a \<Rightarrow> ebind (elift (arm_env (i_concepts cx) cn vn fs (arm_binders a) env)) (eval_expr cx call (arm_body a)))
        (case find (\<lambda>a. arm_variant a = vn) arms of None \<Rightarrow> ethrow (NoMatchArm cn vn)
         | Some a \<Rightarrow> ebind (elift (arm_env (i_concepts cx) cn vn fs (arm_binders a) env)) (eval_expr cx' call' (arm_body a)))"
      for cn vn fs by (auto intro!: refines_ebind split: option.split)
    with IH EMatchVariant show ?thesis unfolding EMatchVariant eval_expr.simps ctxs(2)
      by (auto simp: expr_children_def intro!: refines_ebind split: val.split)
  next
    case (ERecord c flds)
    with IH show ?thesis by (auto simp: expr_children_def intro!: refines_intros)
  next
    case (EVariantConstruct c v flds)
    with IH show ?thesis by (auto simp: expr_children_def intro!: refines_intros)
  qed (use IH ctxs(1-4) in \<open>simp_all add: expr_children_def refines_intros split: val.split\<close>)
qed

lemma eval_body_context:
  assumes "context_refines cx call cx' call'"
  shows "refines (eval_body cx call r env) (eval_body cx' call' r env)"
proof -
  have "refines (eval_lets cx call bs env) (eval_lets cx' call' bs env)" for bs
    by (induction bs arbitrary: env) (auto intro!: refines_intros eval_expr_context [OF assms])
  then show ?thesis unfolding eval_body_def by (intro refines_ebind eval_expr_context [OF assms])
qed

lemma find_opt_rule:
  "find (\<lambda>r. r_name r = n) (map (opt_rule p) rs) = map_option (opt_rule p) (find (\<lambda>r. r_name r = n) rs)"
  by (induction rs) auto

lemma find_in_set: "find P xs = Some x \<Longrightarrow> x \<in> set xs"
  by (auto simp: find_Some_iff)

lemma optimize_program_refines:
  assumes "i_chk cx" "i_rules cx = rules_of p" "program_plain p" "cx' = cx\<lparr>i_rules := map (opt_rule p) (rules_of p)\<rparr>"
  shows "r \<in> set (rules_of p) \<Longrightarrow> refines (eval_in_range p cx f r v) (eval_rule_with_value cx' f (opt_rule p r) v)"
proof (induction f arbitrary: r v)
  case (Suc f)
  let ?fr = "concept_field_ranges r (top_concepts p)"
  have ctx: "context_refines cx (eval_in_range p cx f) cx' (eval_rule_with_value cx' f)"
    using Suc.IH find_in_set by (force simp: context_refines_def assms(2,4) find_opt_rule)
  have body: "refines (eval_body cx (eval_in_range p cx f) r [r_input_name r \<mapsto> v])
      (eval_body cx' (eval_rule_with_value cx' f) (opt_rule p r) [r_input_name r \<mapsto> v])" if "args_fit ?fr v"
  proof (cases "r_name r \<in> bounded_rules p")
    case True
    with eval_body_context [OF ctx] show ?thesis by (simp add: opt_rule_def)
  next
    case False
    with assms(3) Suc.prems have "rule_plain r ?fr" by (auto simp: program_plain_def list_all_iff)
    from optimize_rule_body [OF assms(1) ctx this args_fit_holds [OF that]] False show ?thesis by (simp add: opt_rule_def)
  qed
  have guard: "entry_guard cx' (opt_rule p r) v = entry_guard cx r v"
    unfolding assms(4) by (rule entry_guard_optimized [OF assms(2)])
  have out: "check_output (opt_rule p r) = check_output r" unfolding fun_eq_iff check_output_def opt_rule_sel by simp
  show ?case unfolding eval_rule_body eval_in_range.simps guard out opt_rule_sel
    by (auto intro!: refines_ebind body)
qed simp

text \<open>A run within the ranges is a run of the interpreter.\<close>

lemma eval_in_range_refines: "refines (eval_in_range p cx f r v) (eval_rule_with_value cx f r v)"
proof (induction f arbitrary: r v)
  case (Suc f)
  have "context_refines cx (eval_in_range p cx f) cx (eval_rule_with_value cx f)"
    using Suc by (simp add: context_refines_def)
  from eval_body_context [OF this] show ?case
    unfolding eval_rule_body eval_in_range.simps by (auto intro!: refines_ebind)
qed simp

lemma program_nodes_le: "program_nodes (fst (optimize_program p)) \<le> program_nodes p"
proof -
  have "sum_list (map (\<lambda>it. case it of IRule r \<Rightarrow> rule_nodes r | _ \<Rightarrow> 0) (map (optimize_item p) its))
      \<le> sum_list (map (\<lambda>it. case it of IRule r \<Rightarrow> rule_nodes r | _ \<Rightarrow> 0) its)" for its
  proof (induction its)
    case (Cons it its)
    have "(case optimize_item p it of IRule r \<Rightarrow> rule_nodes r | _ \<Rightarrow> 0) \<le> (case it of IRule r \<Rightarrow> rule_nodes r | _ \<Rightarrow> 0)"
      using optimize_rule_shrinks by (auto simp: optimize_item_def split: item.split)
    with Cons show ?case by simp
  qed simp
  from this [of "p_items p"] show ?thesis by (simp add: program_nodes_def optimize_program_def Let_def)
qed

end
