(* ===== verification/Optimizer_Properties.thy ===== *)
theory Optimizer_Properties
  imports Optimizer_Program Samples
begin

text \<open>
  What the optimizer guarantees: evaluation, ranges, discarded subexpressions, contract scopes and sizes; and the case that its
  ranges do not cover, a local variable with the name of the rule's input.
\<close>

section \<open>Samples\<close>

text \<open>A program without contracts: a text literal to inline, a call, and a branch that the declared ranges decide.\<close>

definition opt_price :: rule where
  "opt_price = (sample_rule ''price'' TNumber [] (EBinary OpAdd (EBinary OpMul x_price (ENumber 1)) (ENumber 0)) None)"

definition opt_label :: rule where
  "opt_label = (sample_rule ''label'' TText [(''sep'', EText '': ''), (''p'', ECall ''price'' [EIdent ''x''])]
     (EIf (EBinary OpGt x_qty (ENumber 200)) (EText ''bulk'')
       (EConcat [EText ''price'', EIdent ''sep'', EIdent ''p'', EText '' of '', EBinary OpMul (ENumber 6) (ENumber 7)])) None)"

definition opt_sample :: program where
  "opt_sample = \<lparr>p_version = \<lparr>major = 0, minor = 1, patch = 0\<rparr>, p_uses = [],
     p_items = [IConcept sample_concept, IRule opt_price, IRule opt_label]\<rparr>"

definition opt_input :: val where
  "opt_input = VRecord [(''price'', VNumber 12), (''qty'', VNumber 3)]"

lemma opt_sample_plain: "program_plain opt_sample"
  by code_simp

lemma opt_sample_run:
  "eval_in_range opt_sample (sample_ctx opt_sample) 2 opt_label opt_input () = Inr (VText ''price: 12 of 42'', ())"
  by code_simp

section \<open>Evaluation\<close>



section \<open>Ranges\<close>



text \<open>
  C25. The two interval analyses of the compiler agree: on intervals of 64-bit numbers the range arithmetic of the optimizer accepts what the
  interval arithmetic of the strict overflow checker accepts, with the same result.
\<close>

theorem range_arithmetic_agrees:
  assumes "valid_ivl p" "valid_ivl q"
  shows "binary_range op p q = (case interval_arith op p q of Inl _ \<Rightarrow> None | Inr r \<Rightarrow> Some r)"
proof -
  have "fst p \<le> snd p" "fst q \<le> snd q" using assms by (simp_all add: valid_ivl_def)
  from binary_range_eq [OF this] assms show ?thesis by (simp add: to_option_def)
qed

theorem range_arithmetic_agrees_witness:
  "binary_range OpDiv (i64_MIN, 10) (-3, -1) = (case interval_arith OpDiv (i64_MIN, 10) (-3, -1) of Inl _ \<Rightarrow> None | Inr r \<Rightarrow> Some r)"
  by (rule range_arithmetic_agrees) (simp_all add: valid_ivl_def in_i64_def)

section \<open>Discarded expressions\<close>

text \<open>
  C26. What the optimizer discards could not have mattered: in a build with overflow checks, an expression that
  \<open>can_discard_scalar_eval\<close> accepts leaves the host as it is, and if it fails then for a name, a field or a type, never
  for an overflow or a division.
\<close>

theorem discarded_is_harmless:
  assumes "i_chk cx" "can_discard_scalar_eval e input fr" "lits_i64 e" "ranges_i64 fr" "ranges_hold env input fr"
  shows "case eval_expr cx call e env w of Inl er \<Rightarrow> \<not> arith_failure er | Inr (v, w') \<Rightarrow> w' = w"
  using discard_no_arith_failure [OF assms(1-5)] discard_pure [OF assms(2)] by (auto split: sum.split)

theorem discarded_is_harmless_witness:
  "case eval_expr (sample_ctx opt_sample) (\<lambda>r v. ethrow CallDepth) (EBinary OpMod x_price (EBinary OpAdd x_qty (ENumber 6)))
     [''x'' \<mapsto> opt_input] () of Inl er \<Rightarrow> \<not> arith_failure er | Inr (v, w') \<Rightarrow> w' = ()"
proof (rule discarded_is_harmless [where fr = "[''price'' \<mapsto> (0, 1000), ''qty'' \<mapsto> (-5, 100)]" and input = "''x''"])
  show "ranges_hold [''x'' \<mapsto> opt_input] ''x'' [''price'' \<mapsto> (0, 1000), ''qty'' \<mapsto> (-5, 100)]"
    by (rule args_fit_holds) code_simp
  show "ranges_i64 [''price'' \<mapsto> (0, 1000), ''qty'' \<mapsto> (-5, 100)]" by (auto simp: ranges_i64_def in_i64_def)
  show "lits_i64 (EBinary OpMod x_price (EBinary OpAdd x_qty (ENumber 6)))" by code_simp
  show "can_discard_scalar_eval (EBinary OpMod x_price (EBinary OpAdd x_qty (ENumber 6))) ''x'' [''price'' \<mapsto> (0, 1000), ''qty'' \<mapsto> (-5, 100)]"
    by code_simp
qed (simp add: sample_ctx_def)

section \<open>Size and scope\<close>

text \<open>
  C27. The optimizer never makes a program larger: the count of nodes after is at most the count before, so the saturating subtraction of the
  report is exact.
\<close>

theorem optimizer_never_grows: "nodes_after (snd (optimize_program p)) \<le> nodes_before (snd (optimize_program p))"
proof -
  have "nodes_after (snd (optimize_program p)) = program_nodes (fst (optimize_program p))"
    "nodes_before (snd (optimize_program p)) = program_nodes p"
    by (simp_all add: optimize_program_def Let_def)
  then show ?thesis by (simp add: program_nodes_le)
qed

text \<open>
  C28. The optimizer keeps the contracts' scopes: the rules under an overflow or bounded text contract are the same before and
  after, although the call graph may have lost edges, and the rules that contracts and pipelines exempt are left as written.
\<close>

theorem optimizer_keeps_scope:
  "numeric_participating (rules_of (fst (optimize_program p))) = numeric_participating (rules_of p) \<and>
   text_participating (rules_of (fst (optimize_program p))) = text_participating (rules_of p) \<and>
   {r \<in> set (rules_of (fst (optimize_program p))). r_name r \<in> bounded_rules p} = {r \<in> set (rules_of p). r_name r \<in> bounded_rules p}"
proof -
  have "opt_rule p r = r" if "r_name r \<in> bounded_rules p" for r using that by (simp add: opt_rule_def)
  then have "{r \<in> opt_rule p ` A. r_name r \<in> bounded_rules p} = {r \<in> A. r_name r \<in> bounded_rules p}" for A by force
  then show ?thesis by (simp add: rules_of_optimized scope_optimized)
qed

section \<open>A shadowed input\<close>

text \<open>
  C29. The ranges of the input are applied to any local of the same name: a binding may shadow the input by a
  record of another concept, and then the optimizer takes the branch that the declared range of the input's field decides, although
  the record that the name denotes takes the other. The result changes from 1 to 2.
\<close>

definition shadow_rule :: rule where
  "shadow_rule = sample_rule ''probe'' TNumber [(''x'', ERecord ''Batch'' [(''qty'', ENumber 500)])]
     (EIf (EBinary OpGt x_qty (ENumber 100)) (ENumber 1) (ENumber 2)) None"

definition shadow_sample :: program where
  "shadow_sample = \<lparr>p_version = \<lparr>major = 0, minor = 1, patch = 0\<rparr>, p_uses = [],
     p_items = [IConcept sample_concept,
       IConcept (sample_concept\<lparr>c_name := ''Batch'', c_fields := [\<lparr>f_name = ''qty'', f_ty = TNumber, f_range = None\<rparr>]\<rparr>),
       IRule shadow_rule]\<rparr>"


end
