(* ===== verification/Spec2Isabelle.thy ===== *)
theory Spec2Isabelle
  imports Native_Opt_Program Domain_Properties Interpreter_Properties Text_Services Source_Properties Optimizer_Properties
begin

text \<open>
  Verification of \<open>verbosec\<close>, the compiler of the language Verbose (\<open>src/src/\<close>).

  \<^bold>\<open>The program.\<close> A source file is read by the lexer (\<open>lexer.rs\<close>) and the parser into the syntax of \<open>ast.rs\<close>: concepts (records
  and variants), rules (one input record, \<open>let\<close> bindings, one result), services, executions. The verifier and its
  contract checkers accept or refuse the program; the interpreter (\<open>interpreter.rs\<close>) runs it; the optimizer
  (\<open>optimizer.rs\<close>) and the numeric lowering (\<open>numeric_bounds/native_opt.rs\<close>) rewrite it for the native and WebAssembly
  emitters. Two contracts are checked statically: a rule may declare bounds of its number
  (\<open>hints.overflow\<close>, \<open>numeric_bounds.rs\<close>) or of the size of its text (\<open>text [..N]\<close>, \<open>text_bounds.rs\<close>), and the contract
  extends to all its callers and callees.

  \<^bold>\<open>Theories and sources.\<close>
  \<^item> \<open>Rust_Prelude\<close>, \<open>Rust_Text\<close>: \<open>i64\<close> with the wrap-around and the panics written out, truncating division, results, state and
    loops; texts as lists of UTF-8 bytes with parsing, printing and search as in the standard library.
  \<^item> \<open>Ast\<close>: every struct and enum of \<open>ast.rs\<close>.
  \<^item> \<open>Lexer\<close>, \<open>Lexer_Properties\<close>: \<open>lexer.rs\<close>; the record \<open>lexer\<close> is \<open>struct Lexer\<close>, one function per loop and token.
  \<^item> \<open>Parser_Core\<close> (the cursor and the loops), \<open>Parser_Expr\<close>, \<open>Parser_Items\<close>, \<open>Parser_Services\<close>, \<open>Parser_Program\<close>: \<open>parser.rs\<close>,
    \<open>parser/execution.rs\<close>, \<open>parser/workload.rs\<close>; one function per parsing function, block and line. \<open>Parser_Tracks\<close>, \<open>Parser_Safe\<close>,
    \<open>Parser_Safe_Items\<close>, \<open>Parser_Properties\<close>: progress, absence of panics, and the front end of \<open>main.rs\<close>.
  \<^item> \<open>Parser_Print\<close>, \<open>Parser_Reads\<close>, \<open>Parser_Calls\<close>, \<open>Parser_Levels\<close>, \<open>Parser_Roundtrip\<close>: a printer of expressions with the fewest
    parentheses, and the parser's run on what it prints. \<open>Parser_Gives\<close>, \<open>Parser_Sound_Expr\<close>, \<open>Parser_Sound_Items\<close>, \<open>Parser_Typed\<close>: a
    partial-correctness logic of the parser's actions, and the well-formedness of every item that is returned.
  \<^item> \<open>Verifier_Names\<close>: the checks of declared names at the head of \<open>verify_program\<close> (\<open>verifier.rs\<close>).
  \<^item> \<open>Source_Properties\<close>: the two contracts from the source file on; what the front end and the name checks accept meets the
    assumptions of the contract checkers.
  \<^item> \<open>Interpreter\<close>, \<open>Fuel\<close>, \<open>Interpreter_Properties\<close>: \<open>eval_expr\<close>, \<open>eval_rule_with_value\<close> with the entry guards of contracts and the
    bound of outputs. The host (clock, entropy) is a parameter whose state the evaluation threads.
  \<^item> \<open>Ranges\<close> (\<open>numeric_bounds/ranges.rs\<close>), \<open>Call_Graph\<close> (the closures of contracts), \<open>Guards\<close> (\<open>guards.rs\<close>), \<open>Cached_Analysis\<close>,
    \<open>Numeric_Bounds\<close>, \<open>Numeric_Soundness\<close>, \<open>Domain_Properties\<close>: the strict overflow checker, its domain of one or two intervals, and
    its soundness.
  \<^item> \<open>Text_Bounds\<close>, \<open>Text_Soundness\<close>, \<open>Text_Services\<close>: the bounded text checker, with service logs and state mutations.
  \<^item> \<open>Native_Opt\<close>, \<open>Native_Opt_Correct\<close>, \<open>Native_Opt_Program\<close>: the numeric lowering.
  \<^item> \<open>Optimizer\<close>, \<open>Optimizer_Correct\<close>, \<open>Optimizer_Program\<close>, \<open>Optimizer_Properties\<close>: \<open>optimizer.rs\<close>, with \<open>compute_range\<close> of \<open>verifier.rs\<close>
    and the exempted rules of \<open>bounds.rs\<close> and \<open>execution/pipeline.rs\<close>.
  \<^item> \<open>Samples\<close>: small programs on which the properties are exhibited.

  \<^bold>\<open>Correspondence.\<close> A struct is a record and an enum a datatype with the source's constructors; a \<open>Result\<close> is a sum with the
  error at the left, and \<open>panic!\<close>, \<open>unwrap\<close>, index and overflow panics are errors of their own (\<open>Panic\<close>, \<open>LiteralPanic\<close>, \<open>IndexPanic\<close>),
  so that their absence is a theorem. Diagnostics are constructors that carry the values of the message. An \<open>i64\<close> is an
  \<open>int\<close> with \<open>in_i64\<close>; the flag \<open>i_chk\<close> tells builds with overflow checks from builds without. \<open>HashMap\<close>s are partial maps, or
  association lists where the order is observable.

  \<^bold>\<open>Loops and bounds.\<close> Loops are recursive functions with a termination proof: the scanner by the rest of the source, the
  closures by the names not yet active. The checkers recurse through calls with the source's own limit (128 nested
  calls) as an argument; the interpreter's call depth is fuel, and C1 to C3 state that every depth from some point on
  gives the result, C11 that no other result is possible. The parser takes fuel for the nesting of expressions and the rounds of its loops, and
  \<open>parse_program\<close> gives it one more than the number of tokens; C31 states that more fuel changes nothing, C30 that it never runs out.

  \<^bold>\<open>Results.\<close> C1--C4 state the soundness of the two contract checkers and the correctness and totality of the lowering; C5--C8 the
  abstract domain and the scope of contracts; C9, C10 the services; C11--C18 the interpreter; C19--C22 the lexer; C23--C29 the
  optimizer; C30--C35 the parser: answers, termination, reading back what is printed, and well-formed results; C36 the declared names;
  C37 and C38 the contracts from the source file on. The locales \<open>contract_scope\<close>, \<open>interval_op\<close> and those of \<open>Cached_Analysis\<close> state what several components share, and are interpreted
  on the model's definitions.

  \<^bold>\<open>Not modelled.\<close> The native and WebAssembly emitters (\<open>native.rs\<close>, \<open>wasm.rs\<close>) write machine code: their meaning needs a model of the
  target. The verifier's checks of types, purity and termination, which come after those of the names, the static cost reports, the JSON reader of the interpreter and
  the drivers of executions are not part of the development so far; \<open>main.rs\<close> is input and output.
\<close>

section \<open>Strict overflow contracts\<close>

text \<open>
  C1. A program accepted by the strict overflow checker keeps its contracts: a rule that declares
  \<open>hints.overflow\<close> evaluates, for every sufficiently large call depth, to a number within the declared bounds on every
  record that meets its entry guard. No panic and no runtime error is possible, in builds with and
  without overflow checks, and the host is not consulted.
\<close>

theorem overflow_contract_sound:
  assumes "numeric_verify p = []" "program_ok p" "runs_program cx p"
    and "r \<in> set (rules_of p)" "overflow_of r = Some h"
    and "c \<in> set (concepts_of p)" "r_input_ty r = TNamed (c_name c)" "input_ok c fs"
  shows "\<exists>n d. o_min h \<le> n \<and> n \<le> o_max h \<and> (\<forall>f \<ge> d. \<forall>w. eval_rule cx f r fs w = Inr (VNumber n, w))"
  using assms by (rule contracted_rule_runs)

theorem overflow_contract_sound_witness:
  "\<exists>n d. -5000 \<le> n \<and> n \<le> 100000 \<and> (\<forall>f \<ge> d. \<forall>w.
     eval_rule (sample_ctx sample_program) f sample_unit [(''price'', VNumber 7), (''qty'', VNumber 3)] w
       = Inr (VNumber n, w))"
  using overflow_contract_sound [OF sample_accepted sample_ok, of "sample_ctx sample_program" sample_unit
      "\<lparr>o_min = -5000, o_max = 100000\<rparr>" sample_concept "[(''price'', VNumber 7), (''qty'', VNumber 3)]"]
  by (simp add: runs_program_def sample_ctx_def sample_program_def rules_of_def concepts_of_def iter_all_concepts_def
      sample_unit_def sample_rule_def overflow_of_def sample_concept_def input_ok_def field_ok_def in_i64_def)

section \<open>Bounded text contracts\<close>

text \<open>
  C2. A program accepted by the bounded text checker keeps its capacities: a rule with output
  \<open>text [..N]\<close> evaluates, for every sufficiently large call depth, to a text of at most \<open>N\<close> bytes on every record that
  meets its entry guard; the output check of the interpreter never fires. The \<open>native\<close> flag is the
  gate of the native backend; without it the claim is for programs without \<open>length\<close> (\<open>text_program_ok\<close>).
\<close>

theorem text_contract_sound:
  assumes "verify_mode p native = []" "text_program_ok p native"
    and "i_rules cx = rules_of p" "i_concepts cx = text_concepts p"
    and "r \<in> set (rules_of p)" "r_output_text_max r = Some mx"
    and "c \<in> set (text_concepts p)" "r_input_ty r = TNamed (c_name c)" "input_ok c fs"
  shows "\<exists>s d. length s \<le> mx \<and> (\<forall>f \<ge> d. \<forall>w. eval_rule cx f r fs w = Inr (VText s, w))"
  using assms by (rule bounded_rule_runs)

theorem text_contract_sound_witness:
  "\<exists>s d. length s \<le> 70 \<and> (\<forall>f \<ge> d. \<forall>w.
     eval_rule (sample_ctx text_sample) f text_sample_rule [(''who'', VText ''Ada''), (''qty'', VNumber 3)] w
       = Inr (VText s, w))"
  using text_contract_sound [OF text_sample_accepted text_sample_ok, of "sample_ctx text_sample" text_sample_rule
      70 text_sample_concept "[(''who'', VText ''Ada''), (''qty'', VNumber 3)]"]
  by (simp add: sample_ctx_def text_sample_def rules_of_def concepts_of_def iter_all_concepts_def text_concepts_def
      http_body_max_def text_sample_rule_def sample_rule_def text_sample_concept_def input_ok_def field_ok_def in_i64_def)

section \<open>Lowering for native code\<close>

text \<open>
  C3. The numeric lowering preserves results: when \<open>lower\<close> returns \<open>p'\<close>, every rule under a contract has
  a rule of the same name in \<open>p'\<close>, and on every record that meets the entry guard the two evaluate, each
  with the rules of its own program and for every sufficiently large call depth, to the same value.
\<close>

theorem lowering_preserves_results:
  assumes "lower p = Inr p'" "program_ok p" "runs_program cx p"
    and "r \<in> set (rules_of p)" "r_name r \<in> active_rules p"
    and "c \<in> set (concepts_of p)" "r_input_ty r = TNamed (c_name c)" "input_ok c fs"
  shows "\<exists>r' v d. find (\<lambda>r. r_name r = r_name r') (rules_of p') = Some r' \<and> r_name r' = r_name r \<and>
    (\<forall>f \<ge> d. \<forall>w. eval_rule cx f r fs w = Inr (v, w)) \<and>
    (\<forall>f \<ge> d. \<forall>w. eval_rule (cx\<lparr>i_rules := rules_of p'\<rparr>) f r' fs w = Inr (v, w))"
proof -
  obtain known where low: "lowered_rules cx (cx\<lparr>i_rules := rules_of p'\<rparr>) (check_new p) (active_rules p) known"
    using assms(1-3) by (rule lowered_rules_program)
  have "numeric_verify p = []" using assms(1) by (rule lower_eq)
  then obtain nv where nv: "rule_sound cx (check_new p) r nv" using numeric_verify_rule [OF _ assms(2-5)] by blast
  note adm = admissibleI [OF assms(2,6,7,8)]
  with nv obtain v where "rule_evals cx r fs v" unfolding rule_sound_def by blast
  then obtain d where d: "\<forall>f \<ge> d. \<forall>w. eval_rule cx f r fs w = Inr (v, w)" by (auto simp: rule_evals_eval_rule)
  have "find (\<lambda>y. r_name y = r_name r) (rules_of p) = Some r"
    by (rule find_distinct) (use assms(2,4) in \<open>auto simp: program_ok_def\<close>)
  then have "nt_rules (check_new p) (r_name r) = Some r"
    using collect_map_find [of r_name "rules_of p"] assms(2) by (simp add: program_ok_def check_new_def)
  from lower_rule_correct [OF low assms(5) this adm, of d] d
  obtain r' where r': "find (\<lambda>x. r_name x = r_name r) (rules_of p') = Some r'" "rule_evals (cx\<lparr>i_rules := rules_of p'\<rparr>) r' fs v"
    by (force simp: eval_rule_def)
  then obtain d' where d': "\<forall>f \<ge> d'. \<forall>w. eval_rule (cx\<lparr>i_rules := rules_of p'\<rparr>) f r' fs w = Inr (v, w)"
    by (auto simp: rule_evals_eval_rule)
  have "r_name r' = r_name r" using find_SomeD [OF r'(1)] by simp
  with r' d d' show ?thesis by (intro exI [of _ r'] exI [of _ v] exI [of _ "max d d'"]) auto
qed

theorem lowering_preserves_results_witness:
  "\<exists>p' r' v d. lower sample_program = Inr p' \<and> r_name r' = ''unit'' \<and>
    (\<forall>f \<ge> d. \<forall>w. eval_rule (sample_ctx sample_program) f sample_unit [(''price'', VNumber 7), (''qty'', VNumber 3)] w = Inr (v, w)) \<and>
    (\<forall>f \<ge> d. \<forall>w. eval_rule ((sample_ctx sample_program)\<lparr>i_rules := rules_of p'\<rparr>) f r' [(''price'', VNumber 7), (''qty'', VNumber 3)] w = Inr (v, w))"
proof -
  obtain p' where p': "lower sample_program = Inr p'" using lower_total [OF sample_ok] sample_accepted by blast
  have "r_name sample_unit \<in> active_rules sample_program"
    by (rule overflow_rule_active [where h = "\<lparr>o_min = -5000, o_max = 100000\<rparr>"])
       (simp_all add: sample_program_def rules_of_def sample_unit_def sample_rule_def overflow_of_def)
  moreover have "runs_program (sample_ctx sample_program) sample_program" by (simp add: runs_program_def sample_ctx_def)
  moreover have "sample_unit \<in> set (rules_of sample_program)" "sample_concept \<in> set (concepts_of sample_program)"
    by (simp_all add: sample_program_def rules_of_def concepts_of_def iter_all_concepts_def)
  moreover have "input_ok sample_concept [(''price'', VNumber 7), (''qty'', VNumber 3)]"
    by (simp add: sample_concept_def input_ok_def field_ok_def in_i64_def)
  moreover have "r_input_ty sample_unit = TNamed (c_name sample_concept)"
    by (simp add: sample_unit_def sample_rule_def sample_concept_def)
  ultimately obtain r' v d where "r_name r' = r_name sample_unit"
    "\<forall>f \<ge> d. \<forall>w. eval_rule (sample_ctx sample_program) f sample_unit [(''price'', VNumber 7), (''qty'', VNumber 3)] w = Inr (v, w)"
    "\<forall>f \<ge> d. \<forall>w. eval_rule ((sample_ctx sample_program)\<lparr>i_rules := rules_of p'\<rparr>) f r' [(''price'', VNumber 7), (''qty'', VNumber 3)] w = Inr (v, w)"
    using lowering_preserves_results [OF p' sample_ok] by blast
  with p' show ?thesis by (auto simp: sample_unit_def sample_rule_def)
qed

text \<open>
  C4. The lowering refuses exactly the programs that the overflow checker refuses: after a successful
  verification its second analysis, its table lookups and its \<open>unreachable!\<close> cannot fail.
\<close>

theorem lowering_total:
  assumes "program_ok p"
  shows "(\<exists>p'. lower p = Inr p') \<longleftrightarrow> numeric_verify p = []"
  using assms by (rule lower_total)

theorem lowering_total_witness: "\<exists>p'. lower sample_program = Inr p'"
  using lowering_total [OF sample_ok] sample_accepted by blast

section \<open>Contract scope\<close>

text \<open>
  C8. The rules under a contract are exactly the least set of names that holds the rules that declare it and is closed under
  callers and callees; the fixpoint loops of both checkers compute it.
\<close>

theorem participating_least:
  "numeric_participating rules = \<Inter> {B. (\<forall>r \<in> set rules. has_contract r \<longrightarrow> r_name r \<in> B) \<and> closed_under (call_edges rules) B}
   \<and> text_participating rules = \<Inter> {B. (\<forall>r \<in> set rules. r_output_text_max r \<noteq> None \<longrightarrow> r_name r \<in> B) \<and> closed_under (call_edges rules) B}"
proof -
  have "numeric_participating rules \<in> {B. (\<forall>r \<in> set rules. has_contract r \<longrightarrow> r_name r \<in> B) \<and> closed_under (call_edges rules) B}"
    using num_scope.seed_in_part num_scope.part_closed by auto
  moreover have "text_participating rules \<in> {B. (\<forall>r \<in> set rules. r_output_text_max r \<noteq> None \<longrightarrow> r_name r \<in> B) \<and> closed_under (call_edges rules) B}"
    using text_scope.seed_in_part text_scope.part_closed by auto
  ultimately show ?thesis
    by (intro conjI antisym Inf_greatest Inf_lower num_scope.part_least text_scope.part_least) auto
qed

theorem participating_least_witness:
  "''base'' \<in> \<Inter> {B. (\<forall>r \<in> set [sample_base, sample_unit]. has_contract r \<longrightarrow> r_name r \<in> B)
     \<and> closed_under (call_edges [sample_base, sample_unit]) B}"
proof -
  have "''base'' \<in> numeric_participating [sample_base, sample_unit]" by code_simp
  with participating_least [of "[sample_base, sample_unit]"] show ?thesis by simp
qed

end
